(* ===== verification/EC_Prelude.thy ===== *)
theory EC_Prelude
  imports Main "HOL-Library.Word" "HOL-Library.Monad_Syntax"
    "HOL-Library.Signed_Division" "HOL-Library.List_Lexorder" "HOL-Library.Char_ord"
begin

text \<open>
  Shared vocabulary of the development: bytes, the C integer operations the sources
  rely on, \<open>std::map\<close> as an association list kept in key order, and xor on byte
  vectors. A value of type \<open>'a option\<close> is the result of code that may abort the
  process: \<open>None\<close> stands for a failed \<open>assert\<close>, an exception nobody catches,
  a division by zero or an access outside an object. Error codes are the negative
  integers of the sources.
\<close>

unbundle bit_operations_syntax

named_theorems map_simps \<open>laws of the ordered map\<close>
named_theorems xor_simps \<open>laws of xor on byte vectors\<close>

type_synonym byte = "8 word"

section \<open>Error codes and C arithmetic\<close>

abbreviation (input) EIO :: int where "EIO \<equiv> 5"
abbreviation (input) ENOENT :: int where "ENOENT \<equiv> 2"
abbreviation (input) EEXIST :: int where "EEXIST \<equiv> 17"
abbreviation (input) EXDEV :: int where "EXDEV \<equiv> 18"
abbreviation (input) EINVAL :: int where "EINVAL \<equiv> 22"
abbreviation (input) ENOSPC :: int where "ENOSPC \<equiv> 28"
abbreviation (input) EBADF :: int where "EBADF \<equiv> 9"
abbreviation (input) MAX_ERRNO :: int where "MAX_ERRNO \<equiv> 4095"

text \<open>Values of the 32-bit \<open>unsigned\<close> type are natural numbers below \<open>2 ^ 32\<close>;
  \<open>u32\<close> is the wrap-around of a sum or product, \<open>u32_sub\<close> that of a difference.\<close>

definition u32 :: "nat \<Rightarrow> nat" where
  "u32 n = n mod 2 ^ 32"

definition u32_sub :: "nat \<Rightarrow> nat \<Rightarrow> nat" where
  "u32_sub a b = (if b \<le> a then a - b else (a + 2 ^ 32) - b)"

lemma u32_small [simp]: "n < 2 ^ 32 \<Longrightarrow> u32 n = n"
  by (simp add: u32_def)

lemma u32_bound: "u32 n < 2 ^ 32"
  by (simp add: u32_def)

lemma u32_sub_le [simp]: "b \<le> a \<Longrightarrow> u32_sub a b = a - b"
  by (simp add: u32_sub_def)

text \<open>An \<open>unsigned\<close> that is assigned to an \<open>int\<close>, and the other way round.\<close>

definition int_of_u32 :: "nat \<Rightarrow> int" where
  "int_of_u32 n = (if n < 2 ^ 31 then int n else int n - 2 ^ 32)"

definition u32_of_int :: "int \<Rightarrow> nat" where
  "u32_of_int i = nat (i mod 2 ^ 32)"

lemma int_of_u32_small [simp]: "n < 2 ^ 31 \<Longrightarrow> int_of_u32 n = int n"
  by (simp add: int_of_u32_def)

lemma u32_of_int_small [simp]: "0 \<le> i \<Longrightarrow> i < 2 ^ 32 \<Longrightarrow> u32_of_int i = nat i"
  by (simp add: u32_of_int_def)

text \<open>Evaluation goes through the integers, which compute in binary.\<close>

lemma u32_code [code]: "u32 n = nat (int n mod 2 ^ 32)"
  by (simp add: u32_def nat_mod_distrib)

lemma u32_sub_code [code]: "u32_sub a b = (if b \<le> a then a - b else nat ((int a + 2 ^ 32) - int b))"
proof -
  have "nat (int x - int b) = x - b" for x by arith
  from this [of "a + 2 ^ 32"] show ?thesis by (simp add: u32_sub_def)
qed

lemma int_of_u32_code [code]: "int_of_u32 n = (if int n < 2 ^ 31 then int n else int n - 2 ^ 32)"
  by (simp add: int_of_u32_def)

text \<open>The division of C truncates; on naturals it is the usual one.\<close>

lemma sdiv_smod_nat [simp]:
  "int a sdiv int b = int (a div b)" "int a smod int b = int (a mod b)"
  by (auto simp: signed_divide_int_def signed_modulo_int_def sgn_if zdiv_int zmod_int
      minus_div_mult_eq_mod [symmetric])

text \<open>\<open>assert\<close>: the rest runs only when the condition holds.\<close>

definition assert_that :: "bool \<Rightarrow> unit option" where
  "assert_that b = (if b then Some () else None)"

lemma assert_that_simps [simp]:
  "assert_that True = Some ()" "assert_that False = None"
  "assert_that b = Some u \<longleftrightarrow> b"
  by (auto simp: assert_that_def)

lemma assert_bind_Some [simp]:
  "(assert_that b \<bind> (\<lambda>_. f)) = Some x \<longleftrightarrow> b \<and> f = Some x"
  by (auto simp: assert_that_def)

text \<open>A loop over a list whose body may abort.\<close>

fun ofold :: "('a \<Rightarrow> 's \<Rightarrow> 's option) \<Rightarrow> 'a list \<Rightarrow> 's \<Rightarrow> 's option" where
  "ofold f [] s = Some s"
| "ofold f (x # xs) s = do { s \<leftarrow> f x s; ofold f xs s }"

lemma ofold_append: "ofold f (xs @ ys) s = ofold f xs s \<bind> ofold f ys"
proof (induction xs arbitrary: s)
  case (Cons x xs)
  then show ?case by (cases "f x s") auto
qed simp

lemma ofold_map: "ofold f (map g xs) s = ofold (\<lambda>x. f (g x)) xs s"
proof (induction xs arbitrary: s)
  case (Cons x xs)
  then show ?case by (cases "f (g x) s") auto
qed simp

lemma ofold_cong [fundef_cong]:
  "xs = ys \<Longrightarrow> s = t \<Longrightarrow> (\<And>x s. x \<in> set ys \<Longrightarrow> f x s = g x s) \<Longrightarrow> ofold f xs s = ofold g ys t"
proof (induction xs arbitrary: ys s t)
  case (Cons x xs)
  then have "ofold f xs = ofold g xs" by (intro ext) auto
  with Cons.prems show ?case by auto
qed auto

text \<open>The loop rule: an invariant indexed by the number of rounds done.\<close>

lemma ofold_invariant:
  assumes "P 0 s"
    and "\<And>i s. i < length xs \<Longrightarrow> P i s \<Longrightarrow> \<exists>s'. f (xs ! i) s = Some s' \<and> P (Suc i) s'"
  shows "\<exists>s'. ofold f xs s = Some s' \<and> P (length xs) s'"
  using assms
proof (induction xs arbitrary: P s)
  case (Cons x xs)
  from Cons.prems(2) [of 0 s] Cons.prems(1) obtain s1 where
    s1: "f x s = Some s1" "P (Suc 0) s1" by auto
  have "\<exists>s'. ofold f xs s1 = Some s' \<and> P (Suc (length xs)) s'"
    using s1(2) Cons.prems(2) [of "Suc _"] by (intro Cons.IH [of "\<lambda>i. P (Suc i)"]) auto
  with s1 show ?case by auto
qed simp

section \<open>\<open>std::map\<close>\<close>

text \<open>Association lists in strictly increasing key order; iteration over the map is
  iteration over the list, and two maps are equal when the lists are.\<close>

type_synonym ('k, 'v) omap = "('k \<times> 'v) list"

definition mget :: "('k, 'v) omap \<Rightarrow> 'k \<Rightarrow> 'v option" where
  "mget m k = map_of m k"

fun mput :: "'k::linorder \<Rightarrow> 'v \<Rightarrow> ('k, 'v) omap \<Rightarrow> ('k, 'v) omap" where
  "mput k v [] = [(k, v)]"
| "mput k v ((k', v') # m) =
     (if k < k' then (k, v) # (k', v') # m
      else if k = k' then (k, v) # m
      else (k', v') # mput k v m)"

definition mdel :: "'k \<Rightarrow> ('k, 'v) omap \<Rightarrow> ('k, 'v) omap" where
  "mdel k m = filter (\<lambda>e. fst e \<noteq> k) m"

definition mkeys :: "('k, 'v) omap \<Rightarrow> 'k list" where
  "mkeys m = map fst m"

definition mok :: "('k::linorder, 'v) omap \<Rightarrow> bool" where
  "mok m \<longleftrightarrow> sorted_wrt (<) (map fst m)"

text \<open>The interface the containers of the sources are used through.\<close>

locale ordered_map =
  fixes emp :: "'m"
    and put :: "'k::linorder \<Rightarrow> 'v \<Rightarrow> 'm \<Rightarrow> 'm"
    and del :: "'k \<Rightarrow> 'm \<Rightarrow> 'm"
    and get :: "'m \<Rightarrow> 'k \<Rightarrow> 'v option"
    and keys :: "'m \<Rightarrow> 'k list"
    and ok :: "'m \<Rightarrow> bool"
  assumes ok_emp: "ok emp"
    and get_emp: "get emp k = None"
    and ok_put: "ok m \<Longrightarrow> ok (put k v m)"
    and get_put: "ok m \<Longrightarrow> get (put k v m) j = (if j = k then Some v else get m j)"
    and ok_del: "ok m \<Longrightarrow> ok (del k m)"
    and get_del: "ok m \<Longrightarrow> get (del k m) j = (if j = k then None else get m j)"
    and keys_get: "ok m \<Longrightarrow> k \<in> set (keys m) \<longleftrightarrow> get m k \<noteq> None"
    and keys_sorted: "ok m \<Longrightarrow> sorted_wrt (<) (keys m)"
begin

lemma get_put_same: "ok m \<Longrightarrow> get (put k v m) k = Some v"
  by (simp add: get_put)

lemma set_keys_put: "ok m \<Longrightarrow> set (keys (put k v m)) = insert k (set (keys m))"
  by (auto simp: keys_get ok_put get_put split: if_splits)

lemma set_keys_del: "ok m \<Longrightarrow> set (keys (del k m)) = set (keys m) - {k}"
  by (auto simp: keys_get ok_del get_del split: if_splits)

lemma keys_determined:
  assumes "ok m" "ok m'" "\<And>k. get m k = get m' k"
  shows "keys m = keys m'"
proof -
  have "set (keys m) = set (keys m')"
    using assms by (auto simp: keys_get)
  then show ?thesis
    using keys_sorted [OF assms(1)] keys_sorted [OF assms(2)]
    by (metis sorted_distinct_set_unique strict_sorted_iff)
qed

end

lemma set_fst_mput: "fst ` set (mput k v m) = insert k (fst ` set m)"
  by (induction k v m rule: mput.induct) auto

lemma mok_Nil [simp]: "mok []"
  by (simp add: mok_def)

lemma mok_mput [simp]: "mok m \<Longrightarrow> mok (mput k v m)"
  unfolding mok_def
  by (induction k v m rule: mput.induct) (auto simp: set_fst_mput)

lemma mget_mput [simp]: "mok m \<Longrightarrow> mget (mput k v m) j = (if j = k then Some v else mget m j)"
  unfolding mget_def mok_def
  by (induction k v m rule: mput.induct) (auto simp: map_of_eq_None_iff)

lemma mget_Nil [simp]: "mget [] k = None"
  by (simp add: mget_def)

lemma mok_mdel [simp]: "mok m \<Longrightarrow> mok (mdel k m)"
  unfolding mok_def mdel_def
  by (induction m) auto

lemma mget_mdel [simp]: "mget (mdel k m) j = (if j = k then None else mget m j)"
  unfolding mget_def mdel_def
  by (induction m) auto

lemma mkeys_mget: "k \<in> set (mkeys m) \<longleftrightarrow> mget m k \<noteq> None"
  unfolding mkeys_def mget_def by (auto simp: map_of_eq_None_iff)

interpretation om: ordered_map "[]" mput mdel mget mkeys mok
  by unfold_locales (simp_all add: mkeys_mget, simp add: mok_def mkeys_def)

lemmas [map_simps] = om.set_keys_put om.set_keys_del mkeys_mget

text \<open>\<open>operator[]\<close>: the entry of a key, default constructed when there is none.\<close>

definition mref :: "'v \<Rightarrow> ('k, 'v) omap \<Rightarrow> 'k \<Rightarrow> 'v" where
  "mref d m k = (case mget m k of None \<Rightarrow> d | Some v \<Rightarrow> v)"

lemma mref_simps [simp]:
  "mget m k = Some v \<Longrightarrow> mref d m k = v" "mget m k = None \<Longrightarrow> mref d m k = d"
  by (simp_all add: mref_def)

lemma mok_distinct: "mok m \<Longrightarrow> distinct (mkeys m)"
  using om.keys_sorted strict_sorted_iff by blast

lemma mget_in_set: "mok m \<Longrightarrow> mget m k = Some v \<longleftrightarrow> (k, v) \<in> set m"
  using mok_distinct [of m] by (simp add: mget_def mkeys_def)

section \<open>Xor on bytes and byte vectors\<close>

definition bxor :: "byte list \<Rightarrow> byte list \<Rightarrow> byte list" where
  "bxor xs ys = map2 (\<lambda>a b. a XOR b) xs ys"

lemma length_bxor [simp]: "length (bxor xs ys) = min (length xs) (length ys)"
  by (simp add: bxor_def)

lemma nth_bxor [simp]:
  "i < length xs \<Longrightarrow> i < length ys \<Longrightarrow> bxor xs ys ! i = xs ! i XOR ys ! i"
  by (simp add: bxor_def)

lemma xor_eq_0_iff: "(a :: 'a::len word) XOR b = 0 \<longleftrightarrow> a = b"
proof
  assume "a XOR b = 0"
  then have "(a XOR b) XOR b = 0 XOR b" by simp
  then show "a = b" by (simp add: xor.assoc)
qed simp

lemma bxor_comm [xor_simps]: "bxor xs ys = bxor ys xs"
  by (rule nth_equalityI) (auto simp: xor.commute)

lemma bxor_assoc [xor_simps]: "bxor (bxor xs ys) zs = bxor xs (bxor ys zs)"
  by (rule nth_equalityI) (auto simp: xor.assoc)

text \<open>The xor of a family of bytes, and of a family of vectors of one length.\<close>

definition xsum :: "byte list \<Rightarrow> byte" where
  "xsum ws = foldr (\<lambda>a b. a XOR b) ws 0"

lemma xsum_simps [simp]: "xsum [] = 0" "xsum (w # ws) = w XOR xsum ws"
  by (simp_all add: xsum_def)

lemma xsum_append [simp]: "xsum (us @ ws) = xsum us XOR xsum ws"
  by (induction us) (auto simp: xor.assoc)

lemma xsum_map_xor: "xsum (map (\<lambda>x. f x XOR g x) xs) = xsum (map f xs) XOR xsum (map g xs)"
  by (induction xs) (auto simp: xor.assoc xor.left_commute)

lemma xsum_zero [simp]: "xsum (map (\<lambda>x. 0) xs) = 0"
  by (induction xs) auto

lemma xsum_swap:
  "xsum (map (\<lambda>x. xsum (map (\<lambda>y. f x y) ys)) xs) = xsum (map (\<lambda>y. xsum (map (\<lambda>x. f x y) xs)) ys)"
  by (induction xs) (auto simp: xsum_map_xor)

lemma word_of_int_foldr_xor: "word_of_int (foldr (\<lambda>i x. f i XOR x) xs 0) = xsum (map (\<lambda>i. word_of_int (f i)) xs)"
  by (induction xs) (simp_all add: of_int_xor_eq)

lemma xsum_split: "x \<in> set xs \<Longrightarrow> distinct xs \<Longrightarrow>
    xsum (map f xs) = f x XOR xsum (map f (filter (\<lambda>y. y \<noteq> x) xs))"
proof (induction xs)
  case (Cons a xs)
  show ?case
  proof (cases "a = x")
    case True
    with Cons.prems have "filter (\<lambda>y. y \<noteq> x) xs = xs" by (auto simp: filter_id_conv)
    with True show ?thesis by simp
  next
    case False
    with Cons have "xsum (map f xs) = f x XOR xsum (map f (filter (\<lambda>y. y \<noteq> x) xs))" by simp
    with False show ?thesis by (simp add: xor.left_commute)
  qed
qed simp

definition vxor :: "nat \<Rightarrow> byte list list \<Rightarrow> byte list" where
  "vxor bs vs = map (\<lambda>i. xsum (map (\<lambda>v. v ! i) vs)) [0..<bs]"

lemma length_vxor [simp]: "length (vxor bs vs) = bs"
  by (simp add: vxor_def)

lemma vxor_single [simp]: "length v = bs \<Longrightarrow> vxor bs [v] = v"
  by (rule nth_equalityI) (auto simp: vxor_def)

lemma bxor_vxor: "length v = bs \<Longrightarrow> bxor v (vxor bs vs) = vxor bs (vs @ [v])"
  by (rule nth_equalityI) (auto simp: vxor_def xor.commute)

text \<open>In a family that cancels every member is the xor of the others.\<close>

lemma vxor_others:
  assumes "x \<in> set xs" "distinct xs" "length (f x) = bs"
    and "\<And>i. i < bs \<Longrightarrow> xsum (map (\<lambda>y. f y ! i) xs) = 0"
  shows "vxor bs (map f (filter (\<lambda>y. y \<noteq> x) xs)) = f x"
proof (rule nth_equalityI)
  fix i assume "i < length (vxor bs (map f (filter (\<lambda>y. y \<noteq> x) xs)))"
  then have i: "i < bs" by simp
  have "f x ! i XOR xsum (map (\<lambda>y. f y ! i) (filter (\<lambda>y. y \<noteq> x) xs)) = 0"
    using xsum_split [OF assms(1,2), of "\<lambda>y. f y ! i"] assms(4) [OF i] by simp
  with i show "vxor bs (map f (filter (\<lambda>y. y \<noteq> x) xs)) ! i = f x ! i"
    by (simp add: vxor_def xor_eq_0_iff comp_def)
qed (use assms in simp)

section \<open>Lists\<close>

text \<open>The numbers with a given quotient are consecutive.\<close>

lemma filter_div_upt:
  assumes "0 < (g :: nat)"
  shows "filter (\<lambda>i. i div g = q) [0..<n] = [q * g..<min n (q * g + g)]"
proof -
  have "i div g = q \<longleftrightarrow> q * g \<le> i \<and> i < q * g + g" for i
  proof
    assume "i div g = q"
    then have "q * g + i mod g = i" using div_mult_mod_eq [of i g] by blast
    moreover have "i mod g < g" using assms by simp
    ultimately show "q * g \<le> i \<and> i < q * g + g" by linarith
  next
    assume "q * g \<le> i \<and> i < q * g + g"
    then show "i div g = q" by (intro div_nat_eqI) (simp_all add: mult.commute)
  qed
  then have "set (filter (\<lambda>i. i div g = q) [0..<n]) = set [q * g..<min n (q * g + g)]"
    by (intro set_eqI) (simp add: conj_commute conj_left_commute)
  moreover have "sorted (filter (\<lambda>i. i div g = q) [0..<n])"
    by (intro sorted_wrt_filter) simp
  ultimately show ?thesis
    by (intro sorted_distinct_set_unique) simp_all
qed

lemma foldr_length_const: "(\<And>x. x \<in> set xs \<Longrightarrow> length (f x) = n) \<Longrightarrow> length (concat (map f xs)) = length xs * n"
  by (induction xs) auto

lemma take_drop_split: "a + b \<le> length xs \<Longrightarrow> take (a + b) (drop n xs) = take a (drop n xs) @ take b (drop (n + a) xs)"
  by (simp add: take_add add.commute)

lemma take_drop_concat:
  assumes "\<And>x. x \<in> set xss \<Longrightarrow> length x = k" "i < length xss"
  shows "take k (drop (i * k) (concat xss)) = xss ! i"
  using assms
proof (induction xss arbitrary: i)
  case (Cons x xss)
  then show ?case by (cases i) auto
qed simp

lemma set_drop_nth: "set (drop k xs) = (!) xs ` {k..<length xs}"
proof -
  have "drop k xs = map ((!) xs) [k..<length xs]" by (rule nth_equalityI) auto
  then show ?thesis by simp
qed

lemma distinct_singleton:
  assumes "distinct xs" "set xs = {x}"
  shows "xs = [x]"
proof (cases xs)
  case (Cons y ys)
  with assms have "y = x" "set ys \<subseteq> {x}" "x \<notin> set ys" by auto
  then have "ys = []" by (cases ys) auto
  with Cons \<open>y = x\<close> show ?thesis by simp
qed (use assms in simp)

lemma those_Some: "(\<And>x. x \<in> set xs \<Longrightarrow> f x = Some (g x)) \<Longrightarrow> those (map f xs) = Some (map g xs)"
  by (induction xs) auto

end
