(* ===== verification/OptLrc_Configs.thy ===== *)
theory OptLrc_Configs
  imports EC_Prelude
begin

text \<open>
  The generator matrices of \<open>src/src/erasure-code/optlrc/ErasureCodeOptLrc_configs.h\<close>
  and the table that finds one by the code parameters. A matrix is the list of the rows
  its initialiser gives; \<open>optlrc_entry\<close> is an access to the array
  \<open>optlrc_encode[MAX_MATRIX][MAX_MATRIX]\<close>, which is zero beyond the initialiser. The members
  \<open>optlrc_perm\<close> and \<open>optlrc_coef\<close> are read nowhere and have no initialiser.
\<close>

section \<open>The matrices\<close>

type_synonym OptLRC = "int list list"

definition MAX_MATRIX :: nat where "MAX_MATRIX = 256"
definition MAX_CHUNKS :: int where "MAX_CHUNKS = 20"
definition MAX_DATA_CHUNKS :: int where "MAX_DATA_CHUNKS = 16"
definition MAX_LOCALITY_CHUNKS :: int where "MAX_LOCALITY_CHUNKS = 8"

definition optlrc_entry :: "OptLRC \<Rightarrow> nat \<Rightarrow> nat \<Rightarrow> int option" where
  "optlrc_entry G i j =
     (if MAX_MATRIX \<le> i \<or> MAX_MATRIX \<le> j then None
      else if i < length G \<and> j < length (G ! i) then Some (G ! i ! j) else Some 0)"

definition optlrc_9_4_2 :: OptLRC where
  "optlrc_9_4_2 =
    [[1, 0, 0, 0],
     [0, 1, 0, 0],
     [1, 1, 0, 0],
     [0, 0, 1, 0],
     [0, 0, 0, 1],
     [0, 0, 1, 1],
     [176, 2, 212, 1],
     [178, 176, 213, 212],
     [2, 178, 1, 213]]"

definition optlrc_10_6_4 :: OptLRC where
  "optlrc_10_6_4 =
    [[1, 0, 0, 0, 0, 0],
     [0, 1, 0, 0, 0, 0],
     [0, 0, 1, 0, 0, 0],
     [0, 0, 0, 1, 0, 0],
     [1, 1, 1, 1, 0, 0],
     [0, 0, 0, 0, 1, 0],
     [0, 0, 0, 0, 0, 1],
     [112, 153, 7, 224, 220, 11],
     [227, 123, 248, 41, 146, 78],
     [147, 226, 255, 201, 79, 68]]"

definition optlrc_10_6_3 :: OptLRC where
  "optlrc_10_6_3 =
    [[1, 0, 0, 0, 0, 0],
     [0, 1, 0, 0, 0, 0],
     [0, 0, 1, 0, 0, 0],
     [1, 1, 1, 0, 0, 0],
     [0, 0, 0, 1, 0, 0],
     [0, 0, 0, 0, 1, 0],
     [0, 0, 0, 0, 0, 1],
     [0, 0, 0, 1, 1, 1],
     [170, 204, 102, 169, 206, 103],
     [170, 204, 102, 169, 206, 103]]"

definition optlrc_15_8_4 :: OptLRC where
  "optlrc_15_8_4 =
    [[1, 0, 0, 0, 0, 0, 0, 0],
     [0, 1, 0, 0, 0, 0, 0, 0],
     [0, 0, 1, 0, 0, 0, 0, 0],
     [0, 0, 0, 1, 0, 0, 0, 0],
     [1, 1, 1, 1, 0, 0, 0, 0],
     [0, 0, 0, 0, 1, 0, 0, 0],
     [0, 0, 0, 0, 0, 1, 0, 0],
     [0, 0, 0, 0, 0, 0, 1, 0],
     [0, 0, 0, 0, 0, 0, 0, 1],
     [0, 0, 0, 0, 1, 1, 1, 1],
     [86, 235, 136, 16, 23, 11, 47, 24],
     [16, 70, 251, 152, 47, 56, 55, 36],
     [189, 222, 70, 86, 28, 15, 23, 56],
     [99, 251, 235, 189, 19, 36, 28, 11],
     [152, 136, 222, 99, 55, 24, 19, 15]]"

definition optlrc_15_8_5 :: OptLRC where
  "optlrc_15_8_5 =
    [[1, 0, 0, 0, 0, 0, 0, 0],
     [0, 1, 0, 0, 0, 0, 0, 0],
     [0, 0, 1, 0, 0, 0, 0, 0],
     [0, 0, 0, 1, 0, 0, 0, 0],
     [0, 0, 0, 0, 1, 0, 0, 0],
     [1, 1, 1, 1, 1, 0, 0, 0],
     [0, 0, 0, 0, 0, 1, 0, 0],
     [0, 0, 0, 0, 0, 0, 1, 0],
     [0, 0, 0, 0, 0, 0, 0, 1],
     [232, 80, 103, 155, 148, 128, 27, 165],
     [68, 242, 180, 56, 205, 77, 186, 106],
     [172, 162, 211, 163, 89, 204, 160, 206],
     [48, 138, 106, 4, 93, 3, 197, 126],
     [52, 12, 126, 43, 72, 214, 101, 194],
     [4, 134, 20, 47, 21, 213, 160, 188]]"

definition optlrc_16_12_7 :: OptLRC where
  "optlrc_16_12_7 =
    [[1, 0, 0, 0, 0, 0, 0, 0, 0, 0, 0, 0],
     [0, 1, 0, 0, 0, 0, 0, 0, 0, 0, 0, 0],
     [0, 0, 1, 0, 0, 0, 0, 0, 0, 0, 0, 0],
     [0, 0, 0, 1, 0, 0, 0, 0, 0, 0, 0, 0],
     [0, 0, 0, 0, 1, 0, 0, 0, 0, 0, 0, 0],
     [0, 0, 0, 0, 0, 1, 0, 0, 0, 0, 0, 0],
     [0, 0, 0, 0, 0, 0, 1, 0, 0, 0, 0, 0],
     [1, 1, 1, 1, 1, 1, 1, 0, 0, 0, 0, 0],
     [0, 0, 0, 0, 0, 0, 0, 1, 0, 0, 0, 0],
     [0, 0, 0, 0, 0, 0, 0, 0, 1, 0, 0, 0],
     [0, 0, 0, 0, 0, 0, 0, 0, 0, 1, 0, 0],
     [0, 0, 0, 0, 0, 0, 0, 0, 0, 0, 1, 0],
     [0, 0, 0, 0, 0, 0, 0, 0, 0, 0, 0, 1],
     [7, 7, 6, 6, 1, 1, 0, 7, 7, 6, 6, 1],
     [9, 8, 9, 8, 1, 0, 1, 9, 8, 9, 8, 1],
     [14, 15, 15, 14, 0, 1, 1, 15, 14, 14, 15, 1]]"

definition optlrc_18_12_3 :: OptLRC where
  "optlrc_18_12_3 =
    [[1, 0, 0, 0, 0, 0, 0, 0, 0, 0, 0, 0],
     [0, 1, 0, 0, 0, 0, 0, 0, 0, 0, 0, 0],
     [0, 0, 1, 0, 0, 0, 0, 0, 0, 0, 0, 0],
     [1, 1, 1, 0, 0, 0, 0, 0, 0, 0, 0, 0],
     [0, 0, 0, 1, 0, 0, 0, 0, 0, 0, 0, 0],
     [0, 0, 0, 0, 1, 0, 0, 0, 0, 0, 0, 0],
     [0, 0, 0, 0, 0, 1, 0, 0, 0, 0, 0, 0],
     [0, 0, 0, 1, 1, 1, 0, 0, 0, 0, 0, 0],
     [0, 0, 0, 0, 0, 0, 1, 0, 0, 0, 0, 0],
     [0, 0, 0, 0, 0, 0, 0, 1, 0, 0, 0, 0],
     [0, 0, 0, 0, 0, 0, 0, 0, 1, 0, 0, 0],
     [0, 0, 0, 0, 0, 0, 1, 1, 1, 0, 0, 0],
     [0, 0, 0, 0, 0, 0, 0, 0, 0, 1, 0, 0],
     [0, 0, 0, 0, 0, 0, 0, 0, 0, 0, 1, 0],
     [0, 0, 0, 0, 0, 0, 0, 0, 0, 0, 0, 1],
     [0, 0, 0, 0, 0, 0, 0, 0, 0, 1, 1, 1],
     [159, 234, 117, 155, 25, 130, 104, 187, 211, 111, 74, 37],
     [159, 234, 117, 155, 25, 130, 104, 187, 211, 111, 74, 37]]"

definition optlrc_18_12_4 :: OptLRC where
  "optlrc_18_12_4 =
    [[1, 0, 0, 0, 0, 0, 0, 0, 0, 0, 0, 0],
     [0, 1, 0, 0, 0, 0, 0, 0, 0, 0, 0, 0],
     [0, 0, 1, 0, 0, 0, 0, 0, 0, 0, 0, 0],
     [0, 0, 0, 1, 0, 0, 0, 0, 0, 0, 0, 0],
     [1, 1, 1, 1, 0, 0, 0, 0, 0, 0, 0, 0],
     [0, 0, 0, 0, 1, 0, 0, 0, 0, 0, 0, 0],
     [0, 0, 0, 0, 0, 1, 0, 0, 0, 0, 0, 0],
     [0, 0, 0, 0, 0, 0, 1, 0, 0, 0, 0, 0],
     [0, 0, 0, 0, 0, 0, 0, 1, 0, 0, 0, 0],
     [0, 0, 0, 0, 1, 1, 1, 1, 0, 0, 0, 0],
     [0, 0, 0, 0, 0, 0, 0, 0, 1, 0, 0, 0],
     [0, 0, 0, 0, 0, 0, 0, 0, 0, 1, 0, 0],
     [0, 0, 0, 0, 0, 0, 0, 0, 0, 0, 1, 0],
     [0, 0, 0, 0, 0, 0, 0, 0, 0, 0, 0, 1],
     [0, 0, 0, 0, 0, 0, 0, 0, 1, 1, 1, 1],
     [205, 54, 32, 181, 62, 38, 66, 53, 228, 75, 17, 158],
     [231, 86, 150, 62, 46, 214, 195, 155, 16, 22, 30, 102],
     [42, 96, 182, 139, 16, 240, 129, 174, 244, 93, 15, 248]]"

definition optlrc_15_10_4 :: OptLRC where
  "optlrc_15_10_4 =
    [[1, 0, 0, 0, 0, 0, 0, 0, 0, 0],
     [0, 1, 0, 0, 0, 0, 0, 0, 0, 0],
     [0, 0, 1, 0, 0, 0, 0, 0, 0, 0],
     [0, 0, 0, 1, 0, 0, 0, 0, 0, 0],
     [1, 1, 1, 1, 0, 0, 0, 0, 0, 0],
     [0, 0, 0, 0, 1, 0, 0, 0, 0, 0],
     [0, 0, 0, 0, 0, 1, 0, 0, 0, 0],
     [0, 0, 0, 0, 0, 0, 1, 0, 0, 0],
     [0, 0, 0, 0, 0, 0, 0, 1, 0, 0],
     [0, 0, 0, 0, 1, 1, 1, 1, 0, 0],
     [0, 0, 0, 0, 0, 0, 0, 0, 1, 0],
     [0, 0, 0, 0, 0, 0, 0, 0, 0, 1],
     [152, 115, 183, 65, 219, 218, 45, 155, 79, 68],
     [121, 69, 236, 253, 104, 102, 226, 181, 220, 11],
     [225, 54, 91, 188, 179, 188, 207, 46, 146, 78]]"

definition optlrc_14_10_4 :: OptLRC where
  "optlrc_14_10_4 =
    [[1, 0, 0, 0, 0, 0, 0, 0, 0, 0],
     [0, 1, 0, 0, 0, 0, 0, 0, 0, 0],
     [0, 0, 1, 0, 0, 0, 0, 0, 0, 0],
     [0, 0, 0, 1, 0, 0, 0, 0, 0, 0],
     [1, 1, 1, 1, 0, 0, 0, 0, 0, 0],
     [0, 0, 0, 0, 1, 0, 0, 0, 0, 0],
     [0, 0, 0, 0, 0, 1, 0, 0, 0, 0],
     [0, 0, 0, 0, 0, 0, 1, 0, 0, 0],
     [0, 0, 0, 0, 0, 0, 0, 1, 0, 0],
     [0, 0, 0, 0, 1, 1, 1, 1, 0, 0],
     [0, 0, 0, 0, 0, 0, 0, 0, 1, 0],
     [0, 0, 0, 0, 0, 0, 0, 0, 0, 1],
     [12, 116, 99, 245, 224, 110, 73, 107, 11, 79],
     [12, 116, 99, 245, 224, 110, 73, 107, 10, 78]]"

definition optlrc_12_8_3 :: OptLRC where
  "optlrc_12_8_3 =
    [[1, 0, 0, 0, 0, 0, 0, 0],
     [0, 1, 0, 0, 0, 0, 0, 0],
     [0, 0, 1, 0, 0, 0, 0, 0],
     [1, 1, 1, 0, 0, 0, 0, 0],
     [0, 0, 0, 1, 0, 0, 0, 0],
     [0, 0, 0, 0, 1, 0, 0, 0],
     [0, 0, 0, 0, 0, 1, 0, 0],
     [0, 0, 0, 1, 1, 1, 0, 0],
     [0, 0, 0, 0, 0, 0, 1, 0],
     [0, 0, 0, 0, 0, 0, 0, 1],
     [170, 204, 102, 169, 206, 103, 3, 2],
     [170, 204, 102, 169, 206, 103, 2, 3]]"

definition optlrc_12_8_4 :: OptLRC where
  "optlrc_12_8_4 =
    [[1, 0, 0, 0, 0, 0, 0, 0],
     [0, 1, 0, 0, 0, 0, 0, 0],
     [0, 0, 1, 0, 0, 0, 0, 0],
     [0, 0, 0, 1, 0, 0, 0, 0],
     [1, 1, 1, 1, 0, 0, 0, 0],
     [0, 0, 0, 0, 1, 0, 0, 0],
     [0, 0, 0, 0, 0, 1, 0, 0],
     [0, 0, 0, 0, 0, 0, 1, 0],
     [0, 0, 0, 0, 0, 0, 0, 1],
     [0, 0, 0, 0, 1, 1, 1, 1],
     [150, 99, 111, 23, 34, 107, 5, 139],
     [150, 99, 111, 23, 34, 107, 5, 139]]"

definition optlrc_17_12_4 :: OptLRC where
  "optlrc_17_12_4 =
    [[1, 0, 0, 0, 0, 0, 0, 0, 0, 0, 0, 0],
     [0, 1, 0, 0, 0, 0, 0, 0, 0, 0, 0, 0],
     [0, 0, 1, 0, 0, 0, 0, 0, 0, 0, 0, 0],
     [0, 0, 0, 1, 0, 0, 0, 0, 0, 0, 0, 0],
     [1, 1, 1, 1, 0, 0, 0, 0, 0, 0, 0, 0],
     [0, 0, 0, 0, 1, 0, 0, 0, 0, 0, 0, 0],
     [0, 0, 0, 0, 0, 1, 0, 0, 0, 0, 0, 0],
     [0, 0, 0, 0, 0, 0, 1, 0, 0, 0, 0, 0],
     [0, 0, 0, 0, 0, 0, 0, 1, 0, 0, 0, 0],
     [0, 0, 0, 0, 1, 1, 1, 1, 0, 0, 0, 0],
     [0, 0, 0, 0, 0, 0, 0, 0, 1, 0, 0, 0],
     [0, 0, 0, 0, 0, 0, 0, 0, 0, 1, 0, 0],
     [0, 0, 0, 0, 0, 0, 0, 0, 0, 0, 1, 0],
     [0, 0, 0, 0, 0, 0, 0, 0, 0, 0, 0, 1],
     [0, 0, 0, 0, 0, 0, 0, 0, 1, 1, 1, 1],
     [148, 117, 241, 176, 91, 15, 212, 61, 147, 220, 69, 11],
     [148, 117, 241, 176, 91, 15, 212, 61, 147, 220, 69, 11]]"

definition optlrc_14_10_6 :: OptLRC where
  "optlrc_14_10_6 =
    [[1, 0, 0, 0, 0, 0, 0, 0, 0, 0],
     [0, 1, 0, 0, 0, 0, 0, 0, 0, 0],
     [0, 0, 1, 0, 0, 0, 0, 0, 0, 0],
     [0, 0, 0, 1, 0, 0, 0, 0, 0, 0],
     [0, 0, 0, 0, 1, 0, 0, 0, 0, 0],
     [0, 0, 0, 0, 0, 1, 0, 0, 0, 0],
     [1, 1, 1, 1, 1, 1, 0, 0, 0, 0],
     [0, 0, 0, 0, 0, 0, 1, 0, 0, 0],
     [0, 0, 0, 0, 0, 0, 0, 1, 0, 0],
     [0, 0, 0, 0, 0, 0, 0, 0, 1, 0],
     [0, 0, 0, 0, 0, 0, 0, 0, 0, 1],
     [213, 208, 18, 5, 199, 194, 230, 231, 231, 1],
     [143, 64, 79, 207, 192, 15, 85, 84, 85, 1],
     [90, 144, 93, 202, 7, 205, 178, 178, 179, 1]]"

definition optlrc_14_10_5 :: OptLRC where
  "optlrc_14_10_5 =
    [[1, 0, 0, 0, 0, 0, 0, 0, 0, 0],
     [0, 1, 0, 0, 0, 0, 0, 0, 0, 0],
     [0, 0, 1, 0, 0, 0, 0, 0, 0, 0],
     [0, 0, 0, 1, 0, 0, 0, 0, 0, 0],
     [0, 0, 0, 0, 1, 0, 0, 0, 0, 0],
     [1, 1, 1, 1, 1, 0, 0, 0, 0, 0],
     [0, 0, 0, 0, 0, 1, 0, 0, 0, 0],
     [0, 0, 0, 0, 0, 0, 1, 0, 0, 0],
     [0, 0, 0, 0, 0, 0, 0, 1, 0, 0],
     [0, 0, 0, 0, 0, 0, 0, 0, 1, 0],
     [0, 0, 0, 0, 0, 0, 0, 0, 0, 1],
     [0, 0, 0, 0, 0, 1, 1, 1, 1, 1],
     [48, 197, 111, 164, 62, 137, 170, 155, 66, 250],
     [48, 197, 111, 164, 62, 137, 170, 155, 66, 250]]"

definition optlrc_12_8_5 :: OptLRC where
  "optlrc_12_8_5 =
    [[1, 0, 0, 0, 0, 0, 0, 0],
     [0, 1, 0, 0, 0, 0, 0, 0],
     [0, 0, 1, 0, 0, 0, 0, 0],
     [0, 0, 0, 1, 0, 0, 0, 0],
     [0, 0, 0, 0, 1, 0, 0, 0],
     [1, 1, 1, 1, 1, 0, 0, 0],
     [0, 0, 0, 0, 0, 1, 0, 0],
     [0, 0, 0, 0, 0, 0, 1, 0],
     [0, 0, 0, 0, 0, 0, 0, 1],
     [8, 167, 172, 102, 101, 155, 87, 205],
     [71, 201, 43, 159, 58, 87, 212, 130],
     [79, 110, 135, 249, 95, 205, 130, 78]]"

definition optlrc_17_12_5 :: OptLRC where
  "optlrc_17_12_5 =
    [[1, 0, 0, 0, 0, 0, 0, 0, 0, 0, 0, 0],
     [0, 1, 0, 0, 0, 0, 0, 0, 0, 0, 0, 0],
     [0, 0, 1, 0, 0, 0, 0, 0, 0, 0, 0, 0],
     [0, 0, 0, 1, 0, 0, 0, 0, 0, 0, 0, 0],
     [0, 0, 0, 0, 1, 0, 0, 0, 0, 0, 0, 0],
     [1, 1, 1, 1, 1, 0, 0, 0, 0, 0, 0, 0],
     [0, 0, 0, 0, 0, 1, 0, 0, 0, 0, 0, 0],
     [0, 0, 0, 0, 0, 0, 1, 0, 0, 0, 0, 0],
     [0, 0, 0, 0, 0, 0, 0, 1, 0, 0, 0, 0],
     [0, 0, 0, 0, 0, 0, 0, 0, 1, 0, 0, 0],
     [0, 0, 0, 0, 0, 0, 0, 0, 0, 1, 0, 0],
     [0, 0, 0, 0, 0, 1, 1, 1, 1, 1, 0, 0],
     [0, 0, 0, 0, 0, 0, 0, 0, 0, 0, 1, 0],
     [0, 0, 0, 0, 0, 0, 0, 0, 0, 0, 0, 1],
     [101, 94, 86, 187, 214, 9, 169, 44, 23, 155, 50, 80],
     [220, 46, 166, 1, 85, 163, 141, 40, 168, 174, 85, 102],
     [185, 112, 240, 186, 131, 170, 36, 4, 191, 53, 102, 55]]"

definition optlrc_17_12_6 :: OptLRC where
  "optlrc_17_12_6 =
    [[1, 0, 0, 0, 0, 0, 0, 0, 0, 0, 0, 0],
     [0, 1, 0, 0, 0, 0, 0, 0, 0, 0, 0, 0],
     [0, 0, 1, 0, 0, 0, 0, 0, 0, 0, 0, 0],
     [0, 0, 0, 1, 0, 0, 0, 0, 0, 0, 0, 0],
     [0, 0, 0, 0, 1, 0, 0, 0, 0, 0, 0, 0],
     [0, 0, 0, 0, 0, 1, 0, 0, 0, 0, 0, 0],
     [1, 1, 1, 1, 1, 1, 0, 0, 0, 0, 0, 0],
     [0, 0, 0, 0, 0, 0, 1, 0, 0, 0, 0, 0],
     [0, 0, 0, 0, 0, 0, 0, 1, 0, 0, 0, 0],
     [0, 0, 0, 0, 0, 0, 0, 0, 1, 0, 0, 0],
     [0, 0, 0, 0, 0, 0, 0, 0, 0, 1, 0, 0],
     [0, 0, 0, 0, 0, 0, 0, 0, 0, 0, 1, 0],
     [0, 0, 0, 0, 0, 0, 0, 0, 0, 0, 0, 1],
     [0, 0, 0, 0, 0, 0, 1, 1, 1, 1, 1, 1],
     [196, 227, 138, 77, 58, 156, 109, 215, 85, 49, 160, 194],
     [94, 109, 138, 69, 8, 68, 67, 113, 227, 131, 17, 248],
     [242, 76, 30, 116, 81, 35, 72, 150, 224, 17, 163, 143]]"

definition optlrc_15_10_5 :: OptLRC where
  "optlrc_15_10_5 =
    [[1, 0, 0, 0, 0, 0, 0, 0, 0, 0],
     [0, 1, 0, 0, 0, 0, 0, 0, 0, 0],
     [0, 0, 1, 0, 0, 0, 0, 0, 0, 0],
     [0, 0, 0, 1, 0, 0, 0, 0, 0, 0],
     [0, 0, 0, 0, 1, 0, 0, 0, 0, 0],
     [1, 1, 1, 1, 1, 0, 0, 0, 0, 0],
     [0, 0, 0, 0, 0, 1, 0, 0, 0, 0],
     [0, 0, 0, 0, 0, 0, 1, 0, 0, 0],
     [0, 0, 0, 0, 0, 0, 0, 1, 0, 0],
     [0, 0, 0, 0, 0, 0, 0, 0, 1, 0],
     [0, 0, 0, 0, 0, 0, 0, 0, 0, 1],
     [0, 0, 0, 0, 0, 1, 1, 1, 1, 1],
     [208, 180, 38, 113, 51, 191, 4, 124, 10, 205],
     [77, 31, 237, 41, 150, 199, 94, 237, 170, 222],
     [157, 171, 203, 88, 165, 120, 90, 145, 160, 19]]"

section \<open>The table\<close>

text \<open>\<open>configs[n][k][r]\<close>. Only the entries the constructor assigns hold a pointer; the
  others are never initialised, so following one of them has no result.\<close>

definition config_table :: "((int \<times> int \<times> int) \<times> OptLRC) list" where
  "config_table =
    [((9, 4, 2), optlrc_9_4_2),
     ((10, 6, 4), optlrc_10_6_4),
     ((10, 6, 3), optlrc_10_6_3),
     ((15, 8, 4), optlrc_15_8_4),
     ((15, 8, 5), optlrc_15_8_5),
     ((16, 12, 7), optlrc_16_12_7),
     ((18, 12, 3), optlrc_18_12_3),
     ((18, 12, 4), optlrc_18_12_4),
     ((15, 10, 4), optlrc_15_10_4),
     ((15, 10, 5), optlrc_15_10_5),
     ((14, 10, 4), optlrc_14_10_4),
     ((14, 10, 5), optlrc_14_10_5),
     ((14, 10, 6), optlrc_14_10_6),
     ((12, 8, 3), optlrc_12_8_3),
     ((12, 8, 4), optlrc_12_8_4),
     ((12, 8, 5), optlrc_12_8_5),
     ((17, 12, 4), optlrc_17_12_4),
     ((17, 12, 5), optlrc_17_12_5),
     ((17, 12, 6), optlrc_17_12_6)]"

definition configs_in_range :: "int \<Rightarrow> int \<Rightarrow> int \<Rightarrow> bool" where
  "configs_in_range n k r \<longleftrightarrow> 0 \<le> n \<and> n < MAX_CHUNKS \<and> 0 \<le> k \<and> k < MAX_DATA_CHUNKS
     \<and> 0 \<le> r \<and> r < MAX_LOCALITY_CHUNKS"

definition configs :: "int \<Rightarrow> int \<Rightarrow> int \<Rightarrow> OptLRC option" where
  "configs n k r = map_of config_table (n, k, r)"

end
