(* ===== verification/Buffer.thy ===== *)
theory Buffer
  imports EC_Prelude
begin

text \<open>
  The buffers of \<open>src/src/common/buffer.cc\<close> and \<open>src/src/include/buffer.h\<close> that
  the erasure code library works on. A \<open>buffer::raw\<close> is a block of memory with an
  address; a \<open>buffer::ptr\<close> is a window into a raw; a \<open>buffer::list\<close> is a list of
  windows. Copying a list copies the windows and shares the memory, so the model keeps
  an explicit heap: two lists that name the same raw see each other's writes.
  The cached \<open>_len\<close> of a list is the sum of the lengths of its windows
  (the relation the debug check in \<open>length()\<close> states). Reference counts, memory
  pools, the checksum cache and the copy statistics have no influence on the bytes and
  are left out; memory is never reused.
\<close>

section \<open>Raw memory\<close>

record raw =
  raw_addr :: nat
  raw_data :: "byte list"

text \<open>The allocator is not part of the sources: \<open>place\<close> and \<open>junk\<close> are its free
  choices, where the next block lies (in units of the alignment asked for) and what the
  uninitialised memory holds.\<close>

record heap =
  raws :: "raw list"
  place :: "nat \<Rightarrow> nat"
  junk :: "nat \<Rightarrow> nat \<Rightarrow> byte"

record bptr =
  p_raw :: nat
  p_off :: nat
  p_len :: nat

type_synonym bufferlist = "bptr list"

text \<open>A \<open>char *\<close> into a raw: the raw and the offset. The null pointer is \<open>None\<close>.\<close>

type_synonym cptr = "nat \<times> nat"

definition SIMD_ALIGN :: nat where
  "SIMD_ALIGN = 32"

definition CEPH_PAGE_SIZE :: nat where
  "CEPH_PAGE_SIZE = 4096"

text \<open>Reads and writes through a \<open>char *\<close> (\<open>memcpy\<close>, \<open>memset\<close>): outside the raw
  there is no result.\<close>

definition mem_read :: "heap \<Rightarrow> cptr \<Rightarrow> nat \<Rightarrow> byte list option" where
  "mem_read h p n =
     (let (r, off) = p in
      if r < length (raws h) \<and> off + n \<le> length (raw_data (raws h ! r))
      then Some (take n (drop off (raw_data (raws h ! r)))) else None)"

definition splice_at :: "nat \<Rightarrow> 'a list \<Rightarrow> 'a list \<Rightarrow> 'a list" where
  "splice_at off bs d = take off d @ bs @ drop (off + length bs) d"

definition mem_write :: "heap \<Rightarrow> cptr \<Rightarrow> byte list \<Rightarrow> heap option" where
  "mem_write h p bs =
     (let (r, off) = p in
      if r < length (raws h) \<and> off + length bs \<le> length (raw_data (raws h ! r))
      then Some (h\<lparr>raws := (raws h)[r := (raws h ! r)\<lparr>raw_data := splice_at off bs (raw_data (raws h ! r))\<rparr>]\<rparr>)
      else None)"

definition memcpy :: "cptr \<Rightarrow> cptr \<Rightarrow> nat \<Rightarrow> heap \<Rightarrow> heap option" where
  "memcpy dst src n h = do { bs \<leftarrow> mem_read h src n; mem_write h dst bs }"

section \<open>Creation and \<open>buffer::ptr\<close>\<close>

text \<open>\<open>buffer::create_aligned\<close>: a new raw of uninitialised bytes at a multiple of the
  alignment. The choice between the two allocation classes only affects speed.\<close>

definition create_aligned :: "nat \<Rightarrow> nat \<Rightarrow> heap \<Rightarrow> heap \<times> nat" where
  "create_aligned n align h =
     (let r = length (raws h) in
      (h\<lparr>raws := raws h @ [\<lparr>raw_addr = align * place h r, raw_data = map (junk h r) [0..<n]\<rparr>]\<rparr>, r))"

definition create_page_aligned :: "nat \<Rightarrow> heap \<Rightarrow> heap \<times> nat" where
  "create_page_aligned n = create_aligned n CEPH_PAGE_SIZE"

definition create :: "nat \<Rightarrow> heap \<Rightarrow> heap \<times> nat" where
  "create n = create_aligned n 8"

definition ptr_of_raw :: "heap \<Rightarrow> nat \<Rightarrow> bptr" where
  "ptr_of_raw h r = \<lparr>p_raw = r, p_off = 0, p_len = length (raw_data (raws h ! r))\<rparr>"

definition ptr_sub :: "bptr \<Rightarrow> nat \<Rightarrow> nat \<Rightarrow> bptr option" where
  "ptr_sub p off n = do {
     assert_that (off + n \<le> p_len p);
     Some \<lparr>p_raw = p_raw p, p_off = p_off p + off, p_len = n\<rparr> }"

definition ptr_c_str :: "bptr \<Rightarrow> cptr" where
  "ptr_c_str p = (p_raw p, p_off p)"

definition ptr_copy_out :: "heap \<Rightarrow> bptr \<Rightarrow> nat \<Rightarrow> nat \<Rightarrow> byte list option" where
  "ptr_copy_out h p off n =
     (if off + n > p_len p then None else mem_read h (p_raw p, p_off p + off) n)"

definition ptr_copy_in :: "bptr \<Rightarrow> nat \<Rightarrow> byte list \<Rightarrow> heap \<Rightarrow> heap option" where
  "ptr_copy_in p off src h = do {
     assert_that (off \<le> p_len p);
     assert_that (off + length src \<le> p_len p);
     mem_write h (p_raw p, p_off p + off) src }"

definition ptr_zero :: "bptr \<Rightarrow> nat \<Rightarrow> nat \<Rightarrow> heap \<Rightarrow> heap option" where
  "ptr_zero p off n h = do {
     assert_that (off + n \<le> p_len p);
     mem_write h (p_raw p, p_off p + off) (replicate n 0) }"

definition ptr_zero_all :: "bptr \<Rightarrow> heap \<Rightarrow> heap option" where
  "ptr_zero_all p h = mem_write h (ptr_c_str p) (replicate (p_len p) 0)"

definition ptr_is_aligned :: "heap \<Rightarrow> nat \<Rightarrow> bptr \<Rightarrow> bool" where
  "ptr_is_aligned h align p \<longleftrightarrow> (raw_addr (raws h ! p_raw p) + p_off p) AND (align - 1) = 0"

definition ptr_is_n_align_sized :: "nat \<Rightarrow> bptr \<Rightarrow> bool" where
  "ptr_is_n_align_sized align p \<longleftrightarrow> p_len p mod align = 0"

section \<open>\<open>buffer::list\<close>\<close>

definition bl_length :: "bufferlist \<Rightarrow> nat" where
  "bl_length bl = sum_list (map p_len bl)"

definition push_back :: "bptr \<Rightarrow> bufferlist \<Rightarrow> bufferlist" where
  "push_back p bl = (if p_len p = 0 then bl else bl @ [p])"

definition push_front :: "bptr \<Rightarrow> bufferlist \<Rightarrow> bufferlist" where
  "push_front p bl = (if p_len p = 0 then bl else p # bl)"

definition is_contiguous :: "bufferlist \<Rightarrow> bool" where
  "is_contiguous bl \<longleftrightarrow> length bl \<le> 1"

definition claim_append :: "bufferlist \<Rightarrow> bufferlist \<Rightarrow> bufferlist \<times> bufferlist" where
  "claim_append dst bl = (dst @ bl, [])"

text \<open>\<open>list::rebuild(ptr& nb)\<close>: the loop that copies every window into \<open>nb\<close>.\<close>

fun rebuild_copy :: "bptr \<Rightarrow> nat \<Rightarrow> bufferlist \<Rightarrow> heap \<Rightarrow> heap option" where
  "rebuild_copy nb pos [] h = Some h"
| "rebuild_copy nb pos (p # ps) h = do {
     bs \<leftarrow> mem_read h (ptr_c_str p) (p_len p);
     h \<leftarrow> ptr_copy_in nb pos bs h;
     rebuild_copy nb (pos + p_len p) ps h }"

definition rebuild_into :: "bptr \<Rightarrow> bufferlist \<Rightarrow> heap \<Rightarrow> (heap \<times> bufferlist) option" where
  "rebuild_into nb bl h = do {
     h \<leftarrow> rebuild_copy nb 0 bl h;
     Some (h, if p_len nb \<noteq> 0 then [nb] else []) }"

definition rebuild :: "bufferlist \<Rightarrow> heap \<Rightarrow> (heap \<times> bufferlist) option" where
  "rebuild bl h =
     (if bl_length bl = 0 then Some (h, [])
      else let (h, r) = (if bl_length bl mod CEPH_PAGE_SIZE = 0
                         then create_page_aligned (bl_length bl) h
                         else create (bl_length bl) h)
           in rebuild_into (ptr_of_raw h r) bl h)"

text \<open>The \<open>do \<dots> while\<close> loop of \<open>rebuild_aligned_size_and_memory\<close>: it moves windows
  into \<open>unaligned\<close> until the next one is aligned and the bytes moved are a multiple of
  \<open>align_size\<close>. It returns the windows moved and those that stay.\<close>

fun take_unaligned :: "heap \<Rightarrow> nat \<Rightarrow> nat \<Rightarrow> nat \<Rightarrow> bufferlist \<Rightarrow> bufferlist \<times> bufferlist" where
  "take_unaligned h asize amem off [] = ([], [])"
| "take_unaligned h asize amem off [p] = ([p], [])"
| "take_unaligned h asize amem off (p # q # ps) =
     (if \<not> ptr_is_aligned h amem q \<or> \<not> ptr_is_n_align_sized asize q \<or> (off + p_len p) mod asize \<noteq> 0
      then let (us, rest) = take_unaligned h asize amem (off + p_len p) (q # ps) in (p # us, rest)
      else ([p], q # ps))"

definition consolidate :: "nat \<Rightarrow> bufferlist \<Rightarrow> heap \<Rightarrow> (heap \<times> bptr) option" where
  "consolidate amem moved h =
     (let unaligned = fold push_back moved [] in
      case unaligned of
        [] \<Rightarrow> None
      | p # ps \<Rightarrow>
          if is_contiguous unaligned \<and> ptr_is_aligned h amem p then Some (h, p)
          else let (h, r) = create_aligned (bl_length unaligned) amem h in do {
            (h, bl) \<leftarrow> rebuild_into (ptr_of_raw h r) unaligned h;
            (case bl of [] \<Rightarrow> None | q # _ \<Rightarrow> Some (h, q)) })"

lemma length_take_unaligned: "length (snd (take_unaligned h asize amem off (p # ps))) \<le> length ps"
proof (induction ps arbitrary: p off)
  case (Cons q ps)
  show ?case
    using Cons.IH [of "off + p_len p" q] by (auto split: prod.splits)
qed simp

function rebuild_aligned_loop ::
    "nat \<Rightarrow> nat \<Rightarrow> bufferlist \<Rightarrow> heap \<Rightarrow> (heap \<times> bufferlist) option" where
  "rebuild_aligned_loop asize amem [] h = Some (h, [])"
| "rebuild_aligned_loop asize amem (p # ps) h =
     (if asize = 0 then None
      else if ptr_is_aligned h amem p \<and> ptr_is_n_align_sized asize p
      then do {
        (h, bl) \<leftarrow> rebuild_aligned_loop asize amem ps h;
        Some (h, p # bl) }
      else let (moved, rest) = take_unaligned h asize amem 0 (p # ps) in do {
        (h, q) \<leftarrow> consolidate amem moved h;
        (h, bl) \<leftarrow> rebuild_aligned_loop asize amem rest h;
        Some (h, q # bl) })"
  by pat_completeness auto
termination
proof (relation "measure (\<lambda>(asize, amem, bl, h). length bl)", goal_cases)
  case (3 asize amem p ps h x moved rest xa h' q)
  then show ?case
    using length_take_unaligned [of h asize amem 0 p ps] by (auto dest!: arg_cong [of "(moved, rest)" _ snd])
qed auto

definition rebuild_aligned_size_and_memory ::
    "nat \<Rightarrow> nat \<Rightarrow> bufferlist \<Rightarrow> heap \<Rightarrow> (heap \<times> bufferlist) option" where
  "rebuild_aligned_size_and_memory asize amem bl h = rebuild_aligned_loop asize amem bl h"

definition rebuild_aligned :: "nat \<Rightarrow> bufferlist \<Rightarrow> heap \<Rightarrow> (heap \<times> bufferlist) option" where
  "rebuild_aligned align bl h = rebuild_aligned_size_and_memory align align bl h"

text \<open>\<open>list::c_str()\<close>: the list is made contiguous first, in place.\<close>

definition bl_c_str :: "bufferlist \<Rightarrow> heap \<Rightarrow> (heap \<times> bufferlist \<times> cptr option) option" where
  "bl_c_str bl h =
     (case bl of
        [] \<Rightarrow> Some (h, [], None)
      | [p] \<Rightarrow> Some (h, [p], Some (ptr_c_str p))
      | _ \<Rightarrow> do {
          (h, bl) \<leftarrow> rebuild bl h;
          (case bl of [] \<Rightarrow> None | p # _ \<Rightarrow> Some (h, bl, Some (ptr_c_str p))) })"

fun skip_off :: "nat \<Rightarrow> bufferlist \<Rightarrow> (nat \<times> bufferlist) option" where
  "skip_off off [] = (if off > 0 then None else Some (off, []))"
| "skip_off off (p # ps) =
     (if off > 0 \<and> off \<ge> p_len p then skip_off (off - p_len p) ps else Some (off, p # ps))"

fun substr_loop :: "nat \<Rightarrow> nat \<Rightarrow> bufferlist \<Rightarrow> bufferlist option" where
  "substr_loop off n [] = (if n > 0 then None else Some [])"
| "substr_loop off n (p # ps) =
     (if n = 0 then Some []
      else if off + n < p_len p then do {
        q \<leftarrow> ptr_sub p off n;
        Some [q] }
      else do {
        let howmuch = p_len p - off;
        q \<leftarrow> ptr_sub p off howmuch;
        qs \<leftarrow> substr_loop 0 (n - howmuch) ps;
        Some (q # qs) })"

definition substr_of :: "bufferlist \<Rightarrow> nat \<Rightarrow> nat \<Rightarrow> bufferlist option" where
  "substr_of other off n =
     (if u32 (off + n) > bl_length other then None
      else do {
        (off, cur) \<leftarrow> skip_off off other;
        assert_that (n = 0 \<or> cur \<noteq> []);
        substr_loop off n cur })"

text \<open>\<open>list::copy(off, len, char *dest)\<close> through the iterator: \<open>advance\<close>, then the
  copying loop.\<close>

fun iter_advance :: "nat \<Rightarrow> bufferlist \<Rightarrow> (nat \<times> bufferlist) option" where
  "iter_advance n [] = (if n > 0 then None else Some (0, []))"
| "iter_advance n (p # ps) =
     (if n > 0 \<and> n \<ge> p_len p then iter_advance (n - p_len p) ps else Some (n, p # ps))"

fun iter_copy :: "nat \<Rightarrow> nat \<Rightarrow> bufferlist \<Rightarrow> cptr \<Rightarrow> heap \<Rightarrow> heap option" where
  "iter_copy poff n [] dest h = (if n > 0 then None else Some h)"
| "iter_copy poff n (p # ps) dest h =
     (if n = 0 then Some h
      else do {
        assert_that (p_len p > 0);
        let howmuch = min n (p_len p - poff);
        bs \<leftarrow> ptr_copy_out h p poff howmuch;
        h \<leftarrow> mem_write h dest bs;
        if n \<le> howmuch then Some h
        else iter_copy 0 (n - howmuch) ps (fst dest, snd dest + howmuch) h })"

definition bl_copy :: "bufferlist \<Rightarrow> nat \<Rightarrow> nat \<Rightarrow> cptr \<Rightarrow> heap \<Rightarrow> heap option" where
  "bl_copy bl off n dest h =
     (if u32 (off + n) > bl_length bl then None
      else do {
        (poff, ps) \<leftarrow> iter_advance off bl;
        iter_copy poff n ps dest h })"

section \<open>What a buffer holds\<close>

text \<open>The bytes seen through a window and through a list: the value every operation above
  is specified by.\<close>

definition ptr_bytes :: "heap \<Rightarrow> bptr \<Rightarrow> byte list" where
  "ptr_bytes h p = take (p_len p) (drop (p_off p) (raw_data (raws h ! p_raw p)))"

definition bl_bytes :: "heap \<Rightarrow> bufferlist \<Rightarrow> byte list" where
  "bl_bytes h bl = concat (map (ptr_bytes h) bl)"

definition ptr_ok :: "heap \<Rightarrow> bptr \<Rightarrow> bool" where
  "ptr_ok h p \<longleftrightarrow> p_len p > 0 \<and> p_raw p < length (raws h)
     \<and> p_off p + p_len p \<le> length (raw_data (raws h ! p_raw p))"

definition bl_ok :: "heap \<Rightarrow> bufferlist \<Rightarrow> bool" where
  "bl_ok h bl \<longleftrightarrow> (\<forall>p\<in>set bl. ptr_ok h p)"

definition bl_raws :: "bufferlist \<Rightarrow> nat set" where
  "bl_raws bl = p_raw ` set bl"

text \<open>\<open>frame W h h'\<close>: between \<open>h\<close> and \<open>h'\<close> memory was only allocated, and of the
  memory of \<open>h\<close> only the raws in \<open>W\<close> were written.\<close>

definition frame :: "nat set \<Rightarrow> heap \<Rightarrow> heap \<Rightarrow> bool" where
  "frame W h h' \<longleftrightarrow> length (raws h) \<le> length (raws h') \<and>
     (\<forall>r<length (raws h). length (raw_data (raws h' ! r)) = length (raw_data (raws h ! r))
        \<and> (r \<notin> W \<longrightarrow> raws h' ! r = raws h ! r))"

named_theorems buf_simps \<open>bytes and lengths of windows and lists\<close>

lemma frame_refl [simp]: "frame W h h"
  by (simp add: frame_def)

lemma frame_mono: "frame W h h' \<Longrightarrow> W \<subseteq> V \<Longrightarrow> frame V h h'"
  by (auto simp: frame_def)

lemma frame_trans: "frame W h h' \<Longrightarrow> frame V h' h'' \<Longrightarrow> frame (W \<union> V) h h''"
  by (auto simp: frame_def)

lemma frame_fresh: "frame W h h' \<Longrightarrow> (\<And>r. r \<in> W \<Longrightarrow> r < length (raws h) \<Longrightarrow> r \<in> V) \<Longrightarrow> frame V h h'"
  by (auto simp: frame_def)

lemma frame_step:
  "frame V h h' \<Longrightarrow> frame W h' h'' \<Longrightarrow> (\<And>r. r \<in> W \<Longrightarrow> r < length (raws h) \<Longrightarrow> r \<in> V) \<Longrightarrow> frame V h h''"
  by (rule frame_fresh [OF frame_trans]) auto

lemma frame_length: "frame W h h' \<Longrightarrow> length (raws h) \<le> length (raws h')"
  by (simp add: frame_def)

lemma frame_ptr_ok: "frame W h h' \<Longrightarrow> ptr_ok h p \<Longrightarrow> ptr_ok h' p"
  by (auto simp: frame_def ptr_ok_def)

lemma frame_bl_ok: "frame W h h' \<Longrightarrow> bl_ok h bl \<Longrightarrow> bl_ok h' bl"
  by (auto simp: bl_ok_def frame_ptr_ok)

lemma frame_ptr_bytes: "frame W h h' \<Longrightarrow> ptr_ok h p \<Longrightarrow> p_raw p \<notin> W \<Longrightarrow> ptr_bytes h' p = ptr_bytes h p"
  by (auto simp: frame_def ptr_ok_def ptr_bytes_def)

lemma frame_bl_bytes:
  "frame W h h' \<Longrightarrow> bl_ok h bl \<Longrightarrow> bl_raws bl \<inter> W = {} \<Longrightarrow> bl_bytes h' bl = bl_bytes h bl"
  unfolding bl_bytes_def bl_ok_def bl_raws_def
  by (intro arg_cong [of _ _ concat] map_cong refl frame_ptr_bytes [of W]) auto

lemma length_ptr_bytes [buf_simps]: "ptr_ok h p \<Longrightarrow> length (ptr_bytes h p) = p_len p"
  by (auto simp: ptr_ok_def ptr_bytes_def)

lemma bl_simps [simp]:
  "bl_bytes h [] = []" "bl_bytes h (p # ps) = ptr_bytes h p @ bl_bytes h ps"
  "bl_length [] = 0" "bl_length (p # ps) = p_len p + bl_length ps"
  "bl_ok h []" "bl_ok h (p # ps) \<longleftrightarrow> ptr_ok h p \<and> bl_ok h ps"
  "bl_raws [] = {}" "bl_raws (p # ps) = insert (p_raw p) (bl_raws ps)"
  by (auto simp: bl_bytes_def bl_length_def bl_ok_def bl_raws_def)

lemma bl_append_simps [simp]:
  "bl_bytes h (ps @ qs) = bl_bytes h ps @ bl_bytes h qs"
  "bl_length (ps @ qs) = bl_length ps + bl_length qs"
  "bl_ok h (ps @ qs) \<longleftrightarrow> bl_ok h ps \<and> bl_ok h qs"
  "bl_raws (ps @ qs) = bl_raws ps \<union> bl_raws qs"
  by (auto simp: bl_bytes_def bl_length_def bl_ok_def bl_raws_def)

lemma length_bl_bytes [buf_simps]: "bl_ok h bl \<Longrightarrow> length (bl_bytes h bl) = bl_length bl"
  by (induction bl) (auto simp: length_ptr_bytes)

lemma bl_ok_raws: "bl_ok h bl \<Longrightarrow> r \<in> bl_raws bl \<Longrightarrow> r < length (raws h)"
  by (auto simp: bl_ok_def bl_raws_def ptr_ok_def)

lemma bl_length_0: "bl_ok h bl \<Longrightarrow> bl_length bl = 0 \<longleftrightarrow> bl = []"
  by (cases bl) (auto simp: ptr_ok_def)

section \<open>Every operation acts on the bytes as its name says\<close>

subsection \<open>Raw memory\<close>

lemma length_splice_at [simp]: "off + length bs \<le> length d \<Longrightarrow> length (splice_at off bs d) = length d"
  by (simp add: splice_at_def)

lemma splice_at_Nil [simp]: "splice_at off [] d = d"
  by (simp add: splice_at_def)

lemma splice_at_splice_at:
  "off + length bs + length cs \<le> length d \<Longrightarrow>
   splice_at (off + length bs) cs (splice_at off bs d) = splice_at off (bs @ cs) d"
  by (simp add: splice_at_def ac_simps)

lemma take_drop_splice_at:
  "off + length bs \<le> length d \<Longrightarrow> n = length bs \<Longrightarrow> take n (drop off (splice_at off bs d)) = bs"
  by (simp add: splice_at_def)

lemma mem_read_ptr: "ptr_ok h p \<Longrightarrow> mem_read h (ptr_c_str p) (p_len p) = Some (ptr_bytes h p)"
  by (auto simp: mem_read_def ptr_c_str_def ptr_ok_def ptr_bytes_def)

text \<open>A write inside a raw succeeds, stays inside it and stores exactly the bytes given.\<close>

lemma mem_write_ok:
  assumes "r < length (raws h)" and "off + length bs \<le> length (raw_data (raws h ! r))"
  shows "\<exists>h'. mem_write h (r, off) bs = Some h' \<and> frame {r} h h' \<and>
      length (raws h') = length (raws h) \<and>
      raw_data (raws h' ! r) = splice_at off bs (raw_data (raws h ! r))"
  using assms by (auto simp: mem_write_def frame_def nth_list_update)

lemma mem_write_ptr:
  assumes "ptr_ok h p" and "length bs = p_len p"
  shows "\<exists>h'. mem_write h (ptr_c_str p) bs = Some h' \<and> frame {p_raw p} h h' \<and>
      length (raws h') = length (raws h) \<and> ptr_bytes h' p = bs"
  using mem_write_ok [of "p_raw p" h "p_off p" bs] assms
  by (auto simp: ptr_ok_def ptr_c_str_def ptr_bytes_def take_drop_splice_at)

lemma create_aligned_spec:
  assumes "create_aligned n align h = (h', r)"
  shows "r = length (raws h)" "frame {} h h'" "length (raws h') = Suc r"
    "length (raw_data (raws h' ! r)) = n" "ptr_of_raw h' r = \<lparr>p_raw = r, p_off = 0, p_len = n\<rparr>"
    "n > 0 \<Longrightarrow> ptr_ok h' (ptr_of_raw h' r)"
  using assms
  by (auto simp: create_aligned_def Let_def frame_def ptr_of_raw_def ptr_ok_def nth_append)

subsection \<open>Rebuilding a list into one buffer\<close>

lemma rebuild_copy_spec:
  assumes "p_raw nb < length (raws h)"
    and "p_off nb + p_len nb \<le> length (raw_data (raws h ! p_raw nb))"
    and "bl_ok h ps" and "p_raw nb \<notin> bl_raws ps" and "pos + bl_length ps \<le> p_len nb"
  shows "\<exists>h'. rebuild_copy nb pos ps h = Some h' \<and> frame {p_raw nb} h h' \<and>
      length (raws h') = length (raws h) \<and>
      raw_data (raws h' ! p_raw nb) =
        splice_at (p_off nb + pos) (bl_bytes h ps) (raw_data (raws h ! p_raw nb))"
  using assms
proof (induction ps arbitrary: pos h)
  case (Cons p ps)
  let ?r = "p_raw nb" and ?o = "p_off nb + pos"
  have p: "ptr_ok h p" and len: "length (ptr_bytes h p) = p_len p"
    using Cons.prems by (auto simp: buf_simps)
  have "?o + length (ptr_bytes h p) \<le> length (raw_data (raws h ! ?r))"
    using Cons.prems len by auto
  from mem_write_ok [OF Cons.prems(1) this] obtain h1 where
    w: "mem_write h (?r, ?o) (ptr_bytes h p) = Some h1" and f1: "frame {?r} h h1"
    and l1: "length (raws h1) = length (raws h)"
    and d1: "raw_data (raws h1 ! ?r) = splice_at ?o (ptr_bytes h p) (raw_data (raws h ! ?r))"
    by blast
  have ld: "length (raw_data (raws h1 ! ?r)) = length (raw_data (raws h ! ?r))"
    using f1 Cons.prems(1) by (simp add: frame_def)
  have okps: "bl_ok h1 ps" and bps: "bl_bytes h1 ps = bl_bytes h ps"
    using frame_bl_ok [OF f1] frame_bl_bytes [OF f1] Cons.prems by auto
  obtain h2 where r: "rebuild_copy nb (pos + p_len p) ps h1 = Some h2"
    and f2: "frame {?r} h1 h2" and l2: "length (raws h2) = length (raws h1)"
    and d2: "raw_data (raws h2 ! ?r) =
        splice_at (p_off nb + (pos + p_len p)) (bl_bytes h1 ps) (raw_data (raws h1 ! ?r))"
    using Cons.IH [of h1 "pos + p_len p"] Cons.prems okps l1 ld by auto
  have "raw_data (raws h2 ! ?r) =
      splice_at (?o + length (ptr_bytes h p)) (bl_bytes h ps)
        (splice_at ?o (ptr_bytes h p) (raw_data (raws h ! ?r)))"
    using d1 d2 bps len by (simp add: ac_simps)
  also have "\<dots> = splice_at ?o (ptr_bytes h p @ bl_bytes h ps) (raw_data (raws h ! ?r))"
    using Cons.prems len by (intro splice_at_splice_at) (auto simp: buf_simps)
  finally have d: "raw_data (raws h2 ! ?r) =
      splice_at ?o (bl_bytes h (p # ps)) (raw_data (raws h ! ?r))" by simp
  have "rebuild_copy nb pos (p # ps) h = Some h2"
    using Cons.prems w r len by (simp add: mem_read_ptr [OF p] ptr_copy_in_def)
  moreover have "frame {?r} h h2"
    using frame_trans [OF f1 f2] by simp
  ultimately show ?case using d l1 l2 by auto
qed simp

lemma rebuild_into_spec:
  assumes "ptr_ok h nb" "bl_ok h ps" "p_raw nb \<notin> bl_raws ps" "bl_length ps = p_len nb"
  shows "\<exists>h'. rebuild_into nb ps h = Some (h', [nb]) \<and> frame {p_raw nb} h h' \<and>
      length (raws h') = length (raws h) \<and> ptr_bytes h' nb = bl_bytes h ps"
proof -
  obtain h' where "rebuild_copy nb 0 ps h = Some h'" "frame {p_raw nb} h h'"
    "length (raws h') = length (raws h)"
    "raw_data (raws h' ! p_raw nb) = splice_at (p_off nb) (bl_bytes h ps) (raw_data (raws h ! p_raw nb))"
    using rebuild_copy_spec [of nb h ps 0] assms by (auto simp: ptr_ok_def)
  with assms show ?thesis
    by (auto simp: rebuild_into_def ptr_bytes_def ptr_ok_def take_drop_splice_at buf_simps)
qed

text \<open>A list copied into a fresh buffer: the pattern of \<open>rebuild\<close> and \<open>consolidate\<close>.\<close>

lemma rebuild_fresh:
  assumes "create_aligned (bl_length ps) align h = (h1, r)" and "bl_ok h ps" "ps \<noteq> []"
  shows "\<exists>h2. rebuild_into (ptr_of_raw h1 r) ps h1 = Some (h2, [ptr_of_raw h1 r]) \<and>
      frame {} h h2 \<and> ptr_ok h2 (ptr_of_raw h1 r) \<and> p_len (ptr_of_raw h1 r) = bl_length ps \<and>
      p_raw (ptr_of_raw h1 r) = length (raws h) \<and> ptr_bytes h2 (ptr_of_raw h1 r) = bl_bytes h ps"
proof -
  note c = create_aligned_spec [OF assms(1)]
  have pos: "bl_length ps > 0"
    using bl_length_0 [OF assms(2)] assms(3) by simp
  let ?nb = "ptr_of_raw h1 r"
  have nb: "ptr_ok h1 ?nb" "p_raw ?nb = length (raws h)" "p_len ?nb = bl_length ps"
    using c pos by (auto simp: ptr_of_raw_def)
  have ok: "bl_ok h1 ps" "p_raw ?nb \<notin> bl_raws ps" "bl_bytes h1 ps = bl_bytes h ps"
    using frame_bl_ok [OF c(2) assms(2)] frame_bl_bytes [OF c(2) assms(2)] bl_ok_raws [OF assms(2)] nb
    by auto
  obtain h2 where "rebuild_into ?nb ps h1 = Some (h2, [?nb])" "frame {p_raw ?nb} h1 h2"
      "ptr_bytes h2 ?nb = bl_bytes h1 ps"
    using rebuild_into_spec [OF nb(1) ok(1,2)] nb by auto
  moreover from this(2) have "frame {} h h2" "ptr_ok h2 ?nb"
    using frame_step [OF c(2)] nb frame_ptr_ok by auto
  ultimately show ?thesis using nb ok by auto
qed

text \<open>The outcome of making (part of) a list contiguous: one window with the same bytes,
  either one of the old windows or a fresh buffer.\<close>

definition gathered :: "heap \<Rightarrow> bufferlist \<Rightarrow> heap \<Rightarrow> bptr \<Rightarrow> bool" where
  "gathered h bl h' q \<longleftrightarrow> frame {} h h' \<and> ptr_ok h' q \<and> p_len q = bl_length bl \<and>
     ptr_bytes h' q = bl_bytes h bl \<and> (p_raw q \<in> bl_raws bl \<or> length (raws h) \<le> p_raw q)"

lemma rebuild_spec:
  assumes "bl_ok h bl" "bl \<noteq> []"
  shows "\<exists>h' q. rebuild bl h = Some (h', [q]) \<and> gathered h bl h' q"
proof -
  have "bl_length bl \<noteq> 0"
    using bl_length_0 [OF assms(1)] assms(2) by simp
  then have "rebuild bl h = (let (h1, r) = create_aligned (bl_length bl)
      (if bl_length bl mod CEPH_PAGE_SIZE = 0 then CEPH_PAGE_SIZE else 8) h
      in rebuild_into (ptr_of_raw h1 r) bl h1)"
    by (simp add: rebuild_def create_page_aligned_def create_def)
  then obtain align where al: "rebuild bl h =
      (let (h1, r) = create_aligned (bl_length bl) align h in rebuild_into (ptr_of_raw h1 r) bl h1)"
    by blast
  obtain h1 r where c: "create_aligned (bl_length bl) align h = (h1, r)"
    by fastforce
  from rebuild_fresh [OF c assms] c al show ?thesis
    by (auto simp: gathered_def)
qed

lemma bl_c_str_spec:
  assumes "bl_ok h bl" "bl \<noteq> []"
  shows "\<exists>h' q. bl_c_str bl h = Some (h', [q], Some (ptr_c_str q)) \<and> gathered h bl h' q"
proof (cases "tl bl = []")
  case True
  with assms obtain p where "bl = [p]" by (cases bl) auto
  with assms show ?thesis by (auto simp: bl_c_str_def gathered_def)
next
  case False
  with assms obtain p q ps where bl: "bl = p # q # ps"
    by (metis list.exhaust list.sel(3))
  from rebuild_spec [OF assms] obtain h' x where
    "rebuild bl h = Some (h', [x])" "gathered h bl h' x" by blast
  with bl show ?thesis by (auto simp: bl_c_str_def)
qed

lemma fold_push_back: "bl_ok h ps \<Longrightarrow> fold push_back ps qs = qs @ ps"
  by (induction ps arbitrary: qs) (auto simp: push_back_def ptr_ok_def)

lemma consolidate_spec:
  assumes "bl_ok h ps" "ps \<noteq> []"
  shows "\<exists>h' q. consolidate amem ps h = Some (h', q) \<and> gathered h ps h' q"
proof -
  have un: "fold push_back ps [] = ps"
    using fold_push_back [OF assms(1)] by simp
  from assms obtain p qs where ps: "ps = p # qs" by (cases ps) auto
  show ?thesis
  proof (cases "is_contiguous ps \<and> ptr_is_aligned h amem p")
    case True
    with ps have "qs = []" by (simp add: is_contiguous_def)
    with True ps un assms show ?thesis by (auto simp: consolidate_def gathered_def)
  next
    case False
    obtain h1 r where c: "create_aligned (bl_length ps) amem h = (h1, r)" by fastforce
    from rebuild_fresh [OF c assms] obtain h2 where
      "rebuild_into (ptr_of_raw h1 r) ps h1 = Some (h2, [ptr_of_raw h1 r])"
      "gathered h ps h2 (ptr_of_raw h1 r)"
      by (auto simp: gathered_def)
    with False c un ps show ?thesis by (auto simp: consolidate_def Let_def)
  qed
qed

lemma take_unaligned_split:
  "take_unaligned h asize amem off (p # ps) = (us, rest) \<Longrightarrow> p # ps = us @ rest \<and> us \<noteq> []"
proof (induction ps arbitrary: p off us)
  case (Cons q ps)
  then show ?case
    by (cases "take_unaligned h asize amem (off + p_len p) (q # ps)") (auto split: if_splits)
qed auto

lemma frame_empty_bl:
  assumes "frame {} h h'" "bl_ok h bl"
  shows "bl_ok h' bl" "bl_bytes h' bl = bl_bytes h bl"
  using frame_bl_ok [OF assms] frame_bl_bytes [OF assms] by auto

text \<open>Realigning a list keeps its bytes and the memory it does not own; nothing but
  fresh buffers replaces its windows.\<close>

definition realigned :: "heap \<Rightarrow> bufferlist \<Rightarrow> heap \<Rightarrow> bufferlist \<Rightarrow> bool" where
  "realigned h bl h' bl' \<longleftrightarrow> frame {} h h' \<and> bl_ok h' bl' \<and> bl_bytes h' bl' = bl_bytes h bl \<and>
     bl_length bl' = bl_length bl \<and> (\<forall>r\<in>bl_raws bl'. r \<in> bl_raws bl \<or> length (raws h) \<le> r)"

lemma realigned_Cons:
  assumes "gathered h us h1 q" "realigned h1 rest h2 bl'" "bl_ok h rest"
  shows "realigned h (us @ rest) h2 (q # bl')"
proof -
  have f: "frame {} h h1" "frame {} h1 h2" using assms by (auto simp: gathered_def realigned_def)
  have q: "ptr_ok h2 q" "ptr_bytes h2 q = bl_bytes h us"
    using f(2) assms(1) by (auto simp: gathered_def frame_ptr_ok frame_ptr_bytes)
  show ?thesis
    using frame_trans [OF f] frame_length [OF f(1)] q frame_empty_bl [OF f(1) assms(3)] assms
    by (fastforce simp: gathered_def realigned_def)
qed

lemma gathered_refl: "ptr_ok h p \<Longrightarrow> gathered h [p] h p"
  by (simp add: gathered_def)

lemma rebuild_aligned_loop_spec:
  assumes "bl_ok h bl" "asize > 0"
  shows "\<exists>h' bl'. rebuild_aligned_loop asize amem bl h = Some (h', bl') \<and> realigned h bl h' bl'"
  using assms
proof (induction asize amem bl h rule: rebuild_aligned_loop.induct)
  case (2 asize amem p ps h)
  show ?case
  proof (cases "ptr_is_aligned h amem p \<and> ptr_is_n_align_sized asize p")
    case True
    with 2 obtain h' bl' where "rebuild_aligned_loop asize amem ps h = Some (h', bl')"
        "realigned h ps h' bl'"
      by auto
    with True 2 realigned_Cons [OF gathered_refl [of h p]] show ?thesis by auto
  next
    case False
    obtain us rest where t: "take_unaligned h asize amem 0 (p # ps) = (us, rest)" by fastforce
    note sp = take_unaligned_split [OF t]
    then have ok: "bl_ok h us" "bl_ok h rest" "us \<noteq> []"
      using 2 by (metis bl_append_simps(3), metis bl_append_simps(3), blast)
    from consolidate_spec [OF ok(1,3)] obtain h1 q where
      c: "consolidate amem us h = Some (h1, q)" "gathered h us h1 q" by blast
    have "bl_ok h1 rest"
      using c(2) ok by (auto simp: gathered_def frame_empty_bl)
    then have "\<exists>h2 bl'. rebuild_aligned_loop asize amem rest h1 = Some (h2, bl') \<and> realigned h1 rest h2 bl'"
      using "2.IH"(2) [of "(us, rest)" us rest "(h1, q)" h1 q] "2.prems" False t c by simp
    then obtain h2 bl' where
      l: "rebuild_aligned_loop asize amem rest h1 = Some (h2, bl')" "realigned h1 rest h2 bl'"
      by blast
    have "rebuild_aligned_loop asize amem (p # ps) h = Some (h2, q # bl')"
      using False t c l "2.prems" by auto
    moreover have "realigned h (p # ps) h2 (q # bl')"
      using realigned_Cons [OF c(2) l(2) ok(2)] sp by simp
    ultimately show ?thesis by blast
  qed
qed (auto simp: realigned_def)

text \<open>When the list holds exactly \<open>align_size\<close> bytes the result is one window.\<close>

lemma not_sized_short: "ptr_ok h p \<Longrightarrow> p_len p < asize \<Longrightarrow> \<not> ptr_is_n_align_sized asize p"
  by (auto simp: ptr_is_n_align_sized_def ptr_ok_def)

lemma take_unaligned_all:
  assumes "bl_ok h (p # ps)" "p_len p > 0" "off + bl_length (p # ps) \<le> asize"
  shows "take_unaligned h asize amem off (p # ps) = (p # ps, [])"
  using assms
proof (induction ps arbitrary: p off)
  case (Cons q ps)
  then have "\<not> ptr_is_n_align_sized asize q"
    using not_sized_short [of h q asize] by auto
  moreover have "take_unaligned h asize amem (off + p_len p) (q # ps) = (q # ps, [])"
    using Cons by (intro Cons.IH) (auto simp: ptr_ok_def)
  ultimately show ?case by simp
qed simp

lemma rebuild_aligned_exact:
  assumes "bl_ok h bl" "bl_length bl = asize" "asize > 0"
  shows "\<exists>h' q. rebuild_aligned_size_and_memory asize amem bl h = Some (h', [q]) \<and> gathered h bl h' q"
proof -
  from assms obtain p ps where bl: "bl = p # ps" by (cases bl) auto
  show ?thesis
  proof (cases "ptr_is_aligned h amem p \<and> ptr_is_n_align_sized asize p")
    case True
    then have "\<not> p_len p < asize" using assms bl not_sized_short by auto
    with assms bl have "ps = []" by (cases ps) (auto simp: ptr_ok_def)
    with True assms bl show ?thesis
      by (auto simp: rebuild_aligned_size_and_memory_def gathered_refl)
  next
    case False
    have "take_unaligned h asize amem 0 (p # ps) = (p # ps, [])"
      using assms bl by (intro take_unaligned_all) (auto simp: ptr_ok_def)
    moreover obtain h' q where "consolidate amem (p # ps) h = Some (h', q)" "gathered h bl h' q"
      using consolidate_spec [of h "p # ps" amem] assms bl by auto
    ultimately show ?thesis
      using False assms bl by (auto simp: rebuild_aligned_size_and_memory_def)
  qed
qed

subsection \<open>Parts of a list\<close>

lemma skip_off_spec:
  assumes "bl_ok h bl" "off \<le> bl_length bl"
  shows "\<exists>off' cur. skip_off off bl = Some (off', cur) \<and> bl_ok h cur \<and> bl_raws cur \<subseteq> bl_raws bl \<and>
      off' + bl_length bl = off + bl_length cur \<and> (cur = [] \<longrightarrow> off' = 0) \<and>
      (\<forall>p ps. cur = p # ps \<longrightarrow> off' < p_len p) \<and>
      drop off' (bl_bytes h cur) = drop off (bl_bytes h bl)"
  using assms
proof (induction bl arbitrary: off)
  case (Cons p ps)
  show ?case
  proof (cases "off > 0 \<and> off \<ge> p_len p")
    case True
    then have "off - p_len p \<le> bl_length ps" "bl_ok h ps" using Cons.prems by auto
    from Cons.IH [OF this(2,1)] obtain off' cur where "skip_off (off - p_len p) ps = Some (off', cur)"
      "bl_ok h cur \<and> bl_raws cur \<subseteq> bl_raws ps \<and> off' + bl_length ps = off - p_len p + bl_length cur
       \<and> (cur = [] \<longrightarrow> off' = 0) \<and> (\<forall>p ps. cur = p # ps \<longrightarrow> off' < p_len p) \<and>
       drop off' (bl_bytes h cur) = drop (off - p_len p) (bl_bytes h ps)"
      by auto
    with True Cons.prems show ?thesis by (auto simp: buf_simps)
  qed (use Cons.prems in \<open>auto simp: ptr_ok_def\<close>)
qed simp

lemma iter_advance_skip: "bl_ok h bl \<Longrightarrow> iter_advance n bl = skip_off n bl"
  by (induction bl arbitrary: n) auto

lemma ptr_sub_spec:
  assumes "ptr_ok h p" "off + n \<le> p_len p" "n > 0"
  shows "\<exists>q. ptr_sub p off n = Some q \<and> ptr_ok h q \<and> p_len q = n \<and> p_raw q = p_raw p \<and>
     ptr_bytes h q = take n (drop off (ptr_bytes h p))"
proof -
  have "take n (drop (p_off p + off) (raw_data (raws h ! p_raw p))) = take n (drop off (ptr_bytes h p))"
    using assms by (simp add: ptr_bytes_def drop_take min_def add.commute)
  then show ?thesis
    using assms by (auto simp: ptr_sub_def ptr_ok_def ptr_bytes_def)
qed

lemma substr_loop_spec:
  assumes "bl_ok h bl" "off + n \<le> bl_length bl" "\<forall>p ps. bl = p # ps \<longrightarrow> off < p_len p"
  shows "\<exists>bl'. substr_loop off n bl = Some bl' \<and> bl_ok h bl' \<and> bl_length bl' = n \<and>
      bl_raws bl' \<subseteq> bl_raws bl \<and> bl_bytes h bl' = take n (drop off (bl_bytes h bl))"
  using assms
proof (induction off n bl rule: substr_loop.induct)
  case (2 off n p ps)
  then have p: "ptr_ok h p" "off < p_len p" "length (ptr_bytes h p) = p_len p"
    by (auto simp: buf_simps)
  consider "n = 0" | "n > 0" "off + n < p_len p" | "n > 0" "p_len p \<le> off + n" by linarith
  then show ?case
  proof cases
    case 2
    with ptr_sub_spec [of h p off n] p show ?thesis by auto
  next
    case 3
    let ?m = "p_len p - off"
    from ptr_sub_spec [of h p off ?m] p obtain q where
      q: "ptr_sub p off ?m = Some q" "ptr_ok h q" "p_len q = ?m" "p_raw q = p_raw p"
        "ptr_bytes h q = drop off (ptr_bytes h p)" by auto
    have "\<forall>r rs. ps = r # rs \<longrightarrow> 0 < p_len r"
      using "2.prems" by (auto simp: ptr_ok_def)
    moreover have "n - ?m \<le> bl_length ps" using "2.prems" 3 p by auto
    ultimately obtain qs where "substr_loop 0 (n - ?m) ps = Some qs" "bl_ok h qs" "bl_length qs = n - ?m"
        "bl_raws qs \<subseteq> bl_raws ps" "bl_bytes h qs = take (n - ?m) (bl_bytes h ps)"
      using "2.IH" [of "?m"] "2.prems" 3 q by (auto simp del: diff_diff_left)
    with q 3 p show ?thesis by (auto simp: Let_def)
  qed simp
qed simp

lemma substr_of_spec:
  assumes "bl_ok h bl" "off + n \<le> bl_length bl" "bl_length bl < 2 ^ 32"
  shows "\<exists>bl'. substr_of bl off n = Some bl' \<and> bl_ok h bl' \<and> bl_length bl' = n \<and>
      bl_raws bl' \<subseteq> bl_raws bl \<and> bl_bytes h bl' = take n (drop off (bl_bytes h bl))"
proof -
  obtain off' cur where s: "skip_off off bl = Some (off', cur)" "bl_ok h cur" "bl_raws cur \<subseteq> bl_raws bl"
      "off' + bl_length bl = off + bl_length cur" "cur = [] \<longrightarrow> off' = 0"
      "\<forall>p ps. cur = p # ps \<longrightarrow> off' < p_len p" "drop off' (bl_bytes h cur) = drop off (bl_bytes h bl)"
    using skip_off_spec [OF assms(1), of off] assms(2) by auto
  obtain bl' where "substr_loop off' n cur = Some bl'" "bl_ok h bl'" "bl_length bl' = n"
      "bl_raws bl' \<subseteq> bl_raws cur" "bl_bytes h bl' = take n (drop off' (bl_bytes h cur))"
    using substr_loop_spec [OF s(2), of off' n] s assms by auto
  moreover have "n = 0 \<or> cur \<noteq> []"
    using s assms by (cases cur) auto
  ultimately show ?thesis
    using s assms by (auto simp: substr_of_def)
qed

lemma iter_copy_spec:
  assumes "bl_ok h bl" "poff + n \<le> bl_length bl" "\<forall>p ps. bl = p # ps \<longrightarrow> poff < p_len p"
    and "r < length (raws h)" "doff + n \<le> length (raw_data (raws h ! r))" "r \<notin> bl_raws bl"
  shows "\<exists>h'. iter_copy poff n bl (r, doff) h = Some h' \<and> frame {r} h h' \<and>
      length (raws h') = length (raws h) \<and>
      raw_data (raws h' ! r) = splice_at doff (take n (drop poff (bl_bytes h bl))) (raw_data (raws h ! r))"
  using assms
proof (induction bl arbitrary: poff n doff h)
  case (Cons p ps)
  have p: "ptr_ok h p" "poff < p_len p" "length (ptr_bytes h p) = p_len p"
    using Cons.prems by (auto simp: buf_simps)
  let ?m = "min n (p_len p - poff)"
  let ?bs = "take ?m (drop poff (ptr_bytes h p))"
  have lbs: "length ?bs = ?m" using p by simp
  have out: "ptr_copy_out h p poff ?m = Some ?bs"
    using p by (auto simp: ptr_copy_out_def mem_read_def ptr_ok_def ptr_bytes_def drop_take min_def ac_simps)
  have "doff + length ?bs \<le> length (raw_data (raws h ! r))"
    unfolding lbs using Cons.prems(5) by linarith
  from mem_write_ok [OF Cons.prems(4) this]
  obtain h1 where w: "mem_write h (r, doff) ?bs = Some h1" and f1: "frame {r} h h1"
    and l1: "length (raws h1) = length (raws h)"
    and d1: "raw_data (raws h1 ! r) = splice_at doff ?bs (raw_data (raws h ! r))"
    by blast
  show ?case
  proof (cases "n \<le> p_len p - poff")
    case True
    then have "take n (drop poff (bl_bytes h (p # ps))) = ?bs" using p by simp
    moreover have "?m = n" using True by simp
    ultimately show ?thesis
      using p w f1 d1 out l1 by (cases "n = 0") (auto simp: Let_def ptr_ok_def)
  next
    case False
    then have m: "?m = p_len p - poff" "n > 0" by auto
    have ps: "bl_ok h1 ps" "bl_bytes h1 ps = bl_bytes h ps"
      using frame_bl_ok [OF f1] frame_bl_bytes [OF f1] Cons.prems by auto
    have ld: "length (raw_data (raws h1 ! r)) = length (raw_data (raws h ! r))"
      using f1 Cons.prems by (simp add: frame_def)
    have hd: "\<forall>q qs. ps = q # qs \<longrightarrow> 0 < p_len q" using Cons.prems by (auto simp: ptr_ok_def)
    have pre: "0 + (n - ?m) \<le> bl_length ps" "r < length (raws h1)" "r \<notin> bl_raws ps"
        "doff + ?m + (n - ?m) \<le> length (raw_data (raws h1 ! r))"
      using Cons.prems l1 ld m by auto
    from Cons.IH [OF ps(1) pre(1) hd pre(2,4,3)]
    obtain h2 where i: "iter_copy 0 (n - ?m) ps (r, doff + ?m) h1 = Some h2" and f2: "frame {r} h1 h2"
      and l2: "length (raws h2) = length (raws h1)"
      and d2: "raw_data (raws h2 ! r) =
         splice_at (doff + ?m) (take (n - ?m) (bl_bytes h ps)) (raw_data (raws h1 ! r))"
      using ps(2) by auto
    have "doff + length ?bs + length (take (n - ?m) (bl_bytes h ps)) \<le> length (raw_data (raws h ! r))"
      unfolding lbs length_take using pre(4) ld by linarith
    note splice_at_splice_at [OF this]
    then have "raw_data (raws h2 ! r) = splice_at doff (?bs @ take (n - ?m) (bl_bytes h ps)) (raw_data (raws h ! r))"
      unfolding d2 d1 lbs .
    also have "?bs @ take (n - ?m) (bl_bytes h ps) = take n (drop poff (bl_bytes h (p # ps)))"
      using m p False by simp
    finally have d: "raw_data (raws h2 ! r) = splice_at doff (take n (drop poff (bl_bytes h (p # ps)))) (raw_data (raws h ! r))" .
    have "iter_copy poff n (p # ps) (r, doff) h = Some h2"
      using m out w i p False by (simp add: Let_def)
    then show ?thesis using d l1 l2 frame_trans [OF f1 f2] by auto
  qed
qed simp

lemma bl_copy_spec:
  assumes "bl_ok h bl" "off + n \<le> bl_length bl" "bl_length bl < 2 ^ 32"
    and "r < length (raws h)" "doff + n \<le> length (raw_data (raws h ! r))" "r \<notin> bl_raws bl"
  shows "\<exists>h'. bl_copy bl off n (r, doff) h = Some h' \<and> frame {r} h h' \<and>
      length (raws h') = length (raws h) \<and>
      raw_data (raws h' ! r) = splice_at doff (take n (drop off (bl_bytes h bl))) (raw_data (raws h ! r))"
proof -
  obtain off' cur where s: "skip_off off bl = Some (off', cur)" "bl_ok h cur" "bl_raws cur \<subseteq> bl_raws bl"
      "off' + bl_length bl = off + bl_length cur" "cur = [] \<longrightarrow> off' = 0"
      "\<forall>p ps. cur = p # ps \<longrightarrow> off' < p_len p" "drop off' (bl_bytes h cur) = drop off (bl_bytes h bl)"
    using skip_off_spec [OF assms(1), of off] assms(2) by auto
  have "off' + n \<le> bl_length cur" "r \<notin> bl_raws cur" using s assms by auto
  from iter_copy_spec [OF s(2) this(1) s(6) assms(4,5) this(2)] s assms show ?thesis
    by (simp add: bl_copy_def iter_advance_skip [of h bl])
qed

end
