(* ===== verification/Strtol.thy ===== *)
theory Strtol
  imports EC_Prelude
begin

text \<open>
  \<open>src/src/common/strtol.cc\<close>: the integer parser every profile parameter goes through.
  \<open>strtoll\<close> belongs to the C library and is modelled for base 10, the only base the
  erasure code uses: white space, an optional sign, digits, saturation at the bounds of
  \<open>long long\<close>. The error text of the source is kept as the reason it names. \<open>strict_si_cast\<close> reads
  a number with a unit into any of the integer types it is instantiated for.
\<close>

datatype strtol_error = ExpectedInteger | SeemsInvalid | InvalidDigits

definition LLONG_MAX :: int where "LLONG_MAX = 2 ^ 63 - 1"
definition LLONG_MIN :: int where "LLONG_MIN = - (2 ^ 63)"
definition INT_MAX :: int where "INT_MAX = 2 ^ 31 - 1"
definition INT_MIN :: int where "INT_MIN = - (2 ^ 31)"

definition is_space :: "char \<Rightarrow> bool" where
  "is_space c \<longleftrightarrow> (of_char c :: nat) = 32 \<or> 9 \<le> (of_char c :: nat) \<and> (of_char c :: nat) \<le> 13"

definition is_digit :: "char \<Rightarrow> bool" where
  "is_digit c \<longleftrightarrow> 48 \<le> (of_char c :: nat) \<and> (of_char c :: nat) \<le> 57"

definition digit_value :: "char \<Rightarrow> int" where
  "digit_value c = int (of_char c - 48)"

text \<open>\<open>std::string::c_str()\<close> as a C function reads it: up to the first NUL.\<close>

definition str_c_str :: "string \<Rightarrow> string" where
  "str_c_str s = takeWhile (\<lambda>c. (of_char c :: nat) \<noteq> 0) s"

definition digits_value :: "string \<Rightarrow> int" where
  "digits_value ds = foldl (\<lambda>v c. 10 * v + digit_value c) 0 ds"

text \<open>The result of \<open>strtoll\<close>: the value, whether \<open>errno\<close> became \<open>ERANGE\<close>, and the text
  from \<open>endptr\<close> on (\<open>None\<close> when \<open>endptr\<close> is the start: there was no number).\<close>

definition strtoll :: "string \<Rightarrow> int \<times> bool \<times> string option" where
  "strtoll s =
     (let t = dropWhile is_space s;
          neg = (t \<noteq> [] \<and> hd t = CHR ''-'');
          u = (if t \<noteq> [] \<and> (hd t = CHR ''-'' \<or> hd t = CHR ''+'') then tl t else t);
          ds = takeWhile is_digit u;
          v = (if neg then - digits_value ds else digits_value ds)
      in if ds = [] then (0, False, None)
         else if v > LLONG_MAX then (LLONG_MAX, True, Some (dropWhile is_digit u))
         else if v < LLONG_MIN then (LLONG_MIN, True, Some (dropWhile is_digit u))
         else (v, False, Some (dropWhile is_digit u)))"

definition strict_strtoll :: "string \<Rightarrow> strtol_error + int" where
  "strict_strtoll str =
     (let (ret, erange, endptr) = strtoll str in
      case endptr of
        None \<Rightarrow> Inl ExpectedInteger
      | Some rest \<Rightarrow>
          if (erange \<and> (ret = LLONG_MAX \<or> ret = LLONG_MIN)) \<or> (erange \<and> ret = 0) then Inl SeemsInvalid
          else if rest \<noteq> [] then Inl InvalidDigits
          else Inr ret)"

definition strict_strtol :: "string \<Rightarrow> strtol_error + int" where
  "strict_strtol str =
     (case strict_strtoll str of
        Inl e \<Rightarrow> Inl e
      | Inr ret \<Rightarrow> if ret \<le> INT_MIN \<or> ret \<ge> INT_MAX then Inl SeemsInvalid else Inr ret)"

text \<open>\<open>strict_si_cast<T>\<close>: a number followed by a unit. The target type is given by its sign and width;
  \<open>promoted_t\<close> is wide enough for all values compared, a negative number does not get that far when
  the type is unsigned. A text without a number counts as zero until the end, where the
  error is still set.\<close>

record int_type =
  is_signed :: bool
  type_bits :: nat

definition numeric_min :: "int_type \<Rightarrow> int" where
  "numeric_min T = (if is_signed T then - (2 ^ (type_bits T - 1)) else 0)"

definition numeric_max :: "int_type \<Rightarrow> int" where
  "numeric_max T = (if is_signed T then 2 ^ (type_bits T - 1) - 1 else 2 ^ type_bits T - 1)"

definition uint32_t :: int_type where "uint32_t = \<lparr>is_signed = False, type_bits = 32\<rparr>"
definition uint64_t :: int_type where "uint64_t = \<lparr>is_signed = False, type_bits = 64\<rparr>"
definition int_t :: int_type where "int_t = \<lparr>is_signed = True, type_bits = 32\<rparr>"
definition long_t :: int_type where "long_t = \<lparr>is_signed = True, type_bits = 64\<rparr>"

datatype si_error = NotSpecified | NotANumber strtol_error | NegativeValue | PrefixTooLarge | TooSmall | TooLarge

definition si_units :: "(char \<times> nat) list" where
  "si_units = [(CHR ''B'', 0), (CHR ''K'', 10), (CHR ''M'', 20), (CHR ''G'', 30), (CHR ''T'', 40), (CHR ''P'', 50), (CHR ''E'', 60)]"

definition si_split :: "string \<Rightarrow> string \<times> nat" where
  "si_split s = (case map_of si_units (last s) of None \<Rightarrow> (s, 0) | Some m \<Rightarrow> (butlast s, m))"

definition strict_si_cast :: "int_type \<Rightarrow> string \<Rightarrow> si_error + int" where
  "strict_si_cast T str =
     (if str = [] then Inl NotSpecified
      else let (s, m) = si_split str;
               parsed = strict_strtoll s;
               ll = (case parsed of Inl _ \<Rightarrow> 0 | Inr ret \<Rightarrow> ret)
           in if ll < 0 \<and> \<not> is_signed T then Inl NegativeValue
              else if type_bits T \<le> m then Inl PrefixTooLarge
              else if ll < numeric_min T div 2 ^ m then Inl TooSmall
              else if numeric_max T div 2 ^ m < ll then Inl TooLarge
              else case parsed of Inl e \<Rightarrow> Inl (NotANumber e) | Inr _ \<Rightarrow> Inr (ll * 2 ^ m))"

definition strict_sistrtoll :: "string \<Rightarrow> si_error + int" where
  "strict_sistrtoll = strict_si_cast uint64_t"

text \<open>\<open>stringify\<close> of a size (\<open>src/src/include/stringify.h\<close>): the decimal digits.\<close>

definition digit_char :: "nat \<Rightarrow> char" where
  "digit_char d = char_of (48 + d)"

fun stringify :: "nat \<Rightarrow> string" where
  "stringify n = (if n < 10 then [digit_char n] else stringify (n div 10) @ [digit_char (n mod 10)])"

declare stringify.simps [simp del]

text \<open>What is accepted fits an \<open>int\<close>, strictly inside its bounds.\<close>

lemma strict_strtol_bounds: "strict_strtol s = Inr v \<Longrightarrow> INT_MIN < v \<and> v < INT_MAX"
  by (auto simp: strict_strtol_def split: sum.splits if_splits)

lemma digit_char_simps [simp]:
  assumes "d < 10"
  shows "is_digit (digit_char d)" "digit_value (digit_char d) = int d"
  using assms by (auto simp: is_digit_def digit_value_def digit_char_def)

lemma stringify_digits: "stringify n \<noteq> [] \<and> (\<forall>c\<in>set (stringify n). is_digit c)"
proof (induction n rule: stringify.induct)
  case (1 n)
  then show ?case by (subst (1 2) stringify.simps) auto
qed

lemma digits_value_stringify: "digits_value (stringify n) = int n"
proof (induction n rule: stringify.induct)
  case (1 n)
  moreover have "10 * int (n div 10) + int (n mod 10) = int n" by presburger
  ultimately show ?case
    by (subst stringify.simps) (auto simp: digits_value_def)
qed

lemma digit_not_special:
  assumes "is_digit c"
  shows "\<not> is_space c" "c \<noteq> CHR ''-''" "c \<noteq> CHR ''+''"
  using assms by (auto simp: is_digit_def is_space_def)

text \<open>Printing a number and parsing it gives the number back.\<close>

lemma strict_strtoll_stringify:
  assumes "int n \<le> LLONG_MAX"
  shows "strict_strtoll (stringify n) = Inr (int n)"
proof -
  obtain c cs where s: "stringify n = c # cs" "is_digit c"
    using stringify_digits [of n] by (cases "stringify n") auto
  have "takeWhile is_digit (stringify n) = stringify n" "dropWhile is_digit (stringify n) = []"
    using stringify_digits [of n] by auto
  moreover have "dropWhile is_space (stringify n) = stringify n"
    using digit_not_special [OF s(2)] s by simp
  moreover have "\<not> int n < LLONG_MIN" by (simp add: LLONG_MIN_def)
  ultimately have "strtoll (stringify n) = (int n, False, Some [])"
    using assms digit_not_special [OF s(2)] s(1) digits_value_stringify [of n]
    unfolding strtoll_def Let_def by (simp del: takeWhile_eq_all_conv dropWhile_eq_Nil_conv takeWhile.simps dropWhile.simps)
  then show ?thesis by (simp add: strict_strtoll_def)
qed

lemma strict_strtol_stringify:
  assumes "int n < INT_MAX"
  shows "strict_strtol (stringify n) = Inr (int n)"
proof -
  have "int n \<le> LLONG_MAX" "\<not> int n \<le> INT_MIN" using assms by (auto simp: LLONG_MAX_def INT_MAX_def INT_MIN_def)
  with assms show ?thesis by (simp add: strict_strtol_def strict_strtoll_stringify)
qed

text \<open>Comparing with a shifted bound is comparing the shifted value with the bound.\<close>

lemma div_less_iff:
  fixes a x c :: int
  assumes "0 < c"
  shows "a div c < x \<longleftrightarrow> a < x * c"
proof -
  have "a div c * c \<le> a" using assms div_mult_mod_eq [of a c] pos_mod_sign [of c a] by linarith
  then have "x * c \<le> a" if "x \<le> a div c" using that assms mult_right_mono [of x "a div c" c] by linarith
  moreover have "x \<le> a div c" if "x * c \<le> a" using zdiv_mono1 [OF that assms] assms by simp
  ultimately show ?thesis by fastforce
qed

lemma numeric_min_shift:
  assumes "m < type_bits T"
  shows "x < numeric_min T div 2 ^ m \<longleftrightarrow> x * 2 ^ m < numeric_min T"
proof -
  have "(2 :: int) ^ (type_bits T - 1) = 2 ^ (type_bits T - 1 - m) * 2 ^ m"
    using assms by (simp flip: power_add)
  then have "numeric_min T = numeric_min T div 2 ^ m * 2 ^ m" by (simp add: numeric_min_def)
  then show ?thesis by (metis mult_less_cancel_right_pos zero_less_numeral zero_less_power)
qed

lemma si_cast_value:
  "strict_si_cast T str = Inr v \<longleftrightarrow>
     str \<noteq> [] \<and> (\<exists>ll. strict_strtoll (fst (si_split str)) = Inr ll \<and> v = ll * 2 ^ snd (si_split str) \<and>
       snd (si_split str) < type_bits T \<and> numeric_min T \<le> v \<and> v \<le> numeric_max T)"
proof (cases "str \<noteq> [] \<and> snd (si_split str) < type_bits T")
  case True
  obtain s m where sm: "si_split str = (s, m)" by fastforce
  with True have m: "m < type_bits T" by simp
  have neg: "is_signed T" if "numeric_min T \<le> ll * 2 ^ m" "ll < 0" for ll
    using that by (auto simp: numeric_min_def zero_le_mult_iff split: if_splits)
  with True sm numeric_min_shift [OF m] show ?thesis
    by (auto simp: strict_si_cast_def Let_def div_less_iff not_less not_le split: sum.splits dest: neg)
qed (auto simp: strict_si_cast_def Let_def not_less split: prod.splits sum.splits)

lemma si_cast_plain:
  assumes "n < 2 ^ 32"
  shows "strict_si_cast uint32_t (stringify n) = Inr (int n)"
proof -
  have d: "stringify n \<noteq> []" "is_digit (last (stringify n))" using stringify_digits [of n] by auto
  have "map_of si_units (last (stringify n)) = None"
    using d(2) by (auto simp: si_units_def is_digit_def)
  moreover have "int n \<le> LLONG_MAX" using assms by (simp add: LLONG_MAX_def)
  ultimately show ?thesis
    using d(1) assms by (simp add: si_cast_value si_split_def strict_strtoll_stringify uint32_t_def numeric_min_def numeric_max_def)
qed

end
