(* ===== verification/ErasureCode.thy ===== *)
theory ErasureCode
  imports Buffer Strtol
begin

text \<open>
  The base class of the plugins, \<open>src/src/erasure-code/ErasureCode.cc\<close>, over the
  interface \<open>ErasureCodeInterface.h\<close>. The virtual functions a plugin provides are the
  function fields of the record \<open>codec\<close>; what the base class implements on top of them
  (\<open>encode\<close>, \<open>decode\<close>, \<open>decode_concat\<close>, the profile parsers) are definitions that take
  the record. Messages written to the \<open>ostream\<close> are left out.
\<close>

section \<open>Interface\<close>

type_synonym profile = "(string, string) omap"
type_synonym chunks = "(int, bufferlist) omap"

record codec =
  chunk_mapping :: "int list"
  get_profile :: profile
  get_chunk_count :: nat
  get_data_chunk_count :: nat
  get_chunk_size :: "nat \<Rightarrow> nat option"
  minimum_to_decode :: "int set \<Rightarrow> int set \<Rightarrow> int set \<Rightarrow> (int \<times> int set) option"
  encode_chunks :: "int set \<Rightarrow> chunks \<Rightarrow> heap \<Rightarrow> (heap \<times> int \<times> chunks) option"
  decode_chunks :: "int set \<Rightarrow> chunks \<Rightarrow> chunks \<Rightarrow> heap \<Rightarrow> (heap \<times> int \<times> chunks) option"

definition get_coding_chunk_count :: "codec \<Rightarrow> nat" where
  "get_coding_chunk_count C = u32_sub (get_chunk_count C) (get_data_chunk_count C)"

section \<open>The base class\<close>

definition sanity_check_k :: "int \<Rightarrow> int" where
  "sanity_check_k k = (if k < 2 then - EINVAL else 0)"

definition chunk_index :: "int list \<Rightarrow> nat \<Rightarrow> int" where
  "chunk_index mapping i = (if length mapping > i then mapping ! i else int i)"

definition base_minimum_to_decode :: "nat \<Rightarrow> int set \<Rightarrow> int set \<Rightarrow> int set \<Rightarrow> (int \<times> int set) option" where
  "base_minimum_to_decode k want_to_read available_chunks minimum =
     (if want_to_read \<subseteq> available_chunks then Some (0, want_to_read)
      else if card available_chunks < k then Some (- EIO, minimum)
      else Some (0, minimum \<union> set (take k (sorted_list_of_set available_chunks))))"

definition minimum_to_decode_with_cost ::
    "codec \<Rightarrow> int set \<Rightarrow> (int, int) omap \<Rightarrow> int set \<Rightarrow> (int \<times> int set) option" where
  "minimum_to_decode_with_cost C want_to_read available minimum =
     minimum_to_decode C want_to_read (set (mkeys available)) minimum"

subsection \<open>\<open>encode_prepare\<close>\<close>

text \<open>One round of each of the three loops; the state is the heap and \<open>encoded\<close>.\<close>

definition prepare_data :: "int list \<Rightarrow> nat \<Rightarrow> bufferlist \<Rightarrow> nat \<Rightarrow> heap \<times> chunks \<Rightarrow> (heap \<times> chunks) option" where
  "prepare_data mapping blocksize prepared i s =
     (case s of (h, encoded) \<Rightarrow> do {
        chunk \<leftarrow> substr_of prepared (u32 (i * blocksize)) blocksize;
        (h, chunk) \<leftarrow> rebuild_aligned_size_and_memory blocksize SIMD_ALIGN chunk h;
        assert_that (is_contiguous chunk);
        Some (h, mput (chunk_index mapping i) chunk encoded) })"

definition append_buf :: "int \<Rightarrow> bptr \<Rightarrow> chunks \<Rightarrow> chunks" where
  "append_buf c buf encoded = mput c (push_back buf (mref [] encoded c)) encoded"

definition prepare_tail :: "int list \<Rightarrow> nat \<Rightarrow> bufferlist \<Rightarrow> nat \<Rightarrow> heap \<times> chunks \<Rightarrow> (heap \<times> chunks) option" where
  "prepare_tail mapping blocksize raw full s =
     (case s of (h, encoded) \<Rightarrow>
        let remainder = u32_sub (bl_length raw) (u32 (full * blocksize));
            (h, r) = create_aligned blocksize SIMD_ALIGN h;
            buf = ptr_of_raw h r
        in do {
          h \<leftarrow> bl_copy raw (u32 (full * blocksize)) remainder (ptr_c_str buf) h;
          h \<leftarrow> ptr_zero buf remainder (u32_sub blocksize remainder) h;
          Some (h, append_buf (chunk_index mapping full) buf encoded) })"

definition prepare_zero :: "int list \<Rightarrow> nat \<Rightarrow> nat \<Rightarrow> heap \<times> chunks \<Rightarrow> (heap \<times> chunks) option" where
  "prepare_zero mapping blocksize i s =
     (case s of (h, encoded) \<Rightarrow>
        let (h, r) = create_aligned blocksize SIMD_ALIGN h; buf = ptr_of_raw h r
        in do {
          h \<leftarrow> ptr_zero_all buf h;
          Some (h, append_buf (chunk_index mapping i) buf encoded) })"

definition prepare_coding :: "int list \<Rightarrow> nat \<Rightarrow> nat \<Rightarrow> heap \<times> chunks \<Rightarrow> (heap \<times> chunks) option" where
  "prepare_coding mapping blocksize i s =
     (case s of (h, encoded) \<Rightarrow>
        let (h, r) = create_aligned blocksize SIMD_ALIGN h
        in Some (h, append_buf (chunk_index mapping i) (ptr_of_raw h r) encoded))"

definition encode_prepare :: "codec \<Rightarrow> bufferlist \<Rightarrow> chunks \<Rightarrow> heap \<Rightarrow> (heap \<times> int \<times> chunks) option" where
  "encode_prepare C raw encoded h = do {
     let k = get_data_chunk_count C;
     let m = u32_sub (get_chunk_count C) k;
     blocksize \<leftarrow> get_chunk_size C (bl_length raw);
     assert_that (blocksize \<noteq> 0);
     let padded_chunks = u32_sub k (bl_length raw div blocksize);
     let full = u32_sub k padded_chunks;
     s \<leftarrow> ofold (prepare_data (chunk_mapping C) blocksize raw) [0..<full] (h, encoded);
     s \<leftarrow> (if padded_chunks \<noteq> 0 then do {
             s \<leftarrow> prepare_tail (chunk_mapping C) blocksize raw full s;
             ofold (prepare_zero (chunk_mapping C) blocksize) [full + 1..<k] s }
           else Some s);
     (h, encoded) \<leftarrow> ofold (prepare_coding (chunk_mapping C) blocksize) [k..<k + m] s;
     Some (h, 0, encoded) }"

subsection \<open>\<open>encode\<close> and \<open>decode\<close>\<close>

definition erase_unwanted :: "int set \<Rightarrow> nat \<Rightarrow> chunks \<Rightarrow> chunks" where
  "erase_unwanted want n encoded =
     fold (\<lambda>i e. if int i \<notin> want then mdel (int i) e else e) [0..<n] encoded"

definition encode :: "codec \<Rightarrow> int set \<Rightarrow> bufferlist \<Rightarrow> chunks \<Rightarrow> heap \<Rightarrow> (heap \<times> int \<times> chunks) option" where
  "encode C want_to_encode inp encoded h = do {
     let k = get_data_chunk_count C;
     let m = u32_sub (get_chunk_count C) k;
     (h, err, encoded) \<leftarrow> encode_prepare C inp encoded h;
     if err \<noteq> 0 then Some (h, err, encoded)
     else do {
       (h, _, encoded) \<leftarrow> encode_chunks C want_to_encode encoded h;
       Some (h, 0, erase_unwanted want_to_encode (k + m) encoded) } }"

definition decode_slot :: "chunks \<Rightarrow> nat \<Rightarrow> nat \<Rightarrow> heap \<times> chunks \<Rightarrow> (heap \<times> chunks) option" where
  "decode_slot chunks blocksize i s =
     (case s of (h, decoded) \<Rightarrow>
        (case mget chunks (int i) of
           None \<Rightarrow>
             (let (h, r) = create_aligned blocksize SIMD_ALIGN h
              in Some (h, mput (int i) (push_front (ptr_of_raw h r) (mref [] decoded (int i))) decoded))
         | Some bl \<Rightarrow> do {
             (h, bl) \<leftarrow> rebuild_aligned SIMD_ALIGN bl h;
             Some (h, mput (int i) bl decoded) }))"

definition decode :: "codec \<Rightarrow> int set \<Rightarrow> chunks \<Rightarrow> chunks \<Rightarrow> heap \<Rightarrow> (heap \<times> int \<times> chunks) option" where
  "decode C want_to_read chunks decoded h =
     (if want_to_read \<subseteq> set (mkeys chunks)
      then Some (h, 0, fold (\<lambda>i d. mput i (mref [] chunks i) d) (sorted_list_of_set want_to_read) decoded)
      else do {
        let k = get_data_chunk_count C;
        let m = u32_sub (get_chunk_count C) k;
        assert_that (chunks \<noteq> []);
        let blocksize = bl_length (snd (hd chunks));
        (h, decoded) \<leftarrow> ofold (decode_slot chunks blocksize) [0..<k + m] (h, decoded);
        decode_chunks C want_to_read chunks decoded h })"

definition decode_concat :: "codec \<Rightarrow> chunks \<Rightarrow> bufferlist \<Rightarrow> heap \<Rightarrow> (heap \<times> int \<times> bufferlist) option" where
  "decode_concat C chunks decoded h = do {
     let idx = map (chunk_index (chunk_mapping C)) [0..<get_data_chunk_count C];
     (h, r, decoded_map) \<leftarrow> decode C (set idx) chunks [] h;
     Some (h, r, if r = 0
       then fst (fold (\<lambda>c (d, dm). let (d', rest) = claim_append d (mref [] dm c) in (d', mput c rest dm))
                   idx (decoded, decoded_map))
       else decoded) }"

section \<open>Profiles\<close>

text \<open>\<open>to_mapping\<close>: the positions of the \<open>D\<close>s, then all the others.\<close>

definition mapping_positions :: "string \<Rightarrow> int list" where
  "mapping_positions s =
     map int (filter (\<lambda>i. s ! i = CHR ''D'') [0..<length s])
     @ map int (filter (\<lambda>i. s ! i \<noteq> CHR ''D'') [0..<length s])"

definition to_mapping :: "profile \<Rightarrow> int list \<Rightarrow> int \<times> int list" where
  "to_mapping profile mapping =
     (case mget profile ''mapping'' of
        None \<Rightarrow> (0, mapping)
      | Some s \<Rightarrow> (0, mapping @ mapping_positions s))"

definition parse_base :: "profile \<Rightarrow> int list \<Rightarrow> int \<times> int list" where
  "parse_base profile mapping = to_mapping profile mapping"

definition with_default :: "string \<Rightarrow> string \<Rightarrow> profile \<Rightarrow> profile" where
  "with_default name dflt profile =
     (case mget profile name of
        None \<Rightarrow> mput name dflt profile
      | Some v \<Rightarrow> if v = [] then mput name dflt profile else profile)"

definition strtol_or_0 :: "string \<Rightarrow> int" where
  "strtol_or_0 s = (case strict_strtol (str_c_str s) of Inl _ \<Rightarrow> 0 | Inr v \<Rightarrow> v)"

definition to_int :: "string \<Rightarrow> profile \<Rightarrow> string \<Rightarrow> int \<times> profile \<times> int" where
  "to_int name profile dflt =
     (let profile = with_default name dflt profile; p = mref [] profile name in
      case strict_strtol (str_c_str p) of
        Inl _ \<Rightarrow> (- EINVAL, profile, strtol_or_0 dflt)
      | Inr r \<Rightarrow> (0, profile, r))"

definition to_bool :: "string \<Rightarrow> profile \<Rightarrow> string \<Rightarrow> int \<times> profile \<times> bool" where
  "to_bool name profile dflt =
     (let profile = with_default name dflt profile; p = mref [] profile name
      in (0, profile, p = ''yes'' \<or> p = ''true''))"

definition to_string :: "string \<Rightarrow> profile \<Rightarrow> string \<Rightarrow> int \<times> profile \<times> string" where
  "to_string name profile dflt =
     (let profile = with_default name dflt profile in (0, profile, mref [] profile name))"

section \<open>\<open>encode_prepare\<close> lays the object out in blocks\<close>

text \<open>The object, padded with zeros to \<open>k\<close> blocks, and its \<open>i\<close>-th block.\<close>

definition block :: "nat \<Rightarrow> nat \<Rightarrow> byte list \<Rightarrow> nat \<Rightarrow> byte list" where
  "block k bs obj i = take bs (drop (i * bs) (obj @ replicate (k * bs - length obj) 0))"

text \<open>What holds after \<open>j\<close> chunks: each is one buffer of \<open>bs\<close> bytes, the data chunks hold
  their block, and every coding chunk lies in memory of its own.\<close>

definition prep_inv :: "nat \<Rightarrow> (nat \<Rightarrow> int) \<Rightarrow> nat \<Rightarrow> (nat \<Rightarrow> byte list) \<Rightarrow> heap \<Rightarrow> nat \<Rightarrow> heap \<times> chunks \<Rightarrow> bool" where
  "prep_inv k idx bs blk h j s \<longleftrightarrow>
     (case s of (h', M) \<Rightarrow> frame {} h h' \<and> mok M \<and> set (mkeys M) = idx ` {..<j} \<and>
       (\<forall>i<j. \<exists>p. mget M (idx i) = Some [p] \<and> ptr_ok h' p \<and> p_len p = bs \<and>
          (i < k \<longrightarrow> ptr_bytes h' p = blk i) \<and>
          (k \<le> i \<longrightarrow> length (raws h) \<le> p_raw p \<and>
             (\<forall>i'<i. \<forall>q. mget M (idx i') = Some [q] \<longrightarrow> p_raw q < p_raw p))))"

lemma prep_inv_0: "prep_inv k idx bs blk h 0 (h, [])"
  by (simp add: prep_inv_def mkeys_def)

lemma prep_inv_step:
  assumes inv: "prep_inv k idx bs blk h j (h1, M)" and inj: "inj_on idx {..j}"
    and f: "frame {} h1 h2" and p: "ptr_ok h2 p" "p_len p = bs"
    and dat: "j < k \<Longrightarrow> ptr_bytes h2 p = blk j"
    and cod: "k \<le> j \<Longrightarrow> p_raw p = length (raws h1)"
  shows "prep_inv k idx bs blk h (Suc j) (h2, mput (idx j) [p] M)"
proof -
  have M: "frame {} h h1" "mok M" "set (mkeys M) = idx ` {..<j}"
    using inv by (auto simp: prep_inv_def)
  have ne: "idx i \<noteq> idx j" if "i < j" for i
    using inj that by (auto simp: inj_on_def)
  have old: "\<exists>q. mget M (idx i) = Some [q] \<and> ptr_ok h2 q \<and> p_len q = bs \<and> p_raw q < length (raws h1) \<and>
      (i < k \<longrightarrow> ptr_bytes h2 q = blk i) \<and> (k \<le> i \<longrightarrow> length (raws h) \<le> p_raw q \<and>
             (\<forall>i'<i. \<forall>q'. mget M (idx i') = Some [q'] \<longrightarrow> p_raw q' < p_raw q))" if "i < j" for i
  proof -
    from inv that obtain q where "mget M (idx i) = Some [q]" "ptr_ok h1 q" "p_len q = bs"
      "i < k \<longrightarrow> ptr_bytes h1 q = blk i" "k \<le> i \<longrightarrow> length (raws h) \<le> p_raw q \<and>
             (\<forall>i'<i. \<forall>q'. mget M (idx i') = Some [q'] \<longrightarrow> p_raw q' < p_raw q)"
      by (auto simp: prep_inv_def)
    then show ?thesis
      using frame_ptr_ok [OF f] frame_ptr_bytes [OF f] by (auto simp: ptr_ok_def)
  qed
  have "frame {} h h2" using frame_trans [OF M(1) f] by simp
  moreover have "set (mkeys (mput (idx j) [p] M)) = idx ` {..<Suc j}"
    using M by (auto simp: om.set_keys_put lessThan_Suc)
  moreover have "\<exists>q. mget (mput (idx j) [p] M) (idx i) = Some [q] \<and> ptr_ok h2 q \<and> p_len q = bs \<and>
      (i < k \<longrightarrow> ptr_bytes h2 q = blk i) \<and> (k \<le> i \<longrightarrow> length (raws h) \<le> p_raw q \<and>
         (\<forall>i'<i. \<forall>q'. mget (mput (idx j) [p] M) (idx i') = Some [q'] \<longrightarrow> p_raw q' < p_raw q))"
    if "i < Suc j" for i
  proof (cases "i = j")
    case True
    have "p_raw q' < p_raw p" if "k \<le> j" "i' < j" "mget M (idx i') = Some [q']" for i' q'
      using old [OF that(2)] that cod by auto
    with True p dat cod frame_length [OF M(1)] M(2) ne show ?thesis by auto
  next
    case False
    with that have "i < j" by simp
    with old [OF this] ne M(2) show ?thesis by (auto 0 3)
  qed
  ultimately show ?thesis using M by (simp add: prep_inv_def)
qed

lemma append_buf_fresh:
  assumes "prep_inv k idx bs blk h j (h1, M)" "inj_on idx {..j}" "p_len p > 0"
  shows "append_buf (idx j) p M = mput (idx j) [p] M"
proof -
  have "set (mkeys M) = idx ` {..<j}"
    using assms(1) by (simp add: prep_inv_def)
  then have "idx j \<notin> set (mkeys M)"
    using inj_onD [OF assms(2)] by fastforce
  then have "mget M (idx j) = None" by (simp add: mkeys_mget)
  with assms(3) show ?thesis by (simp add: append_buf_def push_back_def)
qed

lemma block_full:
  assumes "i * bs + bs \<le> length obj" "length obj \<le> k * bs"
  shows "block k bs obj i = take bs (drop (i * bs) obj)"
  using assms by (simp add: block_def)

lemma block_zero:
  assumes "length obj \<le> i * bs" "i < k"
  shows "block k bs obj i = replicate bs 0"
proof -
  from assms(2) have "i * bs + bs \<le> k * bs"
    by (metis Suc_leI add.commute mult_Suc mult_le_mono1)
  with assms(1) show ?thesis
    by (simp add: block_def)
qed

lemma block_tail:
  assumes "i * bs \<le> length obj" "length obj < i * bs + bs" "i < k"
  shows "block k bs obj i = drop (i * bs) obj @ replicate (bs - (length obj - i * bs)) 0"
proof -
  from assms(3) have "i * bs + bs \<le> k * bs"
    by (metis Suc_leI add.commute mult_Suc mult_le_mono1)
  with assms(1,2) show ?thesis
    by (simp add: block_def)
qed

lemma length_block: "length obj \<le> k * bs \<Longrightarrow> i < k \<Longrightarrow> length (block k bs obj i) = bs"
proof -
  assume "length obj \<le> k * bs" "i < k"
  from \<open>i < k\<close> have "i * bs + bs \<le> k * bs"
    by (metis Suc_leI add.commute mult_Suc mult_le_mono1)
  with \<open>length obj \<le> k * bs\<close> show ?thesis by (simp add: block_def)
qed

lemma prepare_data_step:
  assumes inv: "prep_inv k (chunk_index mapping) bs blk h j (h1, M)"
    and inj: "inj_on (chunk_index mapping) {..j}"
    and raw: "bl_ok h raw" "bl_length raw < 2 ^ 32" "j * bs + bs \<le> bl_length raw" "bs > 0"
    and blk: "j < k" "blk j = take bs (drop (j * bs) (bl_bytes h raw))"
  shows "\<exists>s'. prepare_data mapping bs raw j (h1, M) = Some s' \<and>
      prep_inv k (chunk_index mapping) bs blk h (Suc j) s'"
proof -
  have f: "frame {} h h1" using inv by (simp add: prep_inv_def)
  note raw1 = frame_empty_bl [OF f raw(1)]
  obtain c where c: "substr_of raw (u32 (j * bs)) bs = Some c" "bl_ok h1 c" "bl_length c = bs"
      "bl_bytes h1 c = blk j"
    using substr_of_spec [OF raw1(1) raw(3) raw(2)] raw raw1(2) blk(2) by auto
  obtain h2 q where r: "rebuild_aligned_size_and_memory bs SIMD_ALIGN c h1 = Some (h2, [q])"
      "gathered h1 c h2 q"
    using rebuild_aligned_exact [OF c(2,3)] raw(4) by blast
  then have "prep_inv k (chunk_index mapping) bs blk h (Suc j) (h2, mput (chunk_index mapping j) [q] M)"
    using c blk(1) by (intro prep_inv_step [OF inv inj]) (auto simp: gathered_def)
  with c r show ?thesis
    by (simp add: prepare_data_def is_contiguous_def)
qed

lemma prepare_tail_step:
  assumes inv: "prep_inv k (chunk_index mapping) bs blk h j (h1, M)"
    and inj: "inj_on (chunk_index mapping) {..j}"
    and raw: "bl_ok h raw" "bl_length raw < 2 ^ 32" "j * bs \<le> bl_length raw" "bl_length raw < j * bs + bs"
    and blk: "j < k" "blk j = drop (j * bs) (bl_bytes h raw) @ replicate (bs - (bl_length raw - j * bs)) 0"
  shows "\<exists>s'. prepare_tail mapping bs raw j (h1, M) = Some s' \<and>
      prep_inv k (chunk_index mapping) bs blk h (Suc j) s'"
proof -
  have f: "frame {} h h1" using inv by (simp add: prep_inv_def)
  note raw1 = frame_empty_bl [OF f raw(1)]
  define rem where "rem = bl_length raw - j * bs"
  have bs: "bs > 0" and rem: "rem < bs" and u: "u32 (j * bs) = j * bs"
    using raw by (auto simp: rem_def)
  obtain h2 r where cr: "create_aligned bs SIMD_ALIGN h1 = (h2, r)" by fastforce
  note c = create_aligned_spec [OF cr]
  define buf where "buf = ptr_of_raw h2 r"
  have buf: "buf = \<lparr>p_raw = r, p_off = 0, p_len = bs\<rparr>" "ptr_ok h2 buf" using c bs by (auto simp: buf_def)
  note raw2 = frame_empty_bl [OF c(2) raw1(1)]
  have nr: "r \<notin> bl_raws raw" using bl_ok_raws [OF raw1(1)] c(1) by auto
  have tail: "take rem (drop (j * bs) (bl_bytes h raw)) = drop (j * bs) (bl_bytes h raw)"
    using raw(1) by (simp add: rem_def buf_simps)
  obtain h3 where cp: "bl_copy raw (j * bs) rem (r, 0) h2 = Some h3" "frame {r} h2 h3"
      "length (raws h3) = length (raws h2)"
      "raw_data (raws h3 ! r) = splice_at 0 (drop (j * bs) (bl_bytes h raw)) (raw_data (raws h2 ! r))"
    using bl_copy_spec [OF raw2(1), of "j * bs" rem r 0] raw nr c rem raw1(2) raw2(2) tail
    by (auto simp: rem_def)
  have l3: "length (raw_data (raws h3 ! r)) = bs"
    using cp(2) c by (auto simp: frame_def)
  obtain h4 where z: "mem_write h3 (r, rem) (replicate (bs - rem) 0) = Some h4" "frame {r} h3 h4"
      "length (raws h4) = length (raws h3)"
      "raw_data (raws h4 ! r) = splice_at rem (replicate (bs - rem) 0) (raw_data (raws h3 ! r))"
    using mem_write_ok [of r h3 rem "replicate (bs - rem) 0"] l3 rem c cp(3) by auto
  have lt: "length (drop (j * bs) (bl_bytes h raw)) = rem"
    using raw(1) by (simp add: rem_def buf_simps)
  have "raw_data (raws h4 ! r) = blk j"
    using z(4) cp(4) lt c rem blk(2) by (simp add: splice_at_def rem_def)
  moreover have "length (blk j) = bs" using blk(2) lt rem by (simp add: rem_def)
  ultimately have b4: "ptr_bytes h4 buf = blk j" using buf by (simp add: ptr_bytes_def)
  have f14: "frame {} h1 h4"
    using frame_step [OF frame_step [OF c(2) cp(2)] z(2)] c(1) by auto
  have ok4: "ptr_ok h4 buf"
    using frame_ptr_ok [OF z(2) frame_ptr_ok [OF cp(2) buf(2)]] .
  have "ptr_zero buf rem (bs - rem) h3 = Some h4"
    using z(1) buf rem by (simp add: ptr_zero_def)
  then have "prepare_tail mapping bs raw j (h1, M) =
      Some (h4, append_buf (chunk_index mapping j) buf M)"
    using cr cp u raw rem buf by (simp add: prepare_tail_def Let_def ptr_c_str_def buf_def [symmetric] rem_def [symmetric])
  moreover have "prep_inv k (chunk_index mapping) bs blk h (Suc j) (h4, mput (chunk_index mapping j) [buf] M)"
    using f14 ok4 b4 blk(1) buf by (intro prep_inv_step [OF inv inj]) auto
  ultimately show ?thesis
    using append_buf_fresh [OF inv inj] buf bs by simp
qed

lemma prepare_zero_step:
  assumes inv: "prep_inv k (chunk_index mapping) bs blk h j (h1, M)"
    and inj: "inj_on (chunk_index mapping) {..j}" and bs: "bs > 0"
    and blk: "j < k" "blk j = replicate bs 0"
  shows "\<exists>s'. prepare_zero mapping bs j (h1, M) = Some s' \<and>
      prep_inv k (chunk_index mapping) bs blk h (Suc j) s'"
proof -
  obtain h2 r where cr: "create_aligned bs SIMD_ALIGN h1 = (h2, r)" by fastforce
  note c = create_aligned_spec [OF cr]
  let ?buf = "ptr_of_raw h2 r"
  have buf: "ptr_ok h2 ?buf" "p_len ?buf = bs" "p_raw ?buf = r" using c bs by auto
  from mem_write_ptr [OF buf(1), of "replicate bs 0"] buf obtain h3 where
    w: "mem_write h2 (ptr_c_str ?buf) (replicate bs 0) = Some h3" "frame {r} h2 h3"
      "ptr_bytes h3 ?buf = replicate bs 0" by auto
  have "frame {} h1 h3" using frame_step [OF c(2) w(2)] c(1) by auto
  then have "prep_inv k (chunk_index mapping) bs blk h (Suc j) (h3, mput (chunk_index mapping j) [?buf] M)"
    using buf w blk frame_ptr_ok [OF w(2)] by (intro prep_inv_step [OF inv inj]) auto
  with w cr buf bs append_buf_fresh [OF inv inj] show ?thesis
    by (simp add: prepare_zero_def ptr_zero_all_def Let_def)
qed

lemma prepare_coding_step:
  assumes inv: "prep_inv k (chunk_index mapping) bs blk h j (h1, M)"
    and inj: "inj_on (chunk_index mapping) {..j}" and bs: "bs > 0" and k: "k \<le> j"
  shows "\<exists>s'. prepare_coding mapping bs j (h1, M) = Some s' \<and>
      prep_inv k (chunk_index mapping) bs blk h (Suc j) s'"
proof -
  obtain h2 r where cr: "create_aligned bs SIMD_ALIGN h1 = (h2, r)" by fastforce
  note c = create_aligned_spec [OF cr]
  let ?buf = "ptr_of_raw h2 r"
  have buf: "ptr_ok h2 ?buf" "p_len ?buf = bs" "p_raw ?buf = r" using c bs by auto
  then have "prep_inv k (chunk_index mapping) bs blk h (Suc j) (h2, mput (chunk_index mapping j) [?buf] M)"
    using c k by (intro prep_inv_step [OF inv inj]) auto
  with cr buf bs append_buf_fresh [OF inv inj] show ?thesis
    by (simp add: prepare_coding_def Let_def)
qed

text \<open>A loop over an interval of chunk indices, each round of which adds one chunk.\<close>

lemma prep_loop:
  assumes "prep_inv k idx bs blk h a s"
    and "\<And>j s. a \<le> j \<Longrightarrow> j < b \<Longrightarrow> prep_inv k idx bs blk h j s \<Longrightarrow>
        \<exists>s'. f j s = Some s' \<and> prep_inv k idx bs blk h (Suc j) s'"
    and "a \<le> b"
  shows "\<exists>s'. ofold f [a..<b] s = Some s' \<and> prep_inv k idx bs blk h b s'"
  using ofold_invariant [of "\<lambda>i. prep_inv k idx bs blk h (a + i)" s "[a..<b]" f] assms by auto

lemma prepare_full_loop:
  assumes "bl_ok h raw" "bl_length raw < 2 ^ 32" "full * bs \<le> bl_length raw" "bs > 0" "full \<le> k"
    and "bl_length raw \<le> k * bs" "inj_on (chunk_index mapping) {..<full}"
  shows "\<exists>s. ofold (prepare_data mapping bs raw) [0..<full] (h, []) = Some s \<and>
    prep_inv k (chunk_index mapping) bs (block k bs (bl_bytes h raw)) h full s"
proof (rule prep_loop)
  fix j s
  assume j: "j < full" and inv: "prep_inv k (chunk_index mapping) bs (block k bs (bl_bytes h raw)) h j s"
  obtain h1 M where s: "s = (h1, M)" by fastforce
  have "j * bs + bs \<le> full * bs" using j by (metis Suc_leI add.commute mult_Suc mult_le_mono1)
  then have le: "j * bs + bs \<le> bl_length raw" using assms(3) by simp
  have "inj_on (chunk_index mapping) {..j}" using assms(7) by (rule inj_on_subset) (use j in auto)
  moreover have "block k bs (bl_bytes h raw) j = take bs (drop (j * bs) (bl_bytes h raw))"
    using le assms(1,6) by (intro block_full) (auto simp: buf_simps)
  ultimately show "\<exists>s'. prepare_data mapping bs raw j s = Some s' \<and>
      prep_inv k (chunk_index mapping) bs (block k bs (bl_bytes h raw)) h (Suc j) s'"
    unfolding s using prepare_data_step [OF inv [unfolded s]] assms(1,2,4,5) le j by auto
qed (auto intro: prep_inv_0)

lemma prepare_padding:
  assumes raw: "bl_ok h raw" "bl_length raw < 2 ^ 32" "bl_length raw < full * bs + bs"
      "full * bs \<le> bl_length raw" and k: "full < k"
    and inj: "inj_on (chunk_index mapping) {..<k}"
    and inv: "prep_inv k (chunk_index mapping) bs (block k bs (bl_bytes h raw)) h full s"
  shows "\<exists>s1 s2. prepare_tail mapping bs raw full s = Some s1 \<and>
    ofold (prepare_zero mapping bs) [full + 1..<k] s1 = Some s2 \<and>
    prep_inv k (chunk_index mapping) bs (block k bs (bl_bytes h raw)) h k s2"
proof -
  let ?blk = "block k bs (bl_bytes h raw)"
  have injs: "inj_on (chunk_index mapping) {..j}" if "j < k" for j
    using inj by (rule inj_on_subset) (use that in auto)
  have len: "length (bl_bytes h raw) = bl_length raw" using raw(1) by (simp add: buf_simps)
  obtain h1 M where s: "s = (h1, M)" by fastforce
  have "?blk full = drop (full * bs) (bl_bytes h raw) @ replicate (bs - (bl_length raw - full * bs)) 0"
    using block_tail [of full bs "bl_bytes h raw" k] raw k len by simp
  from prepare_tail_step [OF inv [unfolded s] injs [OF k] raw(1,2,4,3) k this]
  obtain s1 where s1: "prepare_tail mapping bs raw full s = Some s1"
      "prep_inv k (chunk_index mapping) bs ?blk h (Suc full) s1"
    using s by blast
  have "\<exists>s2. ofold (prepare_zero mapping bs) [Suc full..<k] s1 = Some s2 \<and>
      prep_inv k (chunk_index mapping) bs ?blk h k s2"
  proof (rule prep_loop [OF s1(2)])
    fix j s'
    assume j: "Suc full \<le> j" "j < k" and inv': "prep_inv k (chunk_index mapping) bs ?blk h j s'"
    obtain h2 M2 where s': "s' = (h2, M2)" by fastforce
    have "full * bs + bs \<le> j * bs" using j(1) by (metis add.commute mult_Suc mult_le_mono1)
    then have "?blk j = replicate bs 0"
      using block_zero [of "bl_bytes h raw" j bs k] raw len j by simp
    then show "\<exists>s''. prepare_zero mapping bs j s' = Some s'' \<and>
        prep_inv k (chunk_index mapping) bs ?blk h (Suc j) s''"
      unfolding s' using prepare_zero_step [OF inv' [unfolded s'] injs [OF j(2)]] raw j by auto
  qed (use k in simp)
  with s1 show ?thesis by auto
qed

lemma encode_prepare_spec:
  assumes raw: "bl_ok h raw" "bl_length raw < 2 ^ 32"
    and bs: "get_chunk_size C (bl_length raw) = Some bs" "bs > 0"
      "bl_length raw \<le> get_data_chunk_count C * bs"
    and n: "get_data_chunk_count C \<le> get_chunk_count C"
    and inj: "inj_on (chunk_index (chunk_mapping C)) {..<get_chunk_count C}"
  shows "\<exists>h' M. encode_prepare C raw [] h = Some (h', 0, M) \<and>
    prep_inv (get_data_chunk_count C) (chunk_index (chunk_mapping C)) bs
      (block (get_data_chunk_count C) bs (bl_bytes h raw)) h (get_chunk_count C) (h', M)"
proof -
  let ?k = "get_data_chunk_count C" and ?idx = "chunk_index (chunk_mapping C)"
  let ?blk = "block ?k bs (bl_bytes h raw)"
  define full where "full = bl_length raw div bs"
  have full: "full \<le> ?k" "full * bs \<le> bl_length raw" "bl_length raw < full * bs + bs"
    using bs div_le_mono [OF bs(3), of bs] by (auto simp: full_def dividend_less_div_times add.commute)
  have injs: "inj_on ?idx {..<j}" if "j \<le> get_chunk_count C" for j
    using inj by (rule inj_on_subset) (use that in auto)
  obtain s1 where s1: "ofold (prepare_data (chunk_mapping C) bs raw) [0..<full] (h, []) = Some s1"
      "prep_inv ?k ?idx bs ?blk h full s1"
    using prepare_full_loop [OF raw full(2) bs(2) full(1) bs(3) injs] full(1) n by auto
  have "\<exists>s2. (if ?k - full \<noteq> 0 then do {
             s \<leftarrow> prepare_tail (chunk_mapping C) bs raw full s1;
             ofold (prepare_zero (chunk_mapping C) bs) [full + 1..<?k] s }
           else Some s1) = Some s2 \<and> prep_inv ?k ?idx bs ?blk h ?k s2"
  proof (cases "full = ?k")
    case False
    with full(1) have "full < ?k" by simp
    from prepare_padding [OF raw full(3,2) this injs [OF n] s1(2)] this show ?thesis by auto
  qed (use s1 in auto)
  then obtain s2 where s2: "(if ?k - full \<noteq> 0 then do {
             s \<leftarrow> prepare_tail (chunk_mapping C) bs raw full s1;
             ofold (prepare_zero (chunk_mapping C) bs) [full + 1..<?k] s }
           else Some s1) = Some s2" "prep_inv ?k ?idx bs ?blk h ?k s2" by blast
  have "\<exists>s3. ofold (prepare_coding (chunk_mapping C) bs) [?k..<get_chunk_count C] s2 = Some s3 \<and>
      prep_inv ?k ?idx bs ?blk h (get_chunk_count C) s3"
  proof (rule prep_loop [OF s2(2)])
    fix j s
    assume j: "?k \<le> j" "j < get_chunk_count C" and inv: "prep_inv ?k ?idx bs ?blk h j s"
    obtain h2 M2 where s: "s = (h2, M2)" by fastforce
    have "inj_on ?idx {..j}" using inj by (rule inj_on_subset) (use j in auto)
    from prepare_coding_step [OF inv [unfolded s] this bs(2) j(1)]
    show "\<exists>s'. prepare_coding (chunk_mapping C) bs j s = Some s' \<and>
        prep_inv ?k ?idx bs ?blk h (Suc j) s'" unfolding s .
  qed (use n in simp)
  then obtain h3 M3 where s3: "ofold (prepare_coding (chunk_mapping C) bs) [?k..<get_chunk_count C] s2 = Some (h3, M3)"
      "prep_inv ?k ?idx bs ?blk h (get_chunk_count C) (h3, M3)" by fastforce
  have "encode_prepare C raw [] h = Some (h3, 0, M3)"
    using bs n full(1) s1(1) s2(1) s3(1)
    by (cases "full = ?k"; cases s2)
      (auto simp: encode_prepare_def Let_def full_def [symmetric] bind_eq_Some_conv)
  with s3(2) show ?thesis by blast
qed

section \<open>The contract between the base class and a plugin\<close>

text \<open>\<open>content\<close>: the bytes of a chunk. \<open>arena\<close>: the chunks \<open>N\<close> of a stripe laid out in
  memory, all of one size, those in \<open>W\<close> each in memory of its own so that the plugin may
  write them.\<close>

definition content :: "heap \<Rightarrow> chunks \<Rightarrow> int \<Rightarrow> byte list" where
  "content h M c = bl_bytes h (mref [] M c)"

definition wraws :: "chunks \<Rightarrow> int set \<Rightarrow> nat set" where
  "wraws M W = (\<Union>c\<in>W. bl_raws (mref [] M c))"

definition arena :: "heap \<Rightarrow> chunks \<Rightarrow> int set \<Rightarrow> int set \<Rightarrow> nat \<Rightarrow> bool" where
  "arena h M N W bs \<longleftrightarrow> mok M \<and> set (mkeys M) = N \<and> W \<subseteq> N
     \<and> (\<forall>c\<in>N. bl_ok h (mref [] M c) \<and> bl_length (mref [] M c) = bs)
     \<and> (\<forall>c\<in>W. \<exists>p. mref [] M c = [p])
     \<and> (\<forall>c\<in>W. \<forall>d\<in>N. c \<noteq> d \<longrightarrow> bl_raws (mref [] M c) \<inter> bl_raws (mref [] M d) = {})"

text \<open>A family of chunks that hold the given contents.\<close>

definition holds :: "heap \<Rightarrow> chunks \<Rightarrow> int set \<Rightarrow> nat \<Rightarrow> (int \<Rightarrow> byte list) \<Rightarrow> bool" where
  "holds h M A bs val \<longleftrightarrow> mok M \<and> set (mkeys M) = A \<and>
     (\<forall>c\<in>A. bl_ok h (mref [] M c) \<and> bl_length (mref [] M c) = bs \<and> content h M c = val c)"

lemma prep_inv_arena:
  assumes inv: "prep_inv k idx bs blk h n (h', M)" and "k \<le> n" and inj: "inj_on idx {..<n}"
  shows "arena h' M (idx ` {..<n}) (idx ` {k..<n}) bs" "frame {} h h'"
    "\<And>i. i < k \<Longrightarrow> content h' M (idx i) = blk i"
    "\<And>r. r \<in> wraws M (idx ` {k..<n}) \<Longrightarrow> length (raws h) \<le> r"
proof -
  have M: "frame {} h h'" "mok M" "set (mkeys M) = idx ` {..<n}" using inv by (auto simp: prep_inv_def)
  have ch: "\<exists>p. mref [] M (idx i) = [p] \<and> mget M (idx i) = Some [p] \<and> ptr_ok h' p \<and> p_len p = bs \<and>
      (i < k \<longrightarrow> ptr_bytes h' p = blk i) \<and> (k \<le> i \<longrightarrow> length (raws h) \<le> p_raw p \<and>
             (\<forall>i'<i. \<forall>q. mget M (idx i') = Some [q] \<longrightarrow> p_raw q < p_raw p))" if "i < n" for i
  proof -
    from inv that obtain p where "mget M (idx i) = Some [p]" "ptr_ok h' p \<and> p_len p = bs \<and>
      (i < k \<longrightarrow> ptr_bytes h' p = blk i) \<and> (k \<le> i \<longrightarrow> length (raws h) \<le> p_raw p \<and>
             (\<forall>i'<i. \<forall>q. mget M (idx i') = Some [q] \<longrightarrow> p_raw q < p_raw p))"
      unfolding prep_inv_def by blast
    then show ?thesis by simp
  qed
  have dis: "bl_raws (mref [] M (idx i)) \<inter> bl_raws (mref [] M (idx j)) = {}"
    if i: "k \<le> i" "i < n" and j: "j < n" "idx i \<noteq> idx j" for i j
  proof -
    obtain p q where "mref [] M (idx i) = [p]" "mget M (idx i) = Some [p]"
        "mref [] M (idx j) = [q]" "mget M (idx j) = Some [q]"
      "\<forall>i'<i. \<forall>q. mget M (idx i') = Some [q] \<longrightarrow> p_raw q < p_raw p"
      "k \<le> j \<longrightarrow> (\<forall>i'<j. \<forall>p. mget M (idx i') = Some [p] \<longrightarrow> p_raw p < p_raw q)"
      using ch [OF i(2)] ch [OF j(1)] i by auto
    moreover have "i \<noteq> j" using j by auto
    then consider "j < i" | "i < j" "k \<le> j" using i by linarith
    ultimately have "p_raw p \<noteq> p_raw q" by (metis less_irrefl)
    with \<open>mref [] M (idx i) = [p]\<close> \<open>mref [] M (idx j) = [q]\<close> show ?thesis by simp
  qed
  show "arena h' M (idx ` {..<n}) (idx ` {k..<n}) bs"
    unfolding arena_def
  proof (intro conjI ballI impI)
    show "mok M" "set (mkeys M) = idx ` {..<n}" "idx ` {k..<n} \<subseteq> idx ` {..<n}" using M by auto
  next
    fix c
    assume "c \<in> idx ` {..<n}"
    then obtain i where i: "c = idx i" "i < n" by auto
    with ch [OF i(2)] show "bl_ok h' (mref [] M c)" "bl_length (mref [] M c) = bs" by auto
  next
    fix c
    assume "c \<in> idx ` {k..<n}"
    then obtain i where i: "c = idx i" "i < n" "k \<le> i" by auto
    with ch [OF i(2)] show "\<exists>p. mref [] M c = [p]" by auto
    fix d
    assume "d \<in> idx ` {..<n}" "c \<noteq> d"
    with i dis show "bl_raws (mref [] M c) \<inter> bl_raws (mref [] M d) = {}" by auto
  qed
  show "frame {} h h'" by (rule M(1))
  show "content h' M (idx i) = blk i" if "i < k" for i
    using ch [of i] that assms(2) by (auto simp: content_def)
  show "length (raws h) \<le> r" if "r \<in> wraws M (idx ` {k..<n})" for r
  proof -
    from that obtain i where i: "i < n" "k \<le> i" "r \<in> bl_raws (mref [] M (idx i))"
      by (auto simp: wraws_def)
    with ch [OF i(1)] show ?thesis by auto
  qed
qed

lemma mget_with_default: "mok p \<Longrightarrow> j \<noteq> k \<Longrightarrow> mget (with_default k d p) j = mget p j"
  by (auto simp: with_default_def split: option.splits)

lemma to_int_decimal:
  assumes "int n < INT_MAX" and "mget profile name = Some (stringify n)"
  shows "to_int name profile dflt = (0, profile, int n)"
proof -
  have "str_c_str (stringify n) = stringify n" "stringify n \<noteq> []"
    using stringify_digits [of n] by (auto simp: str_c_str_def is_digit_def)
  with assms show ?thesis
    by (simp add: to_int_def with_default_def strict_strtol_stringify)
qed

lemma to_int_default:
  assumes "mok profile" "mget profile name = None" "dflt = stringify n" "int n < INT_MAX"
  shows "to_int name profile dflt = (0, mput name dflt profile, int n)"
proof -
  have "with_default name dflt (mput name dflt profile) = mput name dflt profile"
    using assms(1,3) stringify_digits [of n] by (simp add: with_default_def)
  then show ?thesis
    using to_int_decimal [OF assms(4), of "mput name dflt profile" name dflt] assms(1,2,3)
    by (simp add: to_int_def with_default_def)
qed

end
