(* ===== verification/Codec_Contract.thy ===== *)
theory Codec_Contract
  imports ErasureCode
begin

text \<open>
  What the base class promises once a plugin keeps its contract. The locale
  \<open>erasure_code\<close> states the contract over the virtual functions of the record
  \<open>codec\<close>; inside it the functions of \<open>ErasureCode.cc\<close> are shown to encode an object,
  to decode any recoverable set of its chunks and to give the object back. \<open>encodable\<close> are
  the sets of chunks an encoding may be asked for. Every plugin modelled in the
  development is an instance.
\<close>

section \<open>The slots of \<open>decode\<close>\<close>

definition slot_inv :: "chunks \<Rightarrow> nat \<Rightarrow> heap \<Rightarrow> nat \<Rightarrow> heap \<times> chunks \<Rightarrow> bool" where
  "slot_inv chunks bs h j s \<longleftrightarrow>
     (case s of (h', M) \<Rightarrow> frame {} h h' \<and> mok M \<and> set (mkeys M) = int ` {..<j} \<and>
       (\<forall>i<j. bl_ok h' (mref [] M (int i)) \<and> bl_length (mref [] M (int i)) = bs \<and>
          (mget chunks (int i) \<noteq> None \<longrightarrow> content h' M (int i) = content h chunks (int i)) \<and>
          (mget chunks (int i) = None \<longrightarrow> (\<exists>p. mref [] M (int i) = [p] \<and> length (raws h) \<le> p_raw p \<and>
             (\<forall>i'<j. i' \<noteq> i \<longrightarrow> p_raw p \<notin> bl_raws (mref [] M (int i')))))))"

text \<open>Adding slot \<open>j\<close>: its buffers are old ones of the caller or fresh.\<close>

lemma slot_inv_step:
  assumes inv: "slot_inv chunks bs h j (h1, M)" and f: "frame {} h1 h2"
    and bl: "bl_ok h2 bl" "bl_length bl = bs"
    and av: "mget chunks (int j) \<noteq> None \<Longrightarrow> bl_bytes h2 bl = content h chunks (int j)"
    and mi: "mget chunks (int j) = None \<Longrightarrow> \<exists>p. bl = [p] \<and> p_raw p = length (raws h1)"
    and ra: "\<And>r. r \<in> bl_raws bl \<Longrightarrow> r < length (raws h) \<or> length (raws h1) \<le> r"
  shows "slot_inv chunks bs h (Suc j) (h2, mput (int j) bl M)"
proof -
  have M: "frame {} h h1" "mok M" "set (mkeys M) = int ` {..<j}" using inv by (auto simp: slot_inv_def)
  have new: "mref [] (mput (int j) bl M) (int j) = bl"
    and same: "i < j \<Longrightarrow> mref [] (mput (int j) bl M) (int i) = mref [] M (int i)" for i
    using M(2) by (auto simp: mref_def)
  have old: "bl_ok h1 (mref [] M (int i))" "bl_length (mref [] M (int i)) = bs"
    "mget chunks (int i) \<noteq> None \<longrightarrow> content h1 M (int i) = content h chunks (int i)"
    "mget chunks (int i) = None \<longrightarrow> (\<exists>p. mref [] M (int i) = [p] \<and> length (raws h) \<le> p_raw p \<and>
             (\<forall>i'<j. i' \<noteq> i \<longrightarrow> p_raw p \<notin> bl_raws (mref [] M (int i'))))" if "i < j" for i
    using inv that by (auto simp: slot_inv_def)
  have low: "r < length (raws h1)" if "i < j" "r \<in> bl_raws (mref [] M (int i))" for i r
    using bl_ok_raws [OF old(1) [OF that(1)] that(2)] .
  have "bl_ok h2 (mref [] (mput (int j) bl M) (int i)) \<and>
      bl_length (mref [] (mput (int j) bl M) (int i)) = bs \<and>
      (mget chunks (int i) \<noteq> None \<longrightarrow> content h2 (mput (int j) bl M) (int i) = content h chunks (int i)) \<and>
      (mget chunks (int i) = None \<longrightarrow> (\<exists>p. mref [] (mput (int j) bl M) (int i) = [p] \<and> length (raws h) \<le> p_raw p \<and>
        (\<forall>i'<Suc j. i' \<noteq> i \<longrightarrow> p_raw p \<notin> bl_raws (mref [] (mput (int j) bl M) (int i')))))"
    if "i < Suc j" for i
  proof (cases "i = j")
    case True
    have "length (raws h1) \<notin> bl_raws (mref [] M (int i'))" if "i' < j" for i'
      using low [OF that] by auto
    with True new same bl av mi frame_length [OF M(1)] show ?thesis
      by (auto simp: content_def less_Suc_eq)
  next
    case False
    with that have i: "i < j" by simp
    note o = old [OF i]
    have "bl_ok h2 (mref [] M (int i))" "bl_bytes h2 (mref [] M (int i)) = bl_bytes h1 (mref [] M (int i))"
      using frame_empty_bl [OF f o(1)] by auto
    moreover have "r \<notin> bl_raws bl" if "length (raws h) \<le> r" "r \<in> bl_raws (mref [] M (int i))" for r
      using ra [of r] low [OF i that(2)] that(1) by auto
    ultimately show ?thesis
      using o i same [of i] same new by (auto simp: content_def less_Suc_eq)
  qed
  moreover have "frame {} h h2" using frame_trans [OF M(1) f] by simp
  moreover have "set (mkeys (mput (int j) bl M)) = int ` {..<Suc j}"
    using M by (auto simp: om.set_keys_put lessThan_Suc)
  ultimately show ?thesis using M(2) by (simp add: slot_inv_def)
qed

lemma decode_slot_step:
  assumes inv: "slot_inv chunks bs h j (h1, M)" and bs: "bs > 0"
    and ch: "\<And>c bl. mget chunks c = Some bl \<Longrightarrow> bl_ok h bl \<and> bl_length bl = bs"
  shows "\<exists>s'. decode_slot chunks bs j (h1, M) = Some s' \<and> slot_inv chunks bs h (Suc j) s'"
proof (cases "mget chunks (int j)")
  case None
  obtain h2 r where cr: "create_aligned bs SIMD_ALIGN h1 = (h2, r)" by fastforce
  note c = create_aligned_spec [OF cr]
  let ?p = "ptr_of_raw h2 r"
  have p: "ptr_ok h2 ?p" "p_len ?p = bs" "p_raw ?p = r" using c bs by auto
  have "int j \<notin> set (mkeys M)" using inv by (auto simp: slot_inv_def)
  then have "mref [] M (int j) = []" by (simp add: mkeys_mget)
  moreover have "slot_inv chunks bs h (Suc j) (h2, mput (int j) [?p] M)"
    using p c None by (intro slot_inv_step [OF inv c(2)]) auto
  ultimately show ?thesis
    using None cr p bs by (simp add: decode_slot_def push_front_def Let_def)
next
  case (Some bl)
  have f: "frame {} h h1" using inv by (simp add: slot_inv_def)
  from ch [OF Some] have bl: "bl_ok h bl" "bl_length bl = bs" by auto
  note b1 = frame_empty_bl [OF f bl(1)]
  obtain h2 bl' where r: "rebuild_aligned SIMD_ALIGN bl h1 = Some (h2, bl')" "realigned h1 bl h2 bl'"
    using rebuild_aligned_loop_spec [OF b1(1), of SIMD_ALIGN SIMD_ALIGN]
    by (auto simp: rebuild_aligned_def rebuild_aligned_size_and_memory_def SIMD_ALIGN_def)
  have "slot_inv chunks bs h (Suc j) (h2, mput (int j) bl' M)"
    using r(2) b1 bl Some bl_ok_raws [OF bl(1)]
    by (intro slot_inv_step [OF inv]) (auto simp: realigned_def content_def)
  with r Some show ?thesis by (simp add: decode_slot_def)
qed

lemma decode_slots:
  assumes "bs > 0" and "\<And>c bl. mget chunks c = Some bl \<Longrightarrow> bl_ok h bl \<and> bl_length bl = bs"
  shows "\<exists>h' M. ofold (decode_slot chunks bs) [0..<n] (h, []) = Some (h', M) \<and> slot_inv chunks bs h n (h', M)"
proof -
  have "\<exists>s. ofold (decode_slot chunks bs) [0..<n] (h, []) = Some s \<and> slot_inv chunks bs h (length [0..<n]) s"
  proof (rule ofold_invariant)
    show "slot_inv chunks bs h 0 (h, [])" by (simp add: slot_inv_def mkeys_def)
    fix i s
    assume "i < length [0..<n]" and inv: "slot_inv chunks bs h i s"
    moreover obtain h1 M where "s = (h1, M)" by fastforce
    ultimately show "\<exists>s'. decode_slot chunks bs ([0..<n] ! i) s = Some s' \<and> slot_inv chunks bs h (Suc i) s'"
      using decode_slot_step [of chunks bs h i h1 M] assms by auto
  qed
  then show ?thesis by auto
qed

text \<open>After the loop the chunks are an arena in which the missing ones may be written.\<close>

lemma slot_inv_arena:
  assumes inv: "slot_inv chunks bs h n (h', M)" and A: "set (mkeys chunks) = A" "A \<subseteq> int ` {..<n}"
  shows "arena h' M (int ` {..<n}) (int ` {..<n} - A) bs" "frame {} h h'"
    "\<And>c. c \<in> A \<Longrightarrow> content h' M c = content h chunks c"
    "\<And>r. r \<in> wraws M (int ` {..<n} - A) \<Longrightarrow> length (raws h) \<le> r"
proof -
  have M: "frame {} h h'" "mok M" "set (mkeys M) = int ` {..<n}" using inv by (auto simp: slot_inv_def)
  have iA: "int i \<in> A \<longleftrightarrow> mget chunks (int i) \<noteq> None" for i using A(1) mkeys_mget [of "int i" chunks] by simp
  have sl: "bl_ok h' (mref [] M (int i))" "bl_length (mref [] M (int i)) = bs"
    "int i \<in> A \<longrightarrow> content h' M (int i) = content h chunks (int i)"
    "int i \<notin> A \<longrightarrow> (\<exists>p. mref [] M (int i) = [p] \<and> length (raws h) \<le> p_raw p \<and>
       (\<forall>i'<n. i' \<noteq> i \<longrightarrow> p_raw p \<notin> bl_raws (mref [] M (int i'))))" if "i < n" for i
    using inv that unfolding iA by (auto simp: slot_inv_def)
  show "arena h' M (int ` {..<n}) (int ` {..<n} - A) bs"
    unfolding arena_def
  proof (intro conjI ballI impI)
    show "mok M" "set (mkeys M) = int ` {..<n}" "int ` {..<n} - A \<subseteq> int ` {..<n}" using M by auto
  next
    fix c
    assume "c \<in> int ` {..<n}"
    then show "bl_ok h' (mref [] M c)" "bl_length (mref [] M c) = bs" using sl by auto
  next
    fix c
    assume "c \<in> int ` {..<n} - A"
    then obtain i where i: "c = int i" "i < n" "int i \<notin> A" by auto
    with sl(4) [OF i(2)] show "\<exists>p. mref [] M c = [p]" by auto
    fix d
    assume "d \<in> int ` {..<n}" "c \<noteq> d"
    with sl(4) [OF i(2)] i show "bl_raws (mref [] M c) \<inter> bl_raws (mref [] M d) = {}" by auto
  qed
  show "frame {} h h'" by (rule M(1))
  show "content h' M c = content h chunks c" if "c \<in> A" for c
    using that A(2) sl(3) by auto
  show "length (raws h) \<le> r" if "r \<in> wraws M (int ` {..<n} - A)" for r
  proof -
    from that obtain i where i: "i < n" "int i \<notin> A" "r \<in> bl_raws (mref [] M (int i))"
      by (auto simp: wraws_def)
    with sl(4) [OF i(1)] show ?thesis by auto
  qed
qed

section \<open>The contract\<close>

text \<open>\<open>enc ds c\<close> is what chunk \<open>c\<close> of the stripe with the data blocks \<open>ds\<close> must hold,
  \<open>recoverable want A\<close> says from which available chunks the wanted ones can be
  computed, \<open>fits len bs\<close> for which object sizes the plugin is used and with which block
  size.\<close>

locale erasure_code =
  fixes C :: codec
    and enc :: "byte list list \<Rightarrow> int \<Rightarrow> byte list"
    and recoverable :: "int set \<Rightarrow> int set \<Rightarrow> bool"
    and fits :: "nat \<Rightarrow> nat \<Rightarrow> bool"
    and encodable :: "int set \<Rightarrow> bool"
  assumes data_le_count: "get_data_chunk_count C \<le> get_chunk_count C"
    and mapping_bij: "bij_betw (chunk_index (chunk_mapping C)) {..<get_chunk_count C} (int ` {..<get_chunk_count C})"
    and systematic: "length ds = get_data_chunk_count C \<Longrightarrow> (\<And>d. d \<in> set ds \<Longrightarrow> length d = bs) \<Longrightarrow>
        i < get_data_chunk_count C \<Longrightarrow>
        enc ds (chunk_index (chunk_mapping C) i) = ds ! i"
    and fits_size: "fits len bs \<Longrightarrow> get_chunk_size C len = Some bs \<and> 0 < bs \<and> len < 2 ^ 32 \<and>
        len \<le> get_data_chunk_count C * bs"
    and encode_chunks_ok:
      "fits len bs \<Longrightarrow> encodable want \<Longrightarrow> length ds = get_data_chunk_count C \<Longrightarrow>
       arena h M (int ` {..<get_chunk_count C})
         (chunk_index (chunk_mapping C) ` {get_data_chunk_count C..<get_chunk_count C}) bs \<Longrightarrow>
       (\<And>i. i < get_data_chunk_count C \<Longrightarrow> content h M (chunk_index (chunk_mapping C) i) = ds ! i) \<Longrightarrow>
       \<exists>h' rc M'. encode_chunks C want M h = Some (h', rc, M') \<and>
         frame (wraws M (chunk_index (chunk_mapping C) ` {get_data_chunk_count C..<get_chunk_count C})) h h' \<and>
         holds h' M' (int ` {..<get_chunk_count C}) bs (enc ds)"
    and decode_chunks_ok:
      "fits len bs \<Longrightarrow> length ds = get_data_chunk_count C \<Longrightarrow> (\<And>d. d \<in> set ds \<Longrightarrow> length d = bs) \<Longrightarrow>
       A \<subseteq> int ` {..<get_chunk_count C} \<Longrightarrow> A \<noteq> {} \<Longrightarrow> want \<subseteq> int ` {..<get_chunk_count C} \<Longrightarrow>
       recoverable want A \<Longrightarrow> holds h0 chunks A bs (enc ds) \<Longrightarrow>
       arena h M (int ` {..<get_chunk_count C}) (int ` {..<get_chunk_count C} - A) bs \<Longrightarrow>
       (\<And>c. c \<in> A \<Longrightarrow> content h M c = enc ds c) \<Longrightarrow>
       \<exists>h' M'. decode_chunks C want chunks M h = Some (h', 0, M') \<and>
         frame (wraws M (int ` {..<get_chunk_count C} - A)) h h' \<and>
         mok M' \<and> set (mkeys M') = int ` {..<get_chunk_count C} \<and>
         (\<forall>c \<in> want \<union> A. bl_ok h' (mref [] M' c) \<and> bl_length (mref [] M' c) = bs \<and> content h' M' c = enc ds c)"
begin

abbreviation k :: nat where "k \<equiv> get_data_chunk_count C"
abbreviation n :: nat where "n \<equiv> get_chunk_count C"
abbreviation idx :: "nat \<Rightarrow> int" where "idx \<equiv> chunk_index (chunk_mapping C)"

lemma idx_inj: "inj_on idx {..<n}"
  using mapping_bij by (rule bij_betw_imp_inj_on)

lemma idx_image: "idx ` {..<n} = int ` {..<n}"
  using mapping_bij by (rule bij_betw_imp_surj_on)

lemma idx_data: "idx ` {..<k} \<subseteq> int ` {..<n}"
  using idx_image data_le_count by auto

end

lemma erase_unwanted_spec:
  "mok M \<Longrightarrow> mok (erase_unwanted want n M) \<and>
    mget (erase_unwanted want n M) c = (if c \<in> int ` {..<n} \<and> c \<notin> want then None else mget M c)"
proof (induction n)
  case (Suc n)
  have "erase_unwanted want (Suc n) M =
      (if int n \<notin> want then mdel (int n) (erase_unwanted want n M) else erase_unwanted want n M)"
    by (simp add: erase_unwanted_def)
  with Suc show ?case by (auto simp: lessThan_Suc)
qed (simp add: erase_unwanted_def)

lemma holds_erase_unwanted:
  assumes "holds h M (int ` {..<n}) bs val"
  shows "holds h (erase_unwanted want n M) (int ` {..<n} \<inter> want) bs val"
proof -
  have M: "mok M" "set (mkeys M) = int ` {..<n}" using assms by (auto simp: holds_def)
  note e = erase_unwanted_spec [OF M(1), of want n]
  have "c \<in> set (mkeys (erase_unwanted want n M)) \<longleftrightarrow> c \<in> int ` {..<n} \<inter> want" for c
    using e M(2) mkeys_mget [of c M] by (auto simp: mkeys_mget)
  moreover have "mref [] (erase_unwanted want n M) c = mref [] M c" if "c \<in> int ` {..<n} \<inter> want" for c
    using e that by (simp add: mref_def)
  ultimately show ?thesis
    using assms e by (auto simp: holds_def content_def)
qed

text \<open>What is left when only the chunks in \<open>A\<close> survive.\<close>

definition survivors :: "int set \<Rightarrow> chunks \<Rightarrow> chunks" where
  "survivors A M = filter (\<lambda>e. fst e \<in> A) M"

lemma holds_survivors:
  assumes "holds h M N bs val" "A \<subseteq> N"
  shows "holds h (survivors A M) A bs val"
proof -
  have M: "mok M" "set (mkeys M) = N" using assms by (auto simp: holds_def)
  have ok: "mok (survivors A M)" using M(1) by (simp add: survivors_def mok_def sorted_wrt_filter sorted_wrt_map)
  have same: "mget (survivors A M) c = mget M c" if "c \<in> A" for c
    unfolding survivors_def mget_def using that by (induction M) auto
  have "set (mkeys (survivors A M)) = A" using M(2) assms(2) by (auto simp: survivors_def mkeys_def)
  with ok same assms show ?thesis by (auto simp: holds_def content_def mref_def)
qed

section \<open>Encoding and decoding through the base class\<close>

context erasure_code
begin

lemma encode_spec:
  assumes raw: "bl_ok h raw" and fits: "fits (bl_length raw) bs" and want: "encodable want"
  shows "\<exists>h' M. encode C want raw [] h = Some (h', 0, M) \<and> frame {} h h' \<and>
    holds h' M (int ` {..<n} \<inter> want) bs (enc (map (block k bs (bl_bytes h raw)) [0..<k]))"
proof -
  let ?blk = "block k bs (bl_bytes h raw)" and ?W = "idx ` {k..<n}"
  note fs = fits_size [OF fits]
  obtain h1 M1 where p: "encode_prepare C raw [] h = Some (h1, 0, M1)"
      "prep_inv k idx bs ?blk h n (h1, M1)"
    using encode_prepare_spec [OF raw, of C bs] fs data_le_count idx_inj by auto
  note ar = prep_inv_arena [OF p(2) data_le_count idx_inj, unfolded idx_image]
  obtain h2 rc M2 where e: "encode_chunks C want M1 h1 = Some (h2, rc, M2)"
      "frame (wraws M1 ?W) h1 h2" "holds h2 M2 (int ` {..<n}) bs (enc (map ?blk [0..<k]))"
    using encode_chunks_ok [OF fits want, of "map ?blk [0..<k]" h1 M1] ar(1,3) by auto
  have "frame {} h h2"
    using frame_step [OF ar(2) e(2)] ar(4) by fastforce
  moreover have "encode C want raw [] h = Some (h2, 0, erase_unwanted want n M2)"
    using p(1) e(1) data_le_count by (simp add: encode_def Let_def)
  ultimately show ?thesis
    using holds_erase_unwanted [OF e(3)] by blast
qed

lemma decode_spec:
  assumes fits: "fits len bs" and ds: "length ds = k" "\<And>d. d \<in> set ds \<Longrightarrow> length d = bs"
    and A: "A \<subseteq> int ` {..<n}" "A \<noteq> {}" "holds h chunks A bs (enc ds)"
    and want: "want \<subseteq> int ` {..<n}" "want \<subseteq> A \<or> recoverable want A"
  shows "\<exists>h' M. decode C want chunks [] h = Some (h', 0, M) \<and> frame {} h h' \<and> mok M \<and>
    (\<forall>c\<in>want. bl_ok h' (mref [] M c) \<and> bl_length (mref [] M c) = bs \<and> content h' M c = enc ds c)"
proof (cases "want \<subseteq> A")
  case True
  have fin: "finite want" using want(1) by (rule finite_subset) simp
  let ?put = "\<lambda>i d. mput i (mref [] chunks i) d"
  have "mok (fold ?put xs M) \<and> (\<forall>c. mref [] (fold ?put xs M) c =
      (if c \<in> set xs then mref [] chunks c else mref [] M c))" if "mok M" for xs M
    using that by (induction xs arbitrary: M) (auto simp: mref_def)
  from this [of "[]" "sorted_list_of_set want"]
  have "mok (fold ?put (sorted_list_of_set want) [])"
    "\<forall>c\<in>want. mref [] (fold ?put (sorted_list_of_set want) []) c = mref [] chunks c"
    using fin by simp_all
  moreover have "decode C want chunks [] h = Some (h, 0, fold ?put (sorted_list_of_set want) [])"
    using True A(3) by (simp add: decode_def holds_def)
  ultimately show ?thesis
    using True A(3) by (auto simp: holds_def content_def)
next
  case False
  with want(2) have rec: "recoverable want A" by simp
  have key: "set (mkeys chunks) = A" "mok chunks" using A(3) by (auto simp: holds_def)
  note fs = fits_size [OF fits]
  have ch: "bl_ok h bl \<and> bl_length bl = bs" if "mget chunks c = Some bl" for c bl
    using A(3) that mkeys_mget [of c chunks] key by (auto simp: holds_def)
  from key(1) A(2) have ne: "chunks \<noteq> []" by (auto simp: mkeys_def)
  then have "bl_length (snd (hd chunks)) = bs"
    using ch [of "fst (hd chunks)" "snd (hd chunks)"] mget_in_set [OF key(2)] by simp
  moreover obtain h1 M1 where s: "ofold (decode_slot chunks bs) [0..<n] (h, []) = Some (h1, M1)"
      "slot_inv chunks bs h n (h1, M1)"
    using decode_slots [of bs chunks h n] fs ch by auto
  note ar = slot_inv_arena [OF s(2) key(1) A(1)]
  have "content h1 M1 c = enc ds c" if "c \<in> A" for c
    using ar(3) [OF that] A(3) that by (simp add: holds_def)
  then obtain h2 M2 where d: "decode_chunks C want chunks M1 h1 = Some (h2, 0, M2)"
      "frame (wraws M1 (int ` {..<n} - A)) h1 h2" "mok M2"
      "\<forall>c \<in> want \<union> A. bl_ok h2 (mref [] M2 c) \<and> bl_length (mref [] M2 c) = bs \<and> content h2 M2 c = enc ds c"
    using decode_chunks_ok [OF fits ds A(1,2) want(1) rec A(3) ar(1)] by auto
  have "frame {} h h2" using frame_step [OF ar(2) d(2)] ar(4) by fastforce
  moreover have "decode C want chunks [] h = Some (h2, 0, M2)"
    using False key ne s(1) d(1) data_le_count \<open>bl_length (snd (hd chunks)) = bs\<close>
    by (simp add: decode_def Let_def)
  ultimately show ?thesis using d(3,4) by auto
qed

end

text \<open>The concatenation loop of \<open>decode_concat\<close>.\<close>

lemma claim_loop:
  assumes "mok dm" "distinct cs"
  shows "fst (fold (\<lambda>c (d, dm). let (d', rest) = claim_append d (mref [] dm c) in (d', mput c rest dm)) cs (d, dm))
    = d @ concat (map (mref [] dm) cs)"
  using assms
proof (induction cs arbitrary: d dm)
  case (Cons c cs)
  have "map (mref [] (mput c [] dm)) cs = map (mref [] dm) cs"
    using Cons.prems by (auto simp: mref_def)
  with Cons show ?case by (simp add: claim_append_def del: map_eq_conv)
qed simp

lemma concat_chunks:
  assumes "\<forall>c\<in>set cs. bl_ok h (m c) \<and> bl_length (m c) = bs"
  shows "bl_ok h (concat (map m cs)) \<and> bl_length (concat (map m cs)) = length cs * bs \<and>
    bl_bytes h (concat (map m cs)) = concat (map (bl_bytes h \<circ> m) cs)"
  using assms by (induction cs) auto

lemma concat_blocks:
  assumes "length obj \<le> k * bs"
  shows "concat (map (block k bs obj) [0..<k]) = obj @ replicate (k * bs - length obj) 0"
proof -
  let ?p = "obj @ replicate (k * bs - length obj) 0"
  have "concat (map (\<lambda>i. take bs (drop (i * bs) q)) [0..<j]) = take (j * bs) q" for j and q :: "byte list"
    by (induction j) (simp_all add: take_add add.commute [of bs])
  from this [of ?p k] assms show ?thesis by (simp add: block_def [abs_def] del: take_append drop_append)
qed

context erasure_code
begin

lemma decode_concat_spec:
  assumes fits: "fits len bs" and ds: "length ds = k" "\<And>d. d \<in> set ds \<Longrightarrow> length d = bs"
    and A: "A \<subseteq> int ` {..<n}" "A \<noteq> {}" "holds h chunks A bs (enc ds)"
    and rec: "idx ` {..<k} \<subseteq> A \<or> recoverable (idx ` {..<k}) A"
  shows "\<exists>h' out. decode_concat C chunks [] h = Some (h', 0, out) \<and> frame {} h h' \<and>
    bl_ok h' out \<and> bl_bytes h' out = concat ds \<and> bl_length out = k * bs"
proof -
  let ?cs = "map idx [0..<k]"
  have set_cs: "set ?cs = idx ` {..<k}" by (simp add: atLeast0LessThan)
  have "inj_on idx {..<k}"
    using idx_inj by (rule inj_on_subset) (use data_le_count in auto)
  then have dist: "distinct ?cs" by (simp add: distinct_map atLeast0LessThan)
  obtain h' M where d: "decode C (set ?cs) chunks [] h = Some (h', 0, M)" "frame {} h h'" "mok M"
      "\<forall>c\<in>set ?cs. bl_ok h' (mref [] M c) \<and> bl_length (mref [] M c) = bs \<and> content h' M c = enc ds c"
    using decode_spec [OF fits ds A idx_data rec] unfolding set_cs by blast
  have data: "map (\<lambda>i. content h' M (idx i)) [0..<k] = ds"
    using d(4) ds(1) systematic [OF ds] by (intro nth_equalityI) auto
  let ?out = "concat (map (mref [] M) ?cs)"
  have "bl_ok h' ?out \<and> bl_length ?out = length ?cs * bs \<and> bl_bytes h' ?out = concat (map (content h' M) ?cs)"
    using concat_chunks [of ?cs h' "mref [] M" bs] d(4) by (simp add: content_def comp_def)
  moreover have "decode_concat C chunks [] h = Some (h', 0, ?out)"
    using d(1) claim_loop [OF d(3) dist, of "[]"] by (simp add: decode_concat_def Let_def)
  ultimately show ?thesis
    using d(2) data by (simp add: comp_def)
qed

text \<open>The object comes back, followed by the padding, from any recoverable part of
  its chunks.\<close>

lemma held_decode_concat:
  assumes raw: "bl_ok h raw" and fits: "fits (bl_length raw) bs"
    and held: "holds h1 M A bs (enc (map (block k bs (bl_bytes h raw)) [0..<k]))" "frame {} h h1"
    and A: "A \<subseteq> int ` {..<n}" "A \<noteq> {}" "idx ` {..<k} \<subseteq> A \<or> recoverable (idx ` {..<k}) A"
  shows "\<exists>h2 out. decode_concat C M [] h1 = Some (h2, 0, out) \<and> frame {} h h2 \<and> bl_ok h2 out \<and>
    bl_bytes h2 out = bl_bytes h raw @ replicate (k * bs - bl_length raw) 0"
proof -
  let ?ds = "map (block k bs (bl_bytes h raw)) [0..<k]"
  have len: "length (bl_bytes h raw) = bl_length raw" using raw by (simp add: buf_simps)
  note fs = fits_size [OF fits]
  have "length d = bs" if "d \<in> set ?ds" for d
    using that fs len length_block [of "bl_bytes h raw" k bs] by auto
  then obtain h2 out where "decode_concat C M [] h1 = Some (h2, 0, out)" "bl_ok h2 out"
      "bl_bytes h2 out = concat ?ds" "frame {} h1 h2"
    using decode_concat_spec [OF fits _ _ A(1,2) held(1) A(3)] by auto
  then show ?thesis
    using held(2) frame_trans [of "{}" h h1 "{}" h2] concat_blocks [of "bl_bytes h raw" k bs] fs len by auto
qed

lemma encode_decode_concat:
  assumes raw: "bl_ok h raw" and fits: "fits (bl_length raw) bs"
    and A: "A \<subseteq> int ` {..<n}" "A \<noteq> {}" "idx ` {..<k} \<subseteq> A \<or> recoverable (idx ` {..<k}) A" and want: "encodable A"
  shows "\<exists>h1 M h2 out. encode C A raw [] h = Some (h1, 0, M) \<and> set (mkeys M) = A \<and> decode_concat C M [] h1 = Some (h2, 0, out) \<and>
    frame {} h h2 \<and> bl_ok h2 out \<and> bl_bytes h2 out = bl_bytes h raw @ replicate (k * bs - bl_length raw) 0"
proof -
  have "int ` {..<n} \<inter> A = A" using A(1) by auto
  then obtain h1 M where e: "encode C A raw [] h = Some (h1, 0, M)"
      "holds h1 M A bs (enc (map (block k bs (bl_bytes h raw)) [0..<k]))" "frame {} h h1"
    using encode_spec [OF raw fits want] by auto
  moreover have "set (mkeys M) = A" using e(2) by (simp add: holds_def)
  ultimately show ?thesis using held_decode_concat [OF raw fits e(2,3) A] by auto
qed

text \<open>All chunks are written, and those in \<open>A\<close> survive.\<close>

lemma encode_lose_decode:
  assumes raw: "bl_ok h raw" and fits: "fits (bl_length raw) bs"
    and A: "A \<subseteq> int ` {..<n}" "A \<noteq> {}" "idx ` {..<k} \<subseteq> A \<or> recoverable (idx ` {..<k}) A"
    and want: "encodable (int ` {..<n})"
  shows "\<exists>h1 M h2 out. encode C (int ` {..<n}) raw [] h = Some (h1, 0, M) \<and> set (mkeys M) = int ` {..<n} \<and>
    decode_concat C (survivors A M) [] h1 = Some (h2, 0, out) \<and>
    frame {} h h2 \<and> bl_ok h2 out \<and> bl_bytes h2 out = bl_bytes h raw @ replicate (k * bs - bl_length raw) 0"
proof -
  obtain h1 M where e: "encode C (int ` {..<n}) raw [] h = Some (h1, 0, M)"
      "holds h1 M (int ` {..<n}) bs (enc (map (block k bs (bl_bytes h raw)) [0..<k]))" "frame {} h h1"
    using encode_spec [OF raw fits want] by auto
  moreover have "set (mkeys M) = int ` {..<n}" using e(2) by (simp add: holds_def)
  ultimately show ?thesis
    using held_decode_concat [OF raw fits holds_survivors [OF e(2) A(1)] e(3) A] by auto
qed

end

section \<open>An object in memory\<close>

text \<open>Five bytes in the middle of a buffer, for the instances of the theorems.\<close>

definition example_heap :: heap where
  "example_heap = \<lparr>raws = [\<lparr>raw_addr = 64, raw_data = [10, 20, 30, 40, 50, 60]\<rparr>], place = (\<lambda>_. 1), junk = (\<lambda>_ _. 1)\<rparr>"

definition example_object :: bufferlist where
  "example_object = [\<lparr>p_raw = 0, p_off = 1, p_len = 5\<rparr>]"

lemma example_object_ok: "bl_ok example_heap example_object" "bl_length example_object = 5"
    "bl_bytes example_heap example_object = [20, 30, 40, 50, 60]"
  by (simp_all add: bl_ok_def ptr_ok_def bl_length_def bl_bytes_def ptr_bytes_def example_object_def example_heap_def)

end
