(* ===== verification/Jerasure_Lib.thy ===== *)
theory Jerasure_Lib
  imports Codec_Contract
begin

text \<open>
  The part of the jerasure library the plugins call. The library is a separate project
  that the tree only links, so its functions are parameters: the fields of the record
  \<open>jerasure\<close>. The locale \<open>jerasure_lib\<close> states what its manual documents of them for
  words of 8 bits: the product of a byte matrix with the data regions over a field with
  \<open>2 ^ 8\<close> elements, and the xor of two regions. \<open>ref_jerasure\<close> is an instance with the
  field of the polynomial \<open>0x11d\<close>, the library's default.
\<close>

section \<open>Products over a field of 256 elements\<close>

text \<open>One product of a matrix row with the data regions: byte by byte the xor of the
  coefficients times the data bytes.\<close>

definition dot :: "(byte \<Rightarrow> byte \<Rightarrow> byte) \<Rightarrow> byte list \<Rightarrow> byte list list \<Rightarrow> nat \<Rightarrow> byte list" where
  "dot mul row ds bs = map (\<lambda>i. xsum (map (\<lambda>j. mul (row ! j) (ds ! j ! i)) [0..<length row])) [0..<bs]"

definition unit_row :: "nat \<Rightarrow> nat \<Rightarrow> byte list" where
  "unit_row k j = (replicate k 0)[j := 1]"

lemma length_dot [simp]: "length (dot mul row ds bs) = bs"
  by (simp add: dot_def)

lemma nth_dot [simp]: "i < bs \<Longrightarrow>
    dot mul row ds bs ! i = xsum (map (\<lambda>j. mul (row ! j) (ds ! j ! i)) [0..<length row])"
  by (simp add: dot_def)

locale gf256 =
  fixes mul :: "byte \<Rightarrow> byte \<Rightarrow> byte"
  assumes mul_xor: "mul (a XOR b) x = mul a x XOR mul b x"
    and mul_one: "mul 1 x = x"
begin

lemma mul_zero: "mul 0 x = 0"
  using mul_xor [of 0 0 x] by simp

lemma mul_xsum: "xsum (map (\<lambda>c. mul (f c) x) cs) = mul (xsum (map f cs)) x"
  by (induction cs) (simp_all add: mul_zero mul_xor)

text \<open>A unit row copies a region.\<close>

lemma dot_unit_row:
  assumes "j < k" "length (ds ! j) = bs"
  shows "dot mul (unit_row k j) ds bs = ds ! j"
proof (rule nth_equalityI)
  fix i assume "i < length (dot mul (unit_row k j) ds bs)"
  moreover have "xsum (map (\<lambda>l. mul (unit_row k j ! l) (ds ! l ! i)) [0..<k]) = ds ! j ! i"
  proof -
    have "xsum (map (\<lambda>l. mul (unit_row k j ! l) (ds ! l ! i)) (filter (\<lambda>l. l \<noteq> j) [0..<k]))
        = xsum (map (\<lambda>l. 0) (filter (\<lambda>l. l \<noteq> j) [0..<k]))"
      by (intro arg_cong [of _ _ xsum] map_cong) (auto simp: unit_row_def mul_zero)
    with xsum_split [of j "[0..<k]" "\<lambda>l. mul (unit_row k j ! l) (ds ! l ! i)"] assms(1)
    show ?thesis by (simp add: mul_one) (simp add: unit_row_def mul_one)
  qed
  ultimately show "dot mul (unit_row k j) ds bs ! i = ds ! j ! i"
    by (simp add: unit_row_def)
qed (use assms in simp)

text \<open>Rows that cancel give products that cancel.\<close>

lemma xsum_dot:
  assumes "\<And>c. c \<in> set cs \<Longrightarrow> length (row c) = k" "i < bs"
    and "\<And>j. j < k \<Longrightarrow> xsum (map (\<lambda>c. row c ! j) cs) = 0"
  shows "xsum (map (\<lambda>c. dot mul (row c) ds bs ! i) cs) = 0"
proof -
  have "map (\<lambda>c. dot mul (row c) ds bs ! i) cs =
      map (\<lambda>c. xsum (map (\<lambda>j. mul (row c ! j) (ds ! j ! i)) [0..<k])) cs"
    using assms(1,2) by simp
  also have "xsum \<dots> = xsum (map (\<lambda>j. mul (xsum (map (\<lambda>c. row c ! j) cs)) (ds ! j ! i)) [0..<k])"
    by (simp only: xsum_swap [of _ "[0..<k]" cs] mul_xsum)
  also have "\<dots> = xsum (map (\<lambda>j. 0) [0..<k])"
    using assms(3) by (intro arg_cong [of _ _ xsum] map_cong) (auto simp: mul_zero)
  finally show ?thesis by simp
qed

end

section \<open>The library\<close>

text \<open>Arrays of \<open>char *\<close> are lists; a null pointer is \<open>None\<close>. The sizes are C \<open>int\<close>s.\<close>

record jerasure =
  jerasure_matrix_encode ::
    "int \<Rightarrow> int \<Rightarrow> int \<Rightarrow> int list \<Rightarrow> cptr option list \<Rightarrow> cptr option list \<Rightarrow> int \<Rightarrow> heap \<Rightarrow> heap option"
  galois_region_xor :: "cptr option \<Rightarrow> cptr option \<Rightarrow> int \<Rightarrow> heap \<Rightarrow> heap option"

definition matrix_row :: "int list \<Rightarrow> nat \<Rightarrow> nat \<Rightarrow> byte list" where
  "matrix_row matrix k i = map word_of_int (take k (drop (i * k) matrix))"

definition write_products ::
    "(byte \<Rightarrow> byte \<Rightarrow> byte) \<Rightarrow> nat \<Rightarrow> int list \<Rightarrow> byte list list \<Rightarrow> cptr list \<Rightarrow> nat \<Rightarrow> heap \<Rightarrow> heap option" where
  "write_products mul k matrix ds coding bs h =
     ofold (\<lambda>i h. mem_write h (coding ! i) (dot mul (matrix_row matrix k i) ds bs)) [0..<length coding] h"

text \<open>Documented behaviour: the size is a multiple of the machine word, coding regions
  neither overlap each other nor the data; then every coding region is written with its
  product, and \<open>galois_region_xor(src, dst, n)\<close> adds \<open>src\<close> to \<open>dst\<close>.\<close>

locale jerasure_lib = gf256 mul for mul +
  fixes J :: jerasure
  assumes matrix_encode:
      "length matrix = length coding * length data \<Longrightarrow> bs mod 8 = 0 \<Longrightarrow> set matrix \<subseteq> {0..255} \<Longrightarrow>
       length ds = length data \<Longrightarrow> (\<And>i. i < length data \<Longrightarrow> mem_read h (data ! i) bs = Some (ds ! i)) \<Longrightarrow>
       (\<And>p. p \<in> set coding \<Longrightarrow> mem_read h p bs \<noteq> None) \<Longrightarrow>
       distinct (map fst coding) \<Longrightarrow> fst ` set coding \<inter> fst ` set data = {} \<Longrightarrow>
       jerasure_matrix_encode J (int (length data)) (int (length coding)) 8 matrix
         (map Some data) (map Some coding) (int bs) h
       = write_products mul (length data) matrix ds coding bs h"
    and region_xor:
      "mem_read h src bs = Some s \<Longrightarrow> mem_read h dst bs = Some d \<Longrightarrow> fst src \<noteq> fst dst \<Longrightarrow>
       galois_region_xor J (Some src) (Some dst) (int bs) h = mem_write h dst (bxor s d)"

section \<open>A reference instance\<close>

definition xtime :: "byte \<Rightarrow> byte" where
  "xtime b = (if bit b 7 then push_bit 1 b XOR 0x1d else push_bit 1 b)"

definition gf_mul :: "byte \<Rightarrow> byte \<Rightarrow> byte" where
  "gf_mul a b = xsum (map (\<lambda>i. if bit a i then (xtime ^^ i) b else 0) [0..<8])"

interpretation ref_gf: gf256 gf_mul
proof
  fix a b x :: byte
  have "(if bit (a XOR b) i then (xtime ^^ i) x else 0) =
      (if bit a i then (xtime ^^ i) x else 0) XOR (if bit b i then (xtime ^^ i) x else 0)" for i
    by (simp add: bit_xor_iff)
  then show "gf_mul (a XOR b) x = gf_mul a x XOR gf_mul b x"
    by (simp only: gf_mul_def xsum_map_xor)
  show "gf_mul 1 x = x"
    by (simp add: gf_mul_def upt_rec bit_1_iff)
qed

definition reads :: "heap \<Rightarrow> nat \<Rightarrow> cptr option list \<Rightarrow> byte list list" where
  "reads h bs ps = map (\<lambda>p. case p of None \<Rightarrow> [] | Some p \<Rightarrow> (case mem_read h p bs of None \<Rightarrow> [] | Some d \<Rightarrow> d)) ps"

definition ref_matrix_encode ::
    "int \<Rightarrow> int \<Rightarrow> int \<Rightarrow> int list \<Rightarrow> cptr option list \<Rightarrow> cptr option list \<Rightarrow> int \<Rightarrow> heap \<Rightarrow> heap option" where
  "ref_matrix_encode k m w matrix data coding bs h =
     (if None \<in> set coding then None
      else write_products gf_mul (nat k) matrix (reads h (nat bs) data) (map the coding) (nat bs) h)"

definition ref_region_xor :: "cptr option \<Rightarrow> cptr option \<Rightarrow> int \<Rightarrow> heap \<Rightarrow> heap option" where
  "ref_region_xor src dst bs h = do {
     src \<leftarrow> src; dst \<leftarrow> dst;
     s \<leftarrow> mem_read h src (nat bs); d \<leftarrow> mem_read h dst (nat bs);
     mem_write h dst (bxor s d) }"

definition ref_jerasure :: jerasure where
  "ref_jerasure = \<lparr>jerasure_matrix_encode = ref_matrix_encode, galois_region_xor = ref_region_xor\<rparr>"

interpretation ref_lib: jerasure_lib gf_mul ref_jerasure
proof
  fix matrix :: "int list" and coding data :: "cptr list" and ds h bs
  assume ds: "length ds = length data" "\<And>i. i < length data \<Longrightarrow> mem_read h (data ! i) bs = Some (ds ! i)"
  then have "reads h bs (map Some data) = ds"
    by (intro nth_equalityI) (auto simp: reads_def)
  then show "jerasure_matrix_encode ref_jerasure (int (length data)) (int (length coding)) 8 matrix
      (map Some data) (map Some coding) (int bs) h = write_products gf_mul (length data) matrix ds coding bs h"
    by (auto simp: ref_jerasure_def ref_matrix_encode_def comp_def)
qed (simp add: ref_jerasure_def ref_region_xor_def)

end
