(* ===== verification/Chunk_Access.thy ===== *)
theory Chunk_Access
  imports Codec_Contract
begin

text \<open>
  How a plugin reaches the bytes of the chunks it is given: \<open>(*encoded)[c].c_str()\<close> makes
  the buffer of a chunk contiguous, in place, and yields a pointer to it, through which
  the chunk is then read and written. The lemmas say that taking the pointers changes no
  content, and that writing through the pointer of a chunk changes that chunk only.
\<close>

section \<open>Pointers to chunks\<close>

definition c_str_at :: "int \<Rightarrow> heap \<times> chunks \<Rightarrow> (heap \<times> chunks \<times> cptr option) option" where
  "c_str_at c s =
     (case s of (h, M) \<Rightarrow> do {
        (h, bl, p) \<leftarrow> bl_c_str (mref [] M c) h;
        Some (h, mput c bl M, p) })"

fun c_strs :: "int list \<Rightarrow> heap \<times> chunks \<Rightarrow> (heap \<times> chunks \<times> cptr option list) option" where
  "c_strs [] s = (case s of (h, M) \<Rightarrow> Some (h, M, []))"
| "c_strs (c # cs) s = do {
     (h, M, p) \<leftarrow> c_str_at c s;
     (h, M, ps) \<leftarrow> c_strs cs (h, M);
     Some (h, M, p # ps) }"

lemma arena_simps:
  assumes "arena h M N W bs"
  shows "mok M" "set (mkeys M) = N" "W \<subseteq> N"
    "\<And>c. c \<in> N \<Longrightarrow> bl_ok h (mref [] M c)" "\<And>c. c \<in> N \<Longrightarrow> bl_length (mref [] M c) = bs"
    "\<And>c. c \<in> W \<Longrightarrow> \<exists>p. mref [] M c = [p]"
    "\<And>c d. c \<in> W \<Longrightarrow> d \<in> N \<Longrightarrow> c \<noteq> d \<Longrightarrow> bl_raws (mref [] M c) \<inter> bl_raws (mref [] M d) = {}"
  using assms by (auto simp: arena_def)

lemma arena_window:
  assumes "arena h M N W bs" "c \<in> N" "mref [] M c = [q]"
  shows "ptr_ok h q" "p_len q = bs" "ptr_bytes h q = content h M c"
    "mem_read h (ptr_c_str q) bs = Some (content h M c)"
proof -
  show *: "ptr_ok h q" "p_len q = bs" "ptr_bytes h q = content h M c"
    using arena_simps(4,5) [OF assms(1,2)] assms(3) by (simp_all add: content_def)
  show "mem_read h (ptr_c_str q) bs = Some (content h M c)"
    using mem_read_ptr [OF *(1)] * by simp
qed

lemma frame_arena: "frame V h h' \<Longrightarrow> arena h M N W bs \<Longrightarrow> arena h' M N W bs"
  unfolding arena_def using frame_bl_ok by blast

lemma length_content: "arena h M N W bs \<Longrightarrow> c \<in> N \<Longrightarrow> length (content h M c) = bs"
  using arena_simps(4,5) by (simp add: content_def length_bl_bytes)

lemma arena_hd: "arena h M N W bs \<Longrightarrow> N \<noteq> {} \<Longrightarrow> M \<noteq> [] \<and> bl_length (snd (hd M)) = bs"
proof -
  assume ar: "arena h M N W bs" and "N \<noteq> {}"
  then have ne: "M \<noteq> []" using arena_simps(2) [OF ar] by (auto simp: mkeys_def)
  then have "(fst (hd M), snd (hd M)) \<in> set M" by simp
  then have "mget M (fst (hd M)) = Some (snd (hd M))" "fst (hd M) \<in> N"
    using arena_simps(1,2) [OF ar] by (force simp: mget_in_set mkeys_def)+
  with arena_simps(5) [OF ar] ne show ?thesis by force
qed

lemma holds_arena: "holds h M A bs val \<Longrightarrow> arena h M A {} bs"
  by (simp add: holds_def arena_def)

text \<open>What taking pointers may change: lists of several buffers become one buffer.\<close>

definition solidified :: "int set \<Rightarrow> heap \<Rightarrow> chunks \<Rightarrow> heap \<Rightarrow> chunks \<Rightarrow> bool" where
  "solidified N h M h' M' \<longleftrightarrow> frame {} h h' \<and> (\<forall>c\<in>N. content h' M' c = content h M c) \<and>
     (\<forall>c p. mref [] M c = [p] \<longrightarrow> mref [] M' c = [p]) \<and>
     (\<forall>c. bl_raws (mref [] M' c) \<subseteq> bl_raws (mref [] M c) \<union> {length (raws h)..})"

lemma solidified_refl [simp]: "solidified N h M h M"
  by (simp add: solidified_def)

lemma solidified_trans: "solidified N h M h' M' \<Longrightarrow> solidified N h' M' h'' M'' \<Longrightarrow> solidified N h M h'' M''"
proof -
  assume 1: "solidified N h M h' M'" and 2: "solidified N h' M' h'' M''"
  have le: "length (raws h) \<le> length (raws h')" using 1 frame_length by (auto simp: solidified_def)
  have "bl_raws (mref [] M'' c) \<subseteq> bl_raws (mref [] M c) \<union> {length (raws h)..}" for c
  proof -
    have "bl_raws (mref [] M'' c) \<subseteq> bl_raws (mref [] M' c) \<union> {length (raws h')..}"
      "bl_raws (mref [] M' c) \<subseteq> bl_raws (mref [] M c) \<union> {length (raws h)..}"
      using 1 2 unfolding solidified_def by metis+
    with le show ?thesis by fastforce
  qed
  moreover have "frame {} h h''" using 1 2 frame_trans [of "{}" h h' "{}" h''] by (simp add: solidified_def)
  ultimately show ?thesis using 1 2 by (simp add: solidified_def)
qed

lemma solidified_wraws:
  "arena h M N W bs \<Longrightarrow> solidified N h M h' M' \<Longrightarrow> V \<subseteq> W \<Longrightarrow> wraws M' V = wraws M V"
  unfolding solidified_def wraws_def by (metis (no_types, lifting) SUP_cong arena_simps(6) subsetD)

lemma c_str_at_spec:
  assumes ar: "arena h M N W bs" and "c \<in> N" "0 < bs"
  shows "\<exists>h' M' q. c_str_at c (h, M) = Some (h', M', Some (ptr_c_str q)) \<and>
    arena h' M' N W bs \<and> solidified N h M h' M' \<and> mref [] M' c = [q]"
proof -
  let ?bl = "mref [] M c"
  note a = arena_simps [OF ar]
  have "?bl \<noteq> []" using a(5) [OF assms(2)] assms(3) by auto
  then obtain h' q where s: "bl_c_str ?bl h = Some (h', [q], Some (ptr_c_str q))" and g: "gathered h ?bl h' q"
    using bl_c_str_spec [OF a(4) [OF assms(2)]] by auto
  let ?M = "mput c [q] M"
  have M: "mref [] ?M d = (if d = c then [q] else mref [] M d)" for d
    using a(1) by (simp add: mref_def)
  have fr: "frame {} h h'" and q: "ptr_ok h' q" "p_len q = bs" "ptr_bytes h' q = content h M c"
    "p_raw q \<in> bl_raws ?bl \<or> length (raws h) \<le> p_raw q"
    using g a(5) [OF assms(2)] by (auto simp: gathered_def content_def)
  have single: "mref [] ?M d = [p]" if "mref [] M d = [p]" for d p
    using that s by (auto simp: M bl_c_str_def)
  have cont: "content h' ?M d = content h M d" if "d \<in> N" for d
    using q(3) frame_bl_bytes [OF fr a(4) [OF that]] by (auto simp: content_def M)
  have raws: "bl_raws (mref [] ?M d) \<subseteq> bl_raws (mref [] M d) \<union> {length (raws h)..}" for d
    using q(4) by (auto simp: M)
  have old: "r < length (raws h)" if "r \<in> bl_raws (mref [] M d)" "d \<in> N" for r d
    using bl_ok_raws [OF a(4) [OF that(2)] that(1)] .
  have "arena h' ?M N W bs"
    unfolding arena_def
  proof (intro conjI ballI impI)
    show "set (mkeys ?M) = N" using a(1,2) assms(2) by (auto simp: om.set_keys_put)
  next
    fix d assume "d \<in> W"
    then show "\<exists>p. mref [] ?M d = [p]" using a(6) single by blast
  next
    fix d e assume "d \<in> W" "e \<in> N" "d \<noteq> e"
    moreover from a(6) [OF this(1)] have "mref [] ?M d = mref [] M d" using single by auto
    ultimately show "bl_raws (mref [] ?M d) \<inter> bl_raws (mref [] ?M e) = {}"
      using a(3) a(7) [of d e] raws [of e] old [of _ d] by fastforce
  qed (use a q frame_bl_ok [OF fr] in \<open>auto simp: M\<close>)
  moreover have "solidified N h M h' ?M"
    unfolding solidified_def using fr cont single raws by blast
  ultimately show ?thesis
    using s by (auto simp: c_str_at_def M)
qed

lemma c_strs_spec:
  assumes "arena h M N W bs" "set cs \<subseteq> N" "0 < bs"
  shows "\<exists>h' M' qs. c_strs cs (h, M) = Some (h', M', map (Some \<circ> ptr_c_str) qs) \<and>
    arena h' M' N W bs \<and> solidified N h M h' M' \<and> map (mref [] M') cs = map (\<lambda>q. [q]) qs"
  using assms(1,2)
proof (induction cs arbitrary: h M)
  case (Cons c cs)
  then obtain h1 M1 q where 1: "c_str_at c (h, M) = Some (h1, M1, Some (ptr_c_str q))"
      "arena h1 M1 N W bs" "solidified N h M h1 M1" "mref [] M1 c = [q]"
    using c_str_at_spec [OF Cons.prems(1) _ assms(3), of c] by auto
  have "set cs \<subseteq> N" using Cons.prems(2) by simp
  then obtain h2 M2 qs where 2: "c_strs cs (h1, M1) = Some (h2, M2, map (Some \<circ> ptr_c_str) qs)"
      "arena h2 M2 N W bs" "solidified N h1 M1 h2 M2" "map (mref [] M2) cs = map (\<lambda>q. [q]) qs"
    using Cons.IH [OF 1(2)] by blast
  have "mref [] M2 c = [q]" using 1(4) 2(3) by (simp add: solidified_def)
  with 1 2 solidified_trans [OF 1(3) 2(3)] show ?case
    by (intro exI [of _ h2] exI [of _ M2] exI [of _ "q # qs"]) auto
qed auto

section \<open>Writing a chunk\<close>

lemma arena_write:
  assumes ar: "arena h M N W bs" and "c \<in> W" "mref [] M c = [q]" "length v = bs"
  shows "\<exists>h'. mem_write h (ptr_c_str q) v = Some h' \<and> frame (wraws M {c}) h h' \<and> arena h' M N W bs \<and>
    content h' M c = v \<and> (\<forall>d\<in>N. d \<noteq> c \<longrightarrow> content h' M d = content h M d)"
proof -
  note a = arena_simps [OF ar]
  have c: "c \<in> N" using a(3) assms(2) by auto
  note w = arena_window [OF ar c assms(3)]
  obtain h' where h': "mem_write h (ptr_c_str q) v = Some h'" "frame {p_raw q} h h'" "ptr_bytes h' q = v"
    using mem_write_ptr [OF w(1), of v] w(2) assms(4) by auto
  have "content h' M d = content h M d" if "d \<in> N" "d \<noteq> c" for d
    using frame_bl_bytes [OF h'(2) a(4) [OF that(1)]] a(7) [OF assms(2) that(1)] that(2) assms(3)
    by (simp add: content_def Int_commute)
  with h' frame_arena [OF h'(2) ar] assms(3) show ?thesis
    by (auto simp: content_def wraws_def)
qed

lemma arena_writes:
  assumes ar: "arena h M N W bs" and cs: "set cs \<subseteq> W" "distinct cs" "map (mref [] M) cs = map (\<lambda>q. [q]) qs"
    and len: "\<And>i. i < length cs \<Longrightarrow> length (v i) = bs"
  shows "\<exists>h'. ofold (\<lambda>i h. mem_write h (map ptr_c_str qs ! i) (v i)) [0..<length cs] h = Some h' \<and>
    frame (wraws M (set cs)) h h' \<and> arena h' M N W bs \<and>
    (\<forall>i<length cs. content h' M (cs ! i) = v i) \<and> (\<forall>d\<in>N - set cs. content h' M d = content h M d)"
proof -
  let ?P = "\<lambda>j g. frame (wraws M (set cs)) h g \<and> arena g M N W bs \<and>
      (\<forall>i<j. content g M (cs ! i) = v i) \<and> (\<forall>d\<in>N - set cs. content g M d = content h M d)"
  let ?f = "\<lambda>i h. mem_write h (map ptr_c_str qs ! i) (v i)"
  have lq: "length qs = length cs" using cs(3) by (metis length_map)
  have "\<exists>g. ofold ?f [0..<length cs] h = Some g \<and> ?P (length [0..<length cs]) g"
  proof (rule ofold_invariant [where P = ?P])
    fix i g assume "i < length [0..<length cs]" and P: "?P i g"
    then have i: "i < length cs" by simp
    have q: "mref [] M (cs ! i) = [qs ! i]" using cs(3) i lq by (metis nth_map)
    have "cs ! i \<in> W" using cs(1) i by auto
    then obtain g' where g': "mem_write g (ptr_c_str (qs ! i)) (v i) = Some g'" "frame (wraws M {cs ! i}) g g'"
        "arena g' M N W bs" "content g' M (cs ! i) = v i"
        "\<forall>d\<in>N. d \<noteq> cs ! i \<longrightarrow> content g' M d = content g M d"
      using arena_write [OF _ _ q len [OF i]] P by blast
    have "frame (wraws M (set cs)) h g'"
      using frame_trans [OF conjunct1 [OF P] g'(2)] by (rule frame_mono) (use nth_mem [OF i] in \<open>auto simp: wraws_def\<close>)
    moreover have "content g' M (cs ! j) = v j" if "j < Suc i" for j
    proof (cases "j = i")
      case False
      with that i cs(2) have "j < i" "cs ! j \<noteq> cs ! i" by (auto simp: nth_eq_iff_index_eq)
      moreover have "cs ! j \<in> N" using cs(1) arena_simps(3) [OF ar] that i by (meson less_Suc_eq_le nth_mem order_le_less_trans subsetD)
      ultimately show ?thesis using g'(5) P by auto
    qed (use g' in simp)
    moreover have "\<forall>d\<in>N - set cs. content g' M d = content h M d"
      using g'(5) P i by (metis DiffE nth_mem)
    ultimately show "\<exists>s'. ?f ([0..<length cs] ! i) g = Some s' \<and> ?P (Suc i) s'"
      using g'(1,3) i lq by auto
  qed (use ar in auto)
  then show ?thesis by auto
qed

end
