(* ===== verification/Utf8.thy ===== *)
theory Utf8
  imports EC_Prelude
begin

text \<open>
  UTF-8 as \<open>src/src/common/utf8.c\<close> codes it, for code points of up to 31 bits. Bytes are
  natural numbers below 256, code points natural numbers; the result \<open>-1\<close> of
  \<open>encode_utf8\<close> is \<open>None\<close>. Only the encoder is used by the JSON reader.
\<close>

definition max_val :: "nat list" where
  "max_val = [0x7f, 0x7ff, 0xffff, 0x1fffff, 0x3ffffff, 0x7fffffff]"

text \<open>The loop that fills \<open>buf[i]\<close> down to \<open>buf[1]\<close>: the bytes, and what is left of \<open>u\<close>.\<close>

fun utf8_tail :: "nat \<Rightarrow> nat \<Rightarrow> nat list \<Rightarrow> nat \<times> nat list" where
  "utf8_tail 0 u bs = (u, bs)"
| "utf8_tail (Suc j) u bs = utf8_tail j (drop_bit 6 u) ((0x80 OR (u AND 0x3f)) # bs)"

definition encode_utf8 :: "nat \<Rightarrow> nat list option" where
  "encode_utf8 u =
     (case filter (\<lambda>i. u \<le> max_val ! i) [0..<length max_val] of
        [] \<Rightarrow> None
      | i # _ \<Rightarrow>
          if i = 0 then Some [u]
          else let (u, bs) = utf8_tail i u []; mask = 255 - drop_bit (i + 1) 0xff
               in Some ((mask OR u) # bs))"

lemma encode_utf8_ascii: "u < 0x80 \<Longrightarrow> encode_utf8 u = Some [u]"
  by (simp add: encode_utf8_def max_val_def upt_rec)

text \<open>Every code point of 31 bits has a code, of at most six bytes.\<close>

lemma length_utf8_tail: "length (snd (utf8_tail j u bs)) = j + length bs"
  by (induction j arbitrary: u bs) auto

lemma encode_utf8_total:
  assumes "u < 2 ^ 31"
  shows "\<exists>bs. encode_utf8 u = Some bs \<and> 1 \<le> length bs \<and> length bs \<le> 6"
proof -
  have "5 \<in> set (filter (\<lambda>i. u \<le> max_val ! i) [0..<length max_val])"
    using assms by (simp add: max_val_def)
  then obtain i "is" where i: "filter (\<lambda>i. u \<le> max_val ! i) [0..<length max_val] = i # is"
    by (cases "filter (\<lambda>i. u \<le> max_val ! i) [0..<length max_val]") auto
  then have "i \<in> set (filter (\<lambda>i. u \<le> max_val ! i) [0..<length max_val])" by simp
  then have "i < length max_val" unfolding set_filter by simp
  then have "i \<le> 5" by (simp add: max_val_def)
  moreover obtain u' bs where t: "utf8_tail i u [] = (u', bs)" by fastforce
  moreover from this have "length bs = i" using length_utf8_tail [of i u "[]"] by simp
  ultimately show ?thesis using i by (simp add: encode_utf8_def)
qed

end
