(* ===== verification/Json.thy ===== *)
theory Json
  imports Utf8 Strtol
begin

text \<open>
  The JSON reader and writer of \<open>src/src/json_spirit\<close>: the value type
  (\<open>json_spirit_value.h\<close>, objects as maps), the grammar and the actions that build the value
  (\<open>json_spirit_reader_template.h\<close>), the generator without options
  (\<open>json_spirit_writer_template.h\<close>). The primitive parsers for escape sequences and numbers
  belong to Boost.Spirit and are the fields of the record \<open>spirit\<close>; the locale
  \<open>spirit_lib\<close> states what is documented of them. A floating point number is represented
  by its text. Line and column of an error are left out.
\<close>

section \<open>Values\<close>

datatype json =
    JObj "(string \<times> json) list"
  | JArr "json list"
  | JStr string
  | JBool bool
  | JInt int
  | JReal string
  | JNull
  | JUint int

datatype value_type = obj_type | array_type | str_type | bool_type | int_type | real_type | null_type

fun json_type :: "json \<Rightarrow> value_type" where
  "json_type (JObj _) = obj_type"
| "json_type (JArr _) = array_type"
| "json_type (JStr _) = str_type"
| "json_type (JBool _) = bool_type"
| "json_type (JInt _) = int_type"
| "json_type (JReal _) = real_type"
| "json_type JNull = null_type"
| "json_type (JUint _) = int_type"

text \<open>The accessors throw a \<open>runtime_error\<close> for a value of another type.\<close>

definition get_str :: "json \<Rightarrow> string option" where
  "get_str v = (case v of JStr s \<Rightarrow> Some s | _ \<Rightarrow> None)"

definition get_array :: "json \<Rightarrow> json list option" where
  "get_array v = (case v of JArr vs \<Rightarrow> Some vs | _ \<Rightarrow> None)"

definition get_obj :: "json \<Rightarrow> (string \<times> json) list option" where
  "get_obj v = (case v of JObj m \<Rightarrow> Some m | _ \<Rightarrow> None)"

definition get_int64 :: "json \<Rightarrow> int option" where
  "get_int64 v = (case v of
     JInt i \<Rightarrow> Some i | JUint u \<Rightarrow> Some (if u < 2 ^ 63 then u else u - 2 ^ 64) | _ \<Rightarrow> None)"

text \<open>\<open>static_cast< int >\<close> keeps the low 32 bits.\<close>

definition cast_int :: "int \<Rightarrow> int" where
  "cast_int i = (i + 2 ^ 31) mod 2 ^ 32 - 2 ^ 31"

definition get_int :: "json \<Rightarrow> int option" where
  "get_int v = map_option cast_int (get_int64 v)"

section \<open>Escape sequences\<close>

definition hex_to_num :: "char \<Rightarrow> nat" where
  "hex_to_num c =
     (let n = of_char c :: nat in
      if 48 \<le> n \<and> n \<le> 57 then n - 48
      else if 97 \<le> n \<and> n \<le> 102 then n - 97 + 10
      else if 65 \<le> n \<and> n \<le> 70 then n - 65 + 10
      else 0)"

definition hex_str_to_char :: "char \<Rightarrow> char \<Rightarrow> char" where
  "hex_str_to_char c1 c2 = char_of (16 * hex_to_num c1 + hex_to_num c2)"

definition unicode_str_to_utf8 :: "char \<Rightarrow> char \<Rightarrow> char \<Rightarrow> char \<Rightarrow> string" where
  "unicode_str_to_utf8 c1 c2 c3 c4 =
     (case encode_utf8 (4096 * hex_to_num c1 + 256 * hex_to_num c2 + 16 * hex_to_num c3 + hex_to_num c4) of
        Some bs \<Rightarrow> map char_of bs
      | None \<Rightarrow> ''_'')"

text \<open>The character after a backslash and what follows it: the text it stands for, and what
  is left. A character that starts no known sequence is dropped.\<close>

definition append_esc_char :: "char \<Rightarrow> string \<Rightarrow> string \<times> string" where
  "append_esc_char c2 rest =
     (if c2 = CHR ''t'' then ([CHR 0x09], rest)
      else if c2 = CHR ''b'' then ([CHR 0x08], rest)
      else if c2 = CHR ''f'' then ([CHR 0x0C], rest)
      else if c2 = CHR ''n'' then ([CHR 0x0A], rest)
      else if c2 = CHR ''r'' then ([CHR 0x0D], rest)
      else if c2 = CHR 0x5C then ([CHR 0x5C], rest)
      else if c2 = CHR ''/'' then (''/'', rest)
      else if c2 = CHR 0x22 then ([CHR 0x22], rest)
      else if c2 = CHR ''x'' then
        (case rest of a # b # rest' \<Rightarrow> ([hex_str_to_char a b], rest') | _ \<Rightarrow> ([], rest))
      else if c2 = CHR ''u'' then
        (case rest of a # b # c # d # rest' \<Rightarrow> (unicode_str_to_utf8 a b c d, rest') | _ \<Rightarrow> ([], rest))
      else ([], rest))"

lemma length_append_esc_char: "length (snd (append_esc_char c rest)) \<le> length rest"
  by (auto simp: append_esc_char_def split: list.splits)

text \<open>\<open>substitute_esc_chars\<close>: a backslash in the last place is kept.\<close>

function substitute_esc_chars :: "string \<Rightarrow> string" where
  "substitute_esc_chars [] = []"
| "substitute_esc_chars [c] = [c]"
| "substitute_esc_chars (c # d # rest) =
     (if c = CHR 0x5C
      then (case append_esc_char d rest of (out, rest') \<Rightarrow> out @ substitute_esc_chars rest')
      else c # substitute_esc_chars (d # rest))"
  by pat_completeness auto
termination
proof (relation "measure length")
  fix c d :: char and rest out rest'
  assume "(out, rest') = append_esc_char d rest"
  then show "(rest', c # d # rest) \<in> measure length"
    using length_append_esc_char [of d rest] by (metis in_measure length_Cons less_Suc_eq_le less_SucI snd_conv)
qed auto

text \<open>\<open>get_str_\<close>: a matched string without its quotes. The grammar hands over strings of at
  least two characters (lemma \<open>json_string_quoted\<close>), as the assertion demands.\<close>

definition get_str_quoted :: "string \<Rightarrow> string" where
  "get_str_quoted s = substitute_esc_chars (butlast (tl s))"

section \<open>The reader\<close>

text \<open>The parsers of Boost.Spirit the grammar uses: each gives the length of its match at the
  start of the text, the number parsers also the value.\<close>

record spirit =
  lex_escape_ch_p :: "string \<Rightarrow> nat option"
  strict_real_p :: "string \<Rightarrow> nat option"
  int64_p :: "string \<Rightarrow> (int \<times> nat) option"
  uint64_p :: "string \<Rightarrow> (int \<times> nat) option"

datatype parse_error = not_value | not_array | not_object | no_colon

datatype 'a parsed = Hit 'a string | Miss | Thrown parse_error | NoFuel

text \<open>Between tokens white space is skipped.\<close>

definition skip_space :: "string \<Rightarrow> string" where
  "skip_space s = dropWhile is_space s"

definition starts :: "char \<Rightarrow> string \<Rightarrow> bool" where
  "starts c s \<longleftrightarrow> s \<noteq> [] \<and> hd s = c"

text \<open>The inside of a string: escape sequences and characters other than the quote.\<close>

function string_span :: "spirit \<Rightarrow> string \<Rightarrow> nat" where
  "string_span sp s =
     (case lex_escape_ch_p sp s of
        None \<Rightarrow> 0
      | Some n \<Rightarrow>
          if n = 0 \<or> length s < n \<or> starts (CHR 0x22) s \<and> n \<le> 1 then 0
          else n + string_span sp (drop n s))"
  by pat_completeness auto
termination by (relation "measure (\<lambda>(sp, s). length s)") auto

declare string_span.simps [simp del]

definition json_string :: "spirit \<Rightarrow> string \<Rightarrow> (string \<times> string) option" where
  "json_string sp s =
     (let t = skip_space s in
      if starts (CHR 0x22) t then
        let n = string_span sp (tl t) in
        if starts (CHR 0x22) (drop n (tl t)) then Some (take (n + 2) t, drop (n + 2) t) else None
      else None)"

definition json_number :: "spirit \<Rightarrow> string \<Rightarrow> (json \<times> string) option" where
  "json_number sp s =
     (let t = skip_space s in
      case strict_real_p sp t of
        Some n \<Rightarrow> Some (JReal (take n t), drop n t)
      | None \<Rightarrow>
          (case int64_p sp t of
             Some (i, n) \<Rightarrow> Some (JInt i, drop n t)
           | None \<Rightarrow>
               (case uint64_p sp t of
                  Some (i, n) \<Rightarrow> Some (JUint i, drop n t)
                | None \<Rightarrow> None)))"

definition json_literal :: "string \<Rightarrow> json parsed" where
  "json_literal t =
     (if take 4 t = ''true'' then Hit (JBool True) (drop 4 t)
      else if take 5 t = ''false'' then Hit (JBool False) (drop 5 t)
      else if take 4 t = ''null'' then Hit JNull (drop 4 t)
      else Miss)"

text \<open>How a rule goes on from the result of a part of it: with the match, with what to do
  when there was none, or with the exception.\<close>

fun pthen :: "'a parsed \<Rightarrow> 'b parsed \<Rightarrow> ('a \<Rightarrow> string \<Rightarrow> 'b parsed) \<Rightarrow> 'b parsed" where
  "pthen (Hit v r) miss k = k v r"
| "pthen Miss miss k = miss"
| "pthen (Thrown e) miss k = Thrown e"
| "pthen NoFuel miss k = NoFuel"

definition closing :: "char \<Rightarrow> parse_error \<Rightarrow> ('a \<Rightarrow> json) \<Rightarrow> 'a \<Rightarrow> string \<Rightarrow> json parsed" where
  "closing c e mk v r = (if starts c (skip_space r) then Hit (mk v) (tl (skip_space r)) else Thrown e)"

definition json_scalar :: "spirit \<Rightarrow> string \<Rightarrow> json parsed" where
  "json_scalar sp s =
     (case json_string sp s of
        Some (q, r) \<Rightarrow> Hit (JStr (get_str_quoted q)) r
      | None \<Rightarrow> (case json_number sp s of Some (v, r) \<Rightarrow> Hit v r | None \<Rightarrow> Miss))"

definition json_name :: "spirit \<Rightarrow> string \<Rightarrow> string parsed" where
  "json_name sp s =
     (case json_string sp s of
        None \<Rightarrow> Miss
      | Some (q, r) \<Rightarrow>
          if starts (CHR '':'') (skip_space r) then Hit (get_str_quoted q) (tl (skip_space r)) else Thrown no_colon)"

text \<open>The rules \<open>value_\<close>, \<open>elements_\<close>, \<open>members_\<close> and \<open>pair_\<close> with their actions. The recursion
  is bounded by the first number; a bound above the length of the text is never reached
  (lemma \<open>json_fuel\<close>).\<close>

function (sequential) json_value :: "nat \<Rightarrow> spirit \<Rightarrow> string \<Rightarrow> json parsed"
  and json_elements :: "nat \<Rightarrow> spirit \<Rightarrow> json list \<Rightarrow> string \<Rightarrow> json list parsed"
  and json_members :: "nat \<Rightarrow> spirit \<Rightarrow> (string \<times> json) list \<Rightarrow> string \<Rightarrow> (string \<times> json) list parsed"
  and json_pair :: "nat \<Rightarrow> spirit \<Rightarrow> string \<Rightarrow> (string \<times> json) parsed"
where
  "json_value 0 sp s = NoFuel"
| "json_value (Suc f) sp s =
     pthen (json_scalar sp s)
       (let t = skip_space s in
        if starts (CHR ''{'') t then
          pthen (pthen (json_pair f sp (tl t)) (Hit [] (tl t)) (\<lambda>kv r. json_members f sp (mput (fst kv) (snd kv) []) r))
            Miss (closing (CHR ''}'') not_object JObj)
        else if starts (CHR ''['') t then
          pthen (pthen (json_value f sp (tl t)) (Hit [] (tl t)) (\<lambda>v r. json_elements f sp [v] r))
            Miss (closing (CHR '']'') not_array JArr)
        else json_literal t)
       Hit"
| "json_elements 0 sp vs s = NoFuel"
| "json_elements (Suc f) sp vs s =
     (if starts (CHR '','') (skip_space s) then
        let r = tl (skip_space s) in
        pthen (json_value f sp r) (json_elements f sp vs r) (\<lambda>v r. json_elements f sp (vs @ [v]) r)
      else Hit vs s)"
| "json_members 0 sp m s = NoFuel"
| "json_members (Suc f) sp m s =
     (if starts (CHR '','') (skip_space s) then
        let r = tl (skip_space s) in
        pthen (json_pair f sp r) (json_members f sp m r) (\<lambda>kv r. json_members f sp (mput (fst kv) (snd kv) m) r)
      else Hit m s)"
| "json_pair 0 sp s = NoFuel"
| "json_pair (Suc f) sp s =
     pthen (json_name sp s) Miss
       (\<lambda>name r. pthen (json_value f sp r) (Thrown not_value) (\<lambda>v r. Hit (name, v) r))"
  by pat_completeness auto
termination
  by (relation "measure (case_sum (case_sum fst fst) (case_sum fst fst))") auto

text \<open>\<open>read_or_throw\<close>: what follows the value is ignored. \<open>None\<close> is a reader that does not
  return, which \<open>read_or_throw_returns\<close> excludes.\<close>

definition read_or_throw :: "spirit \<Rightarrow> string \<Rightarrow> (parse_error + json) option" where
  "read_or_throw sp s =
     (case json_value (Suc (length s)) sp s of
        Hit v r \<Rightarrow> Some (Inr v)
      | Miss \<Rightarrow> Some (Inl not_value)
      | Thrown e \<Rightarrow> Some (Inl e)
      | NoFuel \<Rightarrow> None)"

section \<open>The writer\<close>

text \<open>The generator with its options. Whether a character is printable (\<open>iswprint\<close>) and how a
  stream prints a floating point number with a given precision are fields too.\<close>

record generator =
  pretty :: bool
  raw_utf8 :: bool
  remove_trailing_zeros :: bool
  single_line_arrays :: bool
  iswprint :: "nat \<Rightarrow> bool"
  append_double :: "nat \<Rightarrow> string \<Rightarrow> string"

text \<open>The constructor of \<open>Generator\<close> reads the bits of \<open>Output_options\<close>; arrays on single lines
  imply the pretty format.\<close>

definition new_generator :: "32 word \<Rightarrow> (nat \<Rightarrow> bool) \<Rightarrow> (nat \<Rightarrow> string \<Rightarrow> string) \<Rightarrow> generator" where
  "new_generator options isw dbl =
     \<lparr>pretty = options AND 0x01 \<noteq> 0 \<or> options AND 0x08 \<noteq> 0, raw_utf8 = options AND 0x02 \<noteq> 0,
      remove_trailing_zeros = options AND 0x04 \<noteq> 0, single_line_arrays = options AND 0x08 \<noteq> 0,
      iswprint = isw, append_double = dbl\<rparr>"

definition to_hex_char :: "nat \<Rightarrow> char" where
  "to_hex_char c = char_of (if c < 10 then 48 + c else 55 + c)"

definition non_printable_to_string :: "nat \<Rightarrow> string" where
  "non_printable_to_string c =
     [CHR 0x5C, CHR ''u'', to_hex_char (c div 4096 mod 16), to_hex_char (c div 256 mod 16),
      to_hex_char (c div 16 mod 16), to_hex_char (c mod 16)]"

definition add_esc_char :: "char \<Rightarrow> string option" where
  "add_esc_char c =
     (if c = CHR 0x22 then Some [CHR 0x5C, CHR 0x22]
      else if c = CHR 0x5C then Some [CHR 0x5C, CHR 0x5C]
      else if c = CHR 0x08 then Some [CHR 0x5C, CHR ''b'']
      else if c = CHR 0x0C then Some [CHR 0x5C, CHR ''f'']
      else if c = CHR 0x0A then Some [CHR 0x5C, CHR ''n'']
      else if c = CHR 0x0D then Some [CHR 0x5C, CHR ''r'']
      else if c = CHR 0x09 then Some [CHR 0x5C, CHR ''t'']
      else None)"

definition write_char :: "generator \<Rightarrow> char \<Rightarrow> string" where
  "write_char g c =
     (case add_esc_char c of
        Some e \<Rightarrow> e
      | None \<Rightarrow>
          if raw_utf8 g \<or> iswprint g (of_char c) then [c] else non_printable_to_string (of_char c))"

definition add_esc_chars :: "generator \<Rightarrow> string \<Rightarrow> string" where
  "add_esc_chars g s = concat (map (write_char g) s)"

definition output_str :: "generator \<Rightarrow> string \<Rightarrow> string" where
  "output_str g s = [CHR 0x22] @ add_esc_chars g s @ [CHR 0x22]"

definition show_int :: "int \<Rightarrow> string" where
  "show_int i = (if i < 0 then CHR ''-'' # stringify (nat (- i)) else stringify (nat i))"

text \<open>Numbers: the last digit that is not zero, and what is kept of the text.\<close>

fun find_first_non_zero :: "string \<Rightarrow> nat \<Rightarrow> nat" where
  "find_first_non_zero str 0 = 0"
| "find_first_non_zero str (Suc n) = (if str ! Suc n \<noteq> CHR ''0'' then Suc n else find_first_non_zero str n)"

definition remove_trailing :: "string \<Rightarrow> string" where
  "remove_trailing str0 =
     (let str = takeWhile (\<lambda>c. c \<noteq> CHR ''e'') str0; ex = dropWhile (\<lambda>c. c \<noteq> CHR ''e'') str0;
          first_non_zero = find_first_non_zero str (length str - 1)
      in (if first_non_zero \<noteq> 0
          then take (first_non_zero + (if str ! first_non_zero = CHR ''.'' then 2 else 1)) str else str) @ ex)"

definition output_double :: "generator \<Rightarrow> string \<Rightarrow> string" where
  "output_double g d =
     (if remove_trailing_zeros g then remove_trailing (append_double g 16 d) else append_double g 17 d)"

text \<open>White space, only with \<open>pretty_\<close>.\<close>

definition output_indent :: "generator \<Rightarrow> nat \<Rightarrow> string" where
  "output_indent g level = (if pretty g then replicate (4 * level) (CHR '' '') else [])"

definition output_space :: "generator \<Rightarrow> string" where
  "output_space g = (if pretty g then '' '' else [])"

definition output_new_line :: "generator \<Rightarrow> string" where
  "output_new_line g = (if pretty g then [CHR 0x0A] else [])"

text \<open>\<open>output_composite_item\<close> for each item between \<open>pre\<close> and \<open>post\<close>: a comma after every item
  but the last.\<close>

fun output_items :: "string \<Rightarrow> string \<Rightarrow> string list \<Rightarrow> string" where
  "output_items pre post [] = []"
| "output_items pre post [x] = pre @ x @ post"
| "output_items pre post (x # y # xs) = pre @ x @ '','' @ post @ output_items pre post (y # xs)"

definition output_array_or_obj :: "generator \<Rightarrow> nat \<Rightarrow> char \<Rightarrow> char \<Rightarrow> string list \<Rightarrow> string" where
  "output_array_or_obj g level start_char end_char items =
     [start_char] @ output_new_line g @
     output_items (output_indent g (level + 1)) (output_new_line g) items @
     output_indent g level @ [end_char]"

definition contains_composite_elements :: "json list \<Rightarrow> bool" where
  "contains_composite_elements arr \<longleftrightarrow>
     list_ex (\<lambda>val. json_type val = obj_type \<or> json_type val = array_type) arr"

fun json_output :: "generator \<Rightarrow> nat \<Rightarrow> json \<Rightarrow> string" where
  "json_output g level (JObj obj) =
     output_array_or_obj g level (CHR ''{'') (CHR ''}'')
       (map (\<lambda>(name, v). output_str g name @ output_space g @ '':'' @ output_space g @ json_output g (level + 1) v) obj)"
| "json_output g level (JArr arr) =
     (if single_line_arrays g \<and> \<not> contains_composite_elements arr
      then ''['' @ output_space g @ output_items [] (output_space g) (map (json_output g level) arr) @ '']''
      else output_array_or_obj g level (CHR ''['') (CHR '']'') (map (json_output g (level + 1)) arr))"
| "json_output g level (JStr s) = output_str g s"
| "json_output g level (JBool b) = (if b then ''true'' else ''false'')"
| "json_output g level (JInt i) = show_int i"
| "json_output g level (JReal d) = output_double g d"
| "json_output g level JNull = ''null''"
| "json_output g level (JUint i) = show_int i"

definition write_stream :: "generator \<Rightarrow> json \<Rightarrow> string" where
  "write_stream g v = json_output g 0 v"

lemma of_to_hex_char: "k < 16 \<Longrightarrow> of_char (to_hex_char k) = (if k < 10 then 48 + k else 55 + k)"
  by (simp add: to_hex_char_def)

section \<open>The reader always returns\<close>

lemma skip_space_length: "length (skip_space s) \<le> length s"
  by (simp add: skip_space_def length_dropWhile_le)

lemma starts_tl: "starts c s \<Longrightarrow> length (tl s) < length s"
  by (cases s) (auto simp: starts_def)

lemma json_string_quoted:
  assumes "json_string sp s = Some (q, r)"
  shows "2 \<le> length q" "length r < length s"
proof -
  let ?t = "skip_space s"
  define n where "n = string_span sp (tl ?t)"
  have s: "starts (CHR 0x22) ?t" "starts (CHR 0x22) (drop n (tl ?t))" "q = take (n + 2) ?t" "r = drop (n + 2) ?t"
    using assms by (auto simp: json_string_def Let_def n_def split: if_splits)
  then have "n < length (tl ?t)" by (auto simp: starts_def)
  with s skip_space_length [of s] show "2 \<le> length q" "length r < length s" by auto
qed

text \<open>What is documented of the primitive parsers: a match is neither empty nor longer than
  the text, a character without backslash and a backslash with its character are matched
  as such, numbers are read in decimal and a real number needs its point.\<close>

definition number_end :: "string \<Rightarrow> bool" where
  "number_end s \<longleftrightarrow> (s = [] \<or> \<not> is_digit (hd s) \<and> hd s \<noteq> CHR ''.'' \<and> hd s \<noteq> CHR ''e'' \<and> hd s \<noteq> CHR ''E'')"

definition number_start :: "char \<Rightarrow> bool" where
  "number_start c \<longleftrightarrow> is_digit c \<or> c = CHR ''-'' \<or> c = CHR ''+'' \<or> c = CHR ''.''"

locale spirit_lib =
  fixes sp :: spirit
  assumes lex_bounds: "lex_escape_ch_p sp s = Some n \<Longrightarrow> 0 < n \<and> n \<le> length s"
    and real_bounds: "strict_real_p sp s = Some n \<Longrightarrow> 0 < n \<and> n \<le> length s"
    and int_bounds: "int64_p sp s = Some (i, n) \<Longrightarrow> 0 < n \<and> n \<le> length s"
    and uint_bounds: "uint64_p sp s = Some (i, n) \<Longrightarrow> 0 < n \<and> n \<le> length s"
    and lex_plain: "c \<noteq> CHR 0x5C \<Longrightarrow> lex_escape_ch_p sp (c # s) = Some 1"
    and lex_escaped: "c \<in> set [CHR 0x22, CHR 0x5C, CHR ''b'', CHR ''f'', CHR ''n'', CHR ''r'', CHR ''t'', CHR ''u''] \<Longrightarrow>
      lex_escape_ch_p sp (CHR 0x5C # c # s) = Some 2"
    and no_number: "s = [] \<or> \<not> number_start (hd s) \<Longrightarrow>
      strict_real_p sp s = None \<and> int64_p sp s = None \<and> uint64_p sp s = None"
    and no_real: "number_end s \<Longrightarrow> strict_real_p sp (show_int i @ s) = None"
    and int_value: "number_end s \<Longrightarrow> int64_p sp (show_int i @ s) =
      (if - (2 ^ 63) \<le> i \<and> i < 2 ^ 63 then Some (i, length (show_int i)) else None)"
    and uint_value: "number_end s \<Longrightarrow> 0 \<le> i \<Longrightarrow> i < 2 ^ 64 \<Longrightarrow>
      uint64_p sp (show_int i @ s) = Some (i, length (show_int i))"
begin

lemma json_scalar_length: "json_scalar sp s = Hit v r \<Longrightarrow> length r < length s"
proof -
  assume h: "json_scalar sp s = Hit v r"
  show ?thesis
  proof (cases "json_string sp s")
    case None
    with h obtain v' where n: "json_number sp s = Some (v', r)"
      by (auto simp: json_scalar_def split: option.splits)
    then have "length r < length (skip_space s)"
      using real_bounds int_bounds uint_bounds
      by (fastforce simp: json_number_def Let_def split: option.splits)
    with skip_space_length [of s] show ?thesis by simp
  qed (use h json_string_quoted(2) in \<open>auto simp: json_scalar_def\<close>)
qed

definition shrinks :: "string \<Rightarrow> 'a parsed \<Rightarrow> bool" where
  "shrinks s p \<longleftrightarrow> p \<noteq> NoFuel \<and> (\<forall>v r. p = Hit v r \<longrightarrow> length r < length s)"

definition keeps :: "string \<Rightarrow> 'a parsed \<Rightarrow> bool" where
  "keeps s p \<longleftrightarrow> p \<noteq> NoFuel \<and> (\<forall>v r. p = Hit v r \<longrightarrow> length r \<le> length s)"

lemma shrinks_pthen:
  assumes "p \<noteq> NoFuel" "p = Miss \<Longrightarrow> shrinks s miss" "\<And>v r. p = Hit v r \<Longrightarrow> shrinks s (k v r)"
  shows "shrinks s (pthen p miss k)"
  using assms by (cases p) (auto simp: shrinks_def)

lemma keeps_pthen:
  assumes "p \<noteq> NoFuel" "p = Miss \<Longrightarrow> keeps s miss" "\<And>v r. p = Hit v r \<Longrightarrow> keeps s (k v r)"
  shows "keeps s (pthen p miss k)"
  using assms by (cases p) (auto simp: keeps_def)

lemma shrinks_keeps: "shrinks s p \<Longrightarrow> keeps s p"
  by (auto simp: shrinks_def keeps_def intro: less_imp_le)

lemma keeps_mono: "keeps s p \<Longrightarrow> length s \<le> length t \<Longrightarrow> keeps t p"
  by (auto simp: keeps_def intro: order_trans)

lemma keeps_shrinks: "keeps s p \<Longrightarrow> length s < length t \<Longrightarrow> shrinks t p"
  by (auto simp: keeps_def shrinks_def intro: le_less_trans)

lemma keepsD: "keeps s p \<Longrightarrow> p \<noteq> NoFuel" "keeps s (Hit v r) \<Longrightarrow> length r \<le> length s"
  by (auto simp: keeps_def)

lemma shrinksD: "shrinks s p \<Longrightarrow> p \<noteq> NoFuel" "shrinks s (Hit v r) \<Longrightarrow> length r < length s"
  by (auto simp: shrinks_def)

lemma shrinks_scalar: "json_scalar sp s \<noteq> NoFuel"
  by (auto simp: json_scalar_def split: option.splits)

lemma shrinks_literal: "shrinks s (json_literal (skip_space s))"
proof -
  have "length (skip_space s) - n < length s" if "take n (skip_space s) = c # u" "0 < n" for n c u
    using that skip_space_length [of s] by (cases "skip_space s") auto
  note this [of 4] this [of 5]
  then show ?thesis by (auto simp: json_literal_def shrinks_def)
qed

lemma shrinks_closing: "length r < length s \<Longrightarrow> shrinks s (closing c e mk v r)"
  using skip_space_length [of r] by (auto simp: shrinks_def closing_def)

lemma shrinks_name: "shrinks s (json_name sp s)"
proof -
  have "length (tl (skip_space r)) < length s" if "json_string sp s = Some (q, r)" for q r
    using json_string_quoted(2) [OF that] skip_space_length [of r] by auto
  then show ?thesis by (auto simp: json_name_def shrinks_def split: option.splits)
qed

lemma tl_skip: "starts c (skip_space s) \<Longrightarrow> length (tl (skip_space s)) < length s"
  using starts_tl skip_space_length [of s] by (meson less_le_trans)

lemma shrinks_composite:
  assumes "length u < length s" "shrinks u p" "\<And>v r. length r < length u \<Longrightarrow> keeps r (k v r)"
  shows "shrinks s (pthen (pthen p (Hit e u) k) Miss (closing c err mk))"
proof -
  have "keeps u (pthen p (Hit e u) k)"
    using assms(2) keeps_mono [OF assms(3)]
    by (intro keeps_pthen) (auto simp: shrinks_def keeps_def intro: less_imp_le)
  then show ?thesis
    using assms(1) by (intro shrinks_pthen shrinks_closing) (auto simp: shrinks_def keeps_def)
qed

lemma keeps_list:
  assumes "length u < length s" "shrinks u p" "keeps u miss" "\<And>v r. length r < length u \<Longrightarrow> keeps r (k v r)"
  shows "keeps s (pthen p miss k)"
proof (rule keeps_pthen)
  show "keeps s (k v r)" if "p = Hit v r" for v r
    using that assms by (intro keeps_mono [OF assms(4)]) (auto simp: shrinks_def)
qed (use assms in \<open>auto dest: shrinksD intro: keeps_mono less_imp_le\<close>)

lemma tl_skip_cases:
  assumes "length s < Suc f"
  shows "(\<forall>c. \<not> starts c (skip_space s)) \<or> length (tl (skip_space s)) < length s \<and> length (tl (skip_space s)) < f"
  using tl_skip [of _ s] assms by (metis less_SucE less_trans)

lemma json_fuel:
  "length s < f \<Longrightarrow> shrinks s (json_value f sp s)"
  "length s < f \<Longrightarrow> keeps s (json_elements f sp vs s)"
  "length s < f \<Longrightarrow> keeps s (json_members f sp m s)"
  "length s < f \<Longrightarrow> shrinks s (json_pair f sp s)"
proof (induction f arbitrary: s vs m)
  case (Suc f)
  { case (1 s)
    let ?u = "tl (skip_space s)"
    have "shrinks s (if starts (CHR ''{'') (skip_space s)
        then pthen (pthen (json_pair f sp ?u) (Hit [] ?u) (\<lambda>kv r. json_members f sp (mput (fst kv) (snd kv) []) r))
               Miss (closing (CHR ''}'') not_object JObj)
        else if starts (CHR ''['') (skip_space s)
        then pthen (pthen (json_value f sp ?u) (Hit [] ?u) (\<lambda>v r. json_elements f sp [v] r))
               Miss (closing (CHR '']'') not_array JArr)
        else json_literal (skip_space s))"
      using tl_skip_cases [OF 1] shrinks_literal [of s]
      by (auto simp del: length_tl intro!: shrinks_composite Suc.IH)
    then show ?case
      using json_scalar_length [of s] shrinks_scalar [of s]
      by (auto simp: Let_def shrinks_def [of s "Hit _ _"] intro!: shrinks_pthen [of "json_scalar sp s"]) }
  { case (2 s)
    then show ?case
      using tl_skip_cases [OF 2] by (auto simp: Let_def keeps_def [of s "Hit _ _"] simp del: length_tl intro!: keeps_list [where u = "tl (skip_space _)"] Suc.IH) }
  { case (3 s)
    then show ?case
      using tl_skip_cases [OF 3] by (auto simp: Let_def keeps_def [of s "Hit _ _"] simp del: length_tl intro!: keeps_list [where u = "tl (skip_space _)"] Suc.IH) }
  { case (4 s)
    have "shrinks s (pthen (json_value f sp r) (Thrown not_value) (\<lambda>v r. Hit (name, v) r))"
      if "json_name sp s = Hit name r" for name r
      using Suc.IH(1) [of r] shrinks_name [of s] that 4
      by (intro shrinks_pthen) (auto simp: shrinks_def)
    then show ?case using shrinks_name [of s] by (auto dest: shrinksD simp: shrinks_def [of s Miss] intro!: shrinks_pthen) }
qed auto

lemma read_returns: "\<exists>res. read_or_throw sp s = Some res"
  using json_fuel(1) [of s "Suc (length s)"] by (auto simp: read_or_throw_def shrinks_def split: parsed.splits)

section \<open>What is written is read back\<close>

lemma string_span_plain:
  assumes "c \<noteq> CHR 0x5C" "c \<noteq> CHR 0x22"
  shows "string_span sp (c # s) = Suc (string_span sp s)"
  using assms by (subst string_span.simps) (simp add: lex_plain starts_def)

lemma string_span_escaped:
  assumes "c \<in> set [CHR 0x22, CHR 0x5C, CHR ''b'', CHR ''f'', CHR ''n'', CHR ''r'', CHR ''t'', CHR ''u'']"
  shows "string_span sp (CHR 0x5C # c # s) = Suc (Suc (string_span sp s))"
  using assms by (subst string_span.simps) (simp add: lex_escaped starts_def)

lemma string_span_quote: "string_span sp (CHR 0x22 # s) = 0"
  by (subst string_span.simps) (simp add: lex_plain starts_def)

lemma hex_char_plain: "to_hex_char (n mod 16) \<noteq> CHR 0x5C" "to_hex_char (n mod 16) \<noteq> CHR 0x22"
  using of_to_hex_char [of "n mod 16"] by (auto split: if_splits)

lemma string_span_char:
  "string_span sp (write_char g c @ s) = length (write_char g c) + string_span sp s"
proof (cases "add_esc_char c")
  case None
  then have "c \<noteq> CHR 0x5C" "c \<noteq> CHR 0x22" by (auto simp: add_esc_char_def)
  with None show ?thesis
    by (simp add: write_char_def string_span_plain non_printable_to_string_def string_span_escaped hex_char_plain hex_char_plain [of 0, simplified])
qed (auto simp: write_char_def add_esc_char_def string_span_escaped split: if_splits)

lemma string_span_chars: "string_span sp (add_esc_chars g s @ CHR 0x22 # r) = length (add_esc_chars g s)"
  by (induction s) (simp_all add: add_esc_chars_def string_span_quote string_span_char)

lemma json_string_output:
  assumes "list_all is_space ws"
  shows "json_string sp (ws @ output_str g s @ r) = Some (output_str g s, r)"
proof -
  have "skip_space (ws @ output_str g s @ r) = CHR 0x22 # add_esc_chars g s @ CHR 0x22 # r"
    using assms by (simp add: skip_space_def dropWhile_append list_all_iff output_str_def is_space_def)
  then show ?thesis by (simp add: json_string_def starts_def string_span_chars output_str_def)
qed

end

text \<open>A character comes back when it is written as it is or its code is below 128: the
  sequence \<open>\u00..\<close> of another character stands for two bytes.\<close>

definition char_writable :: "generator \<Rightarrow> char \<Rightarrow> bool" where
  "char_writable g c \<longleftrightarrow> (of_char c :: nat) < 128 \<or> raw_utf8 g \<or> iswprint g (of_char c)"

fun json_writable :: "generator \<Rightarrow> json \<Rightarrow> bool" where
  "json_writable g (JObj obj) \<longleftrightarrow>
     mok obj \<and> list_all (\<lambda>(name, v). list_all (char_writable g) name \<and> json_writable g v) obj"
| "json_writable g (JArr arr) \<longleftrightarrow> list_all (json_writable g) arr"
| "json_writable g (JStr s) \<longleftrightarrow> list_all (char_writable g) s"
| "json_writable g (JInt i) \<longleftrightarrow> - (2 ^ 63) \<le> i \<and> i < 2 ^ 63"
| "json_writable g (JUint i) \<longleftrightarrow> 2 ^ 63 \<le> i \<and> i < 2 ^ 64"
| "json_writable g (JReal d) \<longleftrightarrow> False"
| "json_writable g v \<longleftrightarrow> True"

lemma hex_to_num_char: "k < 16 \<Longrightarrow> hex_to_num (to_hex_char k) = k"
  by (simp add: hex_to_num_def of_to_hex_char Let_def)

lemma unicode_ascii:
  assumes "n < 128"
  shows "unicode_str_to_utf8 (to_hex_char (n div 4096 mod 16)) (to_hex_char (n div 256 mod 16))
    (to_hex_char (n div 16 mod 16)) (to_hex_char (n mod 16)) = [char_of n]"
proof -
  have "16 * (n div 16) + n mod 16 = n" by simp
  with assms show ?thesis by (simp add: unicode_str_to_utf8_def hex_to_num_char encode_utf8_ascii)
qed

lemma substitute_char:
  assumes "char_writable g c"
  shows "substitute_esc_chars (write_char g c @ s) = c # substitute_esc_chars s"
proof (cases "add_esc_char c")
  case None
  then have c: "c \<noteq> CHR 0x5C" by (auto simp: add_esc_char_def)
  show ?thesis
  proof (cases "raw_utf8 g \<or> iswprint g (of_char c)")
    case True
    with None c show ?thesis by (cases s) (auto simp: write_char_def)
  next
    case False
    with assms have "(of_char c :: nat) < 128" by (simp add: char_writable_def)
    from unicode_ascii [OF this] False None show ?thesis
      by (simp add: write_char_def non_printable_to_string_def append_esc_char_def)
  qed
qed (auto simp: write_char_def add_esc_char_def append_esc_char_def split: if_splits)

lemma get_str_quoted_output:
  assumes "list_all (char_writable g) s"
  shows "get_str_quoted (output_str g s) = s"
proof -
  have "substitute_esc_chars (add_esc_chars g s) = s"
    using assms by (induction s) (auto simp: add_esc_chars_def substitute_char)
  then show ?thesis by (simp add: get_str_quoted_def output_str_def butlast_append)
qed

lemma mput_last: "\<forall>k'\<in>fst ` set m. k' < k \<Longrightarrow> mput k v m = m @ [(k, v)]"
  by (induction m) auto

lemma output_items_Cons:
  "output_items pre post (x # xs) = pre @ x @ concat (map (\<lambda>y. '','' @ post @ pre @ y) xs) @ post"
  by (induction xs arbitrary: x) auto

lemma output_white [simp]:
  "list_all is_space (output_indent g n)" "list_all is_space (output_space g)" "list_all is_space (output_new_line g)"
  by (auto simp: output_indent_def output_space_def output_new_line_def is_space_def list_all_iff)

lemma skip_space_white [simp]: "list_all is_space ws \<Longrightarrow> skip_space (ws @ s) = skip_space s"
  by (auto simp: skip_space_def dropWhile_append list_all_iff)

lemma skip_space_hd: "s \<noteq> [] \<Longrightarrow> \<not> is_space (hd s) \<Longrightarrow> skip_space s = s"
  by (cases s) (auto simp: skip_space_def)

lemma show_int_start: "show_int i \<noteq> []" "number_start (hd (show_int i))" "\<not> is_space (hd (show_int i))"
    "hd (show_int i) \<noteq> CHR 0x22"
proof -
  have d: "stringify n \<noteq> []" "is_digit (hd (stringify n))" for n using stringify_digits [of n] by auto
  from d(1) show "show_int i \<noteq> []" by (simp add: show_int_def)
  from d(2) show "number_start (hd (show_int i))" by (simp add: show_int_def number_start_def)
  from d(2) [of "nat i"] show "\<not> is_space (hd (show_int i))" "hd (show_int i) \<noteq> CHR 0x22"
    by (auto simp: show_int_def is_space_def is_digit_def)
qed

lemma space_punct [simp]:
  "\<not> is_space (CHR '','')" "\<not> is_space (CHR '':'')" "\<not> is_space (CHR ''['')" "\<not> is_space (CHR '']'')"
  "\<not> is_space (CHR ''{'')" "\<not> is_space (CHR ''}'')" "\<not> is_space (CHR 0x22)"
  "\<not> is_space (CHR ''t'')" "\<not> is_space (CHR ''f'')" "\<not> is_space (CHR ''n'')"
  by (simp_all add: is_space_def)

lemma number_start_punct [simp]:
  "\<not> number_start (CHR ''['')" "\<not> number_start (CHR '']'')" "\<not> number_start (CHR ''{'')" "\<not> number_start (CHR ''}'')"
  "\<not> number_start (CHR ''t'')" "\<not> number_start (CHR ''f'')" "\<not> number_start (CHR ''n'')"
  by (simp_all add: number_start_def is_digit_def)

lemma skip_white_char [simp]: "list_all is_space ws \<Longrightarrow> \<not> is_space c \<Longrightarrow> skip_space (ws @ c # r) = c # r"
  by (simp add: skip_space_hd)

lemma skip_char [simp]: "\<not> is_space c \<Longrightarrow> skip_space (c # r) = c # r"
  by (simp add: skip_space_hd)

text \<open>What may follow a value.\<close>

definition value_end :: "string \<Rightarrow> bool" where
  "value_end r \<longleftrightarrow> r = [] \<or> is_space (hd r) \<or> hd r \<in> set '',]}''"

lemma value_end_number: "value_end r \<Longrightarrow> number_end r"
  by (auto simp: value_end_def number_end_def is_space_def is_digit_def)

lemma value_end_white: "list_all is_space ws \<Longrightarrow> value_end (c # r) \<Longrightarrow> value_end (ws @ c # r)"
  by (cases ws) (auto simp: value_end_def)

context spirit_lib
begin

lemma scalar_miss:
  assumes "skip_space s = c # u" "c \<noteq> CHR 0x22" "\<not> number_start c"
  shows "json_scalar sp s = Miss"
  using assms no_number [of "c # u"] by (simp add: json_scalar_def json_string_def json_number_def starts_def)

lemma scalar_number:
  assumes "list_all is_space ws" "number_end r" "- (2 ^ 63) \<le> i" "i < 2 ^ 64"
  shows "json_scalar sp (ws @ show_int i @ r) = Hit (if i < 2 ^ 63 then JInt i else JUint i) r"
proof -
  have "skip_space (ws @ show_int i @ r) = show_int i @ r"
    using assms(1) show_int_start [of i] by (simp add: skip_space_hd)
  then show ?thesis
    using show_int_start [of i] assms no_real [of r i] int_value [of r i] uint_value [of r i]
    by (simp add: json_scalar_def json_string_def json_number_def starts_def)
qed

definition reads :: "('a \<Rightarrow> string) \<Rightarrow> (nat \<Rightarrow> string \<Rightarrow> 'a parsed) \<Rightarrow> 'a \<Rightarrow> bool" where
  "reads out parse v \<longleftrightarrow> (\<forall>f ws r. list_all is_space ws \<longrightarrow> value_end r \<longrightarrow> length (ws @ out v @ r) < f \<longrightarrow>
     parse f (ws @ out v @ r) = Hit v r)"

lemma readsD:
  "reads out parse v \<Longrightarrow> list_all is_space ws \<Longrightarrow> value_end r \<Longrightarrow> length (ws @ out v @ r) < f \<Longrightarrow>
     parse f (ws @ out v @ r) = Hit v r"
  by (simp add: reads_def)

lemma value_end_items:
  assumes "list_all is_space post" "c \<in> set '']}''"
  shows "value_end (concat (map (\<lambda>v. CHR '','' # w @ out v) vs) @ post @ c # r)"
proof (cases vs)
  case Nil
  with value_end_white [of post c r] assms show ?thesis by (auto simp: value_end_def)
qed (simp add: value_end_def)

lemma elements_output:
  assumes "\<forall>v\<in>set vs. reads out (\<lambda>f. json_value f sp) v" "list_all is_space w" "list_all is_space post"
    "length (concat (map (\<lambda>v. CHR '','' # w @ out v) vs) @ post @ CHR '']'' # r) < f"
  shows "json_elements f sp acc (concat (map (\<lambda>v. CHR '','' # w @ out v) vs) @ post @ CHR '']'' # r) =
    Hit (acc @ vs) (post @ CHR '']'' # r)"
  using assms
proof (induction vs arbitrary: f acc)
  case Nil
  then obtain f' where "f = Suc f'" by (cases f) auto
  with Nil show ?case by (simp add: starts_def)
next
  case (Cons v vs)
  let ?t = "concat (map (\<lambda>v. CHR '','' # w @ out v) vs) @ post @ CHR '']'' # r"
  obtain f' where f: "f = Suc f'" using Cons.prems by (cases f) auto
  have "json_value f' sp (w @ out v @ ?t) = Hit v ?t"
    using Cons.prems f by (intro readsD [of out]) (auto intro!: value_end_items)
  moreover have "json_elements f' sp (acc @ [v]) ?t = Hit (acc @ [v] @ vs) (post @ CHR '']'' # r)"
    using Cons.IH [of f' "acc @ [v]"] Cons.prems f by simp
  ultimately show ?case by (simp add: f starts_def Let_def)
qed

lemma array_output:
  assumes "\<forall>v\<in>set vs. reads out (\<lambda>f. json_value f sp) v"
    and white: "list_all is_space ws" "list_all is_space a" "list_all is_space pre" "list_all is_space post" "list_all is_space b"
    and f: "length (ws @ CHR ''['' # a @ output_items pre post (map out vs) @ b @ CHR '']'' # r) < f"
  shows "json_value f sp (ws @ CHR ''['' # a @ output_items pre post (map out vs) @ b @ CHR '']'' # r) = Hit (JArr vs) r"
proof -
  let ?u = "a @ output_items pre post (map out vs) @ b @ CHR '']'' # r"
  obtain f' where f': "f = Suc f'" using f by (cases f) auto
  have skip: "skip_space (ws @ CHR ''['' # ?u) = CHR ''['' # ?u" using white by simp
  have close: "closing (CHR '']'') not_array JArr vs (w @ CHR '']'' # r) = Hit (JArr vs) r" if "list_all is_space w" for w
    using that by (simp add: closing_def starts_def)
  have "pthen (pthen (json_value f' sp ?u) (Hit [] ?u) (\<lambda>v r. json_elements f' sp [v] r))
      Miss (closing (CHR '']'') not_array JArr) = Hit (JArr vs) r"
  proof (cases vs)
    case Nil
    obtain f'' where "f' = Suc f''" using f f' by (cases f') auto
    then have "json_value f' sp ?u = Miss"
      using Nil white scalar_miss [of ?u "CHR '']''"] skip_white_char [of "a @ b" "CHR '']''" r]
      by (simp add: starts_def json_literal_def)
    then show ?thesis using Nil close [of "a @ b"] white by simp
  next
    case (Cons v vs')
    let ?t = "concat (map (\<lambda>v. CHR '','' # (post @ pre) @ out v) vs') @ (post @ b) @ CHR '']'' # r"
    have u: "?u = (a @ pre) @ out v @ ?t" using Cons by (simp add: output_items_Cons comp_def)
    have "length ?u < f'" using f f' by simp
    then have l: "length ((a @ pre) @ out v @ ?t) < f'" by (simp only: u)
    have e: "value_end ?t" using white by (intro value_end_items) auto
    have "json_value f' sp ?u = Hit v ?t"
      unfolding u using l e white assms(1) Cons by (intro readsD [of out]) (simp_all del: append_assoc)
    moreover have "json_elements f' sp [v] ?t = Hit ([v] @ vs') ((post @ b) @ CHR '']'' # r)"
      using l white assms(1) Cons by (intro elements_output) simp_all
    ultimately show ?thesis using close [of "post @ b"] white Cons by simp
  qed
  then show ?thesis
    using f' skip by (simp add: scalar_miss [OF skip] starts_def Let_def)
qed

lemma members_output:
  assumes "\<forall>kv\<in>set m. reads out (\<lambda>f. json_pair f sp) kv" "list_all is_space w" "list_all is_space post" "mok (acc @ m)"
    "length (concat (map (\<lambda>v. CHR '','' # w @ out v) m) @ post @ CHR ''}'' # r) < f"
  shows "json_members f sp acc (concat (map (\<lambda>v. CHR '','' # w @ out v) m) @ post @ CHR ''}'' # r) =
    Hit (acc @ m) (post @ CHR ''}'' # r)"
  using assms
proof (induction m arbitrary: f acc)
  case Nil
  then obtain f' where "f = Suc f'" by (cases f) auto
  with Nil show ?case by (simp add: starts_def)
next
  case (Cons kv m)
  let ?t = "concat (map (\<lambda>v. CHR '','' # w @ out v) m) @ post @ CHR ''}'' # r"
  obtain f' where f: "f = Suc f'" using Cons.prems by (cases f) auto
  have "json_pair f' sp (w @ out kv @ ?t) = Hit kv ?t"
    using Cons.prems f by (intro readsD [of out]) (auto intro!: value_end_items)
  moreover have "mput (fst kv) (snd kv) acc = acc @ [kv]"
    using Cons.prems(4) mput_last [of acc "fst kv" "snd kv"] by (auto simp: mok_def sorted_wrt_append)
  moreover have "json_members f' sp (acc @ [kv]) ?t = Hit (acc @ [kv] @ m) (post @ CHR ''}'' # r)"
    using Cons.IH [of "acc @ [kv]" f'] Cons.prems f by simp
  ultimately show ?case by (simp add: f starts_def Let_def)
qed

lemma object_output:
  assumes "\<forall>kv\<in>set m. reads out (\<lambda>f. json_pair f sp) kv" "mok m"
    and white: "list_all is_space ws" "list_all is_space a" "list_all is_space pre" "list_all is_space post" "list_all is_space b"
    and f: "length (ws @ CHR ''{'' # a @ output_items pre post (map out m) @ b @ CHR ''}'' # r) < f"
  shows "json_value f sp (ws @ CHR ''{'' # a @ output_items pre post (map out m) @ b @ CHR ''}'' # r) = Hit (JObj m) r"
proof -
  let ?u = "a @ output_items pre post (map out m) @ b @ CHR ''}'' # r"
  obtain f' where f': "f = Suc f'" using f by (cases f) auto
  have skip: "skip_space (ws @ CHR ''{'' # ?u) = CHR ''{'' # ?u" using white by simp
  have close: "closing (CHR ''}'') not_object JObj m (w @ CHR ''}'' # r) = Hit (JObj m) r" if "list_all is_space w" for w
    using that by (simp add: closing_def starts_def)
  have "pthen (pthen (json_pair f' sp ?u) (Hit [] ?u) (\<lambda>kv r. json_members f' sp (mput (fst kv) (snd kv) []) r))
      Miss (closing (CHR ''}'') not_object JObj) = Hit (JObj m) r"
  proof (cases m)
    case Nil
    obtain f'' where "f' = Suc f''" using f f' by (cases f') auto
    then have "json_pair f' sp ?u = Miss"
      using Nil white skip_white_char [of "a @ b" "CHR ''}''" r] by (simp add: json_name_def json_string_def starts_def)
    then show ?thesis using Nil close [of "a @ b"] white by simp
  next
    case (Cons kv m')
    let ?t = "concat (map (\<lambda>v. CHR '','' # (post @ pre) @ out v) m') @ (post @ b) @ CHR ''}'' # r"
    have u: "?u = (a @ pre) @ out kv @ ?t" using Cons by (simp add: output_items_Cons comp_def)
    have "length ?u < f'" using f f' by simp
    then have l: "length ((a @ pre) @ out kv @ ?t) < f'" by (simp only: u)
    have e: "value_end ?t" using white by (intro value_end_items) auto
    have "json_pair f' sp ?u = Hit kv ?t"
      unfolding u using l e white assms(1) Cons by (intro readsD [of out]) (simp_all del: append_assoc)
    moreover have "json_members f' sp [kv] ?t = Hit ([kv] @ m') ((post @ b) @ CHR ''}'' # r)"
      using l white assms(1,2) Cons by (intro members_output) simp_all
    ultimately show ?thesis using close [of "post @ b"] white Cons by simp
  qed
  then show ?thesis
    using f' skip by (simp add: scalar_miss [OF skip] starts_def Let_def)
qed

lemma pair_output:
  assumes "list_all (char_writable g) (fst kv)" "reads out (\<lambda>f. json_value f sp) (snd kv)" "list_all is_space sp'"
  shows "reads (\<lambda>(name, v). output_str g name @ sp' @ '':'' @ sp' @ out v) (\<lambda>f. json_pair f sp) kv"
  unfolding reads_def
proof (intro allI impI)
  fix f ws r
  assume a: "list_all is_space ws" "value_end r"
    "length (ws @ (case kv of (name, v) \<Rightarrow> output_str g name @ sp' @ '':'' @ sp' @ out v) @ r) < f"
  obtain name v where kv: "kv = (name, v)" by (cases kv)
  obtain f' where f: "f = Suc f'" using a by (cases f) auto
  have "json_name sp (ws @ output_str g name @ sp' @ CHR '':'' # sp' @ out v @ r) = Hit name (sp' @ out v @ r)"
    using assms kv a(1) by (simp add: json_name_def json_string_output get_str_quoted_output starts_def)
  moreover have "json_value f' sp (sp' @ out v @ r) = Hit v r"
    using assms kv a f by (intro readsD [of out]) auto
  ultimately show "json_pair f sp (ws @ (case kv of (name, v) \<Rightarrow> output_str g name @ sp' @ '':'' @ sp' @ out v) @ r) = Hit kv r"
    by (simp add: f kv)
qed

lemma literal_output:
  assumes "v \<in> {JBool b, JNull}"
  shows "reads (json_output g level) (\<lambda>f. json_value f sp) v"
  unfolding reads_def
proof (intro allI impI)
  fix f ws r
  assume a: "list_all is_space ws" "value_end r" "length (ws @ json_output g level v @ r) < f"
  obtain f' where f: "f = Suc f'" using a by (cases f) auto
  obtain c u where out: "json_output g level v = c # u" and c: "c \<in> set ''tfn''" using assms by (cases b) auto
  have skip: "skip_space (ws @ json_output g level v @ r) = json_output g level v @ r"
    using a(1) out c by auto
  have lit: "json_literal (json_output g level v @ r) = Hit v r"
    using assms by (cases b) (elim insertE emptyE; simp add: json_literal_def)+
  have "json_scalar sp (ws @ json_output g level v @ r) = Miss"
    using skip out c by (intro scalar_miss [of _ c "u @ r"]) auto
  then show "json_value f sp (ws @ json_output g level v @ r) = Hit v r"
    using skip out c lit by (auto simp: f Let_def starts_def)
qed

lemma output_reads:
  "json_writable g v \<Longrightarrow> reads (json_output g level) (\<lambda>f. json_value f sp) v"
proof (induction v arbitrary: level)
  case (JObj m)
  have "\<forall>kv\<in>set m. reads (\<lambda>(name, v). output_str g name @ output_space g @ '':'' @ output_space g @ json_output g (level + 1) v)
      (\<lambda>f. json_pair f sp) kv"
  proof (intro ballI pair_output output_white)
    fix kv assume "kv \<in> set m"
    with JObj show "list_all (char_writable g) (fst kv)" "reads (json_output g (level + 1)) (\<lambda>f. json_value f sp) (snd kv)"
      by (auto simp: list_all_iff)
  qed
  then show ?case
    using JObj.prems unfolding reads_def [of "json_output g level" _ "JObj m"]
    by (auto simp: output_array_or_obj_def intro!: object_output)
next
  case (JArr vs)
  have "\<forall>v\<in>set vs. reads (json_output g l) (\<lambda>f. json_value f sp) v" for l
    using JArr by (auto simp: list_all_iff)
  then show ?case unfolding reads_def [of "json_output g level" _ "JArr vs"]
    using array_output [where b = "[]"]
    by (auto simp: output_array_or_obj_def intro!: array_output)
next
  case (JStr s)
  then show ?case
    using json_string_output get_str_quoted_output unfolding reads_def by (auto simp: json_scalar_def gr0_conv_Suc dest!: less_imp_Suc_add)
next
  case (JInt i)
  then show ?case using scalar_number [OF _ value_end_number] unfolding reads_def by (auto dest!: less_imp_Suc_add)
next
  case (JUint i)
  then show ?case using scalar_number [OF _ value_end_number] unfolding reads_def by (auto dest!: less_imp_Suc_add)
qed (auto intro: literal_output)

lemma read_write: "json_writable g v \<Longrightarrow> read_or_throw sp (write_stream g v) = Some (Inr v)"
  using output_reads [of g v 0] readsD [of "json_output g 0" "\<lambda>f. json_value f sp" v "[]" "[]"]
  by (simp add: read_or_throw_def write_stream_def value_end_def del: json_value.simps)

end

text \<open>The grammar tries signed integers first, so an unsigned one below \<open>2 ^ 63\<close> comes back as a
  signed one; the text does not tell them apart.\<close>

fun json_signed :: "json \<Rightarrow> json" where
  "json_signed (JObj obj) = JObj (map (\<lambda>(name, v). (name, json_signed v)) obj)"
| "json_signed (JArr arr) = JArr (map json_signed arr)"
| "json_signed (JUint i) = (if i < 2 ^ 63 then JInt i else JUint i)"
| "json_signed v = v"

fun json_storable :: "generator \<Rightarrow> json \<Rightarrow> bool" where
  "json_storable g (JObj obj) \<longleftrightarrow>
     mok obj \<and> list_all (\<lambda>(name, v). list_all (char_writable g) name \<and> json_storable g v) obj"
| "json_storable g (JArr arr) \<longleftrightarrow> list_all (json_storable g) arr"
| "json_storable g (JStr s) \<longleftrightarrow> list_all (char_writable g) s"
| "json_storable g (JInt i) \<longleftrightarrow> - (2 ^ 63) \<le> i \<and> i < 2 ^ 63"
| "json_storable g (JUint i) \<longleftrightarrow> 0 \<le> i \<and> i < 2 ^ 64"
| "json_storable g (JReal d) \<longleftrightarrow> False"
| "json_storable g v \<longleftrightarrow> True"

lemma json_type_signed: "json_type (json_signed v) \<in> {obj_type, array_type} \<longleftrightarrow> json_type v \<in> {obj_type, array_type}"
  by (cases v) simp_all

lemma json_output_signed: "json_output g level (json_signed v) = json_output g level v"
proof (induction v arbitrary: level)
  case (JObj m)
  have "map ((\<lambda>(name, v). output_str g name @ output_space g @ '':'' @ output_space g @ json_output g (level + 1) v) \<circ>
      (\<lambda>(name, v). (name, json_signed v))) m =
      map (\<lambda>(name, v). output_str g name @ output_space g @ '':'' @ output_space g @ json_output g (level + 1) v) m"
    using JObj by (intro map_cong refl) fastforce
  then show ?case by (simp del: map_eq_conv)
next
  case (JArr vs)
  have "contains_composite_elements (map json_signed vs) = contains_composite_elements vs"
    unfolding contains_composite_elements_def list_ex_iff using json_type_signed by fastforce
  moreover have "map (json_output g l \<circ> json_signed) vs = map (json_output g l) vs" for l
    using JArr by simp
  ultimately show ?case by (simp del: map_eq_conv)
qed simp_all

lemma json_storable_signed: "json_storable g v \<Longrightarrow> json_writable g (json_signed v)"
proof (induction v)
  case (JObj m)
  then show ?case by (fastforce simp: mok_def comp_def case_prod_beta list_all_iff)
qed (auto simp: list_all_iff)

section \<open>An instance of the primitive parsers\<close>

text \<open>Parsers with the documented behaviour, without exponents, octal and hexadecimal
  sequences: the laws of \<open>spirit_lib\<close> can hold together.\<close>

definition ref_lex :: "string \<Rightarrow> nat option" where
  "ref_lex s = (case s of [] \<Rightarrow> None | c # t \<Rightarrow> if c \<noteq> CHR 0x5C then Some 1 else if t = [] then None else Some 2)"

definition ref_sign :: "string \<Rightarrow> nat" where
  "ref_sign s = (if s \<noteq> [] \<and> (hd s = CHR ''-'' \<or> hd s = CHR ''+'') then 1 else 0)"

definition ref_real :: "string \<Rightarrow> nat option" where
  "ref_real s =
     (let t = drop (ref_sign s) s; ds = takeWhile is_digit t; u = drop (length ds) t; fs = takeWhile is_digit (tl u)
      in if starts (CHR ''.'') u \<and> (ds \<noteq> [] \<or> fs \<noteq> []) then Some (ref_sign s + length ds + 1 + length fs) else None)"

definition ref_int :: "string \<Rightarrow> (int \<times> nat) option" where
  "ref_int s =
     (let ds = takeWhile is_digit (drop (ref_sign s) s);
          i = (if starts (CHR ''-'') s then - digits_value ds else digits_value ds)
      in if ds \<noteq> [] \<and> - (2 ^ 63) \<le> i \<and> i < 2 ^ 63 then Some (i, ref_sign s + length ds) else None)"

definition ref_uint :: "string \<Rightarrow> (int \<times> nat) option" where
  "ref_uint s =
     (let ds = takeWhile is_digit s; i = digits_value ds
      in if ds \<noteq> [] \<and> i < 2 ^ 64 then Some (i, length ds) else None)"

definition ref_spirit :: spirit where
  "ref_spirit = \<lparr>lex_escape_ch_p = ref_lex, strict_real_p = ref_real, int64_p = ref_int, uint64_p = ref_uint\<rparr>"

lemma takeWhile_length: "length (takeWhile P s) \<le> length s"
  by (rule length_takeWhile_le)

lemma takeWhile_stringify:
  assumes "number_end s"
  shows "takeWhile is_digit (stringify n @ s) = stringify n"
proof -
  have "\<forall>c\<in>set (stringify n). is_digit c" using stringify_digits [of n] by simp
  moreover have "takeWhile is_digit s = []" using assms by (cases s) (auto simp: number_end_def)
  ultimately show ?thesis by (simp add: takeWhile_append)
qed

lemma sign_show_int:
  "ref_sign (show_int i @ s) = (if i < 0 then 1 else 0)"
  "drop (ref_sign (show_int i @ s)) (show_int i @ s) = stringify (nat \<bar>i\<bar>) @ s"
  "starts (CHR ''-'') (show_int i @ s) \<longleftrightarrow> i < 0"
proof -
  obtain c cs where c: "stringify (nat i) = c # cs" "is_digit c"
    using stringify_digits [of "nat i"] by (cases "stringify (nat i)") auto
  from digit_not_special [OF c(2)] c(1)
  show "ref_sign (show_int i @ s) = (if i < 0 then 1 else 0)" "starts (CHR ''-'') (show_int i @ s) \<longleftrightarrow> i < 0"
    by (auto simp: ref_sign_def show_int_def starts_def)
  then show "drop (ref_sign (show_int i @ s)) (show_int i @ s) = stringify (nat \<bar>i\<bar>) @ s"
    by (simp add: show_int_def)
qed

lemma length_show_int: "length (show_int i) = (if i < 0 then 1 else 0) + length (stringify (nat \<bar>i\<bar>))"
  by (simp add: show_int_def)

lemma ref_no_number:
  assumes "s = [] \<or> \<not> number_start (hd s)"
  shows "ref_real s = None \<and> ref_int s = None \<and> ref_uint s = None"
proof (cases s)
  case (Cons c t)
  with assms have "\<not> is_digit c" "c \<noteq> CHR ''-''" "c \<noteq> CHR ''+''" "c \<noteq> CHR ''.''" by (auto simp: number_start_def)
  with Cons show ?thesis by (auto simp: ref_real_def ref_int_def ref_uint_def ref_sign_def starts_def Let_def)
qed (simp add: ref_real_def ref_int_def ref_uint_def starts_def)

lemma ref_sign_le: "ref_sign s \<le> length s"
  by (cases s) (auto simp: ref_sign_def)

lemma ref_real_bounds: "ref_real s = Some n \<Longrightarrow> 0 < n \<and> n \<le> length s"
proof -
  assume a: "ref_real s = Some n"
  define t where "t = drop (ref_sign s) s"
  define ds where "ds = takeWhile is_digit t"
  define u where "u = drop (length ds) t"
  define fs where "fs = takeWhile is_digit (tl u)"
  have n: "n = ref_sign s + length ds + 1 + length fs" and "starts (CHR ''.'') u"
    using a by (auto simp: ref_real_def t_def ds_def u_def fs_def Let_def split: if_splits)
  then have "length fs < length u"
    using starts_tl [of _ u] takeWhile_length [of is_digit "tl u"] unfolding fs_def by (meson le_less_trans)
  moreover have "length u = length t - length ds" "length ds \<le> length t" "length t = length s - ref_sign s"
    using takeWhile_length [of is_digit t] by (simp_all add: u_def ds_def t_def)
  ultimately show "0 < n \<and> n \<le> length s" using n ref_sign_le [of s] by linarith
qed

lemma ref_int_bounds: "ref_int s = Some (i, n) \<Longrightarrow> 0 < n \<and> n \<le> length s"
  using takeWhile_length [of is_digit "drop (ref_sign s) s"] ref_sign_le [of s]
  by (auto simp: ref_int_def Let_def split: if_splits)

lemma ref_uint_bounds: "ref_uint s = Some (i, n) \<Longrightarrow> 0 < n \<and> n \<le> length s"
  by (auto simp: ref_uint_def Let_def takeWhile_length split: if_splits)

interpretation ref_sp: spirit_lib ref_spirit
proof
  fix s i
  assume e: "number_end s"
  note t = takeWhile_stringify [OF e] sign_show_int(2) [of i s] sign_show_int(1,3)
  have "stringify (nat \<bar>i\<bar>) \<noteq> []" for i using stringify_digits [of "nat \<bar>i\<bar>"] by simp
  note t = t this
  have d: "drop (length (stringify n)) (stringify n @ s) = s" for n by simp
  from e show "strict_real_p ref_spirit (show_int i @ s) = None"
    by (auto simp: ref_spirit_def ref_real_def t(1,2) d number_end_def starts_def Let_def simp del: drop_append)
  from t show "int64_p ref_spirit (show_int i @ s) =
      (if - (2 ^ 63) \<le> i \<and> i < 2 ^ 63 then Some (i, length (show_int i)) else None)"
    by (auto simp: ref_spirit_def ref_int_def digits_value_stringify length_show_int Let_def simp del: drop_append)
  assume "0 \<le> i" "i < 2 ^ 64"
  moreover have "stringify (nat i) \<noteq> []" using stringify_digits [of "nat i"] by simp
  ultimately show "uint64_p ref_spirit (show_int i @ s) = Some (i, length (show_int i))"
    by (simp add: ref_spirit_def ref_uint_def show_int_def digits_value_stringify t(1))
qed (auto simp: ref_spirit_def ref_lex_def ref_no_number Suc_le_eq
    dest: ref_real_bounds ref_int_bounds ref_uint_bounds split: list.splits if_splits)

section \<open>Properties\<close>

text \<open>C24: reading a text with the grammar always returns, with a value or with one of the
  exceptions, whatever the text is.\<close>

theorem read_or_throw_returns:
  assumes "spirit_lib sp"
  shows "\<exists>res. read_or_throw sp s = Some res"
  using spirit_lib.read_returns [OF assms] .

theorem read_or_throw_returns_witness:
  "spirit_lib ref_spirit \<and> (\<exists>res. read_or_throw ref_spirit ''[[12, {'' = Some res)"
  using read_or_throw_returns [OF ref_sp.spirit_lib_axioms, of "''[[12, {''"] ref_sp.spirit_lib_axioms by blast

text \<open>C23: what is written is read back. For every combination of the output options, a value
  without real numbers whose integers fit into 64 bits, whose objects have their names in order
  and in whose strings and names each character is below 128, printable or written raw, is read as
  the same value, except that an unsigned integer below \<open>2 ^ 63\<close> comes back as a signed one.
  (\<open>remove_trailing_zeros\<close> concerns real numbers only.)\<close>

theorem json_read_write:
  assumes "spirit_lib sp" "json_storable (new_generator options isw dbl) v"
  shows "read_or_throw sp (write_stream (new_generator options isw dbl) v) = Some (Inr (json_signed v))"
  using spirit_lib.read_write [OF assms(1) json_storable_signed [OF assms(2)]]
  by (simp add: write_stream_def json_output_signed)

definition example_generator :: generator where
  "example_generator = \<lparr>pretty = True, raw_utf8 = False, remove_trailing_zeros = False, single_line_arrays = False,
     iswprint = (\<lambda>c. 32 \<le> c \<and> c < 127), append_double = (\<lambda>_ t. t)\<rparr>"

definition example_json :: json where
  "example_json = JArr [JArr [JStr [CHR 0x22, CHR 0x01], JInt (- 3)], JObj [(''k'', JUint 9223372036854775808), (''m'', JNull)]]"

theorem json_read_write_witness:
  "let g = new_generator 9 (\<lambda>c. 32 \<le> c \<and> c < 127) (\<lambda>_ t. t)
   in read_or_throw ref_spirit (write_stream g (JArr [example_json, JUint 7])) = Some (Inr (JArr [example_json, JInt 7]))"
proof -
  have "json_storable (new_generator 9 (\<lambda>c. 32 \<le> c \<and> c < 127) (\<lambda>_ t. t)) (JArr [example_json, JUint 7])"
    by (simp add: example_json_def char_writable_def mok_def new_generator_def)
  from json_read_write [OF ref_sp.spirit_lib_axioms this] show ?thesis by (simp add: example_json_def Let_def)
qed

end
