(* ===== verification/Ruleset.thy ===== *)
theory Ruleset
  imports ErasureCode Json
begin

text \<open>
  The steps of a crush rule as the plugins keep them between parsing a profile and
  creating the rule (the nested \<open>struct Step\<close> of the two locally repairable codes), and
  the text of the parameter \<open>ruleset-steps\<close> the two read with the same code: a JSON array
  of arrays of operation, type and number. The error codes are those of
  \<open>ErasureCodeOptLrc.h\<close> and \<open>ErasureCodeLrc.h\<close>, which are the same.
\<close>

record ruleset_step =
  st_op :: string
  st_type :: string
  st_n :: int

abbreviation (input) ERROR_LRC_ARRAY :: int where "ERROR_LRC_ARRAY \<equiv> - (MAX_ERRNO + 1)"
abbreviation (input) ERROR_LRC_PARSE_JSON :: int where "ERROR_LRC_PARSE_JSON \<equiv> - (MAX_ERRNO + 7)"
abbreviation (input) ERROR_LRC_MAPPING :: int where "ERROR_LRC_MAPPING \<equiv> - (MAX_ERRNO + 8)"
abbreviation (input) ERROR_LRC_RULESET_OP :: int where "ERROR_LRC_RULESET_OP \<equiv> - (MAX_ERRNO + 14)"
abbreviation (input) ERROR_LRC_RULESET_TYPE :: int where "ERROR_LRC_RULESET_TYPE \<equiv> - (MAX_ERRNO + 15)"
abbreviation (input) ERROR_LRC_RULESET_N :: int where "ERROR_LRC_RULESET_N \<equiv> - (MAX_ERRNO + 16)"

text \<open>The loop over the elements of one step: what has been read of it, or the error.\<close>

fun step_elements :: "nat \<Rightarrow> json list \<Rightarrow> ruleset_step \<Rightarrow> (int \<times> ruleset_step) option" where
  "step_elements position [] st = Some (0, st)"
| "step_elements position (v # vs) st =
     (if (position = 0 \<or> position = 1) \<and> json_type v \<noteq> str_type
      then Some (if position = 0 then ERROR_LRC_RULESET_OP else ERROR_LRC_RULESET_TYPE, st)
      else if position = 2 \<and> json_type v \<noteq> int_type then Some (ERROR_LRC_RULESET_N, st)
      else do {
        st \<leftarrow> (if position = 0 then do { op \<leftarrow> get_str v; Some (st\<lparr>st_op := op\<rparr>) } else Some st);
        st \<leftarrow> (if position = 1 then do { type \<leftarrow> get_str v; Some (st\<lparr>st_type := type\<rparr>) } else Some st);
        st \<leftarrow> (if position = 2 then do { n \<leftarrow> get_int v; Some (st\<lparr>st_n := n\<rparr>) } else Some st);
        step_elements (position + 1) vs st })"

definition parse_ruleset_step :: "json list \<Rightarrow> ruleset_step list \<Rightarrow> (int \<times> ruleset_step list) option" where
  "parse_ruleset_step description ruleset_steps = do {
     (err, st) \<leftarrow> step_elements 0 description \<lparr>st_op = [], st_type = [], st_n = 0\<rparr>;
     Some (if err \<noteq> 0 then (err, ruleset_steps) else (0, ruleset_steps @ [st])) }"

fun parse_ruleset_loop :: "json list \<Rightarrow> ruleset_step list \<Rightarrow> (int \<times> ruleset_step list) option" where
  "parse_ruleset_loop [] ruleset_steps = Some (0, ruleset_steps)"
| "parse_ruleset_loop (v # vs) ruleset_steps =
     (if json_type v \<noteq> array_type then Some (ERROR_LRC_ARRAY, ruleset_steps)
      else do {
        arr \<leftarrow> get_array v;
        (err, ruleset_steps) \<leftarrow> parse_ruleset_step arr ruleset_steps;
        if err \<noteq> 0 then Some (err, ruleset_steps) else parse_ruleset_loop vs ruleset_steps })"

text \<open>The part of \<open>parse_ruleset\<close> after \<open>ruleset_steps.clear()\<close>.\<close>

definition parse_ruleset_steps :: "spirit \<Rightarrow> string \<Rightarrow> (int \<times> ruleset_step list) option" where
  "parse_ruleset_steps sp str = do {
     res \<leftarrow> read_or_throw sp str;
     (case res of
        Inl _ \<Rightarrow> Some (ERROR_LRC_PARSE_JSON, [])
      | Inr v \<Rightarrow>
          if json_type v \<noteq> array_type then Some (ERROR_LRC_ARRAY, [])
          else do { description \<leftarrow> get_array v; parse_ruleset_loop description [] }) }"

section \<open>What the parser accepts\<close>

definition step_json :: "ruleset_step \<Rightarrow> json" where
  "step_json st = JArr [JStr (st_op st), JStr (st_type st), JInt (st_n st)]"

lemma cast_int_id: "- (2 ^ 31) \<le> i \<Longrightarrow> i < 2 ^ 31 \<Longrightarrow> cast_int i = i"
  by (simp add: cast_int_def)

lemma parse_ruleset_loop_json:
  assumes "\<forall>st\<in>set steps. - (2 ^ 31) \<le> st_n st \<and> st_n st < 2 ^ 31"
  shows "parse_ruleset_loop (map step_json steps) acc = Some (0, acc @ steps)"
  using assms
  by (induction steps arbitrary: acc)
    (auto simp: step_json_def get_array_def parse_ruleset_step_def get_str_def get_int_def get_int64_def cast_int_id)

text \<open>The parser never aborts: the accessors are called on values of their type only.\<close>

lemma step_elements_total: "\<exists>res. step_elements position vs st = Some res"
proof (induction position vs st rule: step_elements.induct)
  case (2 position v vs st)
  then show ?case by (cases v) (auto simp: get_str_def get_int_def get_int64_def)
qed simp

lemma parse_ruleset_loop_total: "\<exists>res. parse_ruleset_loop vs steps = Some res"
proof (induction vs arbitrary: steps)
  case (Cons v vs)
  show ?case
  proof (cases v)
    case (JArr arr)
    obtain err st where "step_elements 0 arr \<lparr>st_op = [], st_type = [], st_n = 0\<rparr> = Some (err, st)"
      using step_elements_total by (metis surj_pair)
    with JArr Cons.IH show ?thesis by (auto simp: get_array_def parse_ruleset_step_def)
  qed auto
qed simp

lemma parse_ruleset_steps_total:
  assumes "spirit_lib sp"
  shows "\<exists>res. parse_ruleset_steps sp str = Some res"
proof -
  obtain res where r: "read_or_throw sp str = Some res" using spirit_lib.read_returns [OF assms] by blast
  show ?thesis
  proof (cases res)
    case (Inr v)
    with r parse_ruleset_loop_total show ?thesis by (cases v) (auto simp: parse_ruleset_steps_def get_array_def)
  qed (use r in \<open>simp add: parse_ruleset_steps_def\<close>)
qed

lemma parse_ruleset_steps_write:
  assumes "spirit_lib sp" "\<forall>st\<in>set steps. - (2 ^ 31) \<le> st_n st \<and> st_n st < 2 ^ 31"
    "\<forall>st\<in>set steps. list_all (char_writable g) (st_op st) \<and> list_all (char_writable g) (st_type st)"
  shows "parse_ruleset_steps sp (write_stream g (JArr (map step_json steps))) = Some (0, steps)"
proof -
  have "json_writable g (JArr (map step_json steps))"
    using assms(2,3) by (auto simp: step_json_def list_all_iff)
  from spirit_lib.read_write [OF assms(1) this] parse_ruleset_loop_json [OF assms(2), of "[]"]
  show ?thesis by (simp add: parse_ruleset_steps_def get_array_def)
qed

section \<open>Properties\<close>

text \<open>C31: the steps of a rule, written as JSON with any options of the writer, are what
  the parser of \<open>ruleset-steps\<close> reads back.\<close>

theorem ruleset_steps_read_write:
  assumes "spirit_lib sp" "\<forall>st\<in>set steps. - (2 ^ 31) \<le> st_n st \<and> st_n st < 2 ^ 31"
    "\<forall>st\<in>set steps. list_all (char_writable g) (st_op st) \<and> list_all (char_writable g) (st_type st)"
  shows "parse_ruleset_steps sp (write_stream g (JArr (map step_json steps))) = Some (0, steps)"
  by (rule parse_ruleset_steps_write [OF assms])

definition example_steps :: "ruleset_step list" where
  "example_steps = [\<lparr>st_op = ''choose'', st_type = ''rack'', st_n = 2\<rparr>, \<lparr>st_op = ''chooseleaf'', st_type = ''host'', st_n = 0\<rparr>]"

theorem ruleset_steps_read_write_witness:
  "parse_ruleset_steps ref_spirit (write_stream example_generator (JArr (map step_json example_steps))) = Some (0, example_steps)"
  by (rule ruleset_steps_read_write [OF ref_sp.spirit_lib_axioms]) (simp_all add: example_steps_def char_writable_def)

end
