(* ===== verification/OptLrc.thy ===== *)
theory OptLrc
  imports OptLrc_Configs Jerasure_Lib Chunk_Access Ruleset
begin

text \<open>
  The Optimal-LRC plugin, \<open>src/src/erasure-code/optlrc/ErasureCodeOptLrc.cc\<close>: the object,
  the chunk size, encoding with the precomputed generator matrix, the choice of the chunks
  to read and the repair of one lost chunk per local group by xor. Parsing of the profile
  is in \<open>OptLrc_Profile\<close>. The jerasure functions are the argument \<open>J\<close>. Running out of
  memory (\<open>talloc\<close> returning null) is not modelled.
\<close>

section \<open>The object\<close>

record optlrc =
  opt_n :: int
  opt_k :: int
  opt_r :: int
  opt_ruleset_root :: string
  opt_mapping :: "int list"
  opt_ruleset_steps :: "ruleset_step list"
  opt_chunk_mapping :: "int list"
  opt_profile :: profile

definition optlrc_get_chunk_count :: "optlrc \<Rightarrow> nat" where
  "optlrc_get_chunk_count o' = u32_of_int (opt_n o')"

definition optlrc_get_data_chunk_count :: "optlrc \<Rightarrow> nat" where
  "optlrc_get_data_chunk_count o' = u32_of_int (opt_k o')"

definition optlrc_get_alignment :: "optlrc \<Rightarrow> nat" where
  "optlrc_get_alignment o' = u32_of_int (opt_k o' * 8 * 4)"

definition optlrc_get_chunk_size :: "optlrc \<Rightarrow> nat \<Rightarrow> nat option" where
  "optlrc_get_chunk_size o' object_size = do {
     let alignment = optlrc_get_alignment o';
     let data_chunk_count = u32_of_int (opt_k o');
     assert_that (data_chunk_count \<noteq> 0);
     let chunk_size = u32_sub (u32 (object_size + data_chunk_count)) 1 div data_chunk_count;
     assert_that (alignment \<noteq> 0);
     let modulo = chunk_size mod alignment;
     Some (if modulo \<noteq> 0 then u32 (chunk_size + (alignment - modulo)) else chunk_size) }"

section \<open>Encoding\<close>

text \<open>The rows of the generator matrix that belong to the coding chunks, in the order of the
  mapping.\<close>

fun optlrc_matrix :: "OptLRC \<Rightarrow> nat \<Rightarrow> int list \<Rightarrow> int list option" where
  "optlrc_matrix G k [] = Some []"
| "optlrc_matrix G k (i # is) = do {
     row \<leftarrow> those (map (optlrc_entry G (nat i)) [0..<k]);
     rest \<leftarrow> optlrc_matrix G k is;
     Some (row @ rest) }"

definition optlrc_encode ::
    "jerasure \<Rightarrow> optlrc \<Rightarrow> cptr option list \<Rightarrow> cptr option list \<Rightarrow> int \<Rightarrow> heap \<Rightarrow> heap option" where
  "optlrc_encode J o' data coding blocksize h = do {
     let k = opt_k o'; let m = opt_n o' - opt_k o';
     G \<leftarrow> configs (opt_n o') k (opt_r o');
     matrix \<leftarrow> optlrc_matrix G (nat k) (drop (nat k) (opt_mapping o'));
     assert_that (int (length matrix) \<le> m * k);
     jerasure_matrix_encode J k m 8 matrix data coding blocksize h }"

definition optlrc_encode_chunks ::
    "jerasure \<Rightarrow> optlrc \<Rightarrow> int set \<Rightarrow> chunks \<Rightarrow> heap \<Rightarrow> (heap \<times> int \<times> chunks) option" where
  "optlrc_encode_chunks J o' want_to_encode encoded h = do {
     assert_that (int (length (opt_mapping o')) \<le> opt_n o');
     (h, encoded, chunks) \<leftarrow> c_strs (opt_mapping o') (h, encoded);
     assert_that (encoded \<noteq> []);
     let blocksize = int_of_u32 (bl_length (snd (hd encoded)));
     h \<leftarrow> optlrc_encode J o' (take (nat (opt_k o')) chunks) (drop (nat (opt_k o')) chunks) blocksize h;
     Some (h, 0, encoded) }"

section \<open>Choosing the chunks to read\<close>

fun optlrc_minimum_loop :: "int \<Rightarrow> int set \<Rightarrow> int list \<Rightarrow> int set \<Rightarrow> int set \<Rightarrow> int \<times> int set" where
  "optlrc_minimum_loop g available [] failed_groups minimum = (0, minimum)"
| "optlrc_minimum_loop g available (it # its) failed_groups minimum =
     (if it sdiv g \<in> failed_groups then (- EIO, minimum)
      else let failed_groups = insert (it sdiv g) failed_groups
           in optlrc_minimum_loop g available its failed_groups
                (minimum \<union> Set.filter (\<lambda>c. c sdiv g \<in> failed_groups) available))"

definition optlrc_minimum_to_decode ::
    "optlrc \<Rightarrow> int set \<Rightarrow> int set \<Rightarrow> int set \<Rightarrow> (int \<times> int set) option" where
  "optlrc_minimum_to_decode o' want_to_read available_chunks minimum = do {
     assert_that (configs_in_range (opt_n o') (opt_k o') (opt_r o'));
     let all = map int [0..<optlrc_get_chunk_count o'];
     let erasures_total = filter (\<lambda>i. i \<notin> available_chunks) all;
     let erasures_want = filter (\<lambda>i. i \<in> want_to_read) erasures_total;
     if erasures_want = [] then Some (0, want_to_read)
     else (case optlrc_minimum_loop (opt_r o' + 1) available_chunks erasures_want {} minimum of
             (err, minimum) \<Rightarrow>
               if err \<noteq> 0 then Some (err, minimum)
               else Some (0, (minimum \<union> want_to_read) - set erasures_total)) }"

section \<open>Decoding\<close>

text \<open>One round of the loop of \<open>optlrc_decode_local\<close>: the state is the heap and \<open>init\<close>.\<close>

definition optlrc_local_step ::
    "jerasure \<Rightarrow> nat \<Rightarrow> cptr option list \<Rightarrow> int \<Rightarrow> nat \<Rightarrow> heap \<times> bool \<Rightarrow> (heap \<times> bool) option" where
  "optlrc_local_step J loc_erased decoded blocksize i s =
     (case s of (h, init) \<Rightarrow>
        if i \<noteq> loc_erased then do {
          assert_that (i < length decoded);
          h \<leftarrow> (if \<not> init
               then do { dst \<leftarrow> decoded ! loc_erased; src \<leftarrow> decoded ! i; memcpy dst src (nat blocksize) h }
               else galois_region_xor J (decoded ! i) (decoded ! loc_erased) blocksize h);
          Some (h, True) }
        else Some (h, init))"

definition optlrc_decode_local ::
    "jerasure \<Rightarrow> optlrc \<Rightarrow> int \<Rightarrow> cptr option list \<Rightarrow> nat \<Rightarrow> int \<Rightarrow> heap \<Rightarrow> (heap \<times> int) option" where
  "optlrc_decode_local J o' erased decoded group_size blocksize h = do {
     let loc_erased = nat (erased smod (opt_r o' + 1));
     assert_that (loc_erased < length decoded);
     (h, init) \<leftarrow> ofold (optlrc_local_step J loc_erased decoded blocksize) [0..<group_size] (h, False);
     Some (h, 0) }"

text \<open>The pointers of a local group: \<open>local[m] = (*decoded)[i].c_str()\<close>.\<close>

definition optlrc_collect ::
    "int \<Rightarrow> int \<Rightarrow> heap \<times> chunks \<times> cptr option list \<Rightarrow> (heap \<times> chunks \<times> cptr option list) option" where
  "optlrc_collect g i s =
     (case s of (h, decoded, loc) \<Rightarrow> do {
        (h, decoded, p) \<leftarrow> c_str_at i (h, decoded);
        let m = nat (i smod g);
        assert_that (m < length loc);
        Some (h, decoded, loc[m := p]) })"

definition optlrc_decode_one ::
    "jerasure \<Rightarrow> optlrc \<Rightarrow> int \<Rightarrow> int \<Rightarrow> heap \<times> chunks \<times> cptr option list \<times> int
      \<Rightarrow> (heap \<times> chunks \<times> cptr option list \<times> int) option" where
  "optlrc_decode_one J o' blocksize erased s =
     (case s of (h, decoded, loc, erasures_init) \<Rightarrow> do {
        let g = opt_r o' + 1;
        let failed_group = erased sdiv g;
        let members = filter (\<lambda>i. i sdiv g = failed_group) (map int [0..<nat (opt_n o')]);
        (h, decoded, loc) \<leftarrow> ofold (optlrc_collect g) members (h, decoded, loc);
        (h, _) \<leftarrow> optlrc_decode_local J o' erased loc (length members) blocksize h;
        Some (h, decoded, loc, erasures_init - 1) })"

definition optlrc_decode_chunks ::
    "jerasure \<Rightarrow> optlrc \<Rightarrow> int set \<Rightarrow> chunks \<Rightarrow> chunks \<Rightarrow> heap \<Rightarrow> (heap \<times> int \<times> chunks) option" where
  "optlrc_decode_chunks J o' want_to_read chunks decoded h = do {
     assert_that (chunks \<noteq> []);
     let blocksize = int_of_u32 (bl_length (snd (hd chunks)));
     assert_that (configs_in_range (opt_n o') (opt_k o') (opt_r o'));
     let erasures = filter (\<lambda>i. i \<notin> set (mkeys chunks) \<and> i \<in> want_to_read)
                      (map int [0..<optlrc_get_chunk_count o']);
     (h, decoded, loc, erasures_init) \<leftarrow>
       ofold (optlrc_decode_one J o' blocksize) erasures
         (h, decoded, replicate (nat (opt_r o' + 1)) None, int (length erasures));
     Some (h, if erasures_init > 0 then - EIO else 0, decoded) }"

definition optlrc_codec :: "jerasure \<Rightarrow> optlrc \<Rightarrow> codec" where
  "optlrc_codec J o' =
     \<lparr>chunk_mapping = opt_chunk_mapping o', get_profile = opt_profile o',
      get_chunk_count = optlrc_get_chunk_count o', get_data_chunk_count = optlrc_get_data_chunk_count o',
      get_chunk_size = optlrc_get_chunk_size o', minimum_to_decode = optlrc_minimum_to_decode o',
      encode_chunks = optlrc_encode_chunks J o', decode_chunks = optlrc_decode_chunks J o'\<rparr>"

end
