(* ===== verification/OptLrc_Repair.thy ===== *)
theory OptLrc_Repair
  imports OptLrc
begin

text \<open>
  What \<open>decode_chunks\<close> of the Optimal-LRC plugin does, whatever the generator matrix is:
  a lost chunk becomes the xor of the other members of its local group. The repair is
  correct for the matrices whose rows cancel in every group (\<open>OptLrc_Code\<close>).
\<close>

section \<open>Local groups\<close>

definition local_group :: "nat \<Rightarrow> nat \<Rightarrow> nat \<Rightarrow> nat list" where
  "local_group n r g = filter (\<lambda>i. i div (r + 1) = g) [0..<n]"

definition group_first :: "nat \<Rightarrow> nat \<Rightarrow> nat" where
  "group_first r c = c div Suc r * Suc r"

definition group_size :: "nat \<Rightarrow> nat \<Rightarrow> nat \<Rightarrow> nat" where
  "group_size n r c = min n (group_first r c + Suc r) - group_first r c"

text \<open>The contents of the other chunks of the group of \<open>c\<close>.\<close>

definition group_others :: "nat \<Rightarrow> nat \<Rightarrow> heap \<Rightarrow> chunks \<Rightarrow> nat \<Rightarrow> byte list list" where
  "group_others n r h M c =
     map (\<lambda>m. content h M (int (group_first r c + m))) (filter (\<lambda>m. m \<noteq> c mod Suc r) [0..<group_size n r c])"

lemma configs_range:
  assumes "configs n k r = Some G"
  shows "configs_in_range n k r" "2 \<le> k" "k < n" "0 < r"
  using assms unfolding configs_def config_table_def configs_in_range_def
    MAX_CHUNKS_def MAX_DATA_CHUNKS_def MAX_LOCALITY_CHUNKS_def
  by (simp_all split: if_splits)

locale optlrc_repair = jerasure_lib mul J for mul J +
  fixes o' :: optlrc and n k r :: nat and G :: OptLRC
  assumes params: "opt_n o' = int n" "opt_k o' = int k" "opt_r o' = int r"
    and G: "configs (int n) (int k) (int r) = Some G"
begin

abbreviation first :: "nat \<Rightarrow> nat" where "first \<equiv> group_first r"
abbreviation gsize :: "nat \<Rightarrow> nat" where "gsize \<equiv> group_size n r"

lemma nums: "2 \<le> k" "k < n" "n < 20" "k < 16" "0 < r" "configs_in_range (int n) (int k) (int r)"
  using configs_range [OF G]
  by (auto simp: configs_in_range_def MAX_CHUNKS_def MAX_DATA_CHUNKS_def)

lemma counts: "optlrc_get_chunk_count o' = n" "optlrc_get_data_chunk_count o' = k"
  using nums params by (simp_all add: optlrc_get_chunk_count_def optlrc_get_data_chunk_count_def u32_of_int_def)

lemma r1: "opt_r o' + 1 = int (Suc r)"
  using params(3) by simp

section \<open>Repair of one chunk\<close>

lemma collect_ok:
  assumes ar: "arena h M (int ` {..<n}) W bs" and "0 < bs" "a mod Suc r = 0" "w \<le> Suc r" "a + w \<le> n" "length loc = Suc r"
  shows "\<exists>h' M' loc'. ofold (optlrc_collect (int (Suc r))) (map int [a..<a + w]) (h, M, loc) = Some (h', M', loc') \<and>
    arena h' M' (int ` {..<n}) W bs \<and> solidified (int ` {..<n}) h M h' M' \<and> length loc' = Suc r \<and>
    (\<forall>m<w. \<exists>q. loc' ! m = Some (ptr_c_str q) \<and> mref [] M' (int (a + m)) = [q])"
proof -
  let ?N = "int ` {..<n}"
  let ?P = "\<lambda>j t. case t of (h', M', loc') \<Rightarrow> arena h' M' ?N W bs \<and> solidified ?N h M h' M' \<and> length loc' = Suc r \<and>
    (\<forall>m<j. \<exists>q. loc' ! m = Some (ptr_c_str q) \<and> mref [] M' (int (a + m)) = [q])"
  have "\<exists>t. ofold (optlrc_collect (int (Suc r))) (map int [a..<a + w]) (h, M, loc) = Some t \<and>
      ?P (length (map int [a..<a + w])) t"
  proof (rule ofold_invariant [where P = ?P])
    fix j t assume "j < length (map int [a..<a + w])" and P: "?P j t"
    then have j: "j < w" by simp
    obtain g L loc' where t: "t = (g, L, loc')" by (cases t)
    have ag: "arena g L ?N W bs" and lj: "j < length loc'" using P t j assms(4) by simp_all
    have "int (a + j) \<in> ?N" by (intro imageI) (use j assms(5) in simp)
    then obtain g' L' q where c: "c_str_at (int (a + j)) (g, L) = Some (g', L', Some (ptr_c_str q))"
        "arena g' L' ?N W bs" "solidified ?N g L g' L'" "mref [] L' (int (a + j)) = [q]"
      using c_str_at_spec [OF ag _ assms(2)] by blast
    have "(a + j) mod Suc r = j" using assms(3,4) j by (metis add_cancel_left_left mod_add_left_eq mod_less order_less_le_trans)
    then have m: "nat (int (a + j) smod int (Suc r)) = j" by (simp only: sdiv_smod_nat nat_int)
    have "\<exists>q. loc'[j := Some (ptr_c_str q')] ! m = Some (ptr_c_str q) \<and> mref [] L' (int (a + m)) = [q]"
      if "m < Suc j" "mref [] L' (int (a + j)) = [q']" for m q'
      using that P t c(3) lj by (cases "m = j") (auto simp: solidified_def nth_list_update less_Suc_eq)
    then show "\<exists>s'. optlrc_collect (int (Suc r)) (map int [a..<a + w] ! j) t = Some s' \<and> ?P (Suc j) s'"
      using c m P j assms(4) t solidified_trans [of ?N h M g L g' L'] by (auto simp: optlrc_collect_def Let_def simp del: of_nat_Suc of_nat_add)
  qed (use ar assms(6) in auto)
  then show ?thesis by auto
qed

lemma decode_local_ok:
  assumes ar: "arena h M N W bs" and e: "e < w" "2 \<le> w" "c = f e" "c \<in> W" "f ` {..<w} \<subseteq> N" "inj_on f {..<w}"
    and loc: "w \<le> length loc" "\<And>m. m < w \<Longrightarrow> \<exists>q. loc ! m = Some (ptr_c_str q) \<and> mref [] M (f m) = [q]"
  shows "\<exists>h'. ofold (optlrc_local_step J e loc (int bs)) [0..<w] (h, False) = Some (h', True) \<and>
    frame (wraws M {c}) h h' \<and> arena h' M N W bs \<and>
    (\<forall>d\<in>N. d \<noteq> c \<longrightarrow> content h' M d = content h M d) \<and>
    content h' M c = vxor bs (map (\<lambda>m. content h M (f m)) (filter (\<lambda>m. m \<noteq> e) [0..<w]))"
proof -
  let ?v = "\<lambda>m. content h M (f m)"
  let ?P = "\<lambda>j t. case t of (g, init) \<Rightarrow> frame (wraws M {c}) h g \<and> arena g M N W bs \<and>
    (\<forall>d\<in>N. d \<noteq> c \<longrightarrow> content g M d = content h M d) \<and> init = (filter (\<lambda>m. m \<noteq> e) [0..<j] \<noteq> []) \<and>
    (init \<longrightarrow> content g M c = vxor bs (map ?v (filter (\<lambda>m. m \<noteq> e) [0..<j])))"
  have step: "\<exists>t'. optlrc_local_step J e loc (int bs) ([0..<w] ! j) t = Some t' \<and> ?P (Suc j) t'"
    if "j < length [0..<w]" and P: "?P j t" for j t
  proof (cases "j = e")
    case False
    from that(1) have j: "j < w" by simp
    obtain g init where t: "t = (g, init)" by (cases t)
    have ag: "arena g M N W bs" using P t by simp
    have fj: "f j \<in> N" "f e \<in> N" "f j \<noteq> c"
      using e j False inj_onD [OF e(6), of j e] by auto
    obtain q d where q: "loc ! j = Some (ptr_c_str q)" "mref [] M (f j) = [q]"
        "loc ! e = Some (ptr_c_str d)" "mref [] M c = [d]"
      using loc(2) [OF j] loc(2) [OF e(1)] e(3) by auto
    have src: "mem_read g (ptr_c_str q) bs = Some (?v j)"
      using arena_window(4) [OF ag fj(1) q(2)] fj P t by simp
    have lv: "length (?v j) = bs" using length_content [OF ar fj(1)] .
    have dst: "mem_read g (ptr_c_str d) bs = Some (content g M c)"
      using arena_window(4) [OF ag fj(2)] q(4) e(3) by simp
    have ne: "fst (ptr_c_str q) \<noteq> fst (ptr_c_str d)"
      using arena_simps(7) [OF ag e(4) fj(1)] fj(3) q by (auto simp: ptr_c_str_def)
    let ?new = "if init then bxor (?v j) (content g M c) else ?v j"
    have "length ?new = bs" using lv length_content [OF ag fj(2)] e(3) by simp
    then obtain g' where g': "mem_write g (ptr_c_str d) ?new = Some g'" "frame (wraws M {c}) g g'" "arena g' M N W bs"
        "content g' M c = ?new" "\<forall>d\<in>N. d \<noteq> c \<longrightarrow> content g' M d = content g M d"
      using arena_write [OF ag e(4) q(4)] by blast
    have "optlrc_local_step J e loc (int bs) j t = Some (g', True)"
      using False j loc(1) q g'(1) src region_xor [OF src dst ne] t
      by (auto simp: optlrc_local_step_def memcpy_def)
    moreover have "?new = vxor bs (map ?v (filter (\<lambda>m. m \<noteq> e) [0..<Suc j]))"
      using P t False bxor_vxor [OF lv] lv by (cases init) auto
    moreover have "frame (wraws M {c}) h g'"
      using frame_trans [of "wraws M {c}" h g "wraws M {c}" g'] g'(2) P t by auto
    ultimately show ?thesis using g' P t j False by auto
  qed (use P that(1) in \<open>auto simp: optlrc_local_step_def\<close>)
  have "\<exists>t. ofold (optlrc_local_step J e loc (int bs)) [0..<w] (h, False) = Some t \<and> ?P (length [0..<w]) t"
    by (rule ofold_invariant [where P = ?P]) (use ar step in auto)
  moreover have "filter (\<lambda>m. m \<noteq> e) [0..<w] \<noteq> []"
    using e(2) by (auto simp: filter_empty_conv intro!: bexI [of _ "if e = 0 then 1 else 0"] split: if_splits)
  ultimately show ?thesis by auto
qed

lemma members:
  assumes c: "c < n"
  shows "filter (\<lambda>i. i sdiv int (Suc r) = int c sdiv int (Suc r)) (map int [0..<n]) = map int [first c..<first c + gsize c]"
    "first c + c mod Suc r = c" "c mod Suc r < gsize c" "gsize c \<le> Suc r" "first c + gsize c \<le> n"
    "local_group n r (c div Suc r) = [first c..<first c + gsize c]"
proof -
  show fc: "first c + c mod Suc r = c" unfolding group_first_def by (rule div_mult_mod_eq)
  have lt: "c mod Suc r < Suc r" by simp
  show "c mod Suc r < gsize c" "gsize c \<le> Suc r" unfolding group_size_def using fc lt c by linarith+
  have le: "first c \<le> n" using fc c by linarith
  then have up: "first c + gsize c = min n (first c + Suc r)" by (simp add: group_size_def)
  show "first c + gsize c \<le> n" unfolding up by simp
  show "local_group n r (c div Suc r) = [first c..<first c + gsize c]"
    unfolding local_group_def up Suc_eq_plus1 [symmetric]
    by (subst filter_div_upt) (simp_all only: group_first_def zero_less_Suc)
  then show "filter (\<lambda>i. i sdiv int (Suc r) = int c sdiv int (Suc r)) (map int [0..<n]) = map int [first c..<first c + gsize c]"
    unfolding local_group_def by (simp only: filter_map comp_def sdiv_smod_nat of_nat_eq_iff Suc_eq_plus1)
qed

lemma member_group: "m < gsize c \<Longrightarrow> c < n \<Longrightarrow> (first c + m) div Suc r = c div Suc r"
  using members(4) [of c] by (simp add: group_first_def div_add1_eq del: mult_Suc_right)

abbreviation others :: "heap \<Rightarrow> chunks \<Rightarrow> nat \<Rightarrow> byte list list" where
  "others \<equiv> group_others n r"

lemmas others_def = group_others_def

lemma others_cong:
  assumes "c < n" "\<And>d. d < n \<Longrightarrow> d \<noteq> c \<Longrightarrow> d div Suc r = c div Suc r \<Longrightarrow> content h' M' (int d) = content h M (int d)"
  shows "others h' M' c = others h M c"
  unfolding others_def
proof (rule map_cong [OF refl])
  fix m assume "m \<in> set (filter (\<lambda>m. m \<noteq> c mod Suc r) [0..<gsize c])"
  then have m: "m < gsize c" "m \<noteq> c mod Suc r" by auto
  then have "first c + m < n" "first c + m \<noteq> c" using members(2,5) [OF assms(1)] by linarith+
  then show "content h' M' (int (first c + m)) = content h M (int (first c + m))"
    using assms(2) member_group [OF m(1) assms(1)] by blast
qed

lemma decode_one_xor:
  assumes ar: "arena h M (int ` {..<n}) W bs" and bs: "0 < bs" "length loc = Suc r"
    and c: "c < n" "int c \<in> W" "2 \<le> gsize c"
  shows "\<exists>h' M' loc'. optlrc_decode_one J o' (int bs) (int c) (h, M, loc, cnt) = Some (h', M', loc', cnt - 1) \<and>
    length loc' = Suc r \<and> arena h' M' (int ` {..<n}) W bs \<and> frame (wraws M {int c}) h h' \<and>
    (\<forall>c p. mref [] M c = [p] \<longrightarrow> mref [] M' c = [p]) \<and>
    (\<forall>d\<in>int ` {..<n}. content h' M' d = (if d = int c then vxor bs (others h M c) else content h M d))"
proof -
  let ?N = "int ` {..<n}" and ?e = "c mod Suc r"
  let ?f = "\<lambda>m. int (first c + m)"
  note g = members [OF c(1)]
  have "first c mod Suc r = 0" unfolding group_first_def by (rule mod_mult_self2_is_0)
  from collect_ok [OF ar bs(1) this g(4,5) bs(2)]
  obtain h1 M1 loc1 where 1: "ofold (optlrc_collect (int (Suc r))) (map int [first c..<first c + gsize c]) (h, M, loc) = Some (h1, M1, loc1)"
      "arena h1 M1 ?N W bs" "solidified ?N h M h1 M1" "length loc1 = Suc r"
      "\<forall>m<gsize c. \<exists>q. loc1 ! m = Some (ptr_c_str q) \<and> mref [] M1 (?f m) = [q]"
    by (elim exE conjE) (rule that; assumption)
  have sol: "content h1 M1 d = content h M d" if "d \<in> ?N" for d
    using 1(3) that unfolding solidified_def by blast
  have inN: "?f ` {..<gsize c} \<subseteq> ?N" by (intro image_subsetI imageI) (use g(5) in simp)
  obtain h2 where 2: "ofold (optlrc_local_step J ?e loc1 (int bs)) [0..<gsize c] (h1, False) = Some (h2, True)"
      "frame (wraws M1 {int c}) h1 h2" "arena h2 M1 ?N W bs" "\<forall>d\<in>?N. d \<noteq> int c \<longrightarrow> content h2 M1 d = content h1 M1 d"
      "content h2 M1 (int c) = vxor bs (others h1 M1 c)"
    using decode_local_ok [OF 1(2) g(3) c(3), of "int c" ?f loc1] g(2,4) c(2) inN 1(4,5)
    by (auto simp: inj_on_def others_def)
  have "optlrc_decode_local J o' (int c) loc1 (gsize c) (int bs) h1 = Some (h2, 0)"
    using 2(1) 1(4) by (simp add: optlrc_decode_local_def r1 Let_def del: of_nat_Suc)
  then have "optlrc_decode_one J o' (int bs) (int c) (h, M, loc, cnt) = Some (h2, M1, loc1, cnt - 1)"
    using 1(1) g(1) params(1) by (simp add: optlrc_decode_one_def r1 Let_def del: of_nat_Suc sdiv_smod_nat length_filter_map)
  moreover have "frame (wraws M {int c}) h h2"
    using frame_trans [OF _ 2(2), of "{}" h] 1(3) solidified_wraws [OF ar 1(3), of "{int c}"] c(2)
    by (simp add: solidified_def)
  moreover have "others h1 M1 c = others h M c"
    using c(1) sol by (intro others_cong) auto
  ultimately show ?thesis using 1(3,4) 2(3,4,5) sol unfolding solidified_def by auto
qed

end

end
