(* ===== verification/Matrix_Coding.thy ===== *)
theory Matrix_Coding
  imports Jerasure_Lib Chunk_Access
begin

text \<open>
  Encoding the chunks of a stripe with a matrix, as the plugins do it: take the pointers of
  all chunks, data first, and hand them to the library. The lemma says what the chunks
  hold then; both the Optimal-LRC and the jerasure plugin rest on it.
\<close>

text \<open>Pointers taken from an arena: where they point, and that those of writable chunks are alone.\<close>

lemma arena_pointers:
  assumes ar: "arena h M N W bs" and cs: "set cs \<subseteq> N" "distinct cs" "map (mref [] M) cs = map (\<lambda>q. [q]) qs"
  shows "length qs = length cs" "\<And>i. i < length cs \<Longrightarrow> mref [] M (cs ! i) = [qs ! i]"
    "\<And>i. i < length cs \<Longrightarrow> mem_read h (ptr_c_str (qs ! i)) bs = Some (content h M (cs ! i))"
    "\<And>i j. cs ! i \<in> W \<Longrightarrow> i < length cs \<Longrightarrow> j < length cs \<Longrightarrow> i \<noteq> j \<Longrightarrow> p_raw (qs ! i) \<noteq> p_raw (qs ! j)"
proof -
  show lq: "length qs = length cs" using cs(3) by (metis length_map)
  show q: "mref [] M (cs ! i) = [qs ! i]" if "i < length cs" for i using cs(3) that lq by (metis nth_map)
  have inN: "cs ! i \<in> N" if "i < length cs" for i using cs(1) that by auto
  show "mem_read h (ptr_c_str (qs ! i)) bs = Some (content h M (cs ! i))" if "i < length cs" for i
    using arena_window(4) [OF ar inN [OF that] q [OF that]] .
  show "p_raw (qs ! i) \<noteq> p_raw (qs ! j)" if "cs ! i \<in> W" "i < length cs" "j < length cs" "i \<noteq> j" for i j
    using arena_simps(7) [OF ar that(1) inN [OF that(3)]] q that cs(2) by (auto simp: nth_eq_iff_index_eq)
qed

text \<open>Writing the chunks at some positions of a list through their pointers.\<close>

lemma arena_writes_at:
  assumes ar: "arena h M N W bs" and cs: "set cs \<subseteq> N" "distinct cs" "map (mref [] M) cs = map (\<lambda>q. [q]) qs"
    and es: "distinct es" "\<And>e. e \<in> set es \<Longrightarrow> e < length cs \<and> cs ! e \<in> W \<and> length (v e) = bs"
  shows "\<exists>h'. ofold (\<lambda>e h. mem_write h (map ptr_c_str qs ! e) (v e)) es h = Some h' \<and>
    frame (wraws M ((!) cs ` set es)) h h' \<and> arena h' M N W bs \<and>
    (\<forall>e\<in>set es. content h' M (cs ! e) = v e) \<and> (\<forall>d\<in>N - (!) cs ` set es. content h' M d = content h M d)"
proof -
  note p = arena_pointers(1,2) [OF ar cs]
  let ?cs = "map ((!) cs) es" and ?qs = "map ((!) qs) es"
  have 1: "set ?cs \<subseteq> W" "map (mref [] M) ?cs = map (\<lambda>q. [q]) ?qs" using es(2) p(2) by auto
  have 2: "distinct ?cs" using es cs(2) by (auto simp: distinct_map inj_on_def nth_eq_iff_index_eq)
  have 3: "\<And>j. j < length ?cs \<Longrightarrow> length (v (es ! j)) = bs" using es(2) by auto
  obtain h' where h': "ofold (\<lambda>j h. mem_write h (map ptr_c_str ?qs ! j) (v (es ! j))) [0..<length es] h = Some h'"
      "frame (wraws M (set ?cs)) h h'" "arena h' M N W bs" "\<forall>j<length es. content h' M (?cs ! j) = v (es ! j)"
      "\<forall>d\<in>N - set ?cs. content h' M d = content h M d"
    using arena_writes [where v = "\<lambda>j. v (es ! j)", OF ar 1(1) 2 1(2) 3] by auto
  have "ofold (\<lambda>j h. mem_write h (map ptr_c_str ?qs ! j) (v (es ! j))) [0..<length es] h =
      ofold (\<lambda>j h. mem_write h (map ptr_c_str qs ! (es ! j)) (v (es ! j))) [0..<length es] h"
    by (rule ofold_cong) (use es(2) p(1) in auto)
  also have "\<dots> = ofold (\<lambda>e h. mem_write h (map ptr_c_str qs ! e) (v e)) es h"
    using ofold_map [of "\<lambda>e h. mem_write h (map ptr_c_str qs ! e) (v e)" "(!) es" "[0..<length es]" h] by (simp add: map_nth)
  finally show ?thesis using h' by (auto simp: in_set_conv_nth)
qed

context jerasure_lib
begin

lemma matrix_encode_chunks:
  assumes bs: "0 < bs" "bs mod 8 = 0" and cs: "distinct cs" "set cs \<subseteq> N" "k \<le> length cs"
    and ar: "arena h M N (set (drop k cs)) bs"
    and mx: "length mx = (length cs - k) * k" "set mx \<subseteq> {0..255}"
    and ds: "length ds = k" "\<And>i. i < k \<Longrightarrow> content h M (cs ! i) = ds ! i"
  shows "\<exists>h1 M1 ps h2. c_strs cs (h, M) = Some (h1, M1, ps) \<and>
    jerasure_matrix_encode J (int k) (int (length cs - k)) 8 mx (take k ps) (drop k ps) (int bs) h1 = Some h2 \<and>
    solidified N h M h1 M1 \<and> frame (wraws M (set (drop k cs))) h h2 \<and> arena h2 M1 N (set (drop k cs)) bs \<and>
    (\<forall>i<length cs - k. content h2 M1 (cs ! (k + i)) = dot mul (matrix_row mx k i) ds bs) \<and>
    (\<forall>c\<in>N - set (drop k cs). content h2 M1 c = content h M c)"
proof -
  let ?cod = "drop k cs"
  obtain h1 M1 qs where 1: "c_strs cs (h, M) = Some (h1, M1, map (Some \<circ> ptr_c_str) qs)"
      "arena h1 M1 N (set ?cod) bs" "solidified N h M h1 M1" "map (mref [] M1) cs = map (\<lambda>q. [q]) qs"
    using c_strs_spec [OF ar cs(2) bs(1)] by auto
  note p = arena_pointers [OF 1(2) cs(2,1) 1(4)]
  have inN: "cs ! i \<in> N" if "i < length cs" for i using cs(2) that by auto
  have cont: "content h1 M1 c = content h M c" if "c \<in> N" for c
    using 1(3) that unfolding solidified_def by blast
  have raw: "p_raw (qs ! i) \<noteq> p_raw (qs ! j)" if "k \<le> i" "i < length cs" "j < length cs" "i \<noteq> j" for i j
    by (rule p(4)) (use that in \<open>auto simp: set_drop_nth\<close>)
  let ?v = "\<lambda>i. dot mul (matrix_row mx k i) ds bs"
  have cod: "map (mref [] M1) ?cod = map (\<lambda>q. [q]) (drop k qs)" using 1(4) by (metis drop_map)
  obtain h2 where 2: "ofold (\<lambda>i h. mem_write h (map ptr_c_str (drop k qs) ! i) (?v i)) [0..<length ?cod] h1 = Some h2"
      "frame (wraws M1 (set ?cod)) h1 h2" "arena h2 M1 N (set ?cod) bs"
      "\<forall>i<length ?cod. content h2 M1 (?cod ! i) = ?v i" "\<forall>d\<in>N - set ?cod. content h2 M1 d = content h1 M1 d"
    using arena_writes [OF 1(2) _ _ cod, of ?v] cs(1) by auto
  have "write_products mul k mx ds (map ptr_c_str (drop k qs)) bs h1 = Some h2"
    using 2(1) p(1) by (simp add: write_products_def)
  moreover have "distinct (map fst (map ptr_c_str (drop k qs)))"
    unfolding distinct_conv_nth using raw p(1) by (auto simp: ptr_c_str_def)
  moreover have "fst ` set (map ptr_c_str (drop k qs)) \<inter> fst ` set (map ptr_c_str (take k qs)) = {}"
    using raw p(1) by (fastforce simp: ptr_c_str_def set_conv_nth)
  moreover have "mem_read h1 q bs \<noteq> None" if "q \<in> set (map ptr_c_str (drop k qs))" for q
    using that p(1,3) by (auto simp: set_conv_nth)
  moreover have "mem_read h1 (map ptr_c_str (take k qs) ! i) bs = Some (ds ! i)"
      if "i < length (map ptr_c_str (take k qs))" for i
    using that p(1,3) ds(2) [of i] cont [OF inN] by auto
  ultimately have "jerasure_matrix_encode J (int k) (int (length cs - k)) 8 mx
      (map Some (map ptr_c_str (take k qs))) (map Some (map ptr_c_str (drop k qs))) (int bs) h1 = Some h2"
    using matrix_encode [of mx "map ptr_c_str (drop k qs)" "map ptr_c_str (take k qs)" bs ds h1] p(1) cs(3) bs(2) mx ds(1)
    by simp
  moreover have "frame (wraws M (set ?cod)) h h2"
    using frame_trans [OF _ 2(2), of "{}" h] 1(3) solidified_wraws [OF ar 1(3), of "set ?cod"] by (simp add: solidified_def)
  ultimately show ?thesis
    using 1(1,3) 2(3,4,5) cont cs(3) by (auto simp: take_map drop_map)
qed

end

end
