(* ===== verification/OptLrc_Code.thy ===== *)
theory OptLrc_Code
  imports OptLrc_Repair Matrix_Coding
begin

text \<open>
  Correctness of the Optimal-LRC plugin. \<open>generator_ok\<close> is what a generator matrix has to
  satisfy together with the mapping of the profile: unit rows at the data positions, and
  rows that cancel within every local group. For an object with such a matrix the plugin
  fulfils the contract \<open>erasure_code\<close>: encoding computes the products with the matrix,
  and one lost chunk per local group is repaired.
\<close>

section \<open>What a generator matrix has to satisfy\<close>

definition cancels :: "OptLRC \<Rightarrow> nat \<Rightarrow> nat list \<Rightarrow> bool" where
  "cancels G k is \<longleftrightarrow> (\<forall>j<k. foldr (\<lambda>i x. G ! i ! j XOR x) is 0 = 0)"

definition generator_systematic :: "OptLRC \<Rightarrow> nat \<Rightarrow> nat \<Rightarrow> int list \<Rightarrow> bool" where
  "generator_systematic G n k mapping \<longleftrightarrow>
     length G = n \<and> (\<forall>row\<in>set G. length row = k \<and> (\<forall>x\<in>set row. 0 \<le> x \<and> x \<le> 255)) \<and>
     length mapping = n \<and> set mapping = set (map int [0..<n]) \<and>
     (\<forall>j<k. G ! nat (mapping ! j) = (replicate k 0)[j := 1])"

definition generator_ok :: "OptLRC \<Rightarrow> nat \<Rightarrow> nat \<Rightarrow> nat \<Rightarrow> int list \<Rightarrow> bool" where
  "generator_ok G n k r mapping \<longleftrightarrow> generator_systematic G n k mapping \<and>
     (\<forall>g\<in>set (remdups (map (\<lambda>c. c div (r + 1)) [0..<n])).
        2 \<le> length (local_group n r g) \<and> cancels G k (local_group n r g))"

definition optlrc_wf :: "optlrc \<Rightarrow> bool" where
  "optlrc_wf o' \<longleftrightarrow>
     (case configs (opt_n o') (opt_k o') (opt_r o') of
        None \<Rightarrow> False
      | Some G \<Rightarrow> generator_ok G (nat (opt_n o')) (nat (opt_k o')) (nat (opt_r o')) (opt_mapping o')) \<and>
     opt_chunk_mapping o' = opt_mapping o'"

text \<open>The row of a chunk as bytes, the content of a chunk, and when lost chunks come back:
  the other members of their local groups are there.\<close>

definition generator_row :: "optlrc \<Rightarrow> nat \<Rightarrow> byte list" where
  "generator_row o' c = (case configs (opt_n o') (opt_k o') (opt_r o') of
     None \<Rightarrow> [] | Some G \<Rightarrow> map word_of_int (G ! c))"

definition optlrc_enc :: "(byte \<Rightarrow> byte \<Rightarrow> byte) \<Rightarrow> optlrc \<Rightarrow> byte list list \<Rightarrow> int \<Rightarrow> byte list" where
  "optlrc_enc mul o' ds c = dot mul (generator_row o' (nat c)) ds (length (ds ! 0))"

definition locally_recoverable :: "optlrc \<Rightarrow> int set \<Rightarrow> int set \<Rightarrow> bool" where
  "locally_recoverable o' want A \<longleftrightarrow>
     (\<forall>c\<in>want - A. \<forall>d\<in>{0..<opt_n o'}. d div (opt_r o' + 1) = c div (opt_r o' + 1) \<and> d \<noteq> c \<longrightarrow> d \<in> A)"

definition optlrc_fits :: "optlrc \<Rightarrow> nat \<Rightarrow> nat \<Rightarrow> bool" where
  "optlrc_fits o' len bs \<longleftrightarrow> 0 < len \<and> len < 2 ^ 31 \<and> optlrc_get_chunk_size o' len = Some bs"

section \<open>Sizes\<close>

lemma wordchunk_size:
  fixes k len :: nat
  assumes "2 \<le> k" "k < 16" "len < 2 ^ 31"
  defines "cs \<equiv> (len + k - 1) div k"
  shows "len \<le> k * cs" "cs + 32 * k < 2 ^ 31" "0 < len \<Longrightarrow> 0 < cs"
proof -
  have "k * cs + (len + k - 1) mod k = len + k - 1"
    unfolding cs_def by (rule mult_div_mod_eq)
  moreover have "(len + k - 1) mod k < k" using assms by simp
  ultimately have b: "len \<le> k * cs" "k * cs \<le> len + k - 1" by linarith+
  from b(1) show "len \<le> k * cs" .
  from b(1) show "0 < cs" if "0 < len" using that by (cases cs) auto
  have "2 * cs \<le> k * cs" using assms(1) by (rule mult_le_mono1)
  moreover have "(2 :: nat) ^ 31 = 2147483648" by simp
  ultimately show "cs + 32 * k < 2 ^ 31" using b assms(2,3) by linarith
qed

lemma optlrc_chunk_size:
  assumes "2 \<le> opt_k o'" "opt_k o' < 16" "len < 2 ^ 31"
    and "optlrc_get_chunk_size o' len = Some bs"
  shows "len \<le> nat (opt_k o') * bs" "bs < 2 ^ 31" "bs mod (32 * nat (opt_k o')) = 0" "0 < len \<Longrightarrow> 0 < bs"
    "(len + nat (opt_k o') - 1) div nat (opt_k o') \<le> bs" "bs < (len + nat (opt_k o') - 1) div nat (opt_k o') + 32 * nat (opt_k o')"
proof -
  obtain k where k: "opt_k o' = int k" "2 \<le> k" "k < 16" using assms(1,2) nonneg_int_cases [of "opt_k o'"] by auto
  let ?cs = "(len + k - 1) div k" and ?al = "32 * k"
  note w = wordchunk_size [OF k(2,3) assms(3)]
  have al: "optlrc_get_alignment o' = ?al" "u32_of_int (opt_k o') = k"
    using k by (simp_all add: optlrc_get_alignment_def u32_of_int_def)
  have cs: "u32_sub (u32 (len + k)) 1 div k = ?cs"
    using assms(3) k(2,3) by simp
  have bs: "bs = (if ?cs mod ?al \<noteq> 0 then u32 (?cs + (?al - ?cs mod ?al)) else ?cs)"
    using assms(4) k(2) unfolding optlrc_get_chunk_size_def Let_def al cs by simp
  have b: "?cs \<le> bs \<and> bs < ?cs + ?al \<and> bs mod ?al = 0"
  proof (cases "?cs mod ?al = 0")
    case False
    have small: "?cs mod ?al < ?al" using k(2) by simp
    then have "bs = ?cs + (?al - ?cs mod ?al)" using bs False w(2) by simp
    moreover have "(?cs + (?al - ?cs mod ?al)) mod ?al = 0"
      using small by (metis add_diff_inverse_nat less_imp_not_less mod_add_left_eq mod_self)
    moreover have "?al - ?cs mod ?al < ?al" using False small by linarith
    ultimately show ?thesis by (intro conjI) (linarith, linarith, simp only:)
  qed (use bs k(2) in simp)
  from b w k show "len \<le> nat (opt_k o') * bs" "bs < 2 ^ 31" "bs mod (32 * nat (opt_k o')) = 0"
      "0 < len \<Longrightarrow> 0 < bs" "(len + nat (opt_k o') - 1) div nat (opt_k o') \<le> bs"
      "bs < (len + nat (opt_k o') - 1) div nat (opt_k o') + 32 * nat (opt_k o')"
    by (auto intro: order_trans [OF _ mult_le_mono2])
qed

lemma optlrc_chunk_size_total:
  assumes "2 \<le> opt_k o'" "opt_k o' < 16" "len < 2 ^ 31"
    and "optlrc_get_chunk_size o' len = Some bs"
  shows "nat (opt_k o') * bs < len + nat (opt_k o') + nat (opt_k o') * (32 * nat (opt_k o'))"
proof -
  let ?k = "nat (opt_k o')"
  have "bs \<le> (len + ?k - 1) div ?k + 32 * ?k" using optlrc_chunk_size(6) [OF assms] by linarith
  then have "?k * bs \<le> ?k * ((len + ?k - 1) div ?k) + ?k * (32 * ?k)" by (metis add_mult_distrib2 mult_le_mono2)
  moreover have "?k * ((len + ?k - 1) div ?k) \<le> len + ?k - 1" by (rule times_div_less_eq_dividend)
  moreover have "0 < ?k" using assms(1) by simp
  ultimately show ?thesis by linarith
qed

section \<open>Encoding\<close>

text \<open>To encode, the matrix has to be systematic only.\<close>

locale optlrc_encoder = optlrc_repair mul J o' n k r G for mul J o' n k r G +
  assumes sys: "generator_systematic G n k (opt_mapping o')"
    and same_mapping: "opt_chunk_mapping o' = opt_mapping o'"
begin

lemma mapping: "length (opt_mapping o') = n" "set (opt_mapping o') = int ` {..<n}" "distinct (opt_mapping o')"
  "opt_chunk_mapping o' = opt_mapping o'"
proof -
  show *: "length (opt_mapping o') = n" "set (opt_mapping o') = int ` {..<n}"
    using sys by (auto simp: generator_systematic_def atLeast0LessThan)
  show "distinct (opt_mapping o')"
    by (rule card_distinct) (simp add: * card_image)
  show "opt_chunk_mapping o' = opt_mapping o'"
    by (rule same_mapping)
qed

lemma idx: "i < n \<Longrightarrow> chunk_index (opt_chunk_mapping o') i = opt_mapping o' ! i"
  using mapping by (simp add: chunk_index_def)

lemma idx_bij: "bij_betw (chunk_index (opt_chunk_mapping o')) {..<n} (int ` {..<n})"
proof -
  have "bij_betw ((!) (opt_mapping o')) {..<n} (int ` {..<n})"
    using bij_betw_nth [OF mapping(3), of "{..<n}" "int ` {..<n}"] mapping by auto
  then show ?thesis
    by (rule bij_betw_cong [THEN iffD1, rotated]) (simp add: idx)
qed

lemma rows: "c < n \<Longrightarrow> length (G ! c) = k" "c < n \<Longrightarrow> set (G ! c) \<subseteq> {0..255}"
  "generator_row o' c = map word_of_int (G ! c)" "c < n \<Longrightarrow> length (generator_row o' c) = k"
proof -
  have "G ! c \<in> set G" if "c < n"
    using sys that by (auto simp: generator_systematic_def)
  then show *: "length (G ! c) = k" "set (G ! c) \<subseteq> {0..255}" if "c < n"
    using sys that unfolding generator_systematic_def by fastforce+
  show "generator_row o' c = map word_of_int (G ! c)"
    using G params by (simp add: generator_row_def)
  then show "length (generator_row o' c) = k" if "c < n" using *(1) [OF that] by simp
qed

lemma matrix:
  "set is \<subseteq> int ` {..<n} \<Longrightarrow> optlrc_matrix G k is = Some (concat (map (\<lambda>i. G ! nat i) is))"
proof (induction "is")
  case (Cons i "is")
  then have i: "nat i < n" by auto
  have "those (map (optlrc_entry G (nat i)) [0..<k]) = Some (map (\<lambda>j. G ! nat i ! j) [0..<k])"
    using sys i nums rows(1) [OF i] by (intro those_Some) (simp add: optlrc_entry_def MAX_MATRIX_def generator_systematic_def)
  also have "map (\<lambda>j. G ! nat i ! j) [0..<k] = G ! nat i"
    using rows(1) [OF i] by (metis map_nth)
  finally show ?case using Cons by simp
qed simp

lemma systematic_rows: "j < k \<Longrightarrow> generator_row o' (nat (opt_mapping o' ! j)) = unit_row k j"
  using sys by (simp add: generator_systematic_def rows(3) unit_row_def map_update)

lemma enc_systematic:
  assumes "length ds = k" "\<And>d. d \<in> set ds \<Longrightarrow> length d = bs" "i < k"
  shows "optlrc_enc mul o' ds (opt_mapping o' ! i) = ds ! i"
proof -
  have "length (ds ! 0) = bs" "length (ds ! i) = bs" using assms nums by auto
  then show ?thesis
    using dot_unit_row [OF assms(3), of ds bs] by (simp add: optlrc_enc_def systematic_rows [OF assms(3)])
qed

lemma coding_rows:
  assumes "i < n - k"
  shows "matrix_row (concat (map (\<lambda>i. G ! nat i) (drop k (opt_mapping o')))) k i =
    generator_row o' (nat (drop k (opt_mapping o') ! i))"
proof -
  have "length x = k" if x: "x \<in> set (map (\<lambda>i. G ! nat i) (drop k (opt_mapping o')))" for x
    using x mapping(2) rows(1) set_drop_subset [of k "opt_mapping o'"] by auto
  moreover have "i < length (map (\<lambda>i. G ! nat i) (drop k (opt_mapping o')))"
    using assms mapping(1) by simp
  ultimately have "take k (drop (i * k) (concat (map (\<lambda>i. G ! nat i) (drop k (opt_mapping o'))))) =
      map (\<lambda>i. G ! nat i) (drop k (opt_mapping o')) ! i"
    by (rule take_drop_concat)
  then show ?thesis
    using assms mapping(1) by (simp add: matrix_row_def rows(3))
qed

lemma encode_ok:
  assumes bs: "0 < bs" "bs < 2 ^ 31" "bs mod 8 = 0" and ds: "length ds = k"
    and ar: "arena h M (int ` {..<n}) (set (drop k (opt_mapping o'))) bs"
    and data: "\<And>i. i < k \<Longrightarrow> content h M (opt_mapping o' ! i) = ds ! i"
  shows "\<exists>h' M'. optlrc_encode_chunks J o' want M h = Some (h', 0, M') \<and>
    frame (wraws M (set (drop k (opt_mapping o')))) h h' \<and>
    holds h' M' (int ` {..<n}) bs (optlrc_enc mul o' ds)"
proof -
  let ?map = "opt_mapping o'" and ?N = "int ` {..<n}"
  let ?cod = "drop k ?map"
  let ?mx = "concat (map (\<lambda>i. G ! nat i) ?cod)"
  have inN: "?map ! i \<in> ?N" if "i < n" for i using that mapping by (metis nth_mem)
  have lens: "length d = bs" if d: "d \<in> set ds" for d
  proof -
    obtain j where "j < k" "d = ds ! j" using d ds by (auto simp: in_set_conv_nth)
    with length_content [OF ar inN [of j]] data [of j] nums(2) show ?thesis by simp
  qed
  then have len: "length ds > 0" "length (ds ! 0) = bs" using ds nums by auto
  have "set (G ! nat i) \<subseteq> {0..255}" if "i \<in> set ?cod" for i
    using that mapping(2) rows(2) [of "nat i"] set_drop_subset [of k ?map] by (metis imageE lessThan_iff nat_int subsetD)
  then have mx: "set ?mx \<subseteq> {0..255}" by auto
  have lmx: "length ?mx = (n - k) * k"
    using mapping rows(1) set_drop_subset [of k ?map] by (subst foldr_length_const [of _ _ k]) auto
  obtain h1 M1 ps h2 where e: "c_strs ?map (h, M) = Some (h1, M1, ps)"
      "jerasure_matrix_encode J (int k) (int (n - k)) 8 ?mx (take k ps) (drop k ps) (int bs) h1 = Some h2"
      "frame (wraws M (set ?cod)) h h2" "arena h2 M1 ?N (set ?cod) bs"
      "\<forall>i<n - k. content h2 M1 (?map ! (k + i)) = dot mul (matrix_row ?mx k i) ds bs"
      "\<forall>c\<in>?N - set ?cod. content h2 M1 c = content h M c"
    using matrix_encode_chunks [OF bs(1,3) mapping(3) _ _ ar, of ?mx ds] mapping(1,2) nums(2) lmx mx ds data by auto
  have "optlrc_encode J o' (take k ps) (drop k ps) (int bs) h1 = Some h2"
    using params G matrix [of ?cod] mapping(2) set_drop_subset [of k ?map] lmx nums(2) e(2)
    by (simp add: optlrc_encode_def)
  moreover have "M1 \<noteq> [] \<and> bl_length (snd (hd M1)) = bs"
    using arena_hd [OF e(4)] nums by auto
  ultimately have "optlrc_encode_chunks J o' want M h = Some (h2, 0, M1)"
    using params e(1) mapping(1) bs(2) by (simp add: optlrc_encode_chunks_def)
  moreover have "content h2 M1 c = optlrc_enc mul o' ds c" if c: "c \<in> ?N" for c
  proof -
    obtain i where i: "i < n" "c = ?map ! i" using c mapping by (metis in_set_conv_nth)
    show ?thesis
    proof (cases "i < k")
      case True
      then have "c \<notin> set ?cod" using i mapping(1,3) by (auto simp: set_drop_nth nth_eq_iff_index_eq)
      with e(6) c True i data enc_systematic [OF ds lens] show ?thesis by auto
    next
      case False
      then have "i - k < n - k" "k + (i - k) = i" using i by auto
      with e(5) i coding_rows [of "i - k"] len mapping(1) show ?thesis by (auto simp: optlrc_enc_def)
    qed
  qed
  then have "holds h2 M1 ?N bs (optlrc_enc mul o' ds)"
    using arena_simps [OF e(4)] by (simp add: holds_def)
  ultimately show ?thesis using e(3) by blast
qed

lemma codec_fields:
  "get_chunk_count (optlrc_codec J o') = n" "get_data_chunk_count (optlrc_codec J o') = k"
  "chunk_mapping (optlrc_codec J o') = opt_mapping o'" "get_chunk_size (optlrc_codec J o') = optlrc_get_chunk_size o'"
  "encode_chunks (optlrc_codec J o') = optlrc_encode_chunks J o'"
  "decode_chunks (optlrc_codec J o') = optlrc_decode_chunks J o'"
  by (simp_all add: optlrc_codec_def counts mapping(4))

lemma fits_block:
  assumes "optlrc_fits o' len bs"
  shows "0 < bs" "bs < 2 ^ 31" "bs mod 8 = 0" "len \<le> k * bs"
proof -
  have "bs mod (32 * k) = 0" "0 < bs" "bs < 2 ^ 31" "len \<le> k * bs"
    using optlrc_chunk_size [of o' len bs] assms nums params by (auto simp: optlrc_fits_def)
  then show "0 < bs" "bs < 2 ^ 31" "bs mod 8 = 0" "len \<le> k * bs"
    using mod_mod_cancel [of 8 "32 * k" bs] by auto
qed

end

text \<open>The encoding half of the contract; nothing is said about lost chunks.\<close>

sublocale optlrc_encoder \<subseteq> wr: erasure_code "optlrc_codec J o'" "optlrc_enc mul o'" "\<lambda>_ _. False" "optlrc_fits o'"
  "\<lambda>_. True"
proof unfold_locales
  let ?C = "optlrc_codec J o'"
  note [simp] = codec_fields
  have idx: "chunk_index (opt_mapping o') i = opt_mapping o' ! i" if "i < n" for i
    using idx [OF that] mapping(4) by simp
  show "get_data_chunk_count ?C \<le> get_chunk_count ?C" using nums by simp
  show "bij_betw (chunk_index (chunk_mapping ?C)) {..<get_chunk_count ?C} (int ` {..<get_chunk_count ?C})"
    using idx_bij mapping(4) by simp
  show "optlrc_enc mul o' ds (chunk_index (chunk_mapping ?C) i) = ds ! i"
    if "length ds = get_data_chunk_count ?C" "\<And>d. d \<in> set ds \<Longrightarrow> length d = bs" "i < get_data_chunk_count ?C" for ds bs i
    using enc_systematic [of ds bs i] that nums idx by simp
  show "get_chunk_size ?C len = Some bs \<and> 0 < bs \<and> len < 2 ^ 32 \<and> len \<le> get_data_chunk_count ?C * bs"
    if "optlrc_fits o' len bs" for len bs
    using fits_block [OF that] that by (simp add: optlrc_fits_def)
  have cod: "chunk_index (opt_mapping o') ` {k..<n} = set (drop k (opt_mapping o'))"
    using mapping(1) idx by (simp add: set_drop_nth)
  show "\<exists>h' rc M'. encode_chunks ?C want M h = Some (h', rc, M') \<and>
      frame (wraws M (chunk_index (chunk_mapping ?C) ` {get_data_chunk_count ?C..<get_chunk_count ?C})) h h' \<and>
      holds h' M' (int ` {..<get_chunk_count ?C}) bs (optlrc_enc mul o' ds)"
    if "optlrc_fits o' len bs" "length ds = get_data_chunk_count ?C"
      "arena h M (int ` {..<get_chunk_count ?C})
        (chunk_index (chunk_mapping ?C) ` {get_data_chunk_count ?C..<get_chunk_count ?C}) bs"
      "\<And>i. i < get_data_chunk_count ?C \<Longrightarrow> content h M (chunk_index (chunk_mapping ?C) i) = ds ! i"
    for len bs ds h M want
    using encode_ok [OF fits_block(1-3) [OF that(1)], of ds h M want] that nums idx cod by auto
qed (simp_all only: simp_thms)

section \<open>The contract\<close>

locale optlrc_code = optlrc_encoder mul J o' n k r G for mul J o' n k r G +
  assumes gen: "generator_ok G n k r (opt_mapping o')"
begin

subsection \<open>Repair\<close>

lemma group:
  assumes c: "c < n"
  shows "2 \<le> gsize c"
    "\<And>j. j < k \<Longrightarrow> xsum (map (\<lambda>d. generator_row o' d ! j) [first c..<first c + gsize c]) = 0"
proof -
  note m = members [OF c]
  have g: "2 \<le> length (local_group n r (c div Suc r))" "cancels G k (local_group n r (c div Suc r))"
    using gen c by (auto simp: generator_ok_def)
  from g(1) show "2 \<le> gsize c" unfolding m(6) by simp
  show "xsum (map (\<lambda>d. generator_row o' d ! j) [first c..<first c + gsize c]) = 0" if j: "j < k" for j
  proof -
    let ?is = "[first c..<first c + gsize c]"
    have "xsum (map (\<lambda>d. generator_row o' d ! j) ?is) = xsum (map (\<lambda>d. word_of_int (G ! d ! j)) ?is)"
      using j rows(1,3) m(5) by (intro arg_cong [of _ _ xsum] map_cong) auto
    also have "\<dots> = word_of_int (foldr (\<lambda>i x. G ! i ! j XOR x) ?is 0)"
      by (rule word_of_int_foldr_xor [symmetric])
    also have "foldr (\<lambda>i x. G ! i ! j XOR x) ?is 0 = 0"
      using g(2) j unfolding m(6) cancels_def by blast
    finally show ?thesis by simp
  qed
qed

lemma enc_others:
  assumes "c < n" "length ds = k" "length (ds ! 0) = bs"
  shows "vxor bs (map (\<lambda>m. optlrc_enc mul o' ds (int (first c + m))) (filter (\<lambda>m. m \<noteq> c mod Suc r) [0..<gsize c]))
    = optlrc_enc mul o' ds (int c)"
proof -
  note g = members [OF assms(1)]
  let ?f = "\<lambda>m. optlrc_enc mul o' ds (int (first c + m))"
  have "xsum (map (\<lambda>m. ?f m ! i) [0..<gsize c]) = 0" if "i < bs" for i
  proof -
    have "xsum (map (\<lambda>d. dot mul (generator_row o' d) ds bs ! i) [first c..<first c + gsize c]) = 0"
      using rows(4) g(5) group(2) [OF assms(1)] that by (intro xsum_dot [of _ _ k]) auto
    moreover have "[first c..<first c + gsize c] = map (\<lambda>m. first c + m) [0..<gsize c]"
      by (simp add: map_add_upt add.commute)
    ultimately show ?thesis using assms(3) by (simp add: optlrc_enc_def comp_def del: of_nat_add)
  qed
  from vxor_others [of "c mod Suc r" "[0..<gsize c]" ?f bs, OF _ _ _ this] g(2,3) assms(3)
  show ?thesis by (simp add: optlrc_enc_def)
qed

lemma decode_one_ok:
  assumes ar: "arena h M (int ` {..<n}) W bs" and bs: "0 < bs" "length loc = Suc r"
    and c: "c < n" "int c \<in> W" and ds: "length ds = k" "length (ds ! 0) = bs"
    and known: "\<And>d. d < n \<Longrightarrow> d \<noteq> c \<Longrightarrow> d div Suc r = c div Suc r \<Longrightarrow> content h M (int d) = optlrc_enc mul o' ds (int d)"
  shows "\<exists>h' M' loc'. optlrc_decode_one J o' (int bs) (int c) (h, M, loc, cnt) = Some (h', M', loc', cnt - 1) \<and>
    length loc' = Suc r \<and> arena h' M' (int ` {..<n}) W bs \<and> frame (wraws M {int c}) h h' \<and>
    (\<forall>c p. mref [] M c = [p] \<longrightarrow> mref [] M' c = [p]) \<and>
    (\<forall>d\<in>int ` {..<n}. content h' M' d = (if d = int c then optlrc_enc mul o' ds (int c) else content h M d))"
proof -
  note m = members [OF c(1)]
  have "content h M (int (first c + i)) = optlrc_enc mul o' ds (int (first c + i))"
    if i: "i < gsize c" "i \<noteq> c mod Suc r" for i
  proof -
    have "first c + i < n" "first c + i \<noteq> c" using i m(2,5) by linarith+
    then show ?thesis using known member_group [OF i(1) c(1)] by blast
  qed
  then have eq: "vxor bs (others h M c) = optlrc_enc mul o' ds (int c)"
    unfolding others_def enc_others [OF c(1) ds, symmetric]
    by (intro arg_cong [of _ _ "vxor bs"] map_cong) auto
  from decode_one_xor [OF ar bs c group(1) [OF c(1)], of cnt] show ?thesis unfolding eq .
qed

lemma recoverable_others:
  assumes "locally_recoverable o' want A" "int c \<in> want - A" "d < n" "d \<noteq> c" "d div Suc r = c div Suc r"
  shows "int d \<in> A"
proof -
  have "int d div (opt_r o' + 1) = int c div (opt_r o' + 1)"
    using assms(5) by (simp only: r1 zdiv_int [symmetric])
  with assms params(1) show ?thesis by (auto simp: locally_recoverable_def)
qed

lemma decode_ok:
  assumes bs: "0 < bs" "bs < 2 ^ 31" and ds: "length ds = k" "length (ds ! 0) = bs"
    and A: "A \<subseteq> int ` {..<n}" "A \<noteq> {}" and rec: "locally_recoverable o' want A"
    and h0: "holds h0 chunks A bs (optlrc_enc mul o' ds)"
    and ar: "arena h M (int ` {..<n}) (int ` {..<n} - A) bs"
    and avail: "\<And>c. c \<in> A \<Longrightarrow> content h M c = optlrc_enc mul o' ds c"
  shows "\<exists>h' M'. optlrc_decode_chunks J o' want chunks M h = Some (h', 0, M') \<and>
    frame (wraws M (int ` {..<n} - A)) h h' \<and> arena h' M' (int ` {..<n}) (int ` {..<n} - A) bs \<and>
    (\<forall>c\<in>(want \<inter> int ` {..<n}) \<union> A. content h' M' c = optlrc_enc mul o' ds c)"
proof -
  let ?N = "int ` {..<n}" and ?enc = "optlrc_enc mul o' ds"
  let ?W = "?N - A"
  define er where "er = filter (\<lambda>i. i \<notin> set (mkeys chunks) \<and> i \<in> want) (map int [0..<n])"
  have "set (mkeys chunks) = A" using h0 by (simp add: holds_def)
  then have er: "set er = want \<inter> ?W" by (auto simp: er_def)
  let ?P = "\<lambda>j t. case t of (g, L, loc, cnt) \<Rightarrow> arena g L ?N ?W bs \<and> frame (wraws M ?W) h g \<and>
    (\<forall>c p. mref [] M c = [p] \<longrightarrow> mref [] L c = [p]) \<and> length loc = Suc r \<and> cnt = int (length er) - int j \<and>
    (\<forall>c\<in>A \<union> set (take j er). content g L c = ?enc c)"
  have step: "\<exists>t'. optlrc_decode_one J o' (int bs) (er ! j) t = Some t' \<and> ?P (Suc j) t'"
    if j: "j < length er" and P: "?P j t" for j t
  proof -
    obtain g L loc cnt where t: "t = (g, L, loc, cnt)" by (cases t)
    have ag: "arena g L ?N ?W bs" "length loc = Suc r" using P t by auto
    have "er ! j \<in> want \<inter> ?W" using nth_mem [OF j] unfolding er .
    then obtain c where c: "er ! j = int c" "c < n" "int c \<in> want - A" by auto
    have W: "int c \<in> ?W" using c by auto
    have "content g L (int d) = ?enc (int d)" if "d < n" "d \<noteq> c" "d div Suc r = c div Suc r" for d
      using recoverable_others [OF rec c(3) that] P t by auto
    then obtain g' L' loc' where s: "optlrc_decode_one J o' (int bs) (int c) (g, L, loc, cnt) = Some (g', L', loc', cnt - 1)"
        "length loc' = Suc r" "arena g' L' ?N ?W bs" "frame (wraws L {int c}) g g'"
        "\<forall>c p. mref [] L c = [p] \<longrightarrow> mref [] L' c = [p]"
        "\<forall>d\<in>?N. content g' L' d = (if d = int c then ?enc (int c) else content g L d)"
      using decode_one_ok [OF ag(1) bs(1) ag(2) c(2) W ds, of cnt] by blast
    obtain p where "mref [] M (int c) = [p]" using arena_simps(6) [OF ar W] by blast
    moreover from this have "mref [] L (int c) = [p]" using P t by simp
    ultimately have "wraws L {int c} \<subseteq> wraws M ?W" unfolding wraws_def using W by force
    then have "frame (wraws M ?W) h g'"
      using frame_trans [of "wraws M ?W" h g "wraws L {int c}" g'] s(4) P t by (simp add: Un_absorb2)
    moreover have "content g' L' d = ?enc d" if "d \<in> A \<union> set (take (Suc j) er)" for d
    proof -
      have "d \<in> ?N" "d = int c \<or> d \<in> A \<union> set (take j er)"
        using that A(1) er set_take_subset [of "Suc j" er] j c(1) by (auto simp: take_Suc_conv_app_nth)
      with s(6) P t show ?thesis by auto
    qed
    ultimately show ?thesis using s P t c(1) by auto
  qed
  have "\<exists>t. ofold (optlrc_decode_one J o' (int bs)) er (h, M, replicate (Suc r) None, int (length er)) = Some t \<and> ?P (length er) t"
    by (rule ofold_invariant [where P = ?P]) (use ar avail step in auto)
  then obtain h' M' loc where t: "ofold (optlrc_decode_one J o' (int bs)) er (h, M, replicate (Suc r) None, int (length er)) = Some (h', M', loc, 0)"
      "?P (length er) (h', M', loc, 0)" by auto
  have "chunks \<noteq> [] \<and> bl_length (snd (hd chunks)) = bs"
    using arena_hd [OF holds_arena [OF h0] A(2)] .
  then have "optlrc_decode_chunks J o' want chunks M h = Some (h', 0, M')"
    using t(1) bs(2) nums(6) params counts(1)
    by (simp add: optlrc_decode_chunks_def Let_def er_def [symmetric] nat_add_distrib del: replicate_Suc)
  with t(2) er show ?thesis by auto
qed

end

sublocale optlrc_code \<subseteq> ec: erasure_code "optlrc_codec J o'" "optlrc_enc mul o'" "locally_recoverable o'" "optlrc_fits o'"
  "\<lambda>_. True"
proof
  let ?C = "optlrc_codec J o'"
  note [simp] = codec_fields
  show "\<exists>h' M'. decode_chunks ?C want chunks M h = Some (h', 0, M') \<and>
      frame (wraws M (int ` {..<get_chunk_count ?C} - A)) h h' \<and> mok M' \<and>
      set (mkeys M') = int ` {..<get_chunk_count ?C} \<and>
      (\<forall>c\<in>want \<union> A. bl_ok h' (mref [] M' c) \<and> bl_length (mref [] M' c) = bs \<and> content h' M' c = optlrc_enc mul o' ds c)"
    if "optlrc_fits o' len bs" "length ds = get_data_chunk_count ?C" "\<And>d. d \<in> set ds \<Longrightarrow> length d = bs"
      "A \<subseteq> int ` {..<get_chunk_count ?C}" "A \<noteq> {}" "want \<subseteq> int ` {..<get_chunk_count ?C}"
      "locally_recoverable o' want A" "holds h0 chunks A bs (optlrc_enc mul o' ds)"
      "arena h M (int ` {..<get_chunk_count ?C}) (int ` {..<get_chunk_count ?C} - A) bs"
      "\<And>c. c \<in> A \<Longrightarrow> content h M c = optlrc_enc mul o' ds c"
    for len bs ds A want h0 chunks h M
  proof -
    note a = that
    have "length (ds ! 0) = bs" using a(2,3) nums by auto
    then obtain h' M' where d: "optlrc_decode_chunks J o' want chunks M h = Some (h', 0, M')"
        "frame (wraws M (int ` {..<n} - A)) h h'" "arena h' M' (int ` {..<n}) (int ` {..<n} - A) bs"
        "\<forall>c\<in>(want \<inter> int ` {..<n}) \<union> A. content h' M' c = optlrc_enc mul o' ds c"
      using decode_ok [OF fits_block(1,2) [OF a(1)], of ds A want h0 chunks h M] a by auto
    have "want \<union> A \<subseteq> int ` {..<n}" "want \<inter> int ` {..<n} = want" using a(4,6) by auto
    with d arena_simps(1,2,4,5) [OF d(3)] show ?thesis by auto
  qed
qed (fact wr.data_le_count wr.mapping_bij wr.systematic wr.fits_size wr.encode_chunks_ok)+

end
