(* ===== verification/OptLrc_Theorems.thy ===== *)
theory OptLrc_Theorems
  imports OptLrc_Code
begin

text \<open>
  What the Optimal-LRC plugin guarantees, stated over the operations of the plugin and of
  the base class: which of the shipped matrices support local repair, the round trip of an
  object with one chunk lost per local group, the answers of \<open>minimum_to_decode\<close> and
  \<open>get_chunk_size\<close>, and the inputs on which the code misbehaves.
\<close>

section \<open>The shipped matrices\<close>

text \<open>The mapping a matrix is made for: data where its rows are unit rows.\<close>

definition unit_mapping :: "OptLRC \<Rightarrow> string" where
  "unit_mapping G = map (\<lambda>row. if sum_list row = 1 then CHR ''D'' else CHR ''_'') G"

definition table_entry_ok :: "(int \<times> int \<times> int) \<times> OptLRC \<Rightarrow> bool" where
  "table_entry_ok e = (case e of ((n, k, r), G) \<Rightarrow>
     generator_ok G (nat n) (nat k) (nat r) (mapping_positions (unit_mapping G)))"

text \<open>C11: all generator matrices of the table are systematic for their mapping and cancel in
  every local group, with one exception: the one for 17 chunks, 12 data chunks and locality 6.\<close>

theorem configs_bad_entries:
  "map fst (filter (\<lambda>e. \<not> table_entry_ok e) config_table) = [(17, 12, 6)]"
  by code_simp

section \<open>Round trip and repair\<close>

lemma optlrc_wf_code:
  assumes "jerasure_lib mul J" "optlrc_wf o'"
  obtains n k r G where "optlrc_code mul J o' n k r G" "opt_n o' = int n" "opt_k o' = int k" "opt_r o' = int r"
proof -
  obtain G where G: "configs (opt_n o') (opt_k o') (opt_r o') = Some G"
      "generator_ok G (nat (opt_n o')) (nat (opt_k o')) (nat (opt_r o')) (opt_mapping o')"
      "opt_chunk_mapping o' = opt_mapping o'"
    using assms(2) by (auto simp: optlrc_wf_def split: option.splits)
  note rg = configs_range [OF G(1)]
  have eq: "opt_n o' = int (nat (opt_n o'))" "opt_k o' = int (nat (opt_k o'))" "opt_r o' = int (nat (opt_r o'))"
    using rg by simp_all
  have "optlrc_code mul J o' (nat (opt_n o')) (nat (opt_k o')) (nat (opt_r o')) G"
    by (intro optlrc_code.intro optlrc_encoder.intro optlrc_repair.intro optlrc_repair_axioms.intro
          optlrc_encoder_axioms.intro optlrc_code_axioms.intro assms(1) eq)
      (use G eq in \<open>simp_all add: generator_ok_def\<close>)
  from that [OF this eq] show ?thesis .
qed

definition one_lost_per_group :: "optlrc \<Rightarrow> int set \<Rightarrow> bool" where
  "one_lost_per_group o' A \<longleftrightarrow>
     (\<forall>c\<in>{0..<opt_n o'} - A. \<forall>d\<in>{0..<opt_n o'} - A. c div (opt_r o' + 1) = d div (opt_r o' + 1) \<longrightarrow> c = d)"

lemma one_lost_recoverable:
  "one_lost_per_group o' A \<Longrightarrow> want \<subseteq> {0..<opt_n o'} \<Longrightarrow> locally_recoverable o' want A"
  unfolding one_lost_per_group_def locally_recoverable_def by blast

context optlrc_encoder
begin

lemma all_chunks: "int ` {..<n} = {0..<opt_n o'}"
  using params(1) by (auto simp: image_int_atLeastLessThan lessThan_atLeast0)

lemma fits_exists:
  assumes "0 < len" "len < 2 ^ 31"
  shows "\<exists>bs. optlrc_fits o' len bs"
proof -
  have "u32_of_int (opt_k o') = k" "optlrc_get_alignment o' = 32 * k"
    using params nums by (simp_all add: optlrc_get_alignment_def u32_of_int_def)
  then show ?thesis using assms nums by (simp add: optlrc_fits_def optlrc_get_chunk_size_def Let_def)
qed

lemma encode_all:
  assumes "bl_ok h raw" "0 < bl_length raw" "bl_length raw < 2 ^ 31"
  shows "\<exists>bs h1 M ds. optlrc_fits o' (bl_length raw) bs \<and> encode (optlrc_codec J o') {0..<opt_n o'} raw [] h = Some (h1, 0, M) \<and>
    frame {} h h1 \<and> ds = map (block k bs (bl_bytes h raw)) [0..<k] \<and> (\<forall>d\<in>set ds. length d = bs) \<and>
    holds h1 M {0..<opt_n o'} bs (optlrc_enc mul o' ds)"
proof -
  obtain bs where bs: "optlrc_fits o' (bl_length raw) bs" using fits_exists assms(2,3) by blast
  let ?ds = "map (block k bs (bl_bytes h raw)) [0..<k]"
  obtain h1 M where "encode (optlrc_codec J o') {0..<opt_n o'} raw [] h = Some (h1, 0, M)" "frame {} h h1"
      "holds h1 M {0..<opt_n o'} bs (optlrc_enc mul o' ?ds)"
    using wr.encode_spec [OF assms(1) bs TrueI, of "{0..<opt_n o'}", unfolded codec_fields all_chunks] by auto
  moreover have "length d = bs" if "d \<in> set ?ds" for d
    using that fits_block [OF bs] length_block [of "bl_bytes h raw" k bs] assms(1) by (auto simp: length_bl_bytes)
  ultimately show ?thesis using bs by blast
qed

end

context optlrc_code
begin

lemma one_lost_nonempty:
  assumes "one_lost_per_group o' A"
  shows "A \<noteq> {}"
proof
  assume "A = {}"
  have "0 < n" using nums by simp
  note m = members [OF this] and g = group(1) [OF \<open>0 < n\<close>]
  have "first 0 = 0" by (simp add: group_first_def)
  with m(4,5) g have "1 < n" "1 < Suc r" by linarith+
  then have "0 \<in> {0..<opt_n o'} - A" "1 \<in> {0..<opt_n o'} - A" "(0 :: int) div (opt_r o' + 1) = 1 div (opt_r o' + 1)"
    using \<open>A = {}\<close> params by simp_all
  then have "(0 :: int) = 1" using assms unfolding one_lost_per_group_def by blast
  then show False by simp
qed

lemma idx_data_subset: "ec.idx ` {..<k} \<subseteq> {0..<opt_n o'}"
  using ec.idx_data all_chunks counts by (simp add: optlrc_codec_def)

lemma repair:
  assumes "bl_ok h raw" "0 < bl_length raw" "bl_length raw < 2 ^ 31"
    and A: "A \<subseteq> {0..<opt_n o'}" "one_lost_per_group o' A" and want: "want \<subseteq> {0..<opt_n o'}"
  shows "\<exists>h0 M0 h1 M h2 D. encode (optlrc_codec J o') {0..<opt_n o'} raw [] h = Some (h0, 0, M0) \<and>
    encode (optlrc_codec J o') A raw [] h = Some (h1, 0, M) \<and>
    decode (optlrc_codec J o') want M [] h1 = Some (h2, 0, D) \<and>
    (\<forall>c\<in>want. content h2 D c = content h0 M0 c)"
proof -
  have C: "get_chunk_count (optlrc_codec J o') = n" "get_data_chunk_count (optlrc_codec J o') = k"
    by (simp_all add: optlrc_codec_def counts)
  obtain bs where bs: "optlrc_fits o' (bl_length raw) bs" using fits_exists assms(2,3) by blast
  let ?ds = "map (block k bs (bl_bytes h raw)) [0..<k]"
  have sub: "int ` {..<n} \<inter> A = A" "int ` {..<n} \<inter> {0..<opt_n o'} = {0..<opt_n o'}"
    using A(1) all_chunks by auto
  note e = ec.encode_spec [OF assms(1) bs TrueI, unfolded C]
  obtain h0 M0 where 0: "encode (optlrc_codec J o') {0..<opt_n o'} raw [] h = Some (h0, 0, M0)"
      "holds h0 M0 {0..<opt_n o'} bs (optlrc_enc mul o' ?ds)"
    using e [of "{0..<opt_n o'}"] sub by auto
  obtain h1 M where 1: "encode (optlrc_codec J o') A raw [] h = Some (h1, 0, M)"
      "holds h1 M A bs (optlrc_enc mul o' ?ds)"
    using e [of A] sub by auto
  have "length d = bs" if "d \<in> set ?ds" for d
    using that ec.fits_size [OF bs] length_block [of "bl_bytes h raw" k bs] assms(1) C by (auto simp: length_bl_bytes)
  then obtain h2 D where "decode (optlrc_codec J o') want M [] h1 = Some (h2, 0, D)"
      "\<forall>c\<in>want. content h2 D c = optlrc_enc mul o' ?ds c"
    using ec.decode_spec [OF bs, of ?ds A h1 M want] 1(2) A(1) want one_lost_nonempty [OF A(2)]
      one_lost_recoverable [OF A(2) want] all_chunks C by auto
  with 0 1(1) want show ?thesis by (fastforce simp: holds_def)
qed

lemma round_trip:
  assumes "bl_ok h raw" "0 < bl_length raw" "bl_length raw < 2 ^ 31"
    and A: "A \<subseteq> {0..<opt_n o'}" "one_lost_per_group o' A"
  shows "\<exists>bs h1 M h2 out. optlrc_get_chunk_size o' (bl_length raw) = Some bs \<and>
    encode (optlrc_codec J o') A raw [] h = Some (h1, 0, M) \<and> set (mkeys M) = A \<and>
    decode_concat (optlrc_codec J o') M [] h1 = Some (h2, 0, out) \<and> frame {} h h2 \<and>
    bl_bytes h2 out = bl_bytes h raw @ replicate (nat (opt_k o') * bs - bl_length raw) 0"
proof -
  have C: "get_chunk_count (optlrc_codec J o') = n" "get_data_chunk_count (optlrc_codec J o') = k"
    by (simp_all add: optlrc_codec_def counts)
  obtain bs where bs: "optlrc_fits o' (bl_length raw) bs" using fits_exists assms(2,3) by blast
  have A': "A \<subseteq> int ` {..<n}" using A(1) all_chunks by simp
  have "locally_recoverable o' (ec.idx ` {..<k}) A"
    using one_lost_recoverable [OF A(2) idx_data_subset] .
  then obtain h1 M h2 out where r: "encode (optlrc_codec J o') A raw [] h = Some (h1, 0, M)"
      "decode_concat (optlrc_codec J o') M [] h1 = Some (h2, 0, out)" "frame {} h h2" "set (mkeys M) = A"
      "bl_bytes h2 out = bl_bytes h raw @ replicate (k * bs - bl_length raw) 0"
    using ec.encode_decode_concat [OF assms(1) bs, of A] A' one_lost_nonempty [OF A(2)] C TrueI by auto
  moreover have "optlrc_get_chunk_size o' (bl_length raw) = Some bs" using bs by (simp add: optlrc_fits_def)
  ultimately show ?thesis using params(2) by auto
qed

end

section \<open>Choosing the chunks to read\<close>

text \<open>The loop over the wanted lost chunks: it succeeds when they are in different groups,
  and then adds what is available of these groups.\<close>

lemma minimum_loop_ok:
  assumes "Set.filter (\<lambda>c. c sdiv g \<in> F) av \<subseteq> m" "distinct (map (\<lambda>c. c sdiv g) its)" "(\<lambda>c. c sdiv g) ` set its \<inter> F = {}"
  shows "optlrc_minimum_loop g av its F m = (0, m \<union> {c \<in> av. \<exists>e\<in>set its. c sdiv g = e sdiv g})"
  using assms
proof (induction its arbitrary: F m)
  case (Cons it its)
  let ?F = "insert (it sdiv g) F"
  let ?m = "m \<union> Set.filter (\<lambda>c. c sdiv g \<in> ?F) av"
  have "optlrc_minimum_loop g av its ?F ?m = (0, ?m \<union> {c \<in> av. \<exists>e\<in>set its. c sdiv g = e sdiv g})"
    using Cons.prems by (intro Cons.IH) auto
  moreover have "?m \<union> {c \<in> av. \<exists>e\<in>set its. c sdiv g = e sdiv g} = m \<union> {c \<in> av. \<exists>e\<in>set (it # its). c sdiv g = e sdiv g}"
    using Cons.prems(1) by auto
  ultimately show ?case using Cons.prems(3) by simp
qed auto

lemma minimum_loop_error:
  "\<not> (distinct (map (\<lambda>c. c sdiv g) its) \<and> (\<lambda>c. c sdiv g) ` set its \<inter> F = {}) \<Longrightarrow>
    fst (optlrc_minimum_loop g av its F m) = - EIO"
proof (induction its arbitrary: F m)
  case (Cons it its)
  show ?case
  proof (cases "it sdiv g \<in> F")
    case False
    with Cons.prems have "\<not> (distinct (map (\<lambda>c. c sdiv g) its) \<and> (\<lambda>c. c sdiv g) ` set its \<inter> insert (it sdiv g) F = {})"
      by auto
    from Cons.IH [OF this] False show ?thesis by (simp add: Let_def)
  qed simp
qed simp

context optlrc_repair
begin

lemma minimum_eq:
  assumes "av \<subseteq> int ` {..<n}" "want \<subseteq> int ` {..<n}"
  shows "optlrc_minimum_to_decode o' want av {} =
    (if want \<subseteq> av then Some (0, want)
     else if inj_on (\<lambda>c. c div (opt_r o' + 1)) (want - av)
     then Some (0, (want \<inter> av) \<union> {c \<in> av. \<exists>e\<in>want - av. c div (opt_r o' + 1) = e div (opt_r o' + 1)})
     else Some (- EIO, snd (optlrc_minimum_loop (opt_r o' + 1) av (sorted_list_of_set (want - av)) {} {})))"
proof -
  let ?g = "opt_r o' + 1"
  let ?lost = "filter (\<lambda>i. i \<notin> av) (map int [0..<n])"
  let ?er = "filter (\<lambda>i. i \<in> want) ?lost"
  have sets: "set ?lost = int ` {..<n} - av" "set ?er = want - av" using assms(2) by auto
  have sd: "sorted ?er" "distinct ?er" by (simp_all add: sorted_wrt_filter sorted_map distinct_map sorted_wrt_map)
  have er: "?er = sorted_list_of_set (want - av)"
    using sd sets(2) by (metis sorted_list_of_set.idem_if_sorted_distinct)
  have dv: "c sdiv ?g = c div ?g" if "c \<in> int ` {..<n}" for c
    using that r1 by (auto simp: zdiv_int simp del: of_nat_Suc)
  have inj: "distinct (map (\<lambda>c. c sdiv ?g) ?er) \<longleftrightarrow> inj_on (\<lambda>c. c div ?g) (want - av)"
  proof -
    have "inj_on (\<lambda>c. c sdiv ?g) (want - av) \<longleftrightarrow> inj_on (\<lambda>c. c div ?g) (want - av)"
      using dv assms(2) by (intro inj_on_cong) auto
    then show ?thesis using sd(2) sets(2) by (simp only: distinct_map simp_thms)
  qed
  have grp: "{c \<in> av. \<exists>e\<in>set ?er. c sdiv ?g = e sdiv ?g} = {c \<in> av. \<exists>e\<in>want - av. c div ?g = e div ?g}"
  proof -
    have "c sdiv ?g = e sdiv ?g \<longleftrightarrow> c div ?g = e div ?g" if "c \<in> av" "e \<in> want - av" for c e
    proof -
      have "c \<in> int ` {..<n}" "e \<in> int ` {..<n}" using assms that by blast+
      then show ?thesis by (simp only: dv)
    qed
    then show ?thesis unfolding sets(2) by blast
  qed
  have "?er = [] \<longleftrightarrow> want \<subseteq> av" using sets(2) by (metis Diff_eq_empty_iff set_empty)
  moreover have "({c \<in> av. \<exists>e\<in>want - av. c div ?g = e div ?g} \<union> want) - set ?lost =
      (want \<inter> av) \<union> {c \<in> av. \<exists>e\<in>want - av. c div ?g = e div ?g}"
    unfolding sets(1) using assms by auto
  moreover have "optlrc_minimum_to_decode o' want av {} =
      (if ?er = [] then Some (0, want)
       else case optlrc_minimum_loop ?g av ?er {} {} of (err, minimum) \<Rightarrow>
         if err \<noteq> 0 then Some (err, minimum) else Some (0, (minimum \<union> want) - set ?lost))"
    using nums(6) params counts(1) by (simp add: optlrc_minimum_to_decode_def Let_def)
  ultimately show ?thesis
    using minimum_loop_ok [of ?g "{}" av "{}" ?er] minimum_loop_error [of ?g ?er "{}" av "{}"] inj grp er
    by (cases "optlrc_minimum_loop ?g av ?er {} {}") auto
qed

end

context optlrc_code
begin

lemma locality:
  assumes "c \<in> {0..<opt_n o'}"
  shows "\<exists>m. optlrc_minimum_to_decode o' {c} ({0..<opt_n o'} - {c}) {} = Some (0, m) \<and> card m \<le> nat (opt_r o') \<and>
    m \<subseteq> {0..<opt_n o'} - {c} \<and> m \<noteq> {} \<and> locally_recoverable o' {c} m"
proof -
  obtain i where i: "c = int i" "i < n" using assms unfolding all_chunks [symmetric] by blast
  let ?m = "{d \<in> {0..<opt_n o'} - {c}. d div (opt_r o' + 1) = c div (opt_r o' + 1)}"
  have "optlrc_minimum_to_decode o' {c} ({0..<opt_n o'} - {c}) {} = Some (0, ?m)"
  proof -
    have "{0..<opt_n o'} - {c} \<subseteq> int ` {..<n}" "{c} \<subseteq> int ` {..<n}" unfolding all_chunks using assms by auto
    note eq = minimum_eq [OF this]
    have "{c} - ({0..<opt_n o'} - {c}) = {c}" "{c} \<inter> ({0..<opt_n o'} - {c}) = {}" "\<not> {c} \<subseteq> {0..<opt_n o'} - {c}" by auto
    then show ?thesis unfolding eq by simp
  qed
  moreover have "card ?m \<le> r"
  proof -
    have "?m \<subseteq> int ` (set [first i..<first i + gsize i] - {i})"
    proof
      fix d assume d: "d \<in> ?m"
      then obtain j where dj: "d = int j" by (auto elim: nonneg_int_cases)
      with d i params(1) have j: "d = int j" "j < n" "j \<noteq> i" "int j div int (Suc r) = int i div int (Suc r)"
        by (auto simp: r1)
      then have "j \<in> set (local_group n r (i div Suc r))"
        by (simp add: local_group_def zdiv_int [symmetric] del: of_nat_Suc)
      with j show "d \<in> int ` (set [first i..<first i + gsize i] - {i})" unfolding members(6) [OF i(2)] by blast
    qed
    then have "card ?m \<le> card (set [first i..<first i + gsize i] - {i})"
      by (meson card_image_le card_mono finite_Diff finite_imageI finite_set order_trans)
    also have "i \<in> set [first i..<first i + gsize i]" using members(2,3) [OF i(2)] by simp
    then have "card (set [first i..<first i + gsize i] - {i}) = gsize i - 1" by simp
    also have "\<dots> \<le> r" using members(4) [OF i(2)] by simp
    finally show ?thesis .
  qed
  moreover have "locally_recoverable o' {c} ?m" by (auto simp: locally_recoverable_def)
  moreover have "?m \<noteq> {}"
  proof -
    let ?j = "if c = int (first i) then first i + 1 else first i"
    have "?j < n" "int ?j \<noteq> c" "?j div Suc r = i div Suc r"
      using members(5) [OF i(2)] group(1) [OF i(2)] member_group [of 1 i] member_group [of 0 i] i by auto
    then have "int ?j \<in> ?m" using params(1) i(1) by (simp add: r1 zdiv_int [symmetric] del: of_nat_Suc)
    then show ?thesis by blast
  qed
  ultimately show ?thesis using params(3) by (intro exI [of _ ?m]) auto
qed

lemma local_read:
  assumes "bl_ok h raw" "0 < bl_length raw" "bl_length raw < 2 ^ 31" and c: "c \<in> {0..<opt_n o'}"
  shows "\<exists>m h1 M h2 D. optlrc_minimum_to_decode o' {c} ({0..<opt_n o'} - {c}) {} = Some (0, m) \<and> card m \<le> nat (opt_r o') \<and>
    c \<notin> m \<and> encode (optlrc_codec J o') {0..<opt_n o'} raw [] h = Some (h1, 0, M) \<and>
    decode (optlrc_codec J o') {c} (survivors m M) [] h1 = Some (h2, 0, D) \<and> content h2 D c = content h1 M c"
proof -
  obtain m where m: "optlrc_minimum_to_decode o' {c} ({0..<opt_n o'} - {c}) {} = Some (0, m)" "card m \<le> nat (opt_r o')"
      "m \<subseteq> {0..<opt_n o'} - {c}" "m \<noteq> {}" "locally_recoverable o' {c} m"
    using locality [OF c] by blast
  obtain bs h1 M ds where e: "optlrc_fits o' (bl_length raw) bs" "encode (optlrc_codec J o') {0..<opt_n o'} raw [] h = Some (h1, 0, M)"
      "ds = map (block k bs (bl_bytes h raw)) [0..<k]" "\<forall>d\<in>set ds. length d = bs"
      "holds h1 M {0..<opt_n o'} bs (optlrc_enc mul o' ds)"
    using encode_all [OF assms(1-3)] by blast
  have sub: "m \<subseteq> {0..<opt_n o'}" "{c} \<subseteq> {0..<opt_n o'}" using m(3) c by auto
  obtain h2 D where "decode (optlrc_codec J o') {c} (survivors m M) [] h1 = Some (h2, 0, D)"
      "content h2 D c = optlrc_enc mul o' ds c"
    using ec.decode_spec [OF e(1) _ _ _ m(4) holds_survivors [OF e(5) sub(1)], unfolded codec_fields all_chunks, of "{c}"]
      e(3,4) m(5) sub by auto
  moreover have "content h1 M c = optlrc_enc mul o' ds c" using e(5) c by (simp add: holds_def)
  ultimately show ?thesis using m(1-3) e(2) by auto
qed

end

section \<open>An example object\<close>

text \<open>The code the plugin uses when the profile names none: nine chunks, four of them data.\<close>

definition example_code :: optlrc where
  "example_code =
     \<lparr>opt_n = 9, opt_k = 4, opt_r = 2, opt_ruleset_root = ''default'',
      opt_mapping = mapping_positions ''DD_DD____'', opt_ruleset_steps = [],
      opt_chunk_mapping = mapping_positions ''DD_DD____'', opt_profile = []\<rparr>"

lemma example_wf: "optlrc_wf example_code"
  by code_simp

interpretation example: optlrc_code gf_mul ref_jerasure example_code 9 4 2 optlrc_9_4_2
proof
  show "generator_ok optlrc_9_4_2 9 4 2 (opt_mapping example_code)" by code_simp
  then show "generator_systematic optlrc_9_4_2 9 4 (opt_mapping example_code)" by (simp add: generator_ok_def)
qed (simp_all add: example_code_def configs_def config_table_def)

section \<open>Properties\<close>

text \<open>C1: an object of up to 2 GiB that is encoded, of whose chunks at most one per local
  group is then lost, is read back by \<open>decode_concat\<close> byte for byte, followed by the zero
  padding; neither call fails, and no memory that existed before is changed. The matrix and
  the mapping are those \<open>optlrc_wf\<close> admits, the jerasure functions behave as documented.\<close>

theorem optlrc_round_trip:
  assumes "jerasure_lib mul J" and "optlrc_wf o'"
    and "bl_ok h raw" "0 < bl_length raw" "bl_length raw < 2 ^ 31"
    and "A \<subseteq> {0..<opt_n o'}" "one_lost_per_group o' A"
  shows "\<exists>bs h1 M h2 out. optlrc_get_chunk_size o' (bl_length raw) = Some bs \<and>
    encode (optlrc_codec J o') A raw [] h = Some (h1, 0, M) \<and> set (mkeys M) = A \<and>
    decode_concat (optlrc_codec J o') M [] h1 = Some (h2, 0, out) \<and> frame {} h h2 \<and>
    bl_bytes h2 out = bl_bytes h raw @ replicate (nat (opt_k o') * bs - bl_length raw) 0"
proof -
  obtain n k r G where "optlrc_code mul J o' n k r G" and p: "opt_n o' = int n" "opt_k o' = int k" "opt_r o' = int r"
    using optlrc_wf_code [OF assms(1,2)] .
  from optlrc_code.round_trip [OF this(1) assms(3-7)] show ?thesis .
qed

theorem optlrc_round_trip_witness:
  "\<exists>bs h1 M h2 out. optlrc_get_chunk_size example_code 5 = Some bs \<and>
    encode (optlrc_codec ref_jerasure example_code) {1, 2, 3, 5, 6, 7} example_object [] example_heap = Some (h1, 0, M) \<and>
    set (mkeys M) = {1, 2, 3, 5, 6, 7} \<and>
    decode_concat (optlrc_codec ref_jerasure example_code) M [] h1 = Some (h2, 0, out) \<and> frame {} example_heap h2 \<and>
    bl_bytes h2 out = [20, 30, 40, 50, 60] @ replicate (4 * bs - 5) 0"
proof -
  have "{1, 2, 3, 5, 6, 7} \<subseteq> {0..<opt_n example_code}" "one_lost_per_group example_code {1, 2, 3, 5, 6, 7}"
    by code_simp+
  from optlrc_round_trip [OF ref_lib.jerasure_lib_axioms example_wf example_object_ok(1) _ _ this]
  show ?thesis by (simp add: example_object_ok example_code_def)
qed

text \<open>C2: with at most one chunk lost per local group, every chunk, lost or not, data or
  parity, is delivered by \<open>decode\<close> with the content \<open>encode\<close> gives it.\<close>

theorem optlrc_repair_correct:
  assumes "jerasure_lib mul J" and "optlrc_wf o'"
    and "bl_ok h raw" "0 < bl_length raw" "bl_length raw < 2 ^ 31"
    and "A \<subseteq> {0..<opt_n o'}" "one_lost_per_group o' A" "want \<subseteq> {0..<opt_n o'}"
  shows "\<exists>h0 M0 h1 M h2 D. encode (optlrc_codec J o') {0..<opt_n o'} raw [] h = Some (h0, 0, M0) \<and>
    encode (optlrc_codec J o') A raw [] h = Some (h1, 0, M) \<and>
    decode (optlrc_codec J o') want M [] h1 = Some (h2, 0, D) \<and>
    (\<forall>c\<in>want. content h2 D c = content h0 M0 c)"
proof -
  obtain n k r G where "optlrc_code mul J o' n k r G" using optlrc_wf_code [OF assms(1,2)] .
  from optlrc_code.repair [OF this assms(3-8)] show ?thesis .
qed

theorem optlrc_repair_correct_witness:
  "\<exists>h0 M0 h1 M h2 D. encode (optlrc_codec ref_jerasure example_code) {0..<9} example_object [] example_heap = Some (h0, 0, M0) \<and>
    encode (optlrc_codec ref_jerasure example_code) {1, 2, 3, 5, 6, 7} example_object [] example_heap = Some (h1, 0, M) \<and>
    decode (optlrc_codec ref_jerasure example_code) {0, 6, 8} M [] h1 = Some (h2, 0, D) \<and>
    (\<forall>c\<in>{0, 6, 8}. content h2 D c = content h0 M0 c)"
proof -
  have "{1, 2, 3, 5, 6, 7} \<subseteq> {0..<opt_n example_code}" "one_lost_per_group example_code {1, 2, 3, 5, 6, 7}"
    "{0, 6, 8} \<subseteq> {0..<opt_n example_code}"
    by code_simp+
  from optlrc_repair_correct [OF ref_lib.jerasure_lib_axioms example_wf example_object_ok(1) _ _ this]
  show ?thesis by (simp add: example_object_ok example_code_def)
qed

text \<open>C12: the chunks \<open>minimum_to_decode\<close> asks for, and its refusal. All wanted chunks are
  there: exactly those. Otherwise, when no two wanted lost chunks share a group: the wanted
  ones that are there and what is available of the groups of the others. When two do: \<open>-EIO\<close>.\<close>

theorem optlrc_minimum_to_decode_correct:
  assumes "optlrc_wf o'" and "want \<subseteq> {0..<opt_n o'}" and "available \<subseteq> {0..<opt_n o'}"
  shows "optlrc_minimum_to_decode o' want available {} =
    (if want \<subseteq> available then Some (0, want)
     else if inj_on (\<lambda>c. c div (opt_r o' + 1)) (want - available)
     then Some (0, (want \<inter> available) \<union>
       {c \<in> available. \<exists>e\<in>want - available. c div (opt_r o' + 1) = e div (opt_r o' + 1)})
     else Some (- EIO, snd (optlrc_minimum_loop (opt_r o' + 1) available (sorted_list_of_set (want - available)) {} {})))"
proof -
  obtain n k r G where c: "optlrc_code gf_mul ref_jerasure o' n k r G"
    using optlrc_wf_code [OF ref_lib.jerasure_lib_axioms assms(1)] .
  then have "optlrc_repair gf_mul ref_jerasure o' n k r G" by (simp add: optlrc_code_def optlrc_encoder_def)
  from optlrc_repair.minimum_eq [OF this, of available want] assms(2,3) optlrc_encoder.all_chunks [OF optlrc_code.axioms(1) [OF c]]
  show ?thesis by simp
qed

theorem optlrc_minimum_to_decode_correct_witness:
  "optlrc_minimum_to_decode example_code {0, 3} ({0..<9} - {0, 8}) {} = Some (0, {1, 2, 3}) \<and>
   fst (the (optlrc_minimum_to_decode example_code {0, 1} ({0..<9} - {0, 1}) {})) = - EIO"
proof -
  have s: "{0, 3} \<subseteq> {0..<opt_n example_code}" "{0..<9} - {0, 8} \<subseteq> {0..<opt_n example_code}"
    "{0, 1} \<subseteq> {0..<opt_n example_code}" "{0..<9} - {0, 1} \<subseteq> {0..<opt_n example_code}"
    by code_simp+
  have "(if {0, 3 :: int} \<subseteq> {0..<9} - {0, 8} then Some (0 :: int, {0, 3})
     else if inj_on (\<lambda>c. c div (opt_r example_code + 1)) ({0, 3} - ({0..<9} - {0, 8}))
     then Some (0, ({0, 3} \<inter> ({0..<9} - {0, 8})) \<union>
       {c \<in> {0..<9} - {0, 8}. \<exists>e\<in>{0, 3} - ({0..<9} - {0, 8}). c div (opt_r example_code + 1) = e div (opt_r example_code + 1)})
     else x) = Some (0, {1, 2, 3})" for x
    by code_simp
  moreover have "\<not> {0, 1} \<subseteq> {0..<9} - {0, 1 :: int}"
      "\<not> inj_on (\<lambda>c. c div (opt_r example_code + 1)) ({0, 1} - ({0..<9} - {0, 1}))"
    by code_simp+
  ultimately show ?thesis
    using optlrc_minimum_to_decode_correct [OF example_wf s(1,2)] optlrc_minimum_to_decode_correct [OF example_wf s(3,4)]
    by simp
qed

text \<open>C13: locality, the purpose of the code. One chunk of a stored object is lost: to get it
  back \<open>minimum_to_decode\<close> asks for at most \<open>r\<close> of the others, and \<open>decode\<close>, given these and
  nothing else, delivers the lost chunk as \<open>encode\<close> wrote it.\<close>

theorem optlrc_locality:
  assumes "jerasure_lib mul J" and "optlrc_wf o'"
    and "bl_ok h raw" "0 < bl_length raw" "bl_length raw < 2 ^ 31" and "c \<in> {0..<opt_n o'}"
  shows "\<exists>m h1 M h2 D. optlrc_minimum_to_decode o' {c} ({0..<opt_n o'} - {c}) {} = Some (0, m) \<and> card m \<le> nat (opt_r o') \<and>
    c \<notin> m \<and> encode (optlrc_codec J o') {0..<opt_n o'} raw [] h = Some (h1, 0, M) \<and>
    decode (optlrc_codec J o') {c} (survivors m M) [] h1 = Some (h2, 0, D) \<and> content h2 D c = content h1 M c"
proof -
  obtain n k r G where "optlrc_code mul J o' n k r G" using optlrc_wf_code [OF assms(1,2)] .
  from optlrc_code.local_read [OF this assms(3-6)] show ?thesis .
qed

theorem optlrc_locality_witness:
  "\<exists>m h1 M h2 D. optlrc_minimum_to_decode example_code {7} ({0..<9} - {7}) {} = Some (0, m) \<and> card m \<le> 2 \<and>
    7 \<notin> m \<and> encode (optlrc_codec ref_jerasure example_code) {0..<9} example_object [] example_heap = Some (h1, 0, M) \<and>
    decode (optlrc_codec ref_jerasure example_code) {7} (survivors m M) [] h1 = Some (h2, 0, D) \<and> content h2 D 7 = content h1 M 7"
proof -
  have "7 \<in> {0..<opt_n example_code}" by code_simp
  from optlrc_locality [OF ref_lib.jerasure_lib_axioms example_wf example_object_ok(1) _ _ this]
  show ?thesis by (simp add: example_object_ok example_code_def)
qed

text \<open>C20: the chunk size is the least multiple of the alignment \<open>32 * k\<close> with which the \<open>k\<close>
  data chunks hold the object: it is such a multiple, not zero, and less than one alignment
  unit above the \<open>k\<close>-th part of the object, rounded up.\<close>

theorem optlrc_get_chunk_size_bounds:
  assumes "2 \<le> opt_k o'" "opt_k o' < 16" and "0 < len" "len < 2 ^ 31"
  shows "\<exists>bs. optlrc_get_chunk_size o' len = Some bs \<and> 0 < bs \<and> bs mod optlrc_get_alignment o' = 0 \<and>
    len \<le> nat (opt_k o') * bs \<and> (len + nat (opt_k o') - 1) div nat (opt_k o') \<le> bs \<and>
    bs < (len + nat (opt_k o') - 1) div nat (opt_k o') + optlrc_get_alignment o'"
proof -
  obtain k where k: "opt_k o' = int k" "2 \<le> k" "k < 16" using assms(1,2) nonneg_int_cases [of "opt_k o'"] by auto
  have al: "u32_of_int (opt_k o') = k" "optlrc_get_alignment o' = 32 * k"
    using k by (simp_all add: optlrc_get_alignment_def u32_of_int_def)
  then obtain bs where bs: "optlrc_get_chunk_size o' len = Some bs"
    using k(2) by (simp add: optlrc_get_chunk_size_def Let_def)
  from optlrc_chunk_size [OF assms(1,2,4) bs] bs assms(3) al(2) k(1) show ?thesis by simp
qed

theorem optlrc_get_chunk_size_bounds_witness:
  "\<exists>bs. optlrc_get_chunk_size example_code 5 = Some bs \<and> 0 < bs \<and> bs mod optlrc_get_alignment example_code = 0 \<and>
    5 \<le> 4 * bs \<and> 2 \<le> bs \<and> bs < 2 + optlrc_get_alignment example_code"
  using optlrc_get_chunk_size_bounds [of example_code 5] by (simp add: example_code_def)

text \<open>C21: the error branch of \<open>decode_chunks\<close> is never taken: whatever it is given, when it
  returns it reports success.\<close>

theorem optlrc_decode_chunks_no_error:
  "map_option (\<lambda>(h', err, decoded'). err) (optlrc_decode_chunks J o' want chunks decoded h) \<in> {None, Some 0}"
proof (cases "optlrc_decode_chunks J o' want chunks decoded h")
  case (Some t)
  have one: "snd (snd (snd t)) = snd (snd (snd s)) - 1" if "optlrc_decode_one J o' bs e s = Some t" for bs e s t
    using that by (auto simp: optlrc_decode_one_def Let_def split: prod.splits bind_splits)
  have "snd (snd (snd t)) = snd (snd (snd s)) - int (length es)"
    if "ofold (optlrc_decode_one J o' bs) es s = Some t" for bs es s t
    using that by (induction es arbitrary: s) (auto dest!: one split: bind_splits)
  with Some show ?thesis
    by (fastforce simp: optlrc_decode_chunks_def Let_def split: bind_splits)
qed simp

section \<open>Where the code goes wrong\<close>

text \<open>C22: an empty object has chunk size 0, and \<open>encode\<close> then divides by it.\<close>

theorem optlrc_encode_empty_aborts:
  assumes "2 \<le> opt_k o'" "opt_k o' < 16"
  shows "optlrc_get_chunk_size o' 0 = Some 0 \<and> encode (optlrc_codec J o') want [] encoded h = None"
proof -
  obtain k where k: "opt_k o' = int k" "2 \<le> k" "k < 16" using assms nonneg_int_cases [of "opt_k o'"] by auto
  have al: "u32_of_int (opt_k o') = k" "optlrc_get_alignment o' = 32 * k"
    using k by (simp_all add: optlrc_get_alignment_def u32_of_int_def)
  then have "optlrc_get_chunk_size o' 0 = Some 0"
    using k by (simp add: optlrc_get_chunk_size_def Let_def)
  then show ?thesis by (simp add: encode_def encode_prepare_def optlrc_codec_def)
qed

theorem optlrc_encode_empty_aborts_witness:
  "optlrc_get_chunk_size example_code 0 = Some 0 \<and>
   encode (optlrc_codec ref_jerasure example_code) {0..<9} [] [] example_heap = None"
  using optlrc_encode_empty_aborts [of example_code ref_jerasure "{0..<9}" "[]" example_heap]
  by (simp add: example_code_def)

end
