(* ===== verification/OptLrc_Profile.thy ===== *)
theory OptLrc_Profile
  imports OptLrc_Theorems
begin

text \<open>
  From a profile to a working Optimal-LRC object: the constructor, \<open>parse_nkr\<close>, \<open>parse\<close>,
  \<open>parse_ruleset\<close> and \<open>init\<close> of \<open>ErasureCodeOptLrc.cc\<close>, and the factory of the plugin. Every
  operation gives the error code, the object and the profile as they are left. Signed
  overflow and division by zero have no result.
\<close>

section \<open>Operations\<close>

definition optlrc_new :: optlrc where
  "optlrc_new =
     \<lparr>opt_n = 0, opt_k = 0, opt_r = 0, opt_ruleset_root = [], opt_mapping = [],
      opt_ruleset_steps = [\<lparr>st_op = ''chooseleaf'', st_type = ''host'', st_n = 0\<rparr>],
      opt_chunk_mapping = [], opt_profile = []\<rparr>"

definition optlrc_default_steps :: "string \<Rightarrow> string \<Rightarrow> int \<Rightarrow> int \<Rightarrow> ruleset_step list \<Rightarrow> ruleset_step list" where
  "optlrc_default_steps ruleset_locality ruleset_failure_domain local_group_count r ruleset_steps =
     (if ruleset_locality \<noteq> [] then
        [\<lparr>st_op = ''choose'', st_type = ruleset_locality, st_n = local_group_count\<rparr>,
         \<lparr>st_op = ''chooseleaf'', st_type = ruleset_failure_domain, st_n = r + 1\<rparr>]
      else if ruleset_failure_domain \<noteq> [] then
        [\<lparr>st_op = ''chooseleaf'', st_type = ruleset_failure_domain, st_n = 0\<rparr>]
      else ruleset_steps)"

definition optlrc_parse_nkr :: "optlrc \<Rightarrow> profile \<Rightarrow> (int \<times> optlrc \<times> profile) option" where
  "optlrc_parse_nkr o' profile = do {
     let (err_n, profile, n) = to_int ''n'' profile ''9'';
     let (err_k, profile, k) = to_int ''k'' profile ''4'';
     let (err_r, profile, r) = to_int ''r'' profile ''2'';
     let err = err_n OR err_k OR err_r;
     let o' = o'\<lparr>opt_n := n, opt_k := k, opt_r := r\<rparr>;
     (err, o') \<leftarrow>
       (if opt_chunk_mapping o' \<noteq> [] \<and> int (length (opt_chunk_mapping o')) \<noteq> n
        then do { assert_that (mget profile ''mapping'' \<noteq> None); Some (- EINVAL, o'\<lparr>opt_chunk_mapping := []\<rparr>) }
        else Some (err, o'));
     let ruleset_locality = mref [] profile ''ruleset-locality'';
     (case mget profile ''mapping'' of
        None \<Rightarrow> Some (ERROR_LRC_MAPPING, o', profile)
      | Some mapstr \<Rightarrow> do {
          let o' = o'\<lparr>opt_mapping := opt_mapping o' @ mapping_positions mapstr\<rparr>;
          let ruleset_failure_domain = mref ''host'' profile ''ruleset-failure-domain'';
          assert_that (r < INT_MAX \<and> r + 1 \<noteq> 0 \<and> \<not> (n = INT_MIN \<and> r + 1 = - 1));
          let local_group_count = n sdiv (r + 1);
          Some (err, o'\<lparr>opt_ruleset_steps :=
            optlrc_default_steps ruleset_locality ruleset_failure_domain local_group_count r (opt_ruleset_steps o')\<rparr>,
            profile) }) }"

definition optlrc_parse_ruleset :: "spirit \<Rightarrow> optlrc \<Rightarrow> profile \<Rightarrow> (int \<times> optlrc \<times> profile) option" where
  "optlrc_parse_ruleset sp o' profile = do {
     let (err, profile, root) = to_string ''ruleset-root'' profile ''default'';
     let o' = o'\<lparr>opt_ruleset_root := root\<rparr>;
     (case mget profile ''ruleset-steps'' of
        None \<Rightarrow> Some (0, o', profile)
      | Some str \<Rightarrow> do {
          (err, steps) \<leftarrow> parse_ruleset_steps sp str;
          Some (err, o'\<lparr>opt_ruleset_steps := steps\<rparr>, profile) }) }"

definition optlrc_parse :: "spirit \<Rightarrow> optlrc \<Rightarrow> profile \<Rightarrow> (int \<times> optlrc \<times> profile) option" where
  "optlrc_parse sp o' profile = do {
     let (err, chunk_mapping) = parse_base profile (opt_chunk_mapping o');
     let o' = o'\<lparr>opt_chunk_mapping := chunk_mapping\<rparr>;
     let err = err OR sanity_check_k (opt_k o');
     if err \<noteq> 0 then Some (err, o', profile) else optlrc_parse_ruleset sp o' profile }"

definition optlrc_init :: "spirit \<Rightarrow> optlrc \<Rightarrow> profile \<Rightarrow> (int \<times> optlrc \<times> profile) option" where
  "optlrc_init sp o' profile = do {
     (err, o', profile) \<leftarrow> optlrc_parse_nkr o' profile;
     if err \<noteq> 0 then Some (err, o', profile)
     else do {
       (err, o', profile) \<leftarrow> optlrc_parse sp o' profile;
       if err \<noteq> 0 then Some (err, o', profile) else Some (0, o'\<lparr>opt_profile := profile\<rparr>, profile) } }"

definition optlrc_factory :: "spirit \<Rightarrow> profile \<Rightarrow> (int \<times> optlrc option \<times> profile) option" where
  "optlrc_factory sp profile = do {
     (r, interface, profile) \<leftarrow> optlrc_init sp optlrc_new profile;
     Some (if r \<noteq> 0 then (r, None, profile) else (0, Some interface, profile)) }"

section \<open>Profiles that are accepted\<close>

text \<open>The parameters of the code in a profile, as decimal numbers.\<close>

definition names_code :: "profile \<Rightarrow> nat \<Rightarrow> nat \<Rightarrow> nat \<Rightarrow> string \<Rightarrow> bool" where
  "names_code p n k r m \<longleftrightarrow>
     mok p \<and> mget p ''n'' = Some (stringify n) \<and> mget p ''k'' = Some (stringify k) \<and>
     mget p ''r'' = Some (stringify r) \<and> mget p ''mapping'' = Some m \<and>
     int n < INT_MAX \<and> int k < INT_MAX \<and> int r < INT_MAX"

lemma parse_nkr_named:
  assumes "names_code p n k r m" "opt_chunk_mapping o' = []"
  shows "optlrc_parse_nkr o' p = Some (0, o'\<lparr>opt_n := int n, opt_k := int k, opt_r := int r,
    opt_mapping := opt_mapping o' @ mapping_positions m,
    opt_ruleset_steps := optlrc_default_steps (mref [] p ''ruleset-locality'') (mref ''host'' p ''ruleset-failure-domain'')
      (int n sdiv (int r + 1)) (int r) (opt_ruleset_steps o')\<rparr>, p)"
proof -
  have "int n \<noteq> INT_MIN" by (simp add: INT_MIN_def)
  moreover have "to_int ''n'' p ''9'' = (0, p, int n)" "to_int ''k'' p ''4'' = (0, p, int k)" "to_int ''r'' p ''2'' = (0, p, int r)"
    using assms(1) by (simp_all add: names_code_def to_int_decimal)
  ultimately show ?thesis using assms by (simp add: optlrc_parse_nkr_def names_code_def assert_that_def Let_def)
qed

text \<open>The object a profile describes, up to the steps of the rule.\<close>

definition described :: "profile \<Rightarrow> nat \<Rightarrow> nat \<Rightarrow> nat \<Rightarrow> string \<Rightarrow> ruleset_step list \<Rightarrow> optlrc" where
  "described p n k r m steps =
     \<lparr>opt_n = int n, opt_k = int k, opt_r = int r,
      opt_ruleset_root = mref [] (with_default ''ruleset-root'' ''default'' p) ''ruleset-root'',
      opt_mapping = mapping_positions m, opt_ruleset_steps = steps, opt_chunk_mapping = mapping_positions m,
      opt_profile = with_default ''ruleset-root'' ''default'' p\<rparr>"

lemma init_named:
  assumes "names_code p n k r m" "2 \<le> k" "mget p ''ruleset-steps'' = None"
  shows "optlrc_init sp optlrc_new p =
    Some (0, described p n k r m (optlrc_default_steps (mref [] p ''ruleset-locality'')
       (mref ''host'' p ''ruleset-failure-domain'') (int n sdiv (int r + 1)) (int r) (opt_ruleset_steps optlrc_new)),
     with_default ''ruleset-root'' ''default'' p)"
  using assms
  by (simp add: optlrc_init_def parse_nkr_named [OF assms(1)] optlrc_new_def optlrc_parse_def parse_base_def to_mapping_def names_code_def
      sanity_check_k_def optlrc_parse_ruleset_def to_string_def mget_with_default described_def Let_def)

lemma init_named_steps:
  assumes "names_code p n k r m" "2 \<le> k" "mget p ''ruleset-steps'' = Some str" "parse_ruleset_steps sp str = Some (0, steps)"
  shows "optlrc_init sp optlrc_new p = Some (0, described p n k r m steps, with_default ''ruleset-root'' ''default'' p)"
  using assms
  by (simp add: optlrc_init_def parse_nkr_named [OF assms(1)] optlrc_new_def optlrc_parse_def parse_base_def to_mapping_def names_code_def
      sanity_check_k_def optlrc_parse_ruleset_def to_string_def mget_with_default described_def Let_def)

definition steps_ok :: "spirit \<Rightarrow> profile \<Rightarrow> bool" where
  "steps_ok sp p \<longleftrightarrow> (case mget p ''ruleset-steps'' of
     None \<Rightarrow> True | Some str \<Rightarrow> (case parse_ruleset_steps sp str of None \<Rightarrow> False | Some (err, _) \<Rightarrow> err = 0))"

lemma factory_named:
  assumes "names_code p n k r m" "2 \<le> k" "steps_ok sp p"
  obtains steps where
    "optlrc_factory sp p = Some (0, Some (described p n k r m steps), with_default ''ruleset-root'' ''default'' p)"
proof (cases "mget p ''ruleset-steps''")
  case None
  from init_named [OF assms(1,2) this, of sp] that show ?thesis by (simp add: optlrc_factory_def)
next
  case (Some str)
  with assms(3) obtain steps where "parse_ruleset_steps sp str = Some (0, steps)"
    by (auto simp: steps_ok_def split: option.splits prod.splits)
  from init_named_steps [OF assms(1,2) Some this] that show ?thesis by (simp add: optlrc_factory_def)
qed

lemma table_entries: "list_all (\<lambda>e. fst e \<noteq> (17, 12, 6) \<longrightarrow> table_entry_ok e) config_table"
  by code_simp

lemma table_small: "list_all (\<lambda>((n, k, r), G). n < 100 \<and> 2 \<le> k \<and> k < 100 \<and> 0 \<le> r \<and> r < 100 \<and> 0 \<le> n) config_table"
  by code_simp

lemma table_distinct: "distinct (map fst config_table)"
  by code_simp

section \<open>Whatever the profile holds\<close>

lemma to_int_err: "fst (to_int name p d) \<in> {0, - EINVAL}"
  by (auto simp: to_int_def Let_def split: sum.splits)

lemma or_einval: "a \<in> {0, - EINVAL} \<Longrightarrow> b \<in> {0, - EINVAL} \<Longrightarrow> a OR b \<in> {0, - EINVAL}"
  by auto

lemma to_int_mget: "mok p \<Longrightarrow> name \<noteq> j \<Longrightarrow> mget (fst (snd (to_int name p d))) j = mget p j"
  by (auto simp: to_int_def Let_def mget_with_default split: sum.splits)

lemma to_int_mok: "mok p \<Longrightarrow> mok (fst (snd (to_int name p d)))"
  by (auto simp: to_int_def Let_def with_default_def split: sum.splits option.splits)

text \<open>What \<open>parse_nkr\<close> leaves of a fresh object.\<close>

lemma parse_nkr_cases:
  assumes "mok p" "optlrc_parse_nkr optlrc_new p = Some (err, o', p')"
  shows "mok p' \<and> mget p' ''mapping'' = mget p ''mapping'' \<and> mget p' ''ruleset-steps'' = mget p ''ruleset-steps'' \<and>
    opt_chunk_mapping o' = [] \<and>
    (case mget p ''mapping'' of None \<Rightarrow> err = ERROR_LRC_MAPPING
     | Some m \<Rightarrow> err \<in> {0, - EINVAL} \<and> opt_mapping o' = mapping_positions m \<and> opt_r o' \<noteq> - 1)"
proof -
  obtain en p1 n where 1: "to_int ''n'' p ''9'' = (en, p1, n)" by (metis surj_pair)
  obtain ek p2 k where 2: "to_int ''k'' p1 ''4'' = (ek, p2, k)" by (metis surj_pair)
  obtain er p3 r where 3: "to_int ''r'' p2 ''2'' = (er, p3, r)" by (metis surj_pair)
  have ok: "mok p1" "mok p2" "mok p3"
    using to_int_mok assms(1) 1 2 3 by (metis fst_conv snd_conv)+
  have m: "mget p3 j = mget p j" if "j \<noteq> ''n''" "j \<noteq> ''k''" "j \<noteq> ''r''" for j
    using to_int_mget [of p "''n''" j "''9''"] to_int_mget [of p1 "''k''" j "''4''"]
      to_int_mget [of p2 "''r''" j "''2''"] that ok assms(1) 1 2 3 by simp
  have e: "en OR ek OR er \<in> {0, - EINVAL}"
    using to_int_err [of "''n''" p "''9''"] to_int_err [of "''k''" p1 "''4''"] to_int_err [of "''r''" p2 "''2''"] 1 2 3
    by (intro or_einval) auto
  define E where "E = en OR ek OR er"
  have m': "mget p3 ''mapping'' = mget p ''mapping''" "mget p3 ''ruleset-steps'' = mget p ''ruleset-steps''"
    by (intro m; simp)+
  show ?thesis
  proof (cases "mget p ''mapping''")
    case None
    with assms(2) ok(3) m' show ?thesis
      by (auto simp: optlrc_parse_nkr_def 1 2 3 optlrc_new_def Let_def)
  next
    case (Some str)
    with assms(2) ok(3) m' e [folded E_def] show ?thesis
      by (auto simp: optlrc_parse_nkr_def 1 2 3 optlrc_new_def Let_def E_def [symmetric])
  qed
qed

lemma step_elements_err:
  "step_elements i vs st = Some (err, st') \<Longrightarrow>
     err \<in> {0, ERROR_LRC_RULESET_OP, ERROR_LRC_RULESET_TYPE, ERROR_LRC_RULESET_N}"
proof (induction i vs st arbitrary: err st' rule: step_elements.induct)
  case (2 i v vs st)
  then show ?case by (cases v) (auto simp: get_str_def get_int_def get_int64_def split: if_splits)
qed simp

lemma parse_ruleset_loop_err:
  "parse_ruleset_loop vs steps = Some (err, steps') \<Longrightarrow>
     err \<in> {0, ERROR_LRC_ARRAY, ERROR_LRC_RULESET_OP, ERROR_LRC_RULESET_TYPE, ERROR_LRC_RULESET_N}"
proof (induction vs arbitrary: steps)
  case (Cons v vs)
  show ?case
  proof (cases v)
    case (JArr arr)
    obtain e st where e: "step_elements 0 arr \<lparr>st_op = [], st_type = [], st_n = 0\<rparr> = Some (e, st)"
      using step_elements_total by (metis surj_pair)
    with JArr Cons step_elements_err [OF e] show ?thesis
      by (auto simp: get_array_def parse_ruleset_step_def split: if_splits)
  qed (use Cons in auto)
qed simp

lemma parse_ruleset_steps_err:
  assumes "parse_ruleset_steps sp str = Some (err, steps)"
  shows "err \<in> {0, ERROR_LRC_ARRAY, ERROR_LRC_PARSE_JSON, ERROR_LRC_RULESET_OP, ERROR_LRC_RULESET_TYPE, ERROR_LRC_RULESET_N}"
proof -
  obtain res where "read_or_throw sp str = Some res" using assms by (auto simp: parse_ruleset_steps_def bind_eq_Some_conv)
  with assms parse_ruleset_loop_err show ?thesis
    by (cases res) (fastforce simp: parse_ruleset_steps_def bind_eq_Some_conv split: if_splits)+
qed

lemma factory_creates:
  assumes "((int n, int k, int r), G) \<in> set config_table" "(n, k, r) \<noteq> (17, 12, 6)"
    "names_code p n k r (unit_mapping G)" "steps_ok sp p"
  shows "\<exists>o' p'. optlrc_factory sp p = Some (0, Some o', p') \<and> optlrc_wf o' \<and> opt_profile o' = p' \<and>
    opt_n o' = int n \<and> opt_k o' = int k \<and> opt_r o' = int r"
proof -
  have "configs (int n) (int k) (int r) = Some G"
    using assms(1) table_distinct by (simp add: configs_def)
  moreover have "generator_ok G n k r (mapping_positions (unit_mapping G))"
    using table_entries assms(1,2) by (fastforce simp: list_all_iff table_entry_ok_def)
  ultimately have "optlrc_wf (described p n k r (unit_mapping G) steps)" for steps
    by (simp add: optlrc_wf_def described_def)
  moreover have "2 \<le> k" using table_small assms(1) by (fastforce simp: list_all_iff)
  ultimately show ?thesis
    using factory_named [OF assms(3) _ assms(4)] by (metis described_def optlrc.simps(1-3,8))
qed

section \<open>Properties\<close>

text \<open>C26: for every code of the table but the one for 17 chunks, a profile that names it with the
  mapping of its matrix makes the factory return an object that is well formed, so that the
  round trip, repair and locality hold for it.\<close>

theorem optlrc_factory_supported:
  assumes "((int n, int k, int r), G) \<in> set config_table" "(n, k, r) \<noteq> (17, 12, 6)"
    "names_code p n k r (unit_mapping G)" "steps_ok sp p"
  shows "\<exists>o' p'. optlrc_factory sp p = Some (0, Some o', p') \<and> optlrc_wf o' \<and>
    opt_n o' = int n \<and> opt_k o' = int k \<and> opt_r o' = int r"
  using factory_creates [OF assms] by blast

definition example_profile :: profile where
  "example_profile = [(''k'', stringify 4), (''mapping'', unit_mapping optlrc_9_4_2), (''n'', stringify 9), (''r'', stringify 2)]"

theorem optlrc_factory_supported_witness:
  "\<exists>o' p'. optlrc_factory ref_spirit example_profile = Some (0, Some o', p') \<and> optlrc_wf o' \<and>
    opt_n o' = 9 \<and> opt_k o' = 4 \<and> opt_r o' = 2"
proof -
  have "names_code example_profile 9 4 2 (unit_mapping optlrc_9_4_2)"
    by (simp add: names_code_def example_profile_def mok_def mget_def INT_MAX_def)
  moreover have "steps_ok ref_spirit example_profile" by (simp add: steps_ok_def example_profile_def mget_def)
  moreover have "((int 9, int 4, int 2), optlrc_9_4_2) \<in> set config_table" by (simp add: config_table_def)
  ultimately show ?thesis using optlrc_factory_supported [of 9 4 2 optlrc_9_4_2 example_profile ref_spirit] by simp
qed


text \<open>C27: when the factory returns, it returns an object exactly if the code is 0; otherwise
  the code is one of those the headers name: the mapping is missing, a number is malformed or \<open>k\<close> is
  below 2, or the text of \<open>ruleset-steps\<close> is not an array of steps. An object that is returned has at
  least two data chunks, the two copies of the mapping agree and it keeps the profile.\<close>

theorem optlrc_factory_result:
  assumes "mok p" "optlrc_factory sp p = Some (err, res, p')"
  shows "err \<in> {0, - EINVAL, ERROR_LRC_MAPPING, ERROR_LRC_ARRAY, ERROR_LRC_PARSE_JSON,
      ERROR_LRC_RULESET_OP, ERROR_LRC_RULESET_TYPE, ERROR_LRC_RULESET_N} \<and>
    (case res of
       None \<Rightarrow> err \<noteq> 0
     | Some o' \<Rightarrow> err = 0 \<and> 2 \<le> opt_k o' \<and> opt_r o' \<noteq> - 1 \<and> opt_profile o' = p' \<and>
         opt_chunk_mapping o' = opt_mapping o' \<and> mget p ''mapping'' \<noteq> None)"
proof -
  obtain e1 o1 p1 where 1: "optlrc_parse_nkr optlrc_new p = Some (e1, o1, p1)"
    using assms(2) by (auto simp: optlrc_factory_def optlrc_init_def bind_eq_Some_conv)
  note c = parse_nkr_cases [OF assms(1) 1]
  show ?thesis
  proof (cases "e1 = 0")
    case False
    with assms(2) 1 c show ?thesis
      by (auto simp: optlrc_factory_def optlrc_init_def split: option.splits)
  next
    case True
    with c obtain m where m: "mget p ''mapping'' = Some m" by (cases "mget p ''mapping''") auto
    obtain e2 o2 p2 where 2: "optlrc_parse sp o1 p1 = Some (e2, o2, p2)"
      using assms(2) 1 True by (auto simp: optlrc_factory_def optlrc_init_def bind_eq_Some_conv)
    have "e2 \<in> {0, - EINVAL, ERROR_LRC_ARRAY, ERROR_LRC_PARSE_JSON,
        ERROR_LRC_RULESET_OP, ERROR_LRC_RULESET_TYPE, ERROR_LRC_RULESET_N} \<and>
      (e2 = 0 \<longrightarrow> 2 \<le> opt_k o2 \<and> opt_r o2 \<noteq> - 1 \<and> opt_chunk_mapping o2 = opt_mapping o2)"
      using 2 c m parse_ruleset_steps_err
      by (fastforce simp: optlrc_parse_def parse_base_def to_mapping_def sanity_check_k_def optlrc_parse_ruleset_def
          to_string_def Let_def bind_eq_Some_conv split: if_splits option.splits)
    with assms(2) 1 2 True m show ?thesis
      by (auto simp: optlrc_factory_def optlrc_init_def)
  qed
qed

theorem optlrc_factory_result_witness:
  "\<exists>o' p'. optlrc_factory ref_spirit example_profile = Some (0, Some o', p') \<and> 2 \<le> opt_k o'"
proof -
  have n: "names_code example_profile 9 4 2 (unit_mapping optlrc_9_4_2)"
    by (simp add: names_code_def example_profile_def mok_def mget_def INT_MAX_def)
  have "steps_ok ref_spirit example_profile" by (simp add: steps_ok_def example_profile_def mget_def)
  from this obtain steps where f: "optlrc_factory ref_spirit example_profile =
      Some (0, Some (described example_profile 9 4 2 (unit_mapping optlrc_9_4_2) steps),
        with_default ''ruleset-root'' ''default'' example_profile)"
    using factory_named [OF n, where sp = ref_spirit] by auto
  moreover have "mok example_profile" using n by (simp add: names_code_def)
  ultimately show ?thesis using optlrc_factory_result [of example_profile ref_spirit] by fastforce
qed

text \<open>C28: the parameters are not compared with the table. A profile that names a code that is
  not in it is accepted, and the first encoding then follows a pointer nobody set.\<close>

theorem optlrc_unsupported_accepted:
  assumes "names_code p n k r m" "2 \<le> k" "steps_ok sp p" "configs (int n) (int k) (int r) = None"
  shows "\<exists>o' p'. optlrc_factory sp p = Some (0, Some o', p') \<and>
    (\<forall>J data coding blocksize h. optlrc_encode J o' data coding blocksize h = None)"
proof -
  from factory_named [OF assms(1-3)] obtain steps where
    "optlrc_factory sp p = Some (0, Some (described p n k r m steps), with_default ''ruleset-root'' ''default'' p)" .
  moreover have "optlrc_encode J (described p n k r m steps) data coding blocksize h = None" for J data coding blocksize h
    using assms(4) by (simp add: optlrc_encode_def described_def Let_def)
  ultimately show ?thesis by blast
qed

definition unsupported_profile :: profile where
  "unsupported_profile = [(''k'', stringify 3), (''mapping'', ''DDD__''), (''n'', stringify 5), (''r'', stringify 1)]"

theorem optlrc_unsupported_accepted_witness:
  "\<exists>o' p'. optlrc_factory ref_spirit unsupported_profile = Some (0, Some o', p') \<and>
    (\<forall>J data coding blocksize h. optlrc_encode J o' data coding blocksize h = None)"
  by (rule optlrc_unsupported_accepted [of _ 5 3 1 "''DDD__''"])
    (simp_all add: names_code_def unsupported_profile_def mok_def mget_def INT_MAX_def steps_ok_def configs_def config_table_def)

text \<open>C29: a mapping whose length is not the number of chunks is accepted: the test in
  \<open>parse_nkr\<close> looks at a list that is still empty.\<close>

theorem optlrc_mapping_size_accepted:
  assumes "names_code p n k r m" "2 \<le> k" "steps_ok sp p" "length m \<noteq> n"
  shows "\<exists>o' p'. optlrc_factory sp p = Some (0, Some o', p') \<and> int (length (opt_mapping o')) \<noteq> opt_n o'"
proof -
  have "length (mapping_positions m) = length m"
    using sum_length_filter_compl [of "\<lambda>i. m ! i = CHR ''D''" "[0..<length m]"] by (simp add: mapping_positions_def)
  with assms(4) have "int (length (opt_mapping (described p n k r m steps))) \<noteq> opt_n (described p n k r m steps)" for steps
    by (simp add: described_def)
  with factory_named [OF assms(1-3)] show ?thesis by metis
qed

theorem optlrc_mapping_size_accepted_witness:
  "\<exists>o' p'. optlrc_factory ref_spirit [(''k'', stringify 4), (''mapping'', ''DD''), (''n'', stringify 9), (''r'', stringify 2)] =
     Some (0, Some o', p') \<and> int (length (opt_mapping o')) \<noteq> opt_n o'"
  by (rule optlrc_mapping_size_accepted [of _ 9 4 2 "''DD''"])
    (simp_all add: names_code_def mok_def mget_def INT_MAX_def steps_ok_def)

text \<open>C30: the locality -1 makes \<open>parse_nkr\<close> divide by zero.\<close>

theorem optlrc_locality_minus_one:
  assumes "mok p" "mget p ''r'' = Some ''-1''" "mget p ''mapping'' \<noteq> None"
  shows "optlrc_factory sp p = None"
proof (rule ccontr)
  assume "optlrc_factory sp p \<noteq> None"
  then obtain e1 o1 p1 where 1: "optlrc_parse_nkr optlrc_new p = Some (e1, o1, p1)"
    by (auto simp: optlrc_factory_def optlrc_init_def bind_eq_None_conv)
  have "strict_strtol ''-1'' = Inr (- 1)" by code_simp
  then have r: "to_int ''r'' q ''2'' = (0, q, - 1)" if "mget q ''r'' = Some ''-1''" for q
    using that by (simp add: to_int_def with_default_def str_c_str_def)
  obtain en q1 n where n: "to_int ''n'' p ''9'' = (en, q1, n)" by (metis surj_pair)
  obtain ek q2 k where k: "to_int ''k'' q1 ''4'' = (ek, q2, k)" by (metis surj_pair)
  have "mget q2 j = mget p j" if "j \<noteq> ''n''" "j \<noteq> ''k''" for j
    using to_int_mget [of p "''n''" j "''9''"] to_int_mget [of q1 "''k''" j "''4''"] to_int_mok [of p "''n''" "''9''"]
      that assms(1) n k by simp
  from this [of "''r''"] this [of "''mapping''"] assms(2,3) 1 r [of q2] show False
    by (auto simp: optlrc_parse_nkr_def n k optlrc_new_def Let_def split: option.splits)
qed

theorem optlrc_locality_minus_one_witness:
  "optlrc_factory ref_spirit [(''mapping'', ''DD_DD____''), (''r'', ''-1'')] = None"
  by (rule optlrc_locality_minus_one) (simp_all add: mok_def mget_def)

end
