(* ===== verification/Str_List.thy ===== *)
theory Str_List
  imports EC_Prelude
begin

text \<open>
  Lists of names in one string, \<open>src/src/common/str_list.cc\<close>. Positions that the source keeps
  in an \<open>int\<close> are natural numbers or \<open>None\<close> for \<open>npos\<close>: strings are shorter than 2 GiB. The
  three containers are filled by the same loop.
\<close>

section \<open>Operations\<close>

definition find_from :: "(char \<Rightarrow> bool) \<Rightarrow> string \<Rightarrow> nat \<Rightarrow> nat option" where
  "find_from P s pos =
     (let i = pos + length (takeWhile (\<lambda>c. \<not> P c) (drop pos s)) in if i < length s then Some i else None)"

definition find_first_of :: "string \<Rightarrow> string \<Rightarrow> nat \<Rightarrow> nat option" where
  "find_first_of s delims pos = find_from (\<lambda>c. c \<in> set delims) s pos"

definition find_first_not_of :: "string \<Rightarrow> string \<Rightarrow> nat \<Rightarrow> nat option" where
  "find_first_not_of s delims pos = find_from (\<lambda>c. c \<notin> set delims) s pos"

definition substr :: "string \<Rightarrow> nat \<Rightarrow> nat \<Rightarrow> string" where
  "substr s pos len = take len (drop pos s)"

definition get_next_token :: "string \<Rightarrow> nat \<Rightarrow> string \<Rightarrow> nat \<times> string option" where
  "get_next_token s pos delims =
     (case find_first_not_of s delims pos of
        None \<Rightarrow> (length s, None)
      | Some start \<Rightarrow>
          (case find_first_of s delims start of
             Some e \<Rightarrow> (e + 1, Some (substr s start (e - start)))
           | None \<Rightarrow> (length s, Some (substr s start (length s - start)))))"

lemma find_from_bounds: "find_from P s pos = Some i \<Longrightarrow> pos \<le> i \<and> i < length s"
  by (auto simp: find_from_def Let_def split: if_splits)

lemma get_next_token_forward:
  assumes "pos < length s" "get_next_token s pos delims = (pos', tok)"
  shows "pos < pos' \<and> pos' \<le> length s"
  using assms
  by (auto simp: get_next_token_def find_first_of_def find_first_not_of_def split: option.splits
      dest!: find_from_bounds)

function str_list_loop :: "string \<Rightarrow> string \<Rightarrow> nat \<Rightarrow> string list \<Rightarrow> string list" where
  "str_list_loop str delims pos str_list =
     (if pos < length str then
        (case get_next_token str pos delims of
           (pos, Some token) \<Rightarrow>
             str_list_loop str delims pos (if length token > 0 then str_list @ [token] else str_list)
         | (pos, None) \<Rightarrow> str_list_loop str delims pos str_list)
      else str_list)"
  by pat_completeness auto
termination
  by (relation "measure (\<lambda>(str, delims, pos, acc). length str - pos)")
    (auto dest!: get_next_token_forward [OF _ sym])

declare str_list_loop.simps [simp del]

definition get_str_list_delims :: "string \<Rightarrow> string \<Rightarrow> string list" where
  "get_str_list_delims str delims = str_list_loop str delims 0 []"

definition default_delims :: string where
  "default_delims = '';,= '' @ [CHR 0x09]"

definition get_str_list :: "string \<Rightarrow> string list" where
  "get_str_list str = get_str_list_delims str default_delims"

definition get_str_vec_delims :: "string \<Rightarrow> string \<Rightarrow> string list" where
  "get_str_vec_delims str delims = str_list_loop str delims 0 []"

definition get_str_vec :: "string \<Rightarrow> string list" where
  "get_str_vec str = get_str_vec_delims str default_delims"

definition get_str_set_delims :: "string \<Rightarrow> string \<Rightarrow> string set" where
  "get_str_set_delims str delims = set (str_list_loop str delims 0 [])"

definition get_str_set :: "string \<Rightarrow> string set" where
  "get_str_set str = get_str_set_delims str default_delims"

section \<open>What the loop computes\<close>

text \<open>The maximal pieces without a delimiter.\<close>

function tokens :: "(char \<Rightarrow> bool) \<Rightarrow> string \<Rightarrow> string list" where
  "tokens d s =
     (let t = dropWhile d s in
      if t = [] then [] else takeWhile (\<lambda>c. \<not> d c) t # tokens d (dropWhile (\<lambda>c. \<not> d c) t))"
  by pat_completeness auto

lemma length_dropWhile_step:
  assumes "dropWhile d s \<noteq> []"
  shows "length (dropWhile (\<lambda>c. \<not> d c) (dropWhile d s)) < length s"
proof -
  obtain c u where t: "dropWhile d s = c # u" using assms by (cases "dropWhile d s") auto
  then have "\<not> d c" using hd_dropWhile [of d s] by simp
  with t have "length (dropWhile (\<lambda>c. \<not> d c) (dropWhile d s)) \<le> length u" by (simp add: length_dropWhile_le)
  also have "length u < length (dropWhile d s)" using t by simp
  also have "\<dots> \<le> length s" by (rule length_dropWhile_le)
  finally show ?thesis .
qed

termination tokens
  by (relation "measure (\<lambda>(d, s). length s)") (auto simp: length_dropWhile_step)

declare tokens.simps [simp del]

lemma drop_find: "drop (pos + length (takeWhile P (drop pos s))) s = dropWhile P (drop pos s)"
  by (metis add.commute drop_drop dropWhile_eq_drop)

lemma find_from_drop:
  "find_from P s pos =
     (if dropWhile (\<lambda>c. \<not> P c) (drop pos s) = [] then None
      else Some (pos + length (takeWhile (\<lambda>c. \<not> P c) (drop pos s))))"
proof -
  let ?i = "pos + length (takeWhile (\<lambda>c. \<not> P c) (drop pos s))"
  have "?i < length s \<longleftrightarrow> drop ?i s \<noteq> []" by auto
  then show ?thesis by (auto simp: find_from_def drop_find Let_def)
qed

lemma tokens_skip: "tokens d (dropWhile d s) = tokens d s"
proof -
  have "dropWhile d (dropWhile d s) = dropWhile d s" by simp
  then show ?thesis by (subst (1 2) tokens.simps) simp
qed

lemma tokens_Nil: "tokens d [] = []"
  by (subst tokens.simps) simp

lemma tokens_delim: "d c \<Longrightarrow> tokens d (c # s) = tokens d s"
  by (subst (1 2) tokens.simps) simp

lemma next_token_tokens:
  assumes "get_next_token s pos delims = (pos', tok)"
  shows "tokens (\<lambda>c. c \<in> set delims) (drop pos s) =
    (case tok of None \<Rightarrow> [] | Some t \<Rightarrow> [t]) @ tokens (\<lambda>c. c \<in> set delims) (drop pos' s) \<and> (\<forall>t. tok = Some t \<longrightarrow> t \<noteq> [])"
proof -
  let ?d = "\<lambda>c. c \<in> set delims"
  define t where "t = dropWhile ?d (drop pos s)"
  define start where "start = pos + length (takeWhile ?d (drop pos s))"
  have st: "drop start s = t" by (simp add: start_def t_def drop_find)
  show ?thesis
  proof (cases "t = []")
    case True
    then have "tokens ?d (drop pos s) = []" using t_def by (subst tokens.simps) simp
    with True assms show ?thesis
      by (auto simp: get_next_token_def find_first_not_of_def find_from_drop t_def tokens_Nil)
  next
    case False
    then obtain c u where c: "t = c # u" "\<not> ?d c" using hd_dropWhile [of ?d "drop pos s"] by (cases t) (auto simp: t_def)
    have fn: "find_first_not_of s delims pos = Some start"
      using False by (simp add: find_first_not_of_def find_from_drop t_def start_def)
    let ?w = "takeWhile (\<lambda>c. \<not> ?d c) t" and ?r = "dropWhile (\<lambda>c. \<not> ?d c) t"
    have tk: "tokens ?d (drop pos s) = ?w # tokens ?d ?r"
      using False by (subst tokens.simps) (simp add: t_def Let_def)
    have w: "?w \<noteq> []" using c by simp
    show ?thesis
    proof (cases "?r = []")
      case True
      then have wt: "?w = t" by (metis append_Nil2 takeWhile_dropWhile_id)
      have "tokens ?d (drop pos s) = [t]" unfolding tk wt True tokens_Nil ..
      moreover have "pos' = length s" "tok = Some t"
        using True assms fn st by (auto simp: get_next_token_def find_first_of_def find_from_drop substr_def)
      ultimately show ?thesis using c by (simp add: tokens_Nil)
    next
      case False
      let ?e = "start + length ?w"
      have e: "find_first_of s delims start = Some ?e" using False st by (simp add: find_first_of_def find_from_drop)
      have r: "drop ?e s = ?r" using st drop_find [of start "\<lambda>c. \<not> ?d c" s] by simp
      obtain c' r' where c': "?r = c' # r'" "?d c'"
        using False hd_dropWhile [of "\<lambda>c. \<not> ?d c" t] by (cases ?r) auto
      have "drop (Suc ?e) s = tl (drop ?e s)" by (simp only: drop_Suc tl_drop)
      then have "drop (Suc ?e) s = r'" unfolding r c'(1) by simp
      then have "tokens ?d (drop (Suc ?e) s) = tokens ?d ?r"
        unfolding c'(1) using tokens_delim [of ?d c' r'] c'(2) by simp
      moreover have "take (length ?w) (drop start s) = ?w" unfolding st by (rule takeWhile_eq_take [symmetric])
      ultimately show ?thesis using assms fn e tk w by (auto simp: get_next_token_def substr_def)
    qed
  qed
qed

lemma str_list_loop_tokens:
  "str_list_loop str delims pos acc = acc @ tokens (\<lambda>c. c \<in> set delims) (drop pos str)"
proof (induction str delims pos acc rule: str_list_loop.induct)
  case (1 str delims pos acc)
  show ?case
  proof (cases "pos < length str")
    case True
    obtain pos' tok where n: "get_next_token str pos delims = (pos', tok)" by fastforce
    note t = next_token_tokens [OF n]
    show ?thesis
    proof (cases tok)
      case None
      with 1(1) [OF True n [symmetric] None] t True n show ?thesis by (subst str_list_loop.simps) simp
    next
      case (Some w)
      with 1(2) [OF True n [symmetric] Some] t True n show ?thesis by (subst str_list_loop.simps) simp
    qed
  qed (subst str_list_loop.simps, simp add: tokens_Nil)
qed

lemma tokens_word:
  assumes "w \<noteq> []" "\<forall>c\<in>set w. \<not> d c" "s = [] \<or> d (hd s)"
  shows "tokens d (w @ s) = w # tokens d s"
proof -
  have "dropWhile d (w @ s) = w @ s" using assms by (cases w) auto
  moreover have "takeWhile (\<lambda>c. \<not> d c) (w @ s) = w" "dropWhile (\<lambda>c. \<not> d c) (w @ s) = s"
    using assms by (cases s; auto simp: takeWhile_append dropWhile_append)+
  ultimately show ?thesis using assms by (subst tokens.simps) simp
qed

fun join :: "string \<Rightarrow> string list \<Rightarrow> string" where
  "join sep [] = []"
| "join sep [w] = w"
| "join sep (w # v # ws) = w @ sep @ join sep (v # ws)"

lemma tokens_join:
  assumes "\<forall>w\<in>set ws. w \<noteq> [] \<and> (\<forall>c\<in>set w. \<not> d c)" "sep \<noteq> []" "\<forall>c\<in>set sep. d c"
  shows "tokens d (join sep ws) = ws"
  using assms
proof (induction sep ws rule: join.induct)
  case (2 sep w)
  then show ?case using tokens_word [of w d "[]"] by (simp add: tokens_Nil)
next
  case (3 sep w v ws)
  have "dropWhile d (sep @ join sep (v # ws)) = dropWhile d (join sep (v # ws))" using 3 by (simp add: dropWhile_append)
  then have "tokens d (sep @ join sep (v # ws)) = tokens d (join sep (v # ws))" by (metis tokens_skip)
  with 3 tokens_word [of w d "sep @ join sep (v # ws)"] show ?case by (cases sep) auto
qed (simp add: tokens_Nil)

section \<open>Properties\<close>

text \<open>The loop over positions, which the three containers share, computes the maximal
  pieces of the string without a delimiter, in order.\<close>

theorem get_str_list_tokens:
  "get_str_list_delims str delims = tokens (\<lambda>c. c \<in> set delims) str \<and>
   get_str_vec_delims str delims = get_str_list_delims str delims \<and>
   get_str_set_delims str delims = set (get_str_list_delims str delims)"
  by (simp add: get_str_list_delims_def get_str_vec_delims_def get_str_set_delims_def str_list_loop_tokens)

lemma get_str_list_joined:
  assumes "\<forall>w\<in>set ws. w \<noteq> [] \<and> set w \<inter> set default_delims = {}" "sep \<noteq> []" "set sep \<subseteq> set default_delims"
  shows "get_str_list (join sep ws) = ws"
  using assms tokens_join [of ws "\<lambda>c. c \<in> set default_delims" sep]
  by (auto simp: get_str_list_def get_str_list_delims_def str_list_loop_tokens)

end
