(* ===== verification/Plugin_Registry.thy ===== *)
theory Plugin_Registry
  imports ErasureCode Str_List
begin

text \<open>
  The registry of erasure code plugins, \<open>src/src/erasure-code/ErasureCodePlugin.cc\<close>: the map
  from names to plugins, loading a plugin from a shared library and creating a code with
  it. The dynamic linker is the argument \<open>dl\<close>, which says what a file holds when it can be
  opened; the registry counts how often each library is open. A library's handle is the
  name of its file. Closing a null handle and using a lock that is held already have no
  result. The operations the linked code calls back (\<open>add\<close>) work on the same registry.
\<close>

section \<open>State\<close>

record plugin =
  pl_library :: "string option"
  pl_factory :: "string \<Rightarrow> profile \<Rightarrow> (int \<times> codec option \<times> profile) option"

record registry =
  locked :: bool
  loading :: bool
  disable_dlclose :: bool
  plugins :: "(string, plugin) omap"
  opened :: "string \<Rightarrow> nat"

text \<open>The two symbols \<open>load\<close> looks up in a library.\<close>

record library =
  lib_version :: "string option"
  lib_init :: "(string \<Rightarrow> string \<Rightarrow> registry \<Rightarrow> (int \<times> registry) option) option"

type_synonym linker = "string \<Rightarrow> library option"

section \<open>Operations\<close>

definition registry_new :: registry where
  "registry_new = \<lparr>locked = False, loading = False, disable_dlclose = False, plugins = [], opened = (\<lambda>_. 0)\<rparr>"

definition dlopen_count :: "string \<Rightarrow> registry \<Rightarrow> registry" where
  "dlopen_count lib reg = reg\<lparr>opened := (opened reg)(lib := opened reg lib + 1)\<rparr>"

definition dlclose :: "string \<Rightarrow> registry \<Rightarrow> registry" where
  "dlclose lib reg = reg\<lparr>opened := (opened reg)(lib := opened reg lib - 1)\<rparr>"

fun registry_close_all :: "(string \<times> plugin) list \<Rightarrow> registry \<Rightarrow> registry option" where
  "registry_close_all [] reg = Some reg"
| "registry_close_all ((name, p) # ps) reg = do {
     library \<leftarrow> pl_library p;
     registry_close_all ps (dlclose library reg) }"

definition registry_destroy :: "registry \<Rightarrow> registry option" where
  "registry_destroy reg =
     (if disable_dlclose reg then Some reg else registry_close_all (plugins reg) reg)"

definition registry_remove :: "string \<Rightarrow> registry \<Rightarrow> (int \<times> registry) option" where
  "registry_remove name reg = do {
     assert_that (locked reg);
     (case mget (plugins reg) name of
        None \<Rightarrow> Some (- ENOENT, reg)
      | Some p \<Rightarrow> do {
          library \<leftarrow> pl_library p;
          let reg = dlclose library reg;
          Some (0, reg\<lparr>plugins := mdel name (plugins reg)\<rparr>) }) }"

definition registry_add :: "string \<Rightarrow> plugin \<Rightarrow> registry \<Rightarrow> (int \<times> registry) option" where
  "registry_add name p reg = do {
     assert_that (locked reg);
     Some (if mget (plugins reg) name \<noteq> None then (- EEXIST, reg)
           else (0, reg\<lparr>plugins := mput name p (plugins reg)\<rparr>)) }"

definition registry_get :: "string \<Rightarrow> registry \<Rightarrow> plugin option option" where
  "registry_get name reg = do { assert_that (locked reg); Some (mget (plugins reg) name) }"

definition an_older_version :: string where
  "an_older_version = ''an older version''"

definition plugin_file :: "string \<Rightarrow> string \<Rightarrow> string" where
  "plugin_file directory plugin_name = directory @ ''/libec_'' @ plugin_name @ ''.so''"

definition registry_load ::
    "linker \<Rightarrow> string \<Rightarrow> string \<Rightarrow> string \<Rightarrow> registry \<Rightarrow> (int \<times> plugin option \<times> registry) option" where
  "registry_load dl CEPH_GIT_NICE_VER plugin_name directory reg = do {
     assert_that (locked reg);
     let fname = plugin_file directory plugin_name;
     (case dl fname of
        None \<Rightarrow> Some (- EIO, None, reg)
      | Some lib \<Rightarrow> do {
          let reg = dlopen_count fname reg;
          let version = (case lib_version lib of None \<Rightarrow> an_older_version | Some v \<Rightarrow> v);
          if version \<noteq> CEPH_GIT_NICE_VER then Some (- EXDEV, None, dlclose fname reg)
          else (case lib_init lib of
             None \<Rightarrow> Some (- ENOENT, None, dlclose fname reg)
           | Some erasure_code_init \<Rightarrow> do {
               (r, reg) \<leftarrow> erasure_code_init plugin_name directory reg;
               if r \<noteq> 0 then Some (r, None, dlclose fname reg)
               else do {
                 found \<leftarrow> registry_get plugin_name reg;
                 (case found of
                    None \<Rightarrow> Some (- EBADF, None, dlclose fname reg)
                  | Some p \<Rightarrow> do {
                      let p = p\<lparr>pl_library := Some fname\<rparr>;
                      Some (0, Some p, reg\<lparr>plugins := mput plugin_name p (plugins reg)\<rparr>) }) } }) }) }"

text \<open>The part of \<open>factory\<close> under the lock: the plugin, loaded if need be.\<close>

definition registry_lookup ::
    "linker \<Rightarrow> string \<Rightarrow> string \<Rightarrow> string \<Rightarrow> registry \<Rightarrow> (int \<times> plugin option \<times> registry) option" where
  "registry_lookup dl ver plugin_name directory reg = do {
     assert_that (\<not> locked reg);
     let reg = reg\<lparr>locked := True\<rparr>;
     found \<leftarrow> registry_get plugin_name reg;
     (r, p, reg) \<leftarrow> (case found of
        Some p \<Rightarrow> Some (0, Some p, reg)
      | None \<Rightarrow> do {
          let reg = reg\<lparr>loading := True\<rparr>;
          (r, p, reg) \<leftarrow> registry_load dl ver plugin_name directory reg;
          Some (r, p, reg\<lparr>loading := False\<rparr>) });
     Some (r, p, reg\<lparr>locked := False\<rparr>) }"

definition registry_factory ::
    "linker \<Rightarrow> string \<Rightarrow> string \<Rightarrow> string \<Rightarrow> profile \<Rightarrow> registry \<Rightarrow> (int \<times> codec option \<times> profile \<times> registry) option" where
  "registry_factory dl ver plugin_name directory profile reg = do {
     (r, p, reg) \<leftarrow> registry_lookup dl ver plugin_name directory reg;
     if r \<noteq> 0 then Some (r, None, profile, reg)
     else do {
       p \<leftarrow> p;
       (r, erasure_code, profile) \<leftarrow> pl_factory p directory profile;
       if r \<noteq> 0 then Some (r, None, profile, reg)
       else do {
         C \<leftarrow> erasure_code;
         Some (if profile \<noteq> get_profile C then (- EINVAL, Some C, profile, reg) else (0, Some C, profile, reg)) } } }"

fun registry_preload_loop :: "linker \<Rightarrow> string \<Rightarrow> string list \<Rightarrow> string \<Rightarrow> registry \<Rightarrow> (int \<times> registry) option" where
  "registry_preload_loop dl ver [] directory reg = Some (0, reg)"
| "registry_preload_loop dl ver (name # names) directory reg = do {
     (r, p, reg) \<leftarrow> registry_load dl ver name directory reg;
     if r \<noteq> 0 then Some (r, reg) else registry_preload_loop dl ver names directory reg }"

definition registry_preload :: "linker \<Rightarrow> string \<Rightarrow> string \<Rightarrow> string \<Rightarrow> registry \<Rightarrow> (int \<times> registry) option" where
  "registry_preload dl ver names directory reg = do {
     assert_that (\<not> locked reg);
     let reg = reg\<lparr>locked := True\<rparr>;
     (r, reg) \<leftarrow> registry_preload_loop dl ver (get_str_list names) directory reg;
     Some (r, reg\<lparr>locked := False\<rparr>) }"

text \<open>The entry point of the plugins that only register themselves.\<close>

definition erasure_code_init ::
    "(string \<Rightarrow> profile \<Rightarrow> (int \<times> codec option \<times> profile) option) \<Rightarrow>
     string \<Rightarrow> string \<Rightarrow> registry \<Rightarrow> (int \<times> registry) option" where
  "erasure_code_init factory plugin_name directory reg =
     registry_add plugin_name \<lparr>pl_library = None, pl_factory = factory\<rparr> reg"

section \<open>The invariant\<close>

text \<open>Every registered plugin knows its library, and a library is open once for each plugin
  that came from it.\<close>

definition users :: "string \<Rightarrow> (string, plugin) omap \<Rightarrow> nat" where
  "users lib m = length (filter (\<lambda>e. pl_library (snd e) = Some lib) m)"

definition registry_ok :: "registry \<Rightarrow> bool" where
  "registry_ok reg \<longleftrightarrow>
     mok (plugins reg) \<and> (\<forall>e\<in>set (plugins reg). pl_library (snd e) \<noteq> None) \<and>
     (\<forall>lib. opened reg lib = users lib (plugins reg))"

text \<open>What a library must do: its entry point fails and changes nothing, or registers one plugin
  under the name it was given, as \<open>erasure_code_init\<close> does.\<close>

locale plugin_directory =
  fixes dl :: linker
  assumes entry_point:
    "dl f = Some lib \<Longrightarrow> lib_init lib = Some init \<Longrightarrow> locked reg \<Longrightarrow> init name dir reg = Some (r, reg') \<Longrightarrow>
       r \<noteq> 0 \<and> reg' = reg \<or>
       r = 0 \<and> mget (plugins reg) name = None \<and>
         (\<exists>fac. reg' = reg\<lparr>plugins := mput name \<lparr>pl_library = None, pl_factory = fac\<rparr> (plugins reg)\<rparr>)"
    and entry_point_returns:
    "dl f = Some lib \<Longrightarrow> lib_init lib = Some init \<Longrightarrow> locked reg \<Longrightarrow> init name dir reg \<noteq> None"

lemma mput_mput: "mok m \<Longrightarrow> mput k v (mput k u m) = mput k v m"
  unfolding mok_def by (induction k v m rule: mput.induct) auto

lemma users_mput:
  assumes "mok m" "mget m k = None"
  shows "users lib (mput k p m) = users lib m + (if pl_library p = Some lib then 1 else 0)"
  using assms unfolding mok_def mget_def
proof (induction k p m rule: mput.induct)
  case (2 k v k' v' m)
  then show ?case by (cases "k < k'") (auto simp: users_def split: if_splits)
qed (simp add: users_def)

lemma set_mput_new:
  assumes "mok m" "mget m k = None"
  shows "set (mput k p m) = insert (k, p) (set m)"
  using assms unfolding mok_def mget_def
  by (induction k p m rule: mput.induct) (auto split: if_splits)

lemma users_mdel:
  assumes "mok m" "mget m k = Some p"
  shows "users lib (mdel k m) = users lib m - (if pl_library p = Some lib then 1 else 0)"
  using assms unfolding mok_def mget_def
proof (induction m)
  case (Cons e m)
  show ?case
  proof (cases "fst e = k")
    case True
    with Cons.prems have "\<forall>x\<in>set m. fst x \<noteq> k" "snd e = p" by auto
    then have "filter (\<lambda>e. fst e \<noteq> k) m = m" by simp
    with True \<open>snd e = p\<close> show ?thesis by (simp add: users_def mdel_def)
  next
    case False
    then have k: "map_of m k = Some p" using Cons.prems by (cases e) auto
    then have "(k, p) \<in> set m" by (rule map_of_SomeD)
    then have "pl_library p = Some lib \<Longrightarrow> filter (\<lambda>e. pl_library (snd e) = Some lib) m \<noteq> []"
      by (metis (mono_tags, lifting) filter_empty_conv snd_conv)
    with Cons False k show ?thesis by (auto simp: users_def mdel_def)
  qed
qed simp

lemma registry_ok_new [simp]: "registry_ok registry_new"
  by (simp add: registry_ok_def registry_new_def users_def)

lemma registry_ok_flags [simp]:
  "registry_ok (reg\<lparr>locked := a\<rparr>) = registry_ok reg" "registry_ok (reg\<lparr>loading := b\<rparr>) = registry_ok reg"
  by (simp_all add: registry_ok_def)

lemma dlclose_dlopen: "dlclose f (dlopen_count f reg) = reg"
  by (simp add: dlclose_def dlopen_count_def)

lemma remove_ok:
  assumes "registry_ok reg" "locked reg"
  obtains r reg' where "registry_remove name reg = Some (r, reg')" "registry_ok reg'" "locked reg'"
    "mget (plugins reg') name = None"
proof (cases "mget (plugins reg) name")
  case None
  with assms that show ?thesis by (simp add: registry_remove_def)
next
  case (Some p)
  have m: "mok (plugins reg)" using assms by (simp add: registry_ok_def)
  then have "(name, p) \<in> set (plugins reg)" using Some by (simp add: mget_in_set)
  then obtain lib where lib: "pl_library p = Some lib" using assms by (force simp: registry_ok_def)
  let ?reg = "(dlclose lib reg)\<lparr>plugins := mdel name (plugins reg)\<rparr>"
  have "registry_ok ?reg"
    using assms lib users_mdel [OF m Some] by (auto simp: registry_ok_def dlclose_def mdel_def m [unfolded mok_def] mok_mdel [unfolded mdel_def])
  moreover have "registry_remove name reg = Some (0, ?reg)" using assms Some lib by (simp add: registry_remove_def dlclose_def Let_def)
  moreover have "mget (plugins ?reg) name = None" using m by simp
  moreover have "locked ?reg" using assms(2) by (simp add: dlclose_def)
  ultimately show ?thesis using that by blast
qed

text \<open>Registering a plugin and setting its library.\<close>

lemma register_ok:
  assumes "registry_ok reg" "mget (plugins reg) name = None" "pl_library p = Some f"
  shows "registry_ok ((dlopen_count f reg)\<lparr>plugins := mput name p (plugins reg)\<rparr>)"
  using assms users_mput [of "plugins reg" name _ p] set_mput_new [of "plugins reg" name p]
  by (auto simp: registry_ok_def dlopen_count_def)

text \<open>What \<open>load\<close> may do: fail and leave the registry as it was, or register the plugin.\<close>

definition load_result :: "string \<Rightarrow> registry \<Rightarrow> int \<Rightarrow> plugin option \<Rightarrow> registry \<Rightarrow> bool" where
  "load_result name reg r p reg' \<longleftrightarrow>
     (r \<noteq> 0 \<and> p = None \<and> reg' = reg) \<or>
     (r = 0 \<and> mget (plugins reg) name = None \<and>
      (\<exists>q. p = Some q \<and> (\<exists>f. pl_library q = Some f \<and> reg' = (dlopen_count f reg)\<lparr>plugins := mput name q (plugins reg)\<rparr>)))"

lemma load_result_ok:
  assumes "load_result name reg r p reg'" "registry_ok reg"
  shows "registry_ok reg'" "locked reg' = locked reg" "loading reg' = loading reg"
    "r = 0 \<Longrightarrow> \<exists>q. p = Some q \<and> mget (plugins reg') name = Some q"
    "mget (plugins reg) j = Some q \<Longrightarrow> mget (plugins reg') j = Some q"
  using assms register_ok [of reg name] by (auto simp: load_result_def dlopen_count_def registry_ok_def [of reg])

context plugin_directory
begin

lemma load_returns:
  assumes "locked reg" "registry_ok reg"
  shows "\<exists>r p reg'. registry_load dl ver name dir reg = Some (r, p, reg') \<and> load_result name reg r p reg'"
proof -
  let ?f = "plugin_file dir name" and ?reg = "dlopen_count (plugin_file dir name) reg"
  have lk: "locked ?reg" and pl: "plugins ?reg = plugins reg" using assms by (simp_all add: dlopen_count_def)
  have m: "mok (plugins reg)" using assms by (simp add: registry_ok_def)
  note load = registry_load_def load_result_def dlclose_dlopen Let_def
  show ?thesis
  proof (cases "dl ?f")
    case None
    with assms show ?thesis by (simp add: load)
  next
    case (Some lib)
    note lib = this
    show ?thesis
    proof (cases "(case lib_version lib of None \<Rightarrow> an_older_version | Some v \<Rightarrow> v) = ver \<and> lib_init lib \<noteq> None")
      case False
      with lib assms show ?thesis by (auto simp: load split: option.splits)
    next
      case True
      then obtain init where i: "lib_init lib = Some init" by blast
      obtain r reg1 where r: "init name dir ?reg = Some (r, reg1)"
        using entry_point_returns [OF lib i lk, of name dir] by auto
      from entry_point [OF lib i lk r] show ?thesis
      proof (elim disjE conjE exE)
        assume "r \<noteq> 0" "reg1 = ?reg"
        with True lib i r assms show ?thesis by (simp add: load)
      next
        fix fac
        assume n: "r = 0" "mget (plugins ?reg) name = None"
          and reg1: "reg1 = ?reg\<lparr>plugins := mput name \<lparr>pl_library = None, pl_factory = fac\<rparr> (plugins ?reg)\<rparr>"
        let ?q = "\<lparr>pl_library = Some ?f, pl_factory = fac\<rparr>"
        have "registry_load dl ver name dir reg = Some (0, Some ?q, ?reg\<lparr>plugins := mput name ?q (plugins reg)\<rparr>)"
          using True lib i r n reg1 assms lk pl m by (simp add: load registry_get_def mput_mput)
        with n pl show ?thesis by (auto simp: load_result_def)
      qed
    qed
  qed
qed

lemma lookup_returns:
  assumes "\<not> locked reg" "\<not> loading reg" "registry_ok reg"
  shows "\<exists>r p reg'. registry_lookup dl ver name dir reg = Some (r, p, reg') \<and> registry_ok reg' \<and>
    \<not> locked reg' \<and> \<not> loading reg' \<and> (r \<noteq> 0 \<longrightarrow> reg' = reg) \<and>
    (r = 0 \<longrightarrow> (\<exists>q. p = Some q \<and> mget (plugins reg') name = Some q)) \<and>
    (\<forall>j q. mget (plugins reg) j = Some q \<longrightarrow> mget (plugins reg') j = Some q)"
proof (cases "mget (plugins reg) name")
  case None
  obtain r p reg' where l: "registry_load dl ver name dir (reg\<lparr>locked := True, loading := True\<rparr>) = Some (r, p, reg')"
    "load_result name (reg\<lparr>locked := True, loading := True\<rparr>) r p reg'"
    using load_returns [of "reg\<lparr>locked := True, loading := True\<rparr>" ver name dir] assms by auto
  have ok: "registry_ok (reg\<lparr>locked := True, loading := True\<rparr>)" using assms by simp
  have "registry_lookup dl ver name dir reg = Some (r, p, reg'\<lparr>loading := False, locked := False\<rparr>)"
    using None l(1) assms by (simp add: registry_lookup_def registry_get_def)
  moreover have "r \<noteq> 0 \<longrightarrow> reg'\<lparr>loading := False, locked := False\<rparr> = reg"
    using l(2) assms by (auto simp: load_result_def)
  ultimately show ?thesis
    using load_result_ok [OF l(2) ok] by auto
next
  case (Some q)
  with assms show ?thesis by (auto simp: registry_lookup_def registry_get_def)
qed

lemma preload_loop_returns:
  assumes "locked reg" "registry_ok reg"
  shows "\<exists>r reg'. registry_preload_loop dl ver names dir reg = Some (r, reg') \<and> registry_ok reg' \<and>
    locked reg' \<and> loading reg' = loading reg \<and>
    (r = 0 \<longrightarrow> (\<forall>name\<in>set names. mget (plugins reg') name \<noteq> None)) \<and>
    (\<forall>j q. mget (plugins reg) j = Some q \<longrightarrow> mget (plugins reg') j = Some q)"
  using assms
proof (induction names arbitrary: reg)
  case (Cons name names)
  obtain r p reg1 where l: "registry_load dl ver name dir reg = Some (r, p, reg1)" "load_result name reg r p reg1"
    using load_returns [OF Cons.prems] by blast
  note ok = load_result_ok [OF l(2) Cons.prems(2)]
  show ?case
  proof (cases "r = 0")
    case True
    obtain r' reg' where "registry_preload_loop dl ver names dir reg1 = Some (r', reg')" "registry_ok reg'" "locked reg'"
      "loading reg' = loading reg1" "r' = 0 \<longrightarrow> (\<forall>name\<in>set names. mget (plugins reg') name \<noteq> None)"
      "\<forall>j q. mget (plugins reg1) j = Some q \<longrightarrow> mget (plugins reg') j = Some q"
      using Cons.IH [of reg1] ok Cons.prems by auto
    with l True ok show ?thesis by fastforce
  next
    case False
    with l ok Cons.prems show ?thesis by auto
  qed
qed auto

lemma preload_returns:
  assumes "\<not> locked reg" "registry_ok reg"
  shows "\<exists>r reg'. registry_preload dl ver names dir reg = Some (r, reg') \<and> registry_ok reg' \<and>
    \<not> locked reg' \<and> loading reg' = loading reg \<and>
    (r = 0 \<longrightarrow> (\<forall>name\<in>set (get_str_list names). mget (plugins reg') name \<noteq> None)) \<and>
    (\<forall>j q. mget (plugins reg) j = Some q \<longrightarrow> mget (plugins reg') j = Some q)"
  using preload_loop_returns [of "reg\<lparr>locked := True\<rparr>" ver "get_str_list names" dir] assms
  by (auto simp: registry_preload_def)

end

section \<open>Threads\<close>

text \<open>\<open>factory\<close> releases the lock before it calls the plugin: a thread in between holds a
  pointer to a plugin. The operations under the lock are atomic steps.\<close>

datatype thread = Idle | Holding string plugin

record system =
  sys_reg :: registry
  sys_threads :: "nat \<Rightarrow> thread"

inductive registry_step :: "linker \<Rightarrow> string \<Rightarrow> system \<Rightarrow> system \<Rightarrow> bool" for dl ver where
  lookup_step: "sys_threads s t = Idle \<Longrightarrow> registry_lookup dl ver name dir (sys_reg s) = Some (r, p, reg') \<Longrightarrow>
     registry_step dl ver s
       (s\<lparr>sys_reg := reg', sys_threads := (sys_threads s)(t := (if r = 0 then (case p of None \<Rightarrow> Idle | Some q \<Rightarrow> Holding name q) else Idle))\<rparr>)"
| factory_step: "sys_threads s t = Holding name p \<Longrightarrow>
     registry_step dl ver s (s\<lparr>sys_threads := (sys_threads s)(t := Idle)\<rparr>)"
| preload_step: "sys_threads s t = Idle \<Longrightarrow> registry_preload dl ver names dir (sys_reg s) = Some (r, reg') \<Longrightarrow>
     registry_step dl ver s (s\<lparr>sys_reg := reg'\<rparr>)"

text \<open>Removing a plugin, with the lock taken around the call.\<close>

definition system_remove :: "string \<Rightarrow> system \<Rightarrow> system option" where
  "system_remove name s = do {
     assert_that (\<not> locked (sys_reg s));
     (r, reg) \<leftarrow> registry_remove name ((sys_reg s)\<lparr>locked := True\<rparr>);
     Some (s\<lparr>sys_reg := reg\<lparr>locked := False\<rparr>\<rparr>) }"

definition system_new :: system where
  "system_new = \<lparr>sys_reg = registry_new, sys_threads = (\<lambda>_. Idle)\<rparr>"

definition system_ok :: "system \<Rightarrow> bool" where
  "system_ok s \<longleftrightarrow> registry_ok (sys_reg s) \<and> \<not> locked (sys_reg s) \<and> \<not> loading (sys_reg s) \<and>
     (\<forall>t name p. sys_threads s t = Holding name p \<longrightarrow> mget (plugins (sys_reg s)) name = Some p)"

lemma system_ok_new: "system_ok system_new"
  by (simp add: system_ok_def system_new_def registry_new_def registry_ok_new [unfolded registry_new_def])

lemma registered_open:
  assumes "registry_ok reg" "mget (plugins reg) name = Some p"
  shows "\<exists>f. pl_library p = Some f \<and> 0 < opened reg f"
proof -
  have e: "(name, p) \<in> set (plugins reg)" using assms by (auto simp: registry_ok_def mget_in_set)
  then obtain f where f: "pl_library p = Some f" using assms by (force simp: registry_ok_def)
  with e have "(name, p) \<in> set (filter (\<lambda>e. pl_library (snd e) = Some f) (plugins reg))" by simp
  then have "0 < users f (plugins reg)" unfolding users_def by (rule length_pos_if_in_set)
  with f assms show ?thesis by (simp add: registry_ok_def)
qed

context plugin_directory
begin

lemma step_ok:
  assumes "registry_step dl ver s s'" "system_ok s"
  shows "system_ok s'"
  using assms
proof (cases rule: registry_step.cases)
  case (lookup_step t name dir r p reg')
  with lookup_returns [of "sys_reg s" ver name dir] assms(2) show ?thesis
    by (auto simp: system_ok_def split: option.splits if_splits)
next
  case (preload_step t names dir r reg')
  with preload_returns [of "sys_reg s" ver names dir] assms(2) show ?thesis by (auto simp: system_ok_def)
qed (auto simp: system_ok_def)

lemma reachable_ok: "(registry_step dl ver)\<^sup>*\<^sup>* system_new s \<Longrightarrow> system_ok s"
  by (induction rule: rtranclp_induct) (auto simp: system_ok_new step_ok)

end

section \<open>The plugins of the tree\<close>

text \<open>A directory with libraries whose entry point registers the plugin, as those of
  Optimal-LRC, LRC and ISA do, and nothing else.\<close>

definition simple_directory ::
    "string \<Rightarrow> string \<Rightarrow> (string \<times> (string \<Rightarrow> profile \<Rightarrow> (int \<times> codec option \<times> profile) option)) list \<Rightarrow> linker" where
  "simple_directory ver directory factories =
     map_of (map (\<lambda>(name, fac). (plugin_file directory name,
       \<lparr>lib_version = Some ver, lib_init = Some (erasure_code_init fac)\<rparr>)) factories)"

lemma simple_directory_init:
  assumes "simple_directory ver directory factories f = Some lib"
  shows "\<exists>fac. lib_init lib = Some (erasure_code_init fac)"
  using map_of_SomeD [OF assms [unfolded simple_directory_def]] by auto

lemma erasure_code_init_cases:
  assumes "locked reg"
  shows "erasure_code_init fac name dir reg =
    Some (if mget (plugins reg) name \<noteq> None then (- EEXIST, reg)
          else (0, reg\<lparr>plugins := mput name \<lparr>pl_library = None, pl_factory = fac\<rparr> (plugins reg)\<rparr>))"
  using assms by (simp add: erasure_code_init_def registry_add_def)

interpretation simple: plugin_directory "simple_directory ver directory factories" for ver directory factories
proof
  fix f lib init name dir r reg' and reg :: registry
  assume "simple_directory ver directory factories f = Some lib" "lib_init lib = Some init" "locked reg"
  then obtain fac where i: "init name dir reg =
      Some (if mget (plugins reg) name \<noteq> None then (- EEXIST, reg)
            else (0, reg\<lparr>plugins := mput name \<lparr>pl_library = None, pl_factory = fac\<rparr> (plugins reg)\<rparr>))"
    using simple_directory_init erasure_code_init_cases by fastforce
  then show "init name dir reg \<noteq> None" by simp
  assume "init name dir reg = Some (r, reg')"
  with i show "r \<noteq> 0 \<and> reg' = reg \<or> r = 0 \<and> mget (plugins reg) name = None \<and>
      (\<exists>fac. reg' = reg\<lparr>plugins := mput name \<lparr>pl_library = None, pl_factory = fac\<rparr> (plugins reg)\<rparr>)"
    by (auto split: if_splits)
qed

lemma simple_directory_file:
  "simple_directory ver directory factories (plugin_file directory name) =
     map_option (\<lambda>fac. \<lparr>lib_version = Some ver, lib_init = Some (erasure_code_init fac)\<rparr>) (map_of factories name)"
  unfolding simple_directory_def by (induction factories) (auto simp: plugin_file_def)

section \<open>Properties\<close>

text \<open>C32: in every state that threads creating codes and preloading plugins reach, each
  registered plugin knows its library, each library is open exactly once for every plugin that came
  from it, the lock is free, and the plugin a thread is about to call is still registered and
  its library open.\<close>

theorem registry_invariant:
  assumes "plugin_directory dl" "(registry_step dl ver)\<^sup>*\<^sup>* system_new s"
  shows "registry_ok (sys_reg s) \<and> \<not> locked (sys_reg s) \<and>
    (\<forall>t name p. sys_threads s t = Holding name p \<longrightarrow>
       mget (plugins (sys_reg s)) name = Some p \<and> (\<exists>f. pl_library p = Some f \<and> 0 < opened (sys_reg s) f))"
proof -
  have "system_ok s" by (rule plugin_directory.reachable_ok [OF assms])
  then show ?thesis using registered_open [of "sys_reg s"] unfolding system_ok_def by blast
qed

definition example_factory :: "string \<Rightarrow> profile \<Rightarrow> (int \<times> codec option \<times> profile) option" where
  "example_factory directory profile = Some (- EINVAL, None, profile)"

definition example_directory :: linker where
  "example_directory = simple_directory ''v'' ''d'' [(''a'', example_factory)]"

definition example_plugin :: plugin where
  "example_plugin = \<lparr>pl_library = Some ''d/libec_a.so'', pl_factory = example_factory\<rparr>"

definition example_system :: system where
  "example_system = \<lparr>sys_reg = (dlopen_count ''d/libec_a.so'' registry_new)\<lparr>plugins := [(''a'', example_plugin)]\<rparr>,
     sys_threads = (\<lambda>_. Idle)(0 := Holding ''a'' example_plugin)\<rparr>"

lemma example_lookup:
  "registry_lookup example_directory ''v'' ''a'' ''d'' registry_new = Some (0, Some example_plugin, sys_reg example_system)"
proof -
  have f: "plugin_file ''d'' ''a'' = ''d/libec_a.so''" by (simp add: plugin_file_def)
  have "example_directory ''d/libec_a.so'' = Some \<lparr>lib_version = Some ''v'', lib_init = Some (erasure_code_init example_factory)\<rparr>"
    using simple_directory_file [of "''v''" "''d''" "[(''a'', example_factory)]" "''a''"] by (simp add: f example_directory_def)
  then show ?thesis
    by (simp add: registry_lookup_def registry_get_def registry_load_def f registry_new_def mget_def erasure_code_init_def
        registry_add_def dlopen_count_def example_system_def example_plugin_def Let_def)
qed

lemma example_step: "registry_step example_directory ''v'' system_new example_system"
proof -
  have "registry_lookup example_directory ''v'' ''a'' ''d'' (sys_reg system_new) =
      Some (0, Some example_plugin, sys_reg example_system)"
    by (simp add: system_new_def example_lookup)
  from registry_step.lookup_step [of system_new 0, OF _ this] show ?thesis
    by (simp add: system_new_def example_system_def)
qed

theorem registry_invariant_witness:
  "sys_threads example_system 0 = Holding ''a'' example_plugin \<and> 0 < opened (sys_reg example_system) ''d/libec_a.so''"
proof -
  have t: "sys_threads example_system 0 = Holding ''a'' example_plugin" by (simp add: example_system_def)
  have "plugin_directory example_directory" unfolding example_directory_def by (rule simple.plugin_directory_axioms)
  moreover have "(registry_step example_directory ''v'')\<^sup>*\<^sup>* system_new example_system"
    by (rule r_into_rtranclp) (rule example_step)
  ultimately have "\<exists>f. pl_library example_plugin = Some f \<and> 0 < opened (sys_reg example_system) f"
    using registry_invariant t by blast
  with t show ?thesis by (simp add: example_plugin_def)
qed

text \<open>C33: no thread waits forever. In every state that is reached, a thread that is idle may ask for
  any plugin in any directory: the lookup returns and the thread makes its step, after
  which the other threads are where they were. On success it holds the plugin, which is
  then registered under the name; a refusal leaves the registry as it was; and a plugin that was
  registered already is handed out, nothing else being changed.\<close>

theorem registry_progress:
  assumes "plugin_directory dl" "(registry_step dl ver)\<^sup>*\<^sup>* system_new s" "sys_threads s t = Idle"
  shows "\<exists>r p reg' s'. registry_lookup dl ver name dir (sys_reg s) = Some (r, p, reg') \<and> registry_step dl ver s s' \<and>
    s' = s\<lparr>sys_reg := reg', sys_threads := (sys_threads s)(t := (if r = 0 then Holding name (the p) else Idle))\<rparr> \<and>
    (if r = 0 then p \<noteq> None \<and> mget (plugins reg') name = p else reg' = sys_reg s) \<and>
    (\<forall>q. mget (plugins (sys_reg s)) name = Some q \<longrightarrow> r = 0 \<and> p = Some q \<and> reg' = sys_reg s)"
proof -
  have ok: "system_ok s" by (rule plugin_directory.reachable_ok [OF assms(1,2)])
  have "\<exists>r p reg'. registry_lookup dl ver name dir (sys_reg s) = Some (r, p, reg') \<and>
      (r \<noteq> 0 \<longrightarrow> reg' = sys_reg s) \<and> (r = 0 \<longrightarrow> (\<exists>q. p = Some q \<and> mget (plugins reg') name = Some q))"
    using plugin_directory.lookup_returns [OF assms(1), of "sys_reg s" ver name dir] ok unfolding system_ok_def by blast
  then obtain r p reg' where l: "registry_lookup dl ver name dir (sys_reg s) = Some (r, p, reg')"
      "r \<noteq> 0 \<longrightarrow> reg' = sys_reg s" "r = 0 \<longrightarrow> (\<exists>q. p = Some q \<and> mget (plugins reg') name = Some q)" by blast
  have "r = 0 \<and> p = Some q \<and> reg' = sys_reg s" if "mget (plugins (sys_reg s)) name = Some q" for q
    using that l(1) ok by (auto simp: registry_lookup_def registry_get_def system_ok_def)
  moreover have "(case p of None \<Rightarrow> Idle | Some q \<Rightarrow> Holding name q) = Holding name (the p)" if "r = 0"
    using l(3) that by auto
  ultimately show ?thesis
    using registry_step.lookup_step [OF assms(3) l(1)] l
    by (cases "r = 0"; cases "mget (plugins (sys_reg s)) name") auto
qed

theorem registry_progress_witness:
  "\<exists>s'. registry_step example_directory ''v'' example_system s' \<and> sys_threads s' 1 = Holding ''a'' example_plugin \<and>
     sys_reg s' = sys_reg example_system"
proof -
  have "plugin_directory example_directory" unfolding example_directory_def by (rule simple.plugin_directory_axioms)
  moreover have "(registry_step example_directory ''v'')\<^sup>*\<^sup>* system_new example_system"
    by (rule r_into_rtranclp) (rule example_step)
  moreover have "sys_threads example_system 1 = Idle" "mget (plugins (sys_reg example_system)) ''a'' = Some example_plugin"
    by (simp_all add: example_system_def mget_def)
  ultimately show ?thesis using registry_progress [of example_directory "''v''" example_system 1 "''a''" "''d''"] by fastforce
qed

text \<open>C34: removing a plugin is not safe while a thread is between the lookup and the call: from a
  state that is reached, \<open>remove\<close> leads to one in which a thread holds a plugin whose library is
  closed.\<close>

theorem remove_while_held:
  "\<exists>s. (registry_step example_directory ''v'')\<^sup>*\<^sup>* system_new s \<and>
     (\<exists>s' p f. system_remove ''a'' s = Some s' \<and> sys_threads s' 0 = Holding ''a'' p \<and>
        pl_library p = Some f \<and> opened (sys_reg s') f = 0)"
proof -
  have "(registry_step example_directory ''v'')\<^sup>*\<^sup>* system_new example_system"
    by (rule r_into_rtranclp) (rule example_step)
  moreover have "system_remove ''a'' example_system =
      Some (example_system\<lparr>sys_reg := registry_new\<rparr>)"
    by (simp add: system_remove_def registry_remove_def example_system_def example_plugin_def mget_def mdel_def
        dlclose_def dlopen_count_def registry_new_def Let_def fun_upd_idem)
  ultimately show ?thesis by (force simp: example_system_def example_plugin_def registry_new_def)
qed

text \<open>\<open>preload\<close> does not look for a plugin before loading it: a name that is registered
  already, or listed a second time, makes it stop with the error of \<open>add\<close>, although the plugin is
  there.\<close>

theorem preload_loaded_fails:
  assumes "registry_ok reg" "\<not> locked reg" "mget (plugins reg) name \<noteq> None" "map_of factories name \<noteq> None"
    "get_str_list names = name # rest"
  shows "registry_preload (simple_directory ver dir factories) ver names dir reg = Some (- EEXIST, reg)"
proof -
  obtain fac where f: "simple_directory ver dir factories (plugin_file dir name) =
      Some \<lparr>lib_version = Some ver, lib_init = Some (erasure_code_init fac)\<rparr>"
    using assms(4) by (auto simp: simple_directory_file)
  have "registry_load (simple_directory ver dir factories) ver name dir (reg\<lparr>locked := True\<rparr>) =
      Some (- EEXIST, None, reg\<lparr>locked := True\<rparr>)"
    using assms(3) f by (auto simp: registry_load_def erasure_code_init_def registry_add_def dlclose_dlopen Let_def
        dlopen_count_def dlclose_def)
  with assms(2,5) show ?thesis by (simp add: registry_preload_def)
qed

theorem preload_loaded_fails_witness:
  "registry_preload example_directory ''v'' ''a'' ''d'' (sys_reg example_system) = Some (- EEXIST, sys_reg example_system)"
proof -
  have ok: "registry_ok (sys_reg example_system)"
    using simple.step_ok [OF example_step [unfolded example_directory_def] system_ok_new] by (simp add: system_ok_def)
  have "get_str_list ''a'' = [''a'']" using get_str_list_joined [of "[''a'']" "'' ''"] by (simp add: default_delims_def)
  with ok show ?thesis unfolding example_directory_def
    by (intro preload_loaded_fails [where rest = "[]"]) (simp_all add: example_system_def mget_def registry_new_def dlopen_count_def)
qed

text \<open>C35: a library that registers its plugin under another name is closed and refused, but the
  plugin stays registered without a library: the destructor then closes a null handle.\<close>

theorem load_misnamed_plugin:
  assumes "locked reg" "mok (plugins reg)" "other \<noteq> name" "mget (plugins reg) name = None" "mget (plugins reg) other = None"
    "dl (plugin_file dir name) = Some \<lparr>lib_version = Some ver, lib_init = Some (\<lambda>_. erasure_code_init fac other)\<rparr>"
    "\<not> disable_dlclose reg"
  shows "\<exists>reg'. registry_load dl ver name dir reg = Some (- EBADF, None, reg') \<and> opened reg' = opened reg \<and>
    mget (plugins reg') other = Some \<lparr>pl_library = None, pl_factory = fac\<rparr> \<and> registry_destroy reg' = None"
proof -
  let ?p = "\<lparr>pl_library = None, pl_factory = fac\<rparr>"
  let ?reg = "reg\<lparr>plugins := mput other ?p (plugins reg)\<rparr>"
  have "registry_load dl ver name dir reg = Some (- EBADF, None, ?reg)"
    using assms by (simp add: registry_load_def erasure_code_init_def registry_add_def registry_get_def
        dlopen_count_def dlclose_def Let_def)
  moreover have "registry_close_all ps r = None" if "(other, ?p) \<in> set ps" for ps r
    using that by (induction ps arbitrary: r) (auto simp: bind_eq_None_conv)
  then have "registry_destroy ?reg = None"
    using assms(2,5,7) set_mput_new [of "plugins reg" other ?p] by (simp add: registry_destroy_def)
  ultimately show ?thesis using assms(2) by auto
qed

theorem load_misnamed_plugin_witness:
  "\<exists>reg'. registry_load [plugin_file ''d'' ''a'' \<mapsto> \<lparr>lib_version = Some ''v'', lib_init = Some (\<lambda>_. erasure_code_init example_factory ''b'')\<rparr>]
      ''v'' ''a'' ''d'' (registry_new\<lparr>locked := True\<rparr>) = Some (- EBADF, None, reg') \<and> registry_destroy reg' = None"
  using load_misnamed_plugin [of "registry_new\<lparr>locked := True\<rparr>" "''b''" "''a''"
      "[plugin_file ''d'' ''a'' \<mapsto> \<lparr>lib_version = Some ''v'', lib_init = Some (\<lambda>_. erasure_code_init example_factory ''b'')\<rparr>]"
      "''d''" "''v''" example_factory]
  by (auto simp: registry_new_def mget_def)

end
