(* ===== verification/OptLrc_Plugin.thy ===== *)
theory OptLrc_Plugin
  imports OptLrc_Profile Plugin_Registry
begin

text \<open>
  The Optimal-LRC plugin in the registry: from the name of the plugin and a profile to a
  code that gives objects back, as the OSD asks for it.
\<close>

definition optlrc_plugin_factory ::
    "spirit \<Rightarrow> jerasure \<Rightarrow> string \<Rightarrow> profile \<Rightarrow> (int \<times> codec option \<times> profile) option" where
  "optlrc_plugin_factory sp J directory profile = do {
     (r, interface, profile) \<leftarrow> optlrc_factory sp profile;
     Some (r, map_option (optlrc_codec J) interface, profile) }"

lemma registry_factory_simple:
  assumes "map_of factories name = Some fac" "\<not> locked reg" "\<not> loading reg" "registry_ok reg"
    "mget (plugins reg) name = None" "fac dir p = Some (0, Some C, p')" "get_profile C = p'"
  shows "\<exists>reg'. registry_factory (simple_directory ver dir factories) ver name dir p reg = Some (0, Some C, p', reg') \<and>
    registry_ok reg' \<and> \<not> locked reg' \<and> (\<exists>q. mget (plugins reg') name = Some q)"
proof -
  let ?f = "plugin_file dir name" and ?q = "\<lparr>pl_library = Some (plugin_file dir name), pl_factory = fac\<rparr>"
  let ?reg = "(dlopen_count ?f reg)\<lparr>plugins := mput name ?q (plugins reg)\<rparr>"
  have m: "mok (plugins reg)" using assms(4) by (simp add: registry_ok_def)
  have "simple_directory ver dir factories ?f = Some \<lparr>lib_version = Some ver, lib_init = Some (erasure_code_init fac)\<rparr>"
    using assms(1) by (simp add: simple_directory_file)
  then have "registry_lookup (simple_directory ver dir factories) ver name dir reg = Some (0, Some ?q, ?reg)"
    using assms(2,3,5) m by (simp add: registry_lookup_def registry_get_def registry_load_def erasure_code_init_def
        registry_add_def dlopen_count_def mput_mput Let_def)
  then have "registry_factory (simple_directory ver dir factories) ver name dir p reg = Some (0, Some C, p', ?reg)"
    using assms(6,7) by (simp add: registry_factory_def)
  moreover have "registry_ok ?reg" by (rule register_ok [OF assms(4,5)]) simp
  moreover have "\<not> locked ?reg" "mget (plugins ?reg) name = Some ?q" using assms(2) m by (simp_all add: dlopen_count_def)
  ultimately show ?thesis by blast
qed

text \<open>The way from a profile to stored data. Asked for the plugin \<open>optlrc\<close> with a profile that
  names a code of the table (but the one for 17 chunks), a registry that has not loaded it loads
  it and returns a code; an object that is encoded with this code and loses at most one
  chunk per local group is read back byte for byte.\<close>

theorem registry_optlrc_round_trip:
  assumes "jerasure_lib mul J" "((int n, int k, int r), G) \<in> set config_table" "(n, k, r) \<noteq> (17, 12, 6)"
    "names_code p n k r (unit_mapping G)" "steps_ok sp p"
    "map_of factories ''optlrc'' = Some (optlrc_plugin_factory sp J)"
    "\<not> locked reg" "\<not> loading reg" "registry_ok reg" "mget (plugins reg) ''optlrc'' = None"
  shows "\<exists>o' p' reg'. registry_factory (simple_directory ver dir factories) ver ''optlrc'' dir p reg =
      Some (0, Some (optlrc_codec J o'), p', reg') \<and> registry_ok reg' \<and>
    (\<forall>h raw A. bl_ok h raw \<and> 0 < bl_length raw \<and> bl_length raw < 2 ^ 31 \<and> A \<subseteq> {0..<int n} \<and> one_lost_per_group o' A \<longrightarrow>
      (\<exists>h1 M h2 out pad. encode (optlrc_codec J o') A raw [] h = Some (h1, 0, M) \<and> set (mkeys M) = A \<and>
        decode_concat (optlrc_codec J o') M [] h1 = Some (h2, 0, out) \<and>
        bl_bytes h2 out = bl_bytes h raw @ replicate pad 0))"
proof -
  obtain o' p' where f: "optlrc_factory sp p = Some (0, Some o', p')" "optlrc_wf o'" "opt_profile o' = p'"
      "opt_n o' = int n"
    using factory_creates [OF assms(2-5)] by blast
  have "optlrc_plugin_factory sp J dir p = Some (0, Some (optlrc_codec J o'), p')"
    using f(1) by (simp add: optlrc_plugin_factory_def)
  moreover have "get_profile (optlrc_codec J o') = p'" using f(3) by (simp add: optlrc_codec_def)
  ultimately obtain reg' where "registry_factory (simple_directory ver dir factories) ver ''optlrc'' dir p reg =
      Some (0, Some (optlrc_codec J o'), p', reg')" "registry_ok reg'"
    using registry_factory_simple [OF assms(6-10)] by blast
  moreover obtain n' k' r' G' where c: "optlrc_code mul J o' n' k' r' G'"
    using optlrc_wf_code [OF assms(1) f(2)] by metis
  have "\<exists>h1 M h2 out pad. encode (optlrc_codec J o') A raw [] h = Some (h1, 0, M) \<and> set (mkeys M) = A \<and>
      decode_concat (optlrc_codec J o') M [] h1 = Some (h2, 0, out) \<and> bl_bytes h2 out = bl_bytes h raw @ replicate pad 0"
    if "bl_ok h raw" "0 < bl_length raw" "bl_length raw < 2 ^ 31" "A \<subseteq> {0..<int n}" "one_lost_per_group o' A" for h raw A
    using optlrc_code.round_trip [OF c that(1-3) _ that(5)] that(4) f(4) by metis
  ultimately show ?thesis by blast
qed

theorem registry_optlrc_round_trip_witness:
  "\<exists>o' p' reg'. registry_factory (simple_directory ''12.0.2'' ''lib'' [(''optlrc'', optlrc_plugin_factory ref_spirit ref_jerasure)])
      ''12.0.2'' ''optlrc'' ''lib'' example_profile registry_new =
    Some (0, Some (optlrc_codec ref_jerasure o'), p', reg') \<and> registry_ok reg'"
proof -
  have "names_code example_profile 9 4 2 (unit_mapping optlrc_9_4_2)"
    by (simp add: names_code_def example_profile_def mok_def mget_def INT_MAX_def)
  moreover have "steps_ok ref_spirit example_profile" by (simp add: steps_ok_def example_profile_def mget_def)
  moreover have "((int 9, int 4, int 2), optlrc_9_4_2) \<in> set config_table" by (simp add: config_table_def)
  ultimately show ?thesis
    using registry_optlrc_round_trip [OF ref_lib.jerasure_lib_axioms, of 9 4 2 optlrc_9_4_2 example_profile ref_spirit
        "[(''optlrc'', optlrc_plugin_factory ref_spirit ref_jerasure)]" registry_new "''12.0.2''" "''lib''"]
    by (auto simp: registry_new_def registry_ok_new [unfolded registry_new_def] mget_def)
qed

end
