(* ===== verification/Str_Map.thy ===== *)
theory Str_Map
  imports Str_List Json
begin

text \<open>
  Maps of strings written as text, \<open>src/src/common/str_map.cc\<close>: a JSON object or pairs
  \<open>key=value\<close>. An exception nobody catches and an access outside a string have no result.
\<close>

section \<open>Operations\<close>

text \<open>\<open>trim\<close> of an empty string looks at the character before it: \<open>str.size() - 1\<close> wraps
  around and \<open>str[end]\<close> is read first.\<close>

definition trim :: "string \<Rightarrow> string option" where
  "trim str =
     (if str = [] then None
      else
        let start = length (takeWhile is_space str)
        in if start \<le> length str - 1 then
             let e = length str - 1 - length (takeWhile is_space (rev str))
             in Some (substr str start (e - start + 1))
           else Some [])"

definition str_map_pair :: "string \<Rightarrow> (string, string) omap \<Rightarrow> (string, string) omap option" where
  "str_map_pair i str_map =
     (case find_first_of i ''='' 0 of
        None \<Rightarrow> Some (mput i [] str_map)
      | Some equal \<Rightarrow> do {
          key \<leftarrow> trim (substr i 0 equal);
          val \<leftarrow> trim (drop (equal + 1) i);
          Some (mput key val str_map) })"

definition get_str_map :: "string \<Rightarrow> (string, string) omap \<Rightarrow> string \<Rightarrow> (int \<times> (string, string) omap) option" where
  "get_str_map str str_map delims = do {
     m \<leftarrow> ofold str_map_pair (get_str_list_delims str delims) str_map;
     Some (0, m) }"

text \<open>The loop over the members of a JSON object, which \<open>ErasureCodeLrc::layers_parse\<close> has too.\<close>

definition copy_strings :: "(string \<times> json) list \<Rightarrow> (string, string) omap \<Rightarrow> (string, string) omap option" where
  "copy_strings obj str_map =
     ofold (\<lambda>(name, v) m. do { s \<leftarrow> get_str v; Some (mput name s m) }) obj str_map"

definition get_json_str_map ::
    "spirit \<Rightarrow> string \<Rightarrow> (string, string) omap \<Rightarrow> bool \<Rightarrow> (int \<times> (string, string) omap) option" where
  "get_json_str_map sp str str_map fallback_to_plain = do {
     res \<leftarrow> read_or_throw sp str;
     (case res of
        Inr v \<Rightarrow>
          if json_type v \<noteq> obj_type then Some (- EINVAL, str_map)
          else do { obj \<leftarrow> get_obj v; m \<leftarrow> copy_strings obj str_map; Some (0, m) }
      | Inl _ \<Rightarrow>
          if fallback_to_plain then do {
            (r, m) \<leftarrow> get_str_map str str_map [CHR 0x09, CHR 0x0A, CHR '' ''];
            Some (0, m) }
          else Some (- EINVAL, str_map)) }"

definition get_str_map_value :: "(string, string) omap \<Rightarrow> string \<Rightarrow> string option \<Rightarrow> string" where
  "get_str_map_value str_map key def_val =
     (case mget str_map key of
        Some v \<Rightarrow> if v = [] then key else v
      | None \<Rightarrow> (case def_val of Some d \<Rightarrow> d | None \<Rightarrow> []))"

definition get_str_map_key :: "(string, string) omap \<Rightarrow> string \<Rightarrow> string option \<Rightarrow> string" where
  "get_str_map_key str_map key fallback_key =
     (case mget str_map key of
        Some v \<Rightarrow> v
      | None \<Rightarrow> (case fallback_key of
          None \<Rightarrow> []
        | Some f \<Rightarrow> mref [] str_map f))"

definition CONST_DELIMS :: string where
  "CONST_DELIMS = '',;'' @ [CHR 0x09, CHR 0x0A, CHR '' '']"

text \<open>A map that was written as one word: the word becomes the value of \<open>def_key\<close>. The delimiters
  are the default ones of \<open>get_str_map\<close>.\<close>

definition get_conf_str_map_helper ::
    "string \<Rightarrow> (string, string) omap \<Rightarrow> string \<Rightarrow> (int \<times> (string, string) omap) option" where
  "get_conf_str_map_helper str m def_key = do {
     (r, m) \<leftarrow> get_str_map str m CONST_DELIMS;
     if r < 0 then Some (r, m)
     else if r \<ge> 0 \<and> length m = 1 then
       let s = fst (hd m)
       in Some (r, if snd (hd m) = [] then mput def_key s (mdel s m) else m)
     else Some (r, m) }"

section \<open>What is read\<close>

lemma trim_word:
  assumes "w \<noteq> []" "\<forall>c\<in>set w. \<not> is_space c"
  shows "trim w = Some w"
proof -
  have "takeWhile is_space w = []" using assms by (cases w) auto
  moreover have "takeWhile is_space (rev w) = []" using assms by (cases "rev w") auto
  ultimately show ?thesis using assms(1) by (simp add: trim_def substr_def)
qed

definition pair_word :: "string \<times> string \<Rightarrow> string" where
  "pair_word kv = fst kv @ ''='' @ snd kv"

definition pair_ok :: "string \<times> string \<Rightarrow> bool" where
  "pair_ok kv \<longleftrightarrow> fst kv \<noteq> [] \<and> snd kv \<noteq> [] \<and> (\<forall>c\<in>set (fst kv @ snd kv). \<not> is_space c) \<and> CHR ''='' \<notin> set (fst kv)"

lemma str_map_pair_word:
  assumes "pair_ok kv"
  shows "str_map_pair (pair_word kv) m = Some (mput (fst kv) (snd kv) m)"
proof -
  have "takeWhile (\<lambda>c. c \<noteq> CHR ''='') (pair_word kv) = fst kv"
    using assms by (force simp: pair_word_def pair_ok_def takeWhile_append)
  then have "find_first_of (pair_word kv) ''='' 0 = Some (length (fst kv))"
    by (simp add: find_first_of_def find_from_def pair_word_def)
  moreover have "trim (fst kv) = Some (fst kv)" "trim (snd kv) = Some (snd kv)"
    using assms by (auto simp: pair_ok_def intro: trim_word)
  ultimately show ?thesis by (simp add: str_map_pair_def substr_def pair_word_def)
qed

lemma ofold_pairs:
  "\<forall>kv\<in>set kvs. pair_ok kv \<Longrightarrow>
     ofold str_map_pair (map pair_word kvs) m = Some (fold (\<lambda>kv. mput (fst kv) (snd kv)) kvs m)"
  by (induction kvs arbitrary: m) (auto simp: str_map_pair_word)

lemma is_space_blank [simp]: "is_space (CHR '' '')" "is_space (CHR 0x09)" "is_space (CHR 0x0A)"
  by (simp_all add: is_space_def)

lemma get_str_map_pairs:
  assumes "\<forall>kv\<in>set kvs. pair_ok kv" "delims \<noteq> []" "\<forall>c\<in>set delims. is_space c"
  shows "get_str_map (join delims (map pair_word kvs)) m delims = Some (0, fold (\<lambda>kv. mput (fst kv) (snd kv)) kvs m)"
proof -
  have "\<forall>w\<in>set (map pair_word kvs). w \<noteq> [] \<and> (\<forall>c\<in>set w. c \<notin> set delims)"
    using assms by (auto simp: pair_word_def pair_ok_def) (auto simp: is_space_def)
  then have "get_str_list_delims (join delims (map pair_word kvs)) delims = map pair_word kvs"
    using assms(2) by (simp add: get_str_list_delims_def str_list_loop_tokens tokens_join)
  with ofold_pairs [OF assms(1)] show ?thesis by (simp add: get_str_map_def)
qed

text \<open>The helper of the configuration: one word without \<open>=\<close> is stored under the default key.\<close>

lemma get_conf_str_map_word:
  assumes "w \<noteq> []" "\<forall>c\<in>set w. c \<notin> set CONST_DELIMS" "CHR ''='' \<notin> set w"
  shows "get_conf_str_map_helper w [] def_key = Some (0, [(def_key, w)])"
proof -
  have "get_str_list_delims (join CONST_DELIMS [w]) CONST_DELIMS = [w]"
    using assms by (simp add: get_str_list_delims_def str_list_loop_tokens tokens_join CONST_DELIMS_def del: join.simps)
  moreover have "find_first_of w ''='' 0 = None"
  proof -
    have "takeWhile (\<lambda>c. c \<noteq> CHR ''='') w = w" using assms(3) by auto
    then show ?thesis by (simp add: find_first_of_def find_from_def del: takeWhile_eq_all_conv)
  qed
  ultimately show ?thesis
    by (simp add: get_conf_str_map_helper_def get_str_map_def str_map_pair_def mdel_def)
qed

section \<open>Properties\<close>

text \<open>A JSON object with a member that is no string is neither refused nor read: the accessor
  throws an exception that is not the one \<open>get_json_str_map\<close> catches.\<close>

theorem get_json_str_map_throws:
  assumes "spirit_lib sp" "json_writable g (JObj obj)" "(name, v) \<in> set obj" "json_type v \<noteq> str_type"
  shows "get_json_str_map sp (write_stream g (JObj obj)) m fallback_to_plain = None"
proof -
  have "copy_strings obj m = None" for m
    unfolding copy_strings_def using assms(3)
  proof (induction obj arbitrary: m)
    case (Cons e obj)
    then show ?case using assms(4) by (cases v) (auto simp: get_str_def bind_eq_None_conv split: json.splits)
  qed simp
  then show ?thesis
    using spirit_lib.read_write [OF assms(1,2)] by (simp add: get_json_str_map_def get_obj_def)
qed

theorem get_json_str_map_throws_witness:
  "get_json_str_map ref_spirit (write_stream example_generator (JObj [(''k'', JInt 4)])) [] True = None"
  by (rule get_json_str_map_throws [OF ref_sp.spirit_lib_axioms, where name = "''k''" and v = "JInt 4"])
    (simp_all add: mok_def char_writable_def)

text \<open>Plain text pairs with white space between them are read in order, the last value of a key
  counts; a pair whose value is missing after the \<open>=\<close> makes \<open>trim\<close> read before the start of a
  string.\<close>

theorem get_str_map_read:
  assumes "\<forall>kv\<in>set kvs. pair_ok kv" "delims \<noteq> []" "\<forall>c\<in>set delims. is_space c" "CHR ''='' \<notin> set w"
  shows "get_str_map (join delims (map pair_word kvs)) m delims = Some (0, fold (\<lambda>kv. mput (fst kv) (snd kv)) kvs m) \<and>
    str_map_pair (w @ ''='') m = None"
proof (intro conjI)
  have "takeWhile (\<lambda>c. c \<noteq> CHR ''='') (w @ ''='') = w" using assms(4) by (induction w) auto
  then have "find_first_of (w @ ''='') ''='' 0 = Some (length w)"
    by (simp add: find_first_of_def find_from_def)
  then show "str_map_pair (w @ ''='') m = None" by (simp add: str_map_pair_def trim_def bind_eq_None_conv)
qed (rule get_str_map_pairs [OF assms(1-3)])

theorem get_str_map_read_witness:
  "get_str_map (join '' '' (map pair_word [(''k'', ''4''), (''m'', ''2'')])) [] '' '' = Some (0, [(''k'', ''4''), (''m'', ''2'')]) \<and>
   str_map_pair (''k'' @ ''='') [] = None"
proof -
  have "\<forall>kv\<in>set [(''k'', ''4''), (''m'', ''2'')]. pair_ok kv" by (simp add: pair_ok_def is_space_def)
  from get_str_map_read [OF this, of "'' ''" "''k''" "[]"] show ?thesis by simp
qed

end
