(* ===== verification/Lrc.thy ===== *)
theory Lrc
  imports Ruleset Str_Map Plugin_Registry
begin

text \<open>
  The layered locally repairable code, \<open>src/src/erasure-code/lrc/ErasureCodeLrc.cc\<close>: a code
  whose layers are codes of other plugins, each over some of the chunks. Here are the
  object, the choice of the chunks to read, encoding and decoding; profiles are in
  \<open>Lrc_Profile\<close>. A layer's code is a null pointer until \<open>layers_init\<close>; following it has no
  result. There are fewer than 2 GiB chunks, so that an index is an \<open>int\<close>.
\<close>

section \<open>The object\<close>

record layer =
  la_code :: "codec option"
  la_data :: "int list"
  la_coding :: "int list"
  la_chunks :: "int list"
  la_chunks_as_set :: "int set"
  la_chunks_map :: string
  la_profile :: profile

record lrc =
  lrc_layers :: "layer list"
  lrc_directory :: string
  lrc_chunk_count :: nat
  lrc_data_chunk_count :: nat
  lrc_ruleset_root :: string
  lrc_ruleset_steps :: "ruleset_step list"
  lrc_chunk_mapping :: "int list"
  lrc_profile :: profile

definition lrc_get_chunk_count :: "lrc \<Rightarrow> nat" where
  "lrc_get_chunk_count L = lrc_chunk_count L"

definition lrc_get_data_chunk_count :: "lrc \<Rightarrow> nat" where
  "lrc_get_data_chunk_count L = lrc_data_chunk_count L"

definition lrc_get_chunk_size :: "lrc \<Rightarrow> nat \<Rightarrow> nat option" where
  "lrc_get_chunk_size L object_size =
     (case lrc_layers L of
        [] \<Rightarrow> None
      | la # _ \<Rightarrow> do { C \<leftarrow> la_code la; get_chunk_size C object_size })"

definition lrc_get_erasures :: "int set \<Rightarrow> int set \<Rightarrow> int set" where
  "lrc_get_erasures want available = want - available"

section \<open>The chunks to read\<close>

text \<open>The chunks of the stripe that are not available.\<close>

definition lrc_missing :: "lrc \<Rightarrow> int set \<Rightarrow> int set" where
  "lrc_missing L available_chunks = set (filter (\<lambda>i. i \<notin> available_chunks) (map int [0..<lrc_get_chunk_count L]))"

text \<open>The first chunks of \<open>layer_maximum\<close> until there are as many as the layer has data.\<close>

fun lrc_pick :: "nat list \<Rightarrow> int set \<Rightarrow> nat \<Rightarrow> nat \<Rightarrow> int set \<Rightarrow> int set" where
  "lrc_pick [] layer_maximum data_chunk_count k layer_minimum = layer_minimum"
| "lrc_pick (j # js) layer_maximum data_chunk_count k layer_minimum =
     (if int j \<in> layer_maximum then
        (if k + 1 = data_chunk_count then insert (int j) layer_minimum
         else lrc_pick js layer_maximum data_chunk_count (k + 1) (insert (int j) layer_minimum))
      else lrc_pick js layer_maximum data_chunk_count k layer_minimum)"

text \<open>One round of the second case: the state is \<open>erasures_not_recovered\<close>, \<open>erasures_want\<close> and
  \<open>minimum\<close>.\<close>

definition lrc_minimum_layer ::
    "nat \<Rightarrow> int set \<Rightarrow> layer \<Rightarrow> int set \<times> int set \<times> int set \<Rightarrow> (int set \<times> int set \<times> int set) option" where
  "lrc_minimum_layer n want_to_read la s =
     (case s of (erasures_not_recovered, erasures_want, minimum) \<Rightarrow>
        let layer_want = want_to_read \<inter> la_chunks_as_set la in
        if layer_want = {} then Some s
        else
          let layer_erasures = layer_want \<inter> erasures_want in
          if layer_erasures = {} then Some (erasures_not_recovered, erasures_want, minimum \<union> layer_want)
          else do {
            let erasures = la_chunks_as_set la \<inter> erasures_not_recovered;
            C \<leftarrow> la_code la;
            if card erasures > get_coding_chunk_count C then Some s
            else do {
              let layer_maximum = la_chunks_as_set la - erasures_not_recovered;
              let layer_minimum = lrc_pick [0..<n] layer_maximum (get_data_chunk_count C) 0 {};
              Some (erasures_not_recovered - erasures, erasures_want - erasures, minimum \<union> layer_minimum) } })"

text \<open>One round of the third case: what is left of \<open>erasures_total\<close>.\<close>

definition lrc_recover_layer :: "layer \<Rightarrow> int set \<Rightarrow> int set option" where
  "lrc_recover_layer la erasures_total = do {
     let layer_erasures = la_chunks_as_set la \<inter> erasures_total;
     if layer_erasures = {} then Some erasures_total
     else do {
       C \<leftarrow> la_code la;
       Some (if card layer_erasures > 0 \<and> card layer_erasures \<le> get_coding_chunk_count C
             then erasures_total - layer_erasures else erasures_total) } }"

definition lrc_minimum_to_decode :: "lrc \<Rightarrow> int set \<Rightarrow> int set \<Rightarrow> int set \<Rightarrow> (int \<times> int set) option" where
  "lrc_minimum_to_decode L want_to_read available_chunks minimum = do {
     let erasures_total = lrc_missing L available_chunks;
     let erasures_want = erasures_total \<inter> want_to_read;
     if erasures_want = {} then Some (0, want_to_read)
     else do {
       (_, erasures_want, minimum) \<leftarrow>
         ofold (lrc_minimum_layer (lrc_get_chunk_count L) want_to_read) (rev (lrc_layers L))
           (erasures_total, erasures_want, minimum);
       if erasures_want = {} then Some (0, (minimum \<union> want_to_read) - erasures_total)
       else do {
         erasures_total \<leftarrow> ofold lrc_recover_layer (rev (lrc_layers L)) erasures_total;
         Some (if erasures_total = {} then (0, available_chunks) else (- EIO, minimum)) } } }"

section \<open>Encoding\<close>

text \<open>The first loop, from the last layer: the number of the layer to start from.\<close>

fun lrc_top :: "layer list \<Rightarrow> int set \<Rightarrow> nat \<Rightarrow> nat" where
  "lrc_top [] want_to_encode t = t"
| "lrc_top (la # las) want_to_encode t =
     (if want_to_encode \<subseteq> la_chunks_as_set la then t - 1 else lrc_top las want_to_encode (t - 1))"

text \<open>The chunks of a layer, numbered from zero: the lists are shared with \<open>encoded\<close>.
  Reading \<open>(*encoded)[*c]\<close> adds an empty list if there is none.\<close>

fun lrc_layer_chunks :: "int list \<Rightarrow> int \<Rightarrow> chunks \<Rightarrow> chunks \<Rightarrow> chunks \<times> chunks" where
  "lrc_layer_chunks [] j encoded layer_encoded = (encoded, layer_encoded)"
| "lrc_layer_chunks (c # cs) j encoded layer_encoded =
     (let bl = mref [] encoded c; encoded = mput c bl encoded
      in lrc_layer_chunks cs (j + 1) encoded (mput j bl layer_encoded))"

definition lrc_positions :: "int list \<Rightarrow> int set \<Rightarrow> int set" where
  "lrc_positions cs S = int ` {j. j < length cs \<and> cs ! j \<in> S}"

definition lrc_encode_layer :: "int set \<Rightarrow> layer \<Rightarrow> heap \<times> chunks \<Rightarrow> (heap \<times> int \<times> chunks) option" where
  "lrc_encode_layer want_to_encode la s =
     (case s of (h, encoded) \<Rightarrow> do {
        let (encoded, layer_encoded) = lrc_layer_chunks (la_chunks la) 0 encoded [];
        let layer_want_to_encode = lrc_positions (la_chunks la) want_to_encode;
        C \<leftarrow> la_code la;
        (h, err, layer_encoded) \<leftarrow> encode_chunks C layer_want_to_encode layer_encoded h;
        Some (h, err, encoded) })"

fun lrc_encode_layers :: "int set \<Rightarrow> layer list \<Rightarrow> heap \<times> chunks \<Rightarrow> (heap \<times> int \<times> chunks) option" where
  "lrc_encode_layers want_to_encode [] (h, encoded) = Some (h, 0, encoded)"
| "lrc_encode_layers want_to_encode (la # las) (h, encoded) = do {
     (h, err, encoded) \<leftarrow> lrc_encode_layer want_to_encode la (h, encoded);
     if err \<noteq> 0 then Some (h, err, encoded) else lrc_encode_layers want_to_encode las (h, encoded) }"

definition lrc_encode_chunks :: "lrc \<Rightarrow> int set \<Rightarrow> chunks \<Rightarrow> heap \<Rightarrow> (heap \<times> int \<times> chunks) option" where
  "lrc_encode_chunks L want_to_encode encoded h =
     (let t = lrc_top (rev (lrc_layers L)) want_to_encode (length (lrc_layers L))
      in lrc_encode_layers want_to_encode (drop t (lrc_layers L)) (h, encoded))"

section \<open>Decoding\<close>

text \<open>The loop that hands the chunks of a layer over: those that are not erased, and all of them as
  the place for the result.\<close>

fun lrc_decode_select ::
    "int list \<Rightarrow> int \<Rightarrow> int set \<Rightarrow> chunks \<times> chunks \<times> chunks \<Rightarrow> chunks \<times> chunks \<times> chunks" where
  "lrc_decode_select [] j erasures s = s"
| "lrc_decode_select (c # cs) j erasures (decoded, layer_chunks, layer_decoded) =
     (let bl = mref [] decoded c; decoded = mput c bl decoded;
          layer_chunks = (if c \<notin> erasures then mput j bl layer_chunks else layer_chunks)
      in lrc_decode_select cs (j + 1) erasures (decoded, layer_chunks, mput j bl layer_decoded))"

fun lrc_decode_store :: "int list \<Rightarrow> int \<Rightarrow> chunks \<Rightarrow> chunks \<Rightarrow> chunks" where
  "lrc_decode_store [] j layer_decoded decoded = decoded"
| "lrc_decode_store (c # cs) j layer_decoded decoded =
     lrc_decode_store cs (j + 1) layer_decoded (mput c (mref [] layer_decoded j) decoded)"

text \<open>The loop over the layers: the state is \<open>erasures\<close> and \<open>want_to_read_erasures\<close>.\<close>

fun lrc_decode_layers ::
    "int set \<Rightarrow> layer list \<Rightarrow> int set \<Rightarrow> int set \<Rightarrow> heap \<times> chunks \<Rightarrow> (heap \<times> int \<times> chunks \<times> int set) option" where
  "lrc_decode_layers want_to_read [] erasures want_to_read_erasures (h, decoded) =
     Some (h, 0, decoded, want_to_read_erasures)"
| "lrc_decode_layers want_to_read (la # las) erasures want_to_read_erasures (h, decoded) = do {
     let layer_erasures = la_chunks_as_set la \<inter> erasures;
     C \<leftarrow> la_code la;
     if card layer_erasures > get_coding_chunk_count C \<or> card layer_erasures = 0
     then lrc_decode_layers want_to_read las erasures want_to_read_erasures (h, decoded)
     else do {
       let (decoded, layer_chunks, layer_decoded) = lrc_decode_select (la_chunks la) 0 erasures (decoded, [], []);
       let layer_want_to_read = lrc_positions (la_chunks la) want_to_read;
       (h, err, layer_decoded) \<leftarrow> decode_chunks C layer_want_to_read layer_chunks layer_decoded h;
       if err \<noteq> 0 then Some (h, err, decoded, want_to_read_erasures)
       else do {
         let decoded = lrc_decode_store (la_chunks la) 0 layer_decoded decoded;
         let erasures = erasures - set (la_chunks la);
         let want_to_read_erasures = erasures \<inter> want_to_read;
         if want_to_read_erasures = {} then Some (h, 0, decoded, want_to_read_erasures)
         else lrc_decode_layers want_to_read las erasures want_to_read_erasures (h, decoded) } } }"

definition lrc_decode_chunks :: "lrc \<Rightarrow> int set \<Rightarrow> chunks \<Rightarrow> chunks \<Rightarrow> heap \<Rightarrow> (heap \<times> int \<times> chunks) option" where
  "lrc_decode_chunks L want_to_read chunks decoded h = do {
     let erasures = lrc_missing L (set (mkeys chunks));
     (h, err, decoded, want_to_read_erasures) \<leftarrow>
       lrc_decode_layers want_to_read (rev (lrc_layers L)) erasures {} (h, decoded);
     Some (h, (if err \<noteq> 0 then err else if want_to_read_erasures \<noteq> {} then - EIO else 0), decoded) }"

definition lrc_codec :: "lrc \<Rightarrow> codec" where
  "lrc_codec L =
     \<lparr>chunk_mapping = lrc_chunk_mapping L, get_profile = lrc_profile L,
      get_chunk_count = lrc_get_chunk_count L, get_data_chunk_count = lrc_get_data_chunk_count L,
      get_chunk_size = lrc_get_chunk_size L, minimum_to_decode = lrc_minimum_to_decode L,
      encode_chunks = lrc_encode_chunks L, decode_chunks = lrc_decode_chunks L\<rparr>"

end
