(* ===== verification/Lrc_Profile.thy ===== *)
theory Lrc_Profile
  imports Lrc
begin

text \<open>
  From a profile to an LRC object, \<open>src/src/erasure-code/lrc/ErasureCodeLrc.cc\<close>: the short
  form with \<open>k\<close>, \<open>m\<close> and \<open>l\<close>, from which \<open>parse_kml\<close> generates the mapping and the text of the
  layers, the parser of that text, the creation of the code of each layer by the
  registry, and \<open>init\<close>. Signed overflow, division by zero, a string of negative length and
  exceptions nobody catches have no result.
\<close>

section \<open>Construction\<close>

abbreviation (input) ERROR_LRC_STR :: int where "ERROR_LRC_STR \<equiv> - (MAX_ERRNO + 4)"
abbreviation (input) ERROR_LRC_DESCRIPTION :: int where "ERROR_LRC_DESCRIPTION \<equiv> - (MAX_ERRNO + 6)"
abbreviation (input) ERROR_LRC_MAPPING_SIZE :: int where "ERROR_LRC_MAPPING_SIZE \<equiv> - (MAX_ERRNO + 9)"
abbreviation (input) ERROR_LRC_CONFIG_OPTIONS :: int where "ERROR_LRC_CONFIG_OPTIONS \<equiv> - (MAX_ERRNO + 12)"
abbreviation (input) ERROR_LRC_LAYERS_COUNT :: int where "ERROR_LRC_LAYERS_COUNT \<equiv> - (MAX_ERRNO + 13)"
abbreviation (input) ERROR_LRC_ALL_OR_NOTHING :: int where "ERROR_LRC_ALL_OR_NOTHING \<equiv> - (MAX_ERRNO + 17)"
abbreviation (input) ERROR_LRC_GENERATED :: int where "ERROR_LRC_GENERATED \<equiv> - (MAX_ERRNO + 18)"
abbreviation (input) ERROR_LRC_K_M_MODULO :: int where "ERROR_LRC_K_M_MODULO \<equiv> - (MAX_ERRNO + 19)"
abbreviation (input) ERROR_LRC_K_MODULO :: int where "ERROR_LRC_K_MODULO \<equiv> - (MAX_ERRNO + 20)"
abbreviation (input) ERROR_LRC_M_MODULO :: int where "ERROR_LRC_M_MODULO \<equiv> - (MAX_ERRNO + 21)"

definition lrc_new :: "string \<Rightarrow> lrc" where
  "lrc_new dir =
     \<lparr>lrc_layers = [], lrc_directory = dir, lrc_chunk_count = 0, lrc_data_chunk_count = 0,
      lrc_ruleset_root = ''default'',
      lrc_ruleset_steps = [\<lparr>st_op = ''chooseleaf'', st_type = ''host'', st_n = 0\<rparr>],
      lrc_chunk_mapping = [], lrc_profile = []\<rparr>"

definition layer_new :: "string \<Rightarrow> layer" where
  "layer_new chunks_map =
     \<lparr>la_code = None, la_data = [], la_coding = [], la_chunks = [], la_chunks_as_set = {},
      la_chunks_map = chunks_map, la_profile = []\<rparr>"

section \<open>The short form\<close>

definition DEFAULT_KML :: string where
  "DEFAULT_KML = ''-1''"

text \<open>\<open>std::string(n, c)\<close> throws when \<open>n\<close> is negative.\<close>

definition string_n :: "int \<Rightarrow> char \<Rightarrow> string option" where
  "string_n n c = do { assert_that (0 \<le> n); Some (replicate (nat n) c) }"

definition kml_mapping :: "int \<Rightarrow> int \<Rightarrow> int \<Rightarrow> string option" where
  "kml_mapping k m local_group_count =
     ofold (\<lambda>_ mapping. do {
       d \<leftarrow> string_n (k sdiv local_group_count) (CHR ''D'');
       c \<leftarrow> string_n (m sdiv local_group_count) (CHR ''_'');
       Some (mapping @ d @ c @ ''_'') }) [0..<nat local_group_count] []"

definition kml_global :: "int \<Rightarrow> int \<Rightarrow> int \<Rightarrow> string option" where
  "kml_global k m local_group_count =
     ofold (\<lambda>_ layers. do {
       d \<leftarrow> string_n (k sdiv local_group_count) (CHR ''D'');
       c \<leftarrow> string_n (m sdiv local_group_count) (CHR ''c'');
       Some (layers @ d @ c @ ''_'') }) [0..<nat local_group_count] []"

definition kml_local :: "int \<Rightarrow> int \<Rightarrow> nat \<Rightarrow> string option" where
  "kml_local l local_group_count i =
     ofold (\<lambda>j layers. do {
       s \<leftarrow> (if i = j then do { d \<leftarrow> string_n l (CHR ''D''); Some (d @ ''c'') } else string_n (l + 1) (CHR ''_''));
       Some (layers @ s) }) [0..<nat local_group_count] []"

definition kml_layers :: "int \<Rightarrow> int \<Rightarrow> int \<Rightarrow> int \<Rightarrow> string option" where
  "kml_layers k m l local_group_count = do {
     g \<leftarrow> kml_global k m local_group_count;
     let layers = ''[ '' @ '' [ '' @ [CHR 0x22] @ g @ [CHR 0x22] @ '', '' @ [CHR 0x22, CHR 0x22] @ '' ],'';
     layers \<leftarrow> ofold (\<lambda>i layers. do {
         s \<leftarrow> kml_local l local_group_count i;
         Some (layers @ '' [ '' @ [CHR 0x22] @ s @ [CHR 0x22] @ '', '' @ [CHR 0x22, CHR 0x22] @ '' ],'') })
       [0..<nat local_group_count] layers;
     Some (layers @ '']'') }"

definition lrc_default_steps :: "string \<Rightarrow> string \<Rightarrow> int \<Rightarrow> int \<Rightarrow> ruleset_step list \<Rightarrow> ruleset_step list" where
  "lrc_default_steps ruleset_locality ruleset_failure_domain local_group_count l ruleset_steps =
     (if ruleset_locality \<noteq> [] then
        [\<lparr>st_op = ''choose'', st_type = ruleset_locality, st_n = local_group_count\<rparr>,
         \<lparr>st_op = ''chooseleaf'', st_type = ruleset_failure_domain, st_n = l + 1\<rparr>]
      else if ruleset_failure_domain \<noteq> [] then
        [\<lparr>st_op = ''chooseleaf'', st_type = ruleset_failure_domain, st_n = 0\<rparr>]
      else ruleset_steps)"

text \<open>What \<open>parse_kml\<close> does once all three are set: the code, the profile and the groups.\<close>

definition kml_generate :: "int \<Rightarrow> int \<Rightarrow> int \<Rightarrow> profile \<Rightarrow> (int \<times> profile \<times> int) option" where
  "kml_generate k m l profile =
     (if mget profile ''mapping'' \<noteq> None \<or> mget profile ''layers'' \<noteq> None \<or> mget profile ''ruleset-steps'' \<noteq> None
      then Some (ERROR_LRC_GENERATED, profile, 0)
      else do {
        assert_that (INT_MIN \<le> k + m \<and> k + m \<le> INT_MAX \<and> l \<noteq> 0);
        if (k + m) smod l \<noteq> 0 then Some (ERROR_LRC_K_M_MODULO, profile, 0)
        else do {
          let local_group_count = (k + m) sdiv l;
          assert_that (local_group_count \<noteq> 0 \<and> \<not> (local_group_count = - 1 \<and> (k = INT_MIN \<or> m = INT_MIN)));
          if k smod local_group_count \<noteq> 0 then Some (ERROR_LRC_K_MODULO, profile, 0)
          else if m smod local_group_count \<noteq> 0 then Some (ERROR_LRC_M_MODULO, profile, 0)
          else do {
            mapping \<leftarrow> kml_mapping k m local_group_count;
            let profile = mput ''mapping'' mapping profile;
            layers \<leftarrow> kml_layers k m l local_group_count;
            Some (0, mput ''layers'' layers profile, local_group_count) } } })"

definition lrc_parse_kml :: "lrc \<Rightarrow> profile \<Rightarrow> (int \<times> lrc \<times> profile) option" where
  "lrc_parse_kml L profile = do {
     let (err, chunk_mapping) = parse_base profile (lrc_chunk_mapping L);
     let L = L\<lparr>lrc_chunk_mapping := chunk_mapping\<rparr>;
     let (err_k, profile, k) = to_int ''k'' profile DEFAULT_KML;
     let (err_m, profile, m) = to_int ''m'' profile DEFAULT_KML;
     let (err_l, profile, l) = to_int ''l'' profile DEFAULT_KML;
     let err = err OR err_k OR err_m OR err_l;
     if k = - 1 \<and> m = - 1 \<and> l = - 1 then Some (err, L, profile)
     else if k = - 1 \<or> m = - 1 \<or> l = - 1 then Some (ERROR_LRC_ALL_OR_NOTHING, L, profile)
     else do {
       (r, profile, local_group_count) \<leftarrow> kml_generate k m l profile;
       if r \<noteq> 0 then Some (r, L, profile)
       else Some (err, L\<lparr>lrc_ruleset_steps :=
         lrc_default_steps (mref [] profile ''ruleset-locality'') (mref ''host'' profile ''ruleset-failure-domain'')
           local_group_count l (lrc_ruleset_steps L)\<rparr>, profile) } }"

section \<open>Layers\<close>

definition lrc_layers_description :: "spirit \<Rightarrow> profile \<Rightarrow> (int \<times> json list) option" where
  "lrc_layers_description sp profile =
     (case mget profile ''layers'' of
        None \<Rightarrow> Some (ERROR_LRC_DESCRIPTION, [])
      | Some str \<Rightarrow> do {
          res \<leftarrow> read_or_throw sp str;
          (case res of
             Inl _ \<Rightarrow> Some (ERROR_LRC_PARSE_JSON, [])
           | Inr v \<Rightarrow> if json_type v \<noteq> array_type then Some (ERROR_LRC_ARRAY, [])
                      else do { arr \<leftarrow> get_array v; Some (0, arr) }) })"

text \<open>The elements of one entry: the first is the map of the layer's chunks, the second its profile.\<close>

fun layer_elements :: "spirit \<Rightarrow> nat \<Rightarrow> json list \<Rightarrow> layer list \<Rightarrow> (int \<times> layer list) option" where
  "layer_elements sp index [] layers = Some (0, layers)"
| "layer_elements sp index (v # vs) layers =
     (if index = 0 then
        (if json_type v \<noteq> str_type then Some (ERROR_LRC_STR, layers)
         else do { s \<leftarrow> get_str v; layer_elements sp (index + 1) vs (layers @ [layer_new s]) })
      else if index = 1 then
        (if json_type v \<noteq> str_type \<and> json_type v \<noteq> obj_type then Some (ERROR_LRC_CONFIG_OPTIONS, layers)
         else do {
           let la = last layers;
           (err, p) \<leftarrow> (if json_type v = str_type
              then do { s \<leftarrow> get_str v; get_json_str_map sp s (la_profile la) True }
              else do { obj \<leftarrow> get_obj v; m \<leftarrow> copy_strings obj (la_profile la); Some (0, m) });
           let layers = butlast layers @ [la\<lparr>la_profile := p\<rparr>];
           if err \<noteq> 0 then Some (err, layers) else layer_elements sp (index + 1) vs layers })
      else layer_elements sp (index + 1) vs layers)"

fun lrc_layers_parse :: "spirit \<Rightarrow> json list \<Rightarrow> layer list \<Rightarrow> (int \<times> layer list) option" where
  "lrc_layers_parse sp [] layers = Some (0, layers)"
| "lrc_layers_parse sp (v # vs) layers =
     (if json_type v \<noteq> array_type then Some (ERROR_LRC_ARRAY, layers)
      else do {
        layer_json \<leftarrow> get_array v;
        (err, layers) \<leftarrow> layer_elements sp 0 layer_json layers;
        if err \<noteq> 0 then Some (err, layers) else lrc_layers_parse sp vs layers })"

definition map_positions :: "char list \<Rightarrow> string \<Rightarrow> int list" where
  "map_positions cs s = map int (filter (\<lambda>i. s ! i \<in> set cs) [0..<length s])"

definition default_entry :: "string \<Rightarrow> string \<Rightarrow> profile \<Rightarrow> profile" where
  "default_entry name val profile = (if mget profile name = None then mput name val profile else profile)"

text \<open>The fields of a layer before its code is created.\<close>

definition layer_prepare :: "layer \<Rightarrow> layer" where
  "layer_prepare la =
     (let s = la_chunks_map la; data = la_data la @ map_positions ''D'' s; coding = la_coding la @ map_positions ''c'' s
      in la\<lparr>la_data := data, la_coding := coding, la_chunks := data @ coding,
            la_chunks_as_set := la_chunks_as_set la \<union> set (map_positions ''cD'' s),
            la_profile := default_entry ''technique'' ''reed_sol_van'' (default_entry ''plugin'' ''jerasure''
              (default_entry ''m'' (stringify (length coding)) (default_entry ''k'' (stringify (length data)) (la_profile la))))\<rparr>)"

fun lrc_layers_init :: "linker \<Rightarrow> string \<Rightarrow> string \<Rightarrow> layer list \<Rightarrow> registry \<Rightarrow> (int \<times> layer list \<times> registry) option" where
  "lrc_layers_init dl ver directory [] reg = Some (0, [], reg)"
| "lrc_layers_init dl ver directory (la # las) reg = do {
     let la = layer_prepare la;
     (err, code, p, reg) \<leftarrow> registry_factory dl ver (mref [] (la_profile la) ''plugin'') directory (la_profile la) reg;
     let la = la\<lparr>la_code := code, la_profile := p\<rparr>;
     if err \<noteq> 0 then Some (err, la # las, reg)
     else do {
       (err, las, reg) \<leftarrow> lrc_layers_init dl ver directory las reg;
       Some (err, la # las, reg) } }"

definition lrc_layers_sanity_checks :: "lrc \<Rightarrow> int" where
  "lrc_layers_sanity_checks L =
     (if length (lrc_layers L) < 1 then ERROR_LRC_LAYERS_COUNT
      else if list_ex (\<lambda>la. lrc_chunk_count L \<noteq> length (la_chunks_map la)) (lrc_layers L) then ERROR_LRC_MAPPING_SIZE
      else 0)"

section \<open>\<open>init\<close>\<close>

definition lrc_parse_ruleset :: "spirit \<Rightarrow> lrc \<Rightarrow> profile \<Rightarrow> (int \<times> lrc \<times> profile) option" where
  "lrc_parse_ruleset sp L profile = do {
     let (err, profile, root) = to_string ''ruleset-root'' profile ''default'';
     let L = L\<lparr>lrc_ruleset_root := root\<rparr>;
     (case mget profile ''ruleset-steps'' of
        None \<Rightarrow> Some (0, L, profile)
      | Some str \<Rightarrow> do {
          (err, steps) \<leftarrow> parse_ruleset_steps sp str;
          Some (err, L\<lparr>lrc_ruleset_steps := steps\<rparr>, profile) }) }"

definition lrc_parse :: "spirit \<Rightarrow> lrc \<Rightarrow> profile \<Rightarrow> (int \<times> lrc \<times> profile) option" where
  "lrc_parse sp L profile = do {
     let (r, chunk_mapping) = parse_base profile (lrc_chunk_mapping L);
     let L = L\<lparr>lrc_chunk_mapping := chunk_mapping\<rparr>;
     if r \<noteq> 0 then Some (r, L, profile) else lrc_parse_ruleset sp L profile }"

text \<open>The end of \<open>init\<close>, once the layers have their codes.\<close>

definition lrc_init_mapping :: "lrc \<Rightarrow> profile \<Rightarrow> int \<times> lrc \<times> profile" where
  "lrc_init_mapping L profile =
     (case mget profile ''mapping'' of
        None \<Rightarrow> (ERROR_LRC_MAPPING, L, profile)
      | Some mapping \<Rightarrow>
          let L = L\<lparr>lrc_data_chunk_count := length (filter (\<lambda>c. c = CHR ''D'') mapping),
                    lrc_chunk_count := length mapping\<rparr>;
              r = lrc_layers_sanity_checks L
          in if r \<noteq> 0 then (r, L, profile)
             else
               let profile = (case mget profile ''l'' of
                      None \<Rightarrow> profile
                    | Some l \<Rightarrow> if l \<noteq> DEFAULT_KML then mdel ''layers'' (mdel ''mapping'' profile) else profile)
               in (0, L\<lparr>lrc_profile := profile\<rparr>, profile))"

definition lrc_init ::
    "spirit \<Rightarrow> linker \<Rightarrow> string \<Rightarrow> lrc \<Rightarrow> profile \<Rightarrow> registry \<Rightarrow> (int \<times> lrc \<times> profile \<times> registry) option" where
  "lrc_init sp dl ver L profile reg = do {
     (r, L, profile) \<leftarrow> lrc_parse_kml L profile;
     if r \<noteq> 0 then Some (r, L, profile, reg)
     else do {
       (r, L, profile) \<leftarrow> lrc_parse sp L profile;
       if r \<noteq> 0 then Some (r, L, profile, reg)
       else do {
         (r, description) \<leftarrow> lrc_layers_description sp profile;
         if r \<noteq> 0 then Some (r, L, profile, reg)
         else do {
           (r, layers) \<leftarrow> lrc_layers_parse sp description (lrc_layers L);
           if r \<noteq> 0 then Some (r, L\<lparr>lrc_layers := layers\<rparr>, profile, reg)
           else do {
             (r, layers, reg) \<leftarrow> lrc_layers_init dl ver (lrc_directory L) layers reg;
             let L = L\<lparr>lrc_layers := layers\<rparr>;
             if r \<noteq> 0 then Some (r, L, profile, reg)
             else do {
               let (r, L, profile) = lrc_init_mapping L profile;
               Some (r, L, profile, reg) } } } } } }"

definition lrc_factory ::
    "spirit \<Rightarrow> linker \<Rightarrow> string \<Rightarrow> string \<Rightarrow> profile \<Rightarrow> registry \<Rightarrow> (int \<times> lrc option \<times> profile \<times> registry) option" where
  "lrc_factory sp dl ver directory profile reg = do {
     (r, interface, profile, reg) \<leftarrow> lrc_init sp dl ver (lrc_new directory) profile reg;
     Some (if r \<noteq> 0 then (r, None, profile, reg) else (0, Some interface, profile, reg)) }"

end
