(* ===== verification/Lrc_Kml.thy ===== *)
theory Lrc_Kml
  imports Lrc_Profile
begin

text \<open>
  The text of the layers that \<open>parse_kml\<close> generates, and that the JSON reader, the parser
  of the layers and the default profile turn it into the layers it describes. The text has a
  comma before the closing bracket, which the grammar of the reader tolerates.
\<close>

section \<open>Reading the text\<close>

definition layer_row :: "string \<Rightarrow> string" where
  "layer_row s = ''[ '' @ [CHR 0x22] @ s @ [CHR 0x22] @ '', '' @ [CHR 0x22, CHR 0x22] @ '' ]''"

definition layers_text :: "string list \<Rightarrow> string" where
  "layers_text rows = ''[ '' @ concat (map (\<lambda>s. '' '' @ layer_row s @ '','') rows) @ '']''"

definition layers_json :: "string list \<Rightarrow> json list" where
  "layers_json rows = map (\<lambda>s. JArr [JStr s, JStr []]) rows"

definition map_text :: "string \<Rightarrow> bool" where
  "map_text s \<longleftrightarrow> set s \<subseteq> set ''Dc_''"

text \<open>A generator that writes every character as it is.\<close>

definition plain_generator :: generator where
  "plain_generator = example_generator\<lparr>raw_utf8 := True\<rparr>"

lemma plain_output: "map_text s \<Longrightarrow> json_output plain_generator level (JStr s) = CHR 0x22 # s @ [CHR 0x22]"
proof -
  assume "map_text s"
  then have "add_esc_chars plain_generator s = s"
    by (induction s) (auto simp: map_text_def add_esc_chars_def write_char_def add_esc_char_def plain_generator_def)
  then show ?thesis by (simp add: output_str_def)
qed

fun row_output :: "json \<Rightarrow> string" where
  "row_output (JArr (JStr s # _)) = layer_row s"
| "row_output _ = []"

context spirit_lib
begin

lemma row_reads: "map_text s \<Longrightarrow> reads row_output (\<lambda>f. json_value f sp) (JArr [JStr s, JStr []])"
  unfolding reads_def
proof (intro allI impI)
  fix f ws r
  assume s: "map_text s" and ws: "list_all is_space ws" and f: "length (ws @ row_output (JArr [JStr s, JStr []]) @ r) < f"
  let ?g = "json_output plain_generator 0"
  have "map_text []" by (simp add: map_text_def)
  note out = plain_output [OF s] plain_output [OF this]
  have "json_writable plain_generator (JStr u)" for u
    by (simp add: plain_generator_def char_writable_def list_all_iff)
  then have "\<forall>v\<in>set [JStr s, JStr []]. reads ?g (\<lambda>f. json_value f sp) v" using output_reads by auto
  moreover have eq: "row_output (JArr [JStr s, JStr []]) =
      CHR ''['' # [] @ output_items '' '' [] (map ?g [JStr s, JStr []]) @ '' '' @ '']''"
    by (simp add: layer_row_def output_items_Cons out del: json_output.simps)
  ultimately show "json_value f sp (ws @ row_output (JArr [JStr s, JStr []]) @ r) = Hit (JArr [JStr s, JStr []]) r"
    using array_output [of "[JStr s, JStr []]" ?g ws "[]" "'' ''" "[]" "'' ''" r f] ws f by (simp del: json_output.simps json_value.simps)
qed

lemma elements_trailing:
  assumes "\<forall>v\<in>set vs. reads out (\<lambda>f. json_value f sp) v" "list_all is_space w"
    "length (concat (map (\<lambda>v. CHR '','' # w @ out v) vs) @ '',]'' @ r) < f"
  shows "json_elements f sp acc (concat (map (\<lambda>v. CHR '','' # w @ out v) vs) @ '',]'' @ r) = Hit (acc @ vs) (CHR '']'' # r)"
  using assms
proof (induction vs arbitrary: f acc)
  case Nil
  then obtain f'' where f: "f = Suc (Suc f'')" by (cases f; cases "f - 1") auto
  have "json_value (Suc f'') sp (CHR '']'' # r) = Miss"
    using scalar_miss [of "CHR '']'' # r" "CHR '']''"] by (simp add: starts_def json_literal_def)
  moreover have "json_elements (Suc f'') sp acc (CHR '']'' # r) = Hit acc (CHR '']'' # r)" by (simp add: starts_def)
  ultimately show ?case by (simp add: f starts_def Let_def del: json_value.simps)
next
  case (Cons v vs)
  let ?t = "concat (map (\<lambda>v. CHR '','' # w @ out v) vs) @ '',]'' @ r"
  obtain f' where f: "f = Suc f'" using Cons.prems by (cases f) auto
  have "value_end ?t" by (cases vs) (auto simp: value_end_def)
  then have "json_value f' sp (w @ out v @ ?t) = Hit v ?t"
    using Cons.prems f by (intro readsD [of out]) auto
  moreover have "json_elements f' sp (acc @ [v]) ?t = Hit (acc @ [v] @ vs) (CHR '']'' # r)"
    using Cons.IH [of f' "acc @ [v]"] Cons.prems f by simp
  ultimately show ?case by (simp add: f starts_def Let_def)
qed

lemma layers_text_items:
  "layers_text (s # ss) =
     CHR ''['' # ''  '' @ row_output (JArr [JStr s, JStr []]) @
       concat (map (\<lambda>v. CHR '','' # '' '' @ row_output v) (layers_json ss)) @ '',]''"
  by (induction ss arbitrary: s) (auto simp: layers_text_def layers_json_def)

lemma layers_text_read:
  assumes "rows \<noteq> []" "\<forall>s\<in>set rows. map_text s"
  shows "read_or_throw sp (layers_text rows) = Some (Inr (JArr (layers_json rows)))"
proof (cases rows)
  case (Cons s ss)
  let ?v = "JArr [JStr s, JStr []]"
  let ?t = "concat (map (\<lambda>v. CHR '','' # '' '' @ row_output v) (layers_json ss)) @ '',]''"
  let ?u = "''  '' @ row_output ?v @ ?t"
  have txt_eq: "layers_text rows = CHR ''['' # ?u" unfolding Cons by (rule layers_text_items)
  define f where "f = Suc (length ?u)"
  have rows: "\<forall>v\<in>set (layers_json ss). reads row_output (\<lambda>f. json_value f sp) v" "reads row_output (\<lambda>f. json_value f sp) ?v"
    using assms(2) Cons row_reads by (auto simp: layers_json_def)
  have "value_end ?t" by (cases ss) (auto simp: value_end_def layers_json_def)
  then have "json_value f sp ?u = Hit ?v ?t"
    using rows(2) by (intro readsD [of row_output]) (simp_all add: f_def)
  moreover have "json_elements f sp [?v] ?t = Hit ([?v] @ layers_json ss) (CHR '']'' # [])"
    using elements_trailing [OF rows(1), of "'' ''" "[]" f "[?v]"] by (simp add: f_def)
  ultimately have "json_value (Suc f) sp (CHR ''['' # ?u) = Hit (JArr (layers_json rows)) []"
    using scalar_miss [of "CHR ''['' # ?u" "CHR ''[''"] Cons by (simp add: starts_def Let_def closing_def layers_json_def)
  moreover have "Suc f = Suc (length (layers_text rows))" by (simp add: txt_eq f_def)
  ultimately show ?thesis by (simp add: read_or_throw_def txt_eq del: json_value.simps)
qed (use assms in simp)

lemma read_empty: "read_or_throw sp [] = Some (Inl not_value)"
  using no_number [of "[]"]
  by (simp add: read_or_throw_def json_scalar_def json_string_def json_number_def starts_def json_literal_def skip_space_def)

lemma str_map_empty: "get_json_str_map sp [] m True = Some (0, m)"
  by (simp add: get_json_str_map_def read_empty get_str_map_def get_str_list_delims_def str_list_loop.simps get_next_token_def)

lemma rows_parse: "lrc_layers_parse sp (layers_json rows) layers = Some (0, layers @ map layer_new rows)"
proof (induction rows arbitrary: layers)
  case (Cons s rows)
  have "layer_elements sp 0 [JStr s, JStr []] layers = Some (0, layers @ [layer_new s])"
    by (simp add: str_map_empty layer_new_def get_str_def)
  with Cons show ?case by (simp add: layers_json_def get_array_def del: layer_elements.simps)
qed (simp add: layers_json_def)

end

section \<open>What is generated\<close>

text \<open>The maps are made of one block for each local group.\<close>

definition mapping_block :: "nat \<Rightarrow> nat \<Rightarrow> string" where
  "mapping_block kk mm = replicate kk (CHR ''D'') @ replicate mm (CHR ''_'') @ ''_''"

definition global_block :: "nat \<Rightarrow> nat \<Rightarrow> string" where
  "global_block kk mm = replicate kk (CHR ''D'') @ replicate mm (CHR ''c'') @ ''_''"

definition local_block :: "nat \<Rightarrow> bool \<Rightarrow> string" where
  "local_block l here = (if here then replicate l (CHR ''D'') @ ''c'' else replicate (l + 1) (CHR ''_''))"

definition mapping_row :: "nat \<Rightarrow> nat \<Rightarrow> nat \<Rightarrow> string" where
  "mapping_row g kk mm = concat (replicate g (mapping_block kk mm))"

definition global_row :: "nat \<Rightarrow> nat \<Rightarrow> nat \<Rightarrow> string" where
  "global_row g kk mm = concat (replicate g (global_block kk mm))"

definition local_row :: "nat \<Rightarrow> nat \<Rightarrow> nat \<Rightarrow> string" where
  "local_row g l i = concat (map (\<lambda>j. local_block l (i = j)) [0..<g])"

definition kml_rows :: "nat \<Rightarrow> nat \<Rightarrow> nat \<Rightarrow> string list" where
  "kml_rows g kk mm = global_row g kk mm # map (local_row g (kk + mm)) [0..<g]"

lemma ofold_pieces: "(\<And>x acc. f x acc = Some (acc @ p x)) \<Longrightarrow> ofold f xs acc = Some (acc @ concat (map p xs))"
  by (induction xs arbitrary: acc) auto

lemma map_const_upt: "map (\<lambda>_. x) [0..<n] = replicate n x"
  by (simp add: map_replicate_const)

lemma kml_mapping_row:
  assumes "0 < g"
  shows "kml_mapping (int (g * kk)) (int (g * mm)) (int g) = Some (mapping_row g kk mm)"
  unfolding kml_mapping_def mapping_row_def
  by (subst ofold_pieces [where p = "\<lambda>_. mapping_block kk mm"])
    (use assms in \<open>simp_all add: string_n_def mapping_block_def map_const_upt del: of_nat_mult\<close>)

lemma kml_global_row:
  assumes "0 < g"
  shows "kml_global (int (g * kk)) (int (g * mm)) (int g) = Some (global_row g kk mm)"
  unfolding kml_global_def global_row_def
  by (subst ofold_pieces [where p = "\<lambda>_. global_block kk mm"])
    (use assms in \<open>simp_all add: string_n_def global_block_def map_const_upt del: of_nat_mult\<close>)

lemma kml_local_row: "kml_local (int l) (int g) i = Some (local_row g l i)"
  unfolding kml_local_def local_row_def
  by (subst ofold_pieces [where p = "\<lambda>j. local_block l (i = j)"]) (auto simp: string_n_def local_block_def nat_add_distrib)

lemma kml_layers_text:
  assumes "0 < g"
  shows "kml_layers (int (g * kk)) (int (g * mm)) (int (kk + mm)) (int g) = Some (layers_text (kml_rows g kk mm))"
  unfolding kml_layers_def kml_global_row [OF assms] kml_local_row bind.bind_lunit Let_def
  by (subst ofold_pieces [where p = "\<lambda>i. '' '' @ layer_row (local_row g (kk + mm) i) @ '',''"])
    (simp_all add: layers_text_def kml_rows_def layer_row_def comp_def)

lemma rows_text: "\<forall>s\<in>set (kml_rows g kk mm). map_text s"
  by (auto simp: kml_rows_def map_text_def global_row_def local_row_def global_block_def local_block_def split: if_splits)

lemma kml_generated:
  assumes "0 < g" "0 < kk + mm" "int (g * (kk + mm)) \<le> INT_MAX"
    "mget p ''mapping'' = None" "mget p ''layers'' = None" "mget p ''ruleset-steps'' = None"
  shows "kml_generate (int (g * kk)) (int (g * mm)) (int (kk + mm)) p =
    Some (0, mput ''layers'' (layers_text (kml_rows g kk mm)) (mput ''mapping'' (mapping_row g kk mm) p), int g)"
proof -
  have sum: "int (g * kk) + int (g * mm) = int (g * (kk + mm))" by (simp add: algebra_simps)
  have "int (g * (kk + mm)) sdiv int (kk + mm) = int g" "int (g * (kk + mm)) smod int (kk + mm) = 0"
    "int (g * kk) smod int g = 0" "int (g * mm) smod int g = 0"
    using assms(2) by (simp_all only: sdiv_smod_nat) auto
  with assms kml_mapping_row [of g kk mm] kml_layers_text [of g kk mm] show ?thesis
    by (simp add: kml_generate_def sum INT_MIN_def Let_def del: of_nat_mult of_nat_add)
qed

section \<open>Positions\<close>

lemma set_map_positions: "set (map_positions cs s) = int ` {i. i < length s \<and> s ! i \<in> set cs}"
  by (auto simp: map_positions_def)

lemma distinct_map_positions: "distinct (map_positions cs s)"
  by (simp add: map_positions_def distinct_map)

lemma filter_nth_upt: "length (filter (\<lambda>i. P (s ! i)) [0..<length s]) = length (filter P s)"
proof -
  have "length (filter P (map ((!) s) [0..<length s])) = length (filter (\<lambda>i. P (s ! i)) [0..<length s])"
    by (simp add: filter_map comp_def)
  then show ?thesis by (simp add: map_nth)
qed

lemma length_map_positions: "length (map_positions cs s) = length (filter (\<lambda>c. c \<in> set cs) s)"
  by (simp add: map_positions_def filter_nth_upt [of "\<lambda>c. c \<in> set cs"])

lemma mapping_positions_bij:
  "bij_betw (chunk_index (mapping_positions s)) {..<length s} (int ` {..<length s})"
proof -
  let ?xs = "mapping_positions s"
  have len: "length ?xs = length s"
    using sum_length_filter_compl [of "\<lambda>i. s ! i = CHR ''D''" "[0..<length s]"] by (simp add: mapping_positions_def)
  have "distinct ?xs" "set ?xs = int ` {..<length s}"
    by (auto simp: mapping_positions_def distinct_map)
  then have "bij_betw ((!) ?xs) {..<length s} (int ` {..<length s})" using len by (intro bij_betw_nth) auto
  then show ?thesis by (rule bij_betw_cong [THEN iffD1, rotated]) (simp add: chunk_index_def len)
qed

lemma mapping_positions_data:
  "chunk_index (mapping_positions s) ` {..<length (filter (\<lambda>c. c = CHR ''D'') s)} = int ` {i. i < length s \<and> s ! i = CHR ''D''}"
proof -
  let ?n = "length (filter (\<lambda>c. c = CHR ''D'') s)" and ?xs = "mapping_positions s"
  let ?a = "map int (filter (\<lambda>i. s ! i = CHR ''D'') [0..<length s])"
  have a: "length ?a = ?n" by (simp add: filter_nth_upt [of "\<lambda>c. c = CHR ''D''"])
  then have "chunk_index ?xs i = ?a ! i" if "i < ?n" for i
    using that by (simp add: chunk_index_def mapping_positions_def nth_append)
  then have "chunk_index ?xs ` {..<?n} = (!) ?a ` {..<length ?a}" using a by (auto intro!: image_cong)
  also have "\<dots> = set ?a" using nth_image [of "length ?a" ?a] by (simp add: lessThan_atLeast0)
  finally show ?thesis by auto
qed

lemma nth_blocks:
  "\<forall>x\<in>set xss. length x = b \<Longrightarrow> i < length xss * b \<Longrightarrow> concat xss ! i = xss ! (i div b) ! (i mod b)"
proof (induction xss arbitrary: i)
  case (Cons x xss)
  show ?case
  proof (cases "i < b")
    case False
    then obtain j where "i = b + j" using le_iff_add not_less by metis
    with Cons show ?thesis by (cases "b = 0") (auto simp: nth_append div_add_self1)
  qed (use Cons in \<open>simp add: nth_append\<close>)
qed simp

lemma length_blocks: "\<forall>x\<in>set xss. length x = b \<Longrightarrow> length (concat xss) = length xss * b"
  by (induction xss) auto

lemma block_length [simp]:
  "length (mapping_block kk mm) = kk + mm + 1" "length (global_block kk mm) = kk + mm + 1" "length (local_block l b) = l + 1"
  by (simp_all add: mapping_block_def global_block_def local_block_def)

lemma local_block_nth:
  "q < l + 1 \<Longrightarrow> local_block l here ! q = (if \<not> here then CHR ''_'' else if q < l then CHR ''D'' else CHR ''c'')"
  unfolding local_block_def by (simp add: nth_append del: replicate_Suc)

lemma row_nth:
  assumes "p < g * (kk + mm + 1)"
  shows "mapping_row g kk mm ! p = (if p mod (kk + mm + 1) < kk then CHR ''D'' else CHR ''_'')"
    "global_row g kk mm ! p =
       (if p mod (kk + mm + 1) < kk then CHR ''D'' else if p mod (kk + mm + 1) < kk + mm then CHR ''c'' else CHR ''_'')"
    "local_row g (kk + mm) i ! p =
       (if p div (kk + mm + 1) \<noteq> i then CHR ''_'' else if p mod (kk + mm + 1) < kk + mm then CHR ''D'' else CHR ''c'')"
proof -
  let ?b = "kk + mm + 1"
  have q: "p div ?b < g" "p mod ?b < ?b" using assms by (auto simp: div_less_iff_less_mult)
  have "mapping_row g kk mm ! p = mapping_block kk mm ! (p mod ?b)"
    using nth_blocks [of "replicate g (mapping_block kk mm)" ?b p] assms q by (simp add: mapping_row_def)
  then show "mapping_row g kk mm ! p = (if p mod ?b < kk then CHR ''D'' else CHR ''_'')"
    using q(2) by (auto simp: mapping_block_def nth_append nth_Cons')
  have "global_row g kk mm ! p = global_block kk mm ! (p mod ?b)"
    using nth_blocks [of "replicate g (global_block kk mm)" ?b p] assms q by (simp add: global_row_def)
  then show "global_row g kk mm ! p = (if p mod ?b < kk then CHR ''D'' else if p mod ?b < kk + mm then CHR ''c'' else CHR ''_'')"
    using q(2) by (auto simp: global_block_def nth_append nth_Cons')
  have "local_row g (kk + mm) i ! p = local_block (kk + mm) (i = p div ?b) ! (p mod ?b)"
    using nth_blocks [of "map (\<lambda>j. local_block (kk + mm) (i = j)) [0..<g]" ?b p] assms q
    by (simp add: local_row_def)
  then show "local_row g (kk + mm) i ! p =
      (if p div ?b \<noteq> i then CHR ''_'' else if p mod ?b < kk + mm then CHR ''D'' else CHR ''c'')"
    using q(2) by (simp add: local_block_nth)
qed

lemma row_length [simp]:
  "length (mapping_row g kk mm) = g * (kk + mm + 1)" "length (global_row g kk mm) = g * (kk + mm + 1)"
  "length (local_row g l i) = g * (l + 1)"
  using length_blocks [of "replicate g (mapping_block kk mm)" "kk + mm + 1"]
    length_blocks [of "replicate g (global_block kk mm)" "kk + mm + 1"]
    length_blocks [of "map (\<lambda>j. local_block l (i = j)) [0..<g]" "l + 1"]
  by (simp_all add: mapping_row_def global_row_def local_row_def)

lemma filter_blocks: "length (filter P (concat (replicate g x))) = g * length (filter P x)"
  by (induction g) auto

lemma row_counts:
  "length (filter (\<lambda>c. c = CHR ''D'') (mapping_row g kk mm)) = g * kk"
  "length (map_positions ''D'' (global_row g kk mm)) = g * kk"
  "length (map_positions ''c'' (global_row g kk mm)) = g * mm"
  by (simp_all add: length_map_positions mapping_row_def global_row_def filter_blocks mapping_block_def global_block_def)

lemma local_counts:
  assumes "i < g"
  shows "length (map_positions ''D'' (local_row g l i)) = l" "length (map_positions ''c'' (local_row g l i)) = 1"
proof -
  have one: "sum_list (map (\<lambda>j. if i = j then a else 0) [0..<g]) = (a :: nat)" for a
    using assms by (simp add: sum_list_distinct_conv_sum_set)
  have pick: "length (filter P (local_row g l i)) = sum_list (map (\<lambda>j. if i = j then length (filter P (local_block l True)) else 0) [0..<g])"
    if "\<not> P (CHR ''_'')" for P
    unfolding local_row_def filter_concat length_concat map_map
    by (rule arg_cong [of _ _ sum_list], rule map_cong) (use that in \<open>auto simp: local_block_def\<close>)
  show "length (map_positions ''D'' (local_row g l i)) = l" "length (map_positions ''c'' (local_row g l i)) = 1"
    by (simp_all add: length_map_positions pick one local_block_def)
qed

end
