(* ===== verification/Lrc_Minimum.thy ===== *)
theory Lrc_Minimum
  imports Lrc
begin

text \<open>
  The chunks \<open>ErasureCodeLrc::minimum_to_decode\<close> asks for are enough: the loop of
  \<open>decode_chunks\<close>, given these chunks only, reaches every chunk that is wanted. Both loops
  count erasures per layer; \<open>lrc_left\<close> is what the loop of \<open>decode_chunks\<close> leaves.
\<close>

section \<open>Well formed layers\<close>

definition layer_wf :: "nat \<Rightarrow> layer \<Rightarrow> bool" where
  "layer_wf n la \<longleftrightarrow>
     (case la_code la of
        None \<Rightarrow> False
      | Some C \<Rightarrow> get_data_chunk_count C \<le> get_chunk_count C \<and> get_chunk_count C < 2 ^ 32 \<and>
          0 < get_data_chunk_count C \<and> length (la_chunks la) = get_chunk_count C) \<and>
     distinct (la_chunks la) \<and> la_chunks_as_set la = set (la_chunks la) \<and> set (la_chunks la) \<subseteq> int ` {..<n}"

definition lrc_wf :: "lrc \<Rightarrow> bool" where
  "lrc_wf L \<longleftrightarrow> (\<forall>la\<in>set (lrc_layers L). layer_wf (lrc_chunk_count L) la)"

text \<open>The erasures after the layers in the order of the loop, without its early exit, which is taken
  when nothing wanted is left.\<close>

definition layer_left :: "layer \<Rightarrow> int set \<Rightarrow> int set" where
  "layer_left la E =
     (case la_code la of
        None \<Rightarrow> E
      | Some C \<Rightarrow> if card (la_chunks_as_set la \<inter> E) > get_coding_chunk_count C then E else E - la_chunks_as_set la)"

definition lrc_left :: "layer list \<Rightarrow> int set \<Rightarrow> int set" where
  "lrc_left las E = fold layer_left las E"

definition lrc_restores :: "lrc \<Rightarrow> int set \<Rightarrow> int set \<Rightarrow> bool" where
  "lrc_restores L want A \<longleftrightarrow> want \<inter> lrc_left (rev (lrc_layers L)) (lrc_missing L A) = {}"

lemma layer_left_subset: "layer_left la E \<subseteq> E"
  by (auto simp: layer_left_def split: option.splits)

lemma lrc_left_subset: "lrc_left las E \<subseteq> E"
  unfolding lrc_left_def
proof (induction las arbitrary: E)
  case (Cons la las)
  from Cons.IH [of "layer_left la E"] layer_left_subset [of la E] show ?case by auto
qed simp

lemma lrc_missing_iff: "c \<in> lrc_missing L A \<longleftrightarrow> c \<in> int ` {..<lrc_chunk_count L} \<and> c \<notin> A"
  by (auto simp: lrc_missing_def lrc_get_chunk_count_def)

lemma layer_wfD:
  assumes "layer_wf n la"
  obtains C where "la_code la = Some C" "get_coding_chunk_count C = get_chunk_count C - get_data_chunk_count C"
    "card (la_chunks_as_set la) = get_chunk_count C" "get_data_chunk_count C \<le> get_chunk_count C"
    "0 < get_data_chunk_count C" "finite (la_chunks_as_set la)" "la_chunks_as_set la \<subseteq> int ` {..<n}"
proof -
  obtain C where C: "la_code la = Some C" using assms by (auto simp: layer_wf_def split: option.splits)
  with assms have w: "get_data_chunk_count C \<le> get_chunk_count C" "get_chunk_count C < 2 ^ 32" "0 < get_data_chunk_count C"
      "length (la_chunks la) = get_chunk_count C" "distinct (la_chunks la)" "la_chunks_as_set la = set (la_chunks la)"
      "set (la_chunks la) \<subseteq> int ` {..<n}" by (auto simp: layer_wf_def)
  have "get_coding_chunk_count C = get_chunk_count C - get_data_chunk_count C"
    using w(1,2) by (simp add: get_coding_chunk_count_def)
  with C w distinct_card [OF w(5)] show ?thesis by (intro that [of C]) simp_all
qed

section \<open>The second case\<close>

text \<open>The loop that takes the first available chunks takes enough of them.\<close>

lemma lrc_pick_take:
  "k < K \<Longrightarrow> lrc_pick js S K k acc = acc \<union> int ` set (take (K - k) (filter (\<lambda>j. int j \<in> S) js))"
proof (induction js arbitrary: k acc)
  case (Cons j js)
  show ?case
  proof (cases "int j \<in> S \<and> k + 1 \<noteq> K")
    case True
    then have "K - k = Suc (K - (k + 1))" using Cons.prems by simp
    with True Cons show ?thesis by auto
  next
    case False
    with Cons show ?thesis by (auto simp: take_Suc_conv_app_nth Suc_diff_le)
  qed
qed simp

lemma lrc_pick_enough:
  assumes "S \<subseteq> int ` {..<n}" "0 < K" "K \<le> card S"
  shows "lrc_pick [0..<n] S K 0 {} \<subseteq> S" "card (lrc_pick [0..<n] S K 0 {}) = K"
proof -
  let ?js = "filter (\<lambda>j. int j \<in> S) [0..<n]"
  have p: "lrc_pick [0..<n] S K 0 {} = int ` set (take K ?js)" using lrc_pick_take [OF assms(2)] by simp
  have "int ` set ?js = S" using assms(1) by auto
  moreover have d: "distinct ?js" by simp
  ultimately have "length ?js = card S" by (metis card_image distinct_card inj_on_of_nat)
  then have "card (set (take K ?js)) = K" using assms(3) distinct_card [OF distinct_take [OF d]] by simp
  then show "card (lrc_pick [0..<n] S K 0 {}) = K" unfolding p by (simp add: card_image)
  show "lrc_pick [0..<n] S K 0 {} \<subseteq> S" unfolding p using set_take_subset [of K ?js] by auto
qed

text \<open>The state of the two loops side by side: what \<open>minimum_to_decode\<close> counts as recovered is not an
  erasure of \<open>decode_chunks\<close> any more.\<close>

definition minimum_inv :: "nat \<Rightarrow> int set \<Rightarrow> int set \<Rightarrow> int set \<times> int set \<times> int set \<Rightarrow> bool" where
  "minimum_inv n T want s \<longleftrightarrow>
     (case s of (NR, EW, MN) \<Rightarrow> NR \<subseteq> T \<and> EW = want \<inter> NR \<and> MN \<subseteq> int ` {..<n})"

lemma minimum_layer_step:
  assumes wf: "layer_wf n la" and inv: "minimum_inv n T want (NR, EW, MN)"
  obtains NR' EW' MN' where "lrc_minimum_layer n want la (NR, EW, MN) = Some (NR', EW', MN')"
    "minimum_inv n T want (NR', EW', MN')" "MN \<subseteq> MN'"
    "\<And>E. E \<inter> T \<subseteq> NR \<Longrightarrow> E \<inter> (MN' - T) = {} \<Longrightarrow> layer_left la E \<inter> T \<subseteq> NR'"
proof -
  let ?S = "la_chunks_as_set la"
  obtain C where C: "la_code la = Some C" "get_coding_chunk_count C = get_chunk_count C - get_data_chunk_count C"
    "card ?S = get_chunk_count C" "get_data_chunk_count C \<le> get_chunk_count C" "0 < get_data_chunk_count C" "finite ?S"
    "?S \<subseteq> int ` {..<n}"
    using layer_wfD [OF wf] .
  note le = layer_left_subset [of la]
  show ?thesis
  proof (cases "want \<inter> ?S \<inter> EW = {} \<or> card (?S \<inter> NR) > get_coding_chunk_count C")
    case True
    then have "\<exists>MN'. lrc_minimum_layer n want la (NR, EW, MN) = Some (NR, EW, MN') \<and> MN \<subseteq> MN' \<and> MN' \<subseteq> MN \<union> ?S"
      using C(1) by (auto simp: lrc_minimum_layer_def Let_def)
    then obtain MN' where "lrc_minimum_layer n want la (NR, EW, MN) = Some (NR, EW, MN')" "MN \<subseteq> MN'" "MN' \<subseteq> MN \<union> ?S" by blast
    with inv C(7) show ?thesis by (intro that [of NR EW MN']) (auto simp: minimum_inv_def dest: le [THEN subsetD])
  next
    case False
    let ?er = "?S \<inter> NR" and ?P = "lrc_pick [0..<n] (?S - NR) (get_data_chunk_count C) 0 {}"
    have eq: "lrc_minimum_layer n want la (NR, EW, MN) = Some (NR - ?er, EW - ?er, MN \<union> ?P)"
      using False C(1) by (auto simp: lrc_minimum_layer_def Let_def)
    have "card (?S - NR) = get_chunk_count C - card ?er" using C(3,6) by (simp add: card_Diff_subset_Int)
    then have "get_data_chunk_count C \<le> card (?S - NR)" using False C(2,4) by linarith
    note P = lrc_pick_enough [OF _ C(5) this, of n]
    have P1: "?P \<subseteq> ?S - NR" "card ?P = get_data_chunk_count C" using P C(7) by auto
    have rest: "layer_left la E \<inter> T \<subseteq> NR - ?er" if E: "E \<inter> T \<subseteq> NR" "E \<inter> (MN \<union> ?P - T) = {}" for E
    proof -
      have "?P \<inter> E = {}" using E P1(1) by blast
      then have "?S \<inter> E \<subseteq> ?S - ?P" by blast
      then have "card (?S \<inter> E) \<le> card (?S - ?P)" using C(6) by (intro card_mono) auto
      also have "\<dots> = get_coding_chunk_count C" using P1 C(2,3,6) by (subst card_Diff_subset) (auto intro: finite_subset)
      finally show ?thesis using C(1) E(1) by (auto simp: layer_left_def)
    qed
    show ?thesis
    proof (rule that [OF eq])
      show "minimum_inv n T want (NR - ?er, EW - ?er, MN \<union> ?P)"
        using inv P1(1) C(7) by (auto simp: minimum_inv_def)
    qed (use rest in auto)
  qed
qed

lemma minimum_layers:
  assumes "\<forall>la\<in>set las. layer_wf n la" "minimum_inv n T want s"
  shows "\<exists>NR' EW' MN'. ofold (lrc_minimum_layer n want) las s = Some (NR', EW', MN') \<and>
    minimum_inv n T want (NR', EW', MN') \<and> snd (snd s) \<subseteq> MN' \<and>
    (\<forall>E. E \<inter> T \<subseteq> fst s \<longrightarrow> E \<inter> (MN' - T) = {} \<longrightarrow> lrc_left las E \<inter> T \<subseteq> NR')"
  using assms
proof (induction las arbitrary: s)
  case Nil
  then show ?case by (cases s) (auto simp: lrc_left_def)
next
  case (Cons la las)
  obtain NR EW MN where s: "s = (NR, EW, MN)" by (cases s)
  obtain NR1 EW1 MN1 where 1: "lrc_minimum_layer n want la s = Some (NR1, EW1, MN1)"
    "minimum_inv n T want (NR1, EW1, MN1)" "MN \<subseteq> MN1"
    "\<And>E. E \<inter> T \<subseteq> NR \<Longrightarrow> E \<inter> (MN1 - T) = {} \<Longrightarrow> layer_left la E \<inter> T \<subseteq> NR1"
    using minimum_layer_step [of n la T want NR EW MN] Cons.prems s by auto
  obtain NR' EW' MN' where 2: "ofold (lrc_minimum_layer n want) las (NR1, EW1, MN1) = Some (NR', EW', MN')"
    "minimum_inv n T want (NR', EW', MN')" "MN1 \<subseteq> MN'"
    "\<And>E. E \<inter> T \<subseteq> NR1 \<Longrightarrow> E \<inter> (MN' - T) = {} \<Longrightarrow> lrc_left las E \<inter> T \<subseteq> NR'"
    using Cons.IH [of "(NR1, EW1, MN1)"] Cons.prems 1(2) by auto
  have "lrc_left (la # las) E \<inter> T \<subseteq> NR'" if E: "E \<inter> T \<subseteq> NR" "E \<inter> (MN' - T) = {}" for E
  proof -
    have "layer_left la E \<inter> T \<subseteq> NR1" using E 2(3) by (intro 1(4)) auto
    moreover have "layer_left la E \<inter> (MN' - T) = {}" using E(2) layer_left_subset [of la E] by auto
    ultimately show ?thesis using 2(4) by (simp add: lrc_left_def)
  qed
  with 1 2 s show ?case by auto
qed

section \<open>The third case\<close>

lemma recover_layers:
  assumes "\<forall>la\<in>set las. layer_wf n la" "finite E"
  shows "ofold lrc_recover_layer las E = Some (lrc_left las E)"
  using assms
proof (induction las arbitrary: E)
  case (Cons la las)
  obtain C where "la_code la = Some C" using Cons.prems by (auto elim: layer_wfD)
  then have "lrc_recover_layer la E = Some (layer_left la E)"
    using Cons.prems(2) by (auto simp: lrc_recover_layer_def layer_left_def Let_def card_gt_0_iff)
  moreover have "finite (layer_left la E)" using Cons.prems(2) layer_left_subset finite_subset by blast
  ultimately show ?case using Cons by (simp add: lrc_left_def)
qed (simp add: lrc_left_def)

lemma lrc_minimum_enough:
  assumes wf: "lrc_wf L" and want: "want \<subseteq> int ` {..<lrc_chunk_count L}"
  shows "\<exists>r A. lrc_minimum_to_decode L want available {} = Some (r, A) \<and>
    (r = 0 \<longrightarrow> A \<inter> int ` {..<lrc_chunk_count L} \<subseteq> available \<and> lrc_restores L want A) \<and>
    (r \<noteq> 0 \<longrightarrow> r = - EIO \<and> lrc_left (rev (lrc_layers L)) (lrc_missing L available) \<noteq> {})"
proof -
  let ?n = "lrc_chunk_count L" and ?T = "lrc_missing L available" and ?las = "rev (lrc_layers L)"
  have n: "lrc_get_chunk_count L = ?n" by (simp add: lrc_get_chunk_count_def)
  have las: "\<forall>la\<in>set ?las. layer_wf ?n la" using wf by (simp add: lrc_wf_def)
  show ?thesis
  proof (cases "?T \<inter> want = {}")
    case True
    then have "lrc_minimum_to_decode L want available {} = Some (0, want)"
      by (simp add: lrc_minimum_to_decode_def)
    moreover have "lrc_restores L want want"
      using lrc_left_subset [of ?las "lrc_missing L want"] by (auto simp: lrc_restores_def lrc_missing_iff)
    moreover have "want \<inter> int ` {..<?n} \<subseteq> available" using True by (fastforce simp: lrc_missing_iff disjoint_iff)
    ultimately show ?thesis by auto
  next
    case False
    have "minimum_inv ?n ?T want (?T, ?T \<inter> want, {})" by (auto simp: minimum_inv_def)
    from minimum_layers [OF las this] obtain NR EW MN where
      m: "ofold (lrc_minimum_layer ?n want) ?las (?T, ?T \<inter> want, {}) = Some (NR, EW, MN)"
        "minimum_inv ?n ?T want (NR, EW, MN)"
        "\<And>E. E \<inter> (MN - ?T) = {} \<Longrightarrow> lrc_left ?las E \<inter> ?T \<subseteq> NR" by auto
    show ?thesis
    proof (cases "EW = {}")
      case True
      let ?A = "(MN \<union> want) - ?T"
      have "lrc_minimum_to_decode L want available {} = Some (0, ?A)"
        using False True m(1) by (simp add: lrc_minimum_to_decode_def n)
      moreover have "lrc_left ?las (lrc_missing L ?A) \<inter> ?T \<subseteq> NR" by (rule m(3)) (auto simp: lrc_missing_iff)
      then have "lrc_restores L want ?A"
        using True m(2) want lrc_left_subset [of ?las "lrc_missing L ?A"]
        by (fastforce simp: lrc_restores_def minimum_inv_def lrc_missing_iff)
      moreover have "?A \<inter> int ` {..<?n} \<subseteq> available" by (auto simp: lrc_missing_iff)
      ultimately show ?thesis by auto
    next
      case ne: False
      have "finite ?T" by (simp add: lrc_missing_def)
      from recover_layers [OF las this] have r: "lrc_minimum_to_decode L want available {} =
          Some (if lrc_left ?las ?T = {} then (0, available) else (- EIO, MN))"
        using False ne m(1) by (simp add: lrc_minimum_to_decode_def n)
      then show ?thesis
        by (auto simp: lrc_restores_def)
    qed
  qed
qed

section \<open>Properties\<close>

text \<open>C36: \<open>minimum_to_decode\<close> answers with chunks that are available, and given no others
  \<open>decode_chunks\<close> reaches everything that is wanted: in the order of its layers, each layer it
  needs has no more erasures than coding chunks. It refuses only with -EIO, and only when some
  chunk stays unreachable even from everything that is available.\<close>

theorem lrc_minimum_to_decode_enough:
  assumes "lrc_wf L" "want \<subseteq> int ` {..<lrc_chunk_count L}"
  shows "\<exists>r A. lrc_minimum_to_decode L want available {} = Some (r, A) \<and>
    (if r = 0 then A \<inter> int ` {..<lrc_chunk_count L} \<subseteq> available \<and> lrc_restores L want A
     else r = - EIO \<and> \<not> lrc_restores L (int ` {..<lrc_chunk_count L}) available)"
proof -
  have "lrc_left las (lrc_missing L available) \<subseteq> int ` {..<lrc_chunk_count L}" for las
    using lrc_left_subset [of las "lrc_missing L available"] by (auto simp: lrc_missing_iff)
  then have "int ` {..<lrc_chunk_count L} \<inter> lrc_left las (lrc_missing L available) = lrc_left las (lrc_missing L available)" for las
    by blast
  with lrc_minimum_enough [OF assms, of available] show ?thesis by (force simp: lrc_restores_def)
qed

text \<open>The code for k=4, m=2, l=3: two groups of two data chunks, one coding chunk and one local
  parity. Only the numbers of chunks of the layers' codes matter here.\<close>

definition counts_codec :: "nat \<Rightarrow> nat \<Rightarrow> codec" where
  "counts_codec k m =
     \<lparr>chunk_mapping = [], get_profile = [], get_chunk_count = k + m, get_data_chunk_count = k,
      get_chunk_size = (\<lambda>_. None), minimum_to_decode = (\<lambda>_ _ _. None),
      encode_chunks = (\<lambda>_ _ _. None), decode_chunks = (\<lambda>_ _ _ _. None)\<rparr>"

definition counts_layer :: "int list \<Rightarrow> int list \<Rightarrow> layer" where
  "counts_layer data coding =
     \<lparr>la_code = Some (counts_codec (length data) (length coding)), la_data = data, la_coding = coding,
      la_chunks = data @ coding, la_chunks_as_set = set (data @ coding), la_chunks_map = [], la_profile = []\<rparr>"

definition lrc_4_2_3 :: lrc where
  "lrc_4_2_3 =
     \<lparr>lrc_layers = [counts_layer [0, 1, 4, 5] [2, 6], counts_layer [0, 1, 2] [3], counts_layer [4, 5, 6] [7]],
      lrc_directory = [], lrc_chunk_count = 8, lrc_data_chunk_count = 4, lrc_ruleset_root = [], lrc_ruleset_steps = [],
      lrc_chunk_mapping = [], lrc_profile = []\<rparr>"

theorem lrc_minimum_to_decode_enough_witness:
  "lrc_minimum_to_decode lrc_4_2_3 {0} {1, 2, 3, 4, 5, 6, 7} {} = Some (0, {1, 2, 3}) \<and> lrc_restores lrc_4_2_3 {0} {1, 2, 3}"
proof -
  have w: "lrc_wf lrc_4_2_3"
    by (simp add: lrc_wf_def lrc_4_2_3_def layer_wf_def counts_layer_def counts_codec_def)
  have m: "lrc_minimum_to_decode lrc_4_2_3 {0} {1, 2, 3, 4, 5, 6, 7} {} = Some (0, {1, 2, 3})" by code_simp
  have "{0} \<subseteq> int ` {..<lrc_chunk_count lrc_4_2_3}" by (simp add: lrc_4_2_3_def)
  from lrc_minimum_to_decode_enough [OF w this, of "{1, 2, 3, 4, 5, 6, 7}"] m show ?thesis by simp
qed

text \<open>An example: the refusal is not exact. With the chunks 0, 1, 3 and 4 of the code for k=4, m=2, l=3 lost,
  chunk 0 can be read, through the second group and the global layer, but
  \<open>minimum_to_decode\<close> returns -EIO, because the local parity 3, which nobody wants, stays
  unreachable in its single pass.\<close>

theorem lrc_minimum_refuses_readable:
  "lrc_minimum_to_decode lrc_4_2_3 {0} {2, 5, 6, 7} {} = Some (- EIO, {}) \<and> lrc_restores lrc_4_2_3 {0} {2, 5, 6, 7}"
  by code_simp

end
