(* ===== verification/Layer_Contract.thy ===== *)
theory Layer_Contract
  imports Codec_Contract Chunk_Access
begin

text \<open>
  The contract a code must keep to be a layer of the layered code: it works on numbered
  chunks, data first; encoding writes the coding chunks in place, because the layered code
  does not take the map of a layer back, and decoding restores every chunk that is missing,
  wanted or not, because the layered code counts all of them as recovered.
\<close>

locale chunk_code =
  fixes C :: codec
    and enc :: "byte list list \<Rightarrow> nat \<Rightarrow> byte list"
    and size_ok :: "nat \<Rightarrow> bool"
  assumes counts: "0 < get_data_chunk_count C" "get_data_chunk_count C \<le> get_chunk_count C" "get_chunk_count C < 2 ^ 31"
    and size_pos: "size_ok bs \<Longrightarrow> 0 < bs"
    and chunk_systematic:
      "length ds = get_data_chunk_count C \<Longrightarrow> (\<And>d. d \<in> set ds \<Longrightarrow> length d = bs) \<Longrightarrow>
       i < get_data_chunk_count C \<Longrightarrow> enc ds i = ds ! i"
    and chunk_length:
      "length ds = get_data_chunk_count C \<Longrightarrow> (\<And>d. d \<in> set ds \<Longrightarrow> length d = bs) \<Longrightarrow>
       i < get_chunk_count C \<Longrightarrow> length (enc ds i) = bs"
    and encode_in_place:
      "size_ok bs \<Longrightarrow> length ds = get_data_chunk_count C \<Longrightarrow>
       arena h M (int ` {..<get_chunk_count C}) (int ` {get_data_chunk_count C..<get_chunk_count C}) bs \<Longrightarrow>
       (\<And>i. i < get_data_chunk_count C \<Longrightarrow> content h M (int i) = ds ! i) \<Longrightarrow>
       \<exists>h' M'. encode_chunks C want M h = Some (h', 0, M') \<and>
         frame (wraws M (int ` {get_data_chunk_count C..<get_chunk_count C})) h h' \<and>
         (\<forall>i<get_chunk_count C. content h' M (int i) = enc ds i) \<and>
         holds h' M' (int ` {..<get_chunk_count C}) bs (enc ds \<circ> nat)"
    and decode_all:
      "size_ok bs \<Longrightarrow> length ds = get_data_chunk_count C \<Longrightarrow> (\<And>d. d \<in> set ds \<Longrightarrow> length d = bs) \<Longrightarrow>
       A \<subseteq> int ` {..<get_chunk_count C} \<Longrightarrow> A \<noteq> int ` {..<get_chunk_count C} \<Longrightarrow> get_data_chunk_count C \<le> card A \<Longrightarrow>
       holds h0 chunks A bs (enc ds \<circ> nat) \<Longrightarrow>
       arena h M (int ` {..<get_chunk_count C}) (int ` {..<get_chunk_count C} - A) bs \<Longrightarrow>
       (\<And>c. c \<in> A \<Longrightarrow> content h M c = enc ds (nat c)) \<Longrightarrow>
       \<exists>h' M'. decode_chunks C want chunks M h = Some (h', 0, M') \<and>
         frame (wraws M (int ` {..<get_chunk_count C} - A)) h h' \<and>
         mok M' \<and> set (mkeys M') = int ` {..<get_chunk_count C} \<and>
         (\<forall>c\<in>int ` {..<get_chunk_count C}. bl_ok h' (mref [] M' c) \<and> bl_length (mref [] M' c) = bs \<and>
            content h' M' c = enc ds (nat c) \<and>
            bl_raws (mref [] M' c) \<subseteq> bl_raws (mref [] M c) \<union> {length (raws h)..})"

section \<open>Chunks of a layer\<close>

text \<open>The chunks of a list of positions, numbered from zero, as a map that shares the buffers.\<close>

definition layer_map :: "chunks \<Rightarrow> int list \<Rightarrow> chunks" where
  "layer_map M cs = map (\<lambda>j. (int j, mref [] M (cs ! j))) [0..<length cs]"

lemma mkeys_layer_map: "mkeys (layer_map M cs) = map int [0..<length cs]"
  by (simp add: layer_map_def mkeys_def comp_def)

lemma mok_layer_map: "mok (layer_map M cs)"
  by (simp add: layer_map_def mok_def comp_def sorted_wrt_map sorted_wrt_upt [unfolded sorted_wrt_iff_nth_less])

lemma mref_layer_map: "j < length cs \<Longrightarrow> mref [] (layer_map M cs) (int j) = mref [] M (cs ! j)"
proof -
  assume "j < length cs"
  then have "(int j, mref [] M (cs ! j)) \<in> set (layer_map M cs)" by (auto simp: layer_map_def)
  then have "mget (layer_map M cs) (int j) = Some (mref [] M (cs ! j))" by (simp add: mget_in_set mok_layer_map)
  then show ?thesis by simp
qed

lemma layer_map_append: "layer_map M (cs @ [c]) = layer_map M cs @ [(int (length cs), mref [] M c)]"
  by (simp add: layer_map_def nth_append)

text \<open>The chunks of a layer form an arena if those of the stripe do.\<close>

lemma arena_layer_map:
  assumes ar: "arena h M N W bs" and cs: "set cs \<subseteq> N" "distinct cs" and V: "V \<subseteq> {j. j < length cs \<and> cs ! j \<in> W}"
  shows "arena h (layer_map M cs) (int ` {..<length cs}) (int ` V) bs"
proof -
  note a = arena_simps [OF ar]
  have in_N: "cs ! j \<in> N" if "j < length cs" for j using cs(1) that by auto
  show ?thesis unfolding arena_def
  proof (intro conjI ballI impI)
    fix c d assume "c \<in> int ` V" "d \<in> int ` {..<length cs}" "c \<noteq> d"
    then obtain i j where ij: "c = int i" "d = int j" "i \<in> V" "j < length cs" "i \<noteq> j" by auto
    then have i: "i < length cs" "cs ! i \<in> W" using V by auto
    then have "cs ! i \<noteq> cs ! j" using ij cs(2) by (simp add: nth_eq_iff_index_eq)
    with a(7) [of "cs ! i" "cs ! j"] i ij in_N [of j]
    show "bl_raws (mref [] (layer_map M cs) c) \<inter> bl_raws (mref [] (layer_map M cs) d) = {}"
      by (simp add: mref_layer_map)
  qed (use V a in_N in \<open>auto simp: mok_layer_map mkeys_layer_map mref_layer_map lessThan_atLeast0\<close>)
qed

lemma content_layer_map: "j < length cs \<Longrightarrow> content h (layer_map M cs) (int j) = content h M (cs ! j)"
  by (simp add: content_def mref_layer_map)

lemma wraws_layer_map:
  "V \<subseteq> {..<length cs} \<Longrightarrow> wraws (layer_map M cs) (int ` V) = wraws M ((!) cs ` V)"
  by (auto simp: wraws_def mref_layer_map subset_iff)

text \<open>What is written to some of the writable chunks leaves the others alone.\<close>

lemma arena_frame_content:
  assumes ar: "arena h M N W bs" and "V \<subseteq> W" "frame (wraws M V) h h'" "c \<in> N" "c \<notin> V"
  shows "content h' M c = content h M c"
proof -
  have "bl_raws (mref [] M c) \<inter> wraws M V = {}"
    using arena_simps(7) [OF ar _ assms(4)] assms(2,5) by (fastforce simp: wraws_def disjoint_iff)
  with frame_bl_bytes [OF assms(3) arena_simps(4) [OF ar assms(4)]] show ?thesis by (simp add: content_def)
qed

lemma arena_mono: "arena h M N W bs \<Longrightarrow> V \<subseteq> W \<Longrightarrow> arena h M N V bs"
  unfolding arena_def by (meson subset_iff)

lemma mput_same: "mok M \<Longrightarrow> mget M c = Some bl \<Longrightarrow> mput c bl M = M"
  unfolding mok_def mget_def by (induction c bl M rule: mput.induct) (auto split: if_splits dest!: map_of_SomeD)

lemma mget_mref: "c \<in> set (mkeys M) \<Longrightarrow> mok M \<Longrightarrow> mget M c = Some (mref [] M c)"
  by (auto simp: mref_def mkeys_mget split: option.splits)

section \<open>A layer on its own\<close>

text \<open>Without a mapping such a code also keeps the contract of the base class: any \<open>k\<close> chunks are enough.\<close>

locale plain_code = chunk_code C enc size_ok for C enc size_ok +
  assumes no_mapping: "chunk_mapping C = []"

definition plain_fits :: "codec \<Rightarrow> (nat \<Rightarrow> bool) \<Rightarrow> nat \<Rightarrow> nat \<Rightarrow> bool" where
  "plain_fits C size_ok len bs \<longleftrightarrow>
     get_chunk_size C len = Some bs \<and> size_ok bs \<and> len < 2 ^ 32 \<and> len \<le> get_data_chunk_count C * bs"

definition plain_recoverable :: "codec \<Rightarrow> int set \<Rightarrow> int set \<Rightarrow> bool" where
  "plain_recoverable C want A \<longleftrightarrow> get_data_chunk_count C \<le> card A \<and> \<not> want \<subseteq> A"

sublocale plain_code \<subseteq> erasure_code C "\<lambda>ds. enc ds \<circ> nat" "plain_recoverable C" "plain_fits C size_ok" "\<lambda>_. True"
proof -
  have idx: "chunk_index (chunk_mapping C) = int" by (rule ext) (simp add: no_mapping chunk_index_def)
  show "erasure_code C (\<lambda>ds. enc ds \<circ> nat) (plain_recoverable C) (plain_fits C size_ok) (\<lambda>_. True)"
  proof (unfold_locales, unfold idx)
    fix len bs want ds h and M :: chunks
    assume "plain_fits C size_ok len bs" "length ds = get_data_chunk_count C"
      "arena h M (int ` {..<get_chunk_count C}) (int ` {get_data_chunk_count C..<get_chunk_count C}) bs"
      "\<And>i. i < get_data_chunk_count C \<Longrightarrow> content h M (int i) = ds ! i"
    then show "\<exists>h' rc M'. encode_chunks C want M h = Some (h', rc, M') \<and>
        frame (wraws M (int ` {get_data_chunk_count C..<get_chunk_count C})) h h' \<and>
        holds h' M' (int ` {..<get_chunk_count C}) bs (enc ds \<circ> nat)"
      using encode_in_place [of bs ds h M want] by (auto simp: plain_fits_def)
  next
    fix len bs ds A want h0 chunks h and M :: chunks
    assume a: "plain_fits C size_ok len bs" "length ds = get_data_chunk_count C" "\<And>d. d \<in> set ds \<Longrightarrow> length d = bs"
      "A \<subseteq> int ` {..<get_chunk_count C}" "want \<subseteq> int ` {..<get_chunk_count C}" "plain_recoverable C want A"
      "holds h0 chunks A bs (enc ds \<circ> nat)"
      "arena h M (int ` {..<get_chunk_count C}) (int ` {..<get_chunk_count C} - A) bs"
      "\<And>c. c \<in> A \<Longrightarrow> content h M c = (enc ds \<circ> nat) c"
    then have "A \<noteq> int ` {..<get_chunk_count C}" by (auto simp: plain_recoverable_def)
    then obtain h' M' where r: "decode_chunks C want chunks M h = Some (h', 0, M')"
        "frame (wraws M (int ` {..<get_chunk_count C} - A)) h h'" "mok M'" "set (mkeys M') = int ` {..<get_chunk_count C}"
        "\<forall>c\<in>int ` {..<get_chunk_count C}. bl_ok h' (mref [] M' c) \<and> bl_length (mref [] M' c) = bs \<and>
           content h' M' c = enc ds (nat c) \<and> bl_raws (mref [] M' c) \<subseteq> bl_raws (mref [] M c) \<union> {length (raws h)..}"
      using decode_all [OF _ a(2,3,4) _ _ a(7,8), of want] a(1,6,9) by (auto simp: plain_fits_def plain_recoverable_def)
    moreover have "want \<union> A \<subseteq> int ` {..<get_chunk_count C}" using a(4,5) by blast
    ultimately show "\<exists>h' M'. decode_chunks C want chunks M h = Some (h', 0, M') \<and>
        frame (wraws M (int ` {..<get_chunk_count C} - A)) h h' \<and> mok M' \<and> set (mkeys M') = int ` {..<get_chunk_count C} \<and>
        (\<forall>c\<in>want \<union> A. bl_ok h' (mref [] M' c) \<and> bl_length (mref [] M' c) = bs \<and> content h' M' c = (enc ds \<circ> nat) c)"
      by (intro exI [of _ h'] exI [of _ M']) (auto simp: subset_iff)
  qed (use counts size_pos chunk_systematic in \<open>auto simp: plain_fits_def\<close>)
qed

context plain_code
begin

lemma is_erasure_code:
  "erasure_code C (\<lambda>ds. enc ds \<circ> nat) (plain_recoverable C) (plain_fits C size_ok) (\<lambda>_. True)"
  by unfold_locales

end

end
