(* ===== verification/Lrc_Code.thy ===== *)
theory Lrc_Code
  imports Lrc_Minimum Layer_Contract
begin

text \<open>
  The layered code keeps the contract of the base class if its layers keep the contract
  of \<open>Layer_Contract\<close> and build on each other: every layer computes its coding chunks from
  data chunks and from chunks of the layers before it. What a chunk must hold is given by
  \<open>lrc_values\<close>, which runs the layers over contents instead of buffers; the loops of
  \<open>encode_chunks\<close> and \<open>decode_chunks\<close> refine it.
\<close>

section \<open>What the chunks hold\<close>

definition chunk_position :: "int list \<Rightarrow> int \<Rightarrow> nat" where
  "chunk_position cs c = length (takeWhile (\<lambda>x. x \<noteq> c) cs)"

lemma chunk_position_nth: "distinct cs \<Longrightarrow> j < length cs \<Longrightarrow> chunk_position cs (cs ! j) = j"
proof (induction cs arbitrary: j)
  case (Cons c cs)
  then show ?case by (cases j) (auto simp: chunk_position_def)
qed simp

lemma chunk_position_less: "c \<in> set cs \<Longrightarrow> chunk_position cs c < length cs \<and> cs ! chunk_position cs c = c"
  by (induction cs) (auto simp: chunk_position_def)

type_synonym layer_code = "layer \<Rightarrow> byte list list \<Rightarrow> nat \<Rightarrow> byte list"

fun lrc_values :: "layer_code \<Rightarrow> layer list \<Rightarrow> (int \<Rightarrow> byte list) \<Rightarrow> int \<Rightarrow> byte list" where
  "lrc_values E [] v = v"
| "lrc_values E (la # las) v =
     lrc_values E las (\<lambda>c. if c \<in> set (la_coding la)
       then E la (map v (la_data la)) (chunk_position (la_chunks la) c) else v c)"

text \<open>A layer reads what is known and adds its coding chunks.\<close>

fun lrc_layout :: "int set \<Rightarrow> layer list \<Rightarrow> bool" where
  "lrc_layout known [] \<longleftrightarrow> True"
| "lrc_layout known (la # las) \<longleftrightarrow>
     la_chunks la = la_data la @ la_coding la \<and> distinct (la_chunks la) \<and> la_chunks_as_set la = set (la_chunks la) \<and>
     set (la_data la) \<subseteq> known \<and> set (la_coding la) \<inter> known = {} \<and> lrc_layout (known \<union> set (la_coding la)) las"

definition layers_coding :: "layer list \<Rightarrow> int set" where
  "layers_coding las = (\<Union>la\<in>set las. set (la_coding la))"

lemma layers_coding_simps [simp]:
  "layers_coding [] = {}" "layers_coding (la # las) = set (la_coding la) \<union> layers_coding las"
  by (simp_all add: layers_coding_def)

definition layer_ok :: "layer_code \<Rightarrow> (nat \<Rightarrow> bool) \<Rightarrow> layer \<Rightarrow> bool" where
  "layer_ok E size_ok la \<longleftrightarrow> (\<exists>C. la_code la = Some C \<and> chunk_code C (E la) size_ok \<and>
     length (la_data la) = get_data_chunk_count C \<and> length (la_chunks la) = get_chunk_count C)"

lemma values_known: "lrc_layout known las \<Longrightarrow> c \<in> known \<Longrightarrow> lrc_values E las v c = v c"
  by (induction las arbitrary: known v) (auto simp: disjoint_iff)

text \<open>All chunks are as long as the data, and each layer's equations hold at the end.\<close>

lemma values_length:
  assumes "\<forall>la\<in>set las. layer_ok E size_ok la" "lrc_layout known las" "\<forall>c\<in>known. length (v c) = bs"
    "c \<in> known \<union> layers_coding las"
  shows "length (lrc_values E las v c) = bs"
  using assms
proof (induction las arbitrary: known v)
  case (Cons la las)
  let ?v = "\<lambda>c. if c \<in> set (la_coding la) then E la (map v (la_data la)) (chunk_position (la_chunks la) c) else v c"
  obtain C where C: "la_code la = Some C" "chunk_code C (E la) size_ok"
      "length (la_data la) = get_data_chunk_count C" "length (la_chunks la) = get_chunk_count C"
    using Cons.prems(1) by (auto simp: layer_ok_def)
  have "length (E la (map v (la_data la)) (chunk_position (la_chunks la) c)) = bs" if "c \<in> set (la_coding la)" for c
    by (rule chunk_code.chunk_length [OF C(2)])
      (use that C Cons.prems(2,3) chunk_position_less [of c "la_chunks la"] in auto)
  then have "\<forall>c\<in>known \<union> set (la_coding la). length (?v c) = bs" using Cons.prems(3) by auto
  with Cons.IH [of "known \<union> set (la_coding la)" ?v] Cons.prems show ?case by auto
qed simp

lemma values_layer:
  assumes "\<forall>la\<in>set las. layer_ok E size_ok la" "lrc_layout known las" "\<forall>c\<in>known. length (v c) = bs"
    "la \<in> set las" "j < length (la_chunks la)"
  shows "lrc_values E las v (la_chunks la ! j) = E la (map (lrc_values E las v) (la_data la)) j"
  using assms
proof (induction las arbitrary: known v)
  case (Cons lb las)
  let ?v = "\<lambda>c. if c \<in> set (la_coding lb) then E lb (map v (la_data lb)) (chunk_position (la_chunks lb) c) else v c"
  let ?K = "known \<union> set (la_coding lb)"
  obtain C where C: "la_code lb = Some C" "chunk_code C (E lb) size_ok"
      "length (la_data lb) = get_data_chunk_count C" "length (la_chunks lb) = get_chunk_count C"
    using Cons.prems(1) by (auto simp: layer_ok_def)
  have lb: "la_chunks lb = la_data lb @ la_coding lb" "distinct (la_chunks lb)" "set (la_data lb) \<subseteq> known"
      "set (la_coding lb) \<inter> known = {}" "lrc_layout ?K las" using Cons.prems(2) by auto
  have lens: "\<And>d. d \<in> set (map v (la_data lb)) \<Longrightarrow> length d = bs" using Cons.prems(3) lb(3) by auto
  have "\<forall>c\<in>?K. length (?v c) = bs"
  proof
    fix c assume "c \<in> ?K"
    have "length (lrc_values E [lb] v c) = bs"
      by (rule values_length [of _ _ size_ok known]) (use Cons.prems \<open>c \<in> ?K\<close> in auto)
    then show "length (?v c) = bs" by (simp only: lrc_values.simps)
  qed
  note IH = Cons.IH [OF _ lb(5) this]
  have final: "lrc_values E las ?v c = ?v c" if "c \<in> ?K" for c using values_known [OF lb(5) that] .
  show ?case
  proof (cases "la \<in> set las")
    case True
    with IH Cons.prems show ?thesis by simp
  next
    case False
    with Cons.prems(4) have la: "la = lb" by simp
    have "map (lrc_values E las ?v) (la_data lb) = map v (la_data lb)"
      using final lb(3,4) by (auto simp: disjoint_iff subset_iff)
    moreover have "lrc_values E las ?v (la_chunks lb ! j) = E lb (map v (la_data lb)) j"
    proof (cases "j < length (la_data lb)")
      case True
      then have c: "la_chunks lb ! j = la_data lb ! j" "la_data lb ! j \<in> known" using lb(1,3) by (auto simp: nth_append)
      then have "lrc_values E las ?v (la_chunks lb ! j) = v (la_data lb ! j)"
        using final [of "la_data lb ! j"] lb(4) by (auto simp: disjoint_iff)
      with True C(3) show ?thesis using chunk_code.chunk_systematic [OF C(2), of "map v (la_data lb)" bs j] lens by auto
    next
      case False
      then have "la_chunks lb ! j \<in> set (la_coding lb)" using Cons.prems(5) lb(1) la by (auto simp: nth_append)
      with final [of "la_chunks lb ! j"] chunk_position_nth [OF lb(2)] Cons.prems(5) la show ?thesis by simp
    qed
    ultimately show ?thesis by (simp add: la del: map_eq_conv)
  qed
qed simp

section \<open>Encoding\<close>

lemma layer_chunks_eq:
  "mok M \<Longrightarrow> set cs \<subseteq> set (mkeys M) \<Longrightarrow>
   lrc_layer_chunks cs (int (length ps)) M (layer_map M ps) = (M, layer_map M (ps @ cs))"
proof (induction cs arbitrary: ps)
  case (Cons c cs)
  have "mput c (mref [] M c) M = M" using Cons.prems by (intro mput_same mget_mref) auto
  moreover have "mput (int (length ps)) bl (layer_map M ps) = layer_map M ps @ [(int (length ps), bl)]" for bl
    by (intro mput_last) (auto simp: layer_map_def)
  ultimately show ?case
    using Cons.IH [of "ps @ [c]"] Cons.prems by (simp add: layer_map_append add.commute)
qed simp

lemma encode_layer:
  assumes la: "layer_ok E size_ok la" "la_chunks la = la_data la @ la_coding la" "distinct (la_chunks la)"
    and ar: "size_ok bs" "arena h M N W bs" "set (la_chunks la) \<subseteq> N" "set (la_coding la) \<subseteq> W"
  shows "\<exists>h'. lrc_encode_layer want la (h, M) = Some (h', 0, M) \<and> frame (wraws M (set (la_coding la))) h h' \<and>
    (\<forall>j<length (la_chunks la). content h' M (la_chunks la ! j) = E la (map (content h M) (la_data la)) j)"
proof -
  let ?cs = "la_chunks la" and ?k = "length (la_data la)" and ?n = "length (la_chunks la)"
  obtain C where C: "la_code la = Some C" "chunk_code C (E la) size_ok"
      "?k = get_data_chunk_count C" "?n = get_chunk_count C"
    using la(1) by (auto simp: layer_ok_def)
  note a = arena_simps [OF ar(2)]
  have coding: "(!) ?cs ` {?k..<?n} = set (la_coding la)" using set_drop_nth [of ?k ?cs] la(2) by simp
  then have V: "{?k..<?n} \<subseteq> {j. j < ?n \<and> ?cs ! j \<in> W}" using ar(4) by auto
  have lc: "lrc_layer_chunks ?cs 0 M [] = (M, layer_map M ?cs)"
    using layer_chunks_eq [of M ?cs "[]"] a(1,2) ar(3) by (simp add: layer_map_def)
  have data: "content h (layer_map M ?cs) (int i) = map (content h M) (la_data la) ! i" if "i < ?k" for i
    using that la(2) by (simp add: content_layer_map nth_append)
  obtain h' M' where e: "encode_chunks C (lrc_positions ?cs want) (layer_map M ?cs) h = Some (h', 0, M')"
      "frame (wraws (layer_map M ?cs) (int ` {?k..<?n})) h h'"
      "\<forall>i<?n. content h' (layer_map M ?cs) (int i) = E la (map (content h M) (la_data la)) i"
    using chunk_code.encode_in_place [OF C(2) ar(1) _ arena_layer_map [OF ar(2,3) la(3) V, unfolded C(3,4)] data [unfolded C(3)]]
      C(3,4) by (metis length_map)
  then have "lrc_encode_layer want la (h, M) = Some (h', 0, M)" by (simp add: lrc_encode_layer_def lc C(1))
  moreover have "{?k..<?n} \<subseteq> {..<?n}" by auto
  ultimately show ?thesis
    using e(2,3) wraws_layer_map [of "{?k..<?n}" ?cs M] coding by (auto simp: content_layer_map)
qed

lemma encode_layers:
  assumes "\<forall>la\<in>set las. layer_ok E size_ok la" "lrc_layout known las" "size_ok bs" "arena h M N W bs"
    "known \<subseteq> N" "layers_coding las \<subseteq> W" "\<forall>c\<in>known. content h M c = v c"
  shows "\<exists>h'. lrc_encode_layers want las (h, M) = Some (h', 0, M) \<and> frame (wraws M (layers_coding las)) h h' \<and>
    (\<forall>c\<in>known \<union> layers_coding las. content h' M c = lrc_values E las v c)"
  using assms
proof (induction las arbitrary: known v h)
  case Nil
  then show ?case by auto
next
  case (Cons la las)
  let ?v = "\<lambda>c. if c \<in> set (la_coding la) then E la (map v (la_data la)) (chunk_position (la_chunks la) c) else v c"
  let ?K = "known \<union> set (la_coding la)" and ?V = "set (la_coding la)"
  have la: "la_chunks la = la_data la @ la_coding la" "distinct (la_chunks la)" "set (la_data la) \<subseteq> known"
      "lrc_layout ?K las" "?V \<subseteq> W" "W \<subseteq> N" using Cons.prems(2,6) arena_simps(3) [OF Cons.prems(4)] by auto
  then have "set (la_chunks la) \<subseteq> N" using Cons.prems(5) by auto
  then have N: "set (la_chunks la) \<subseteq> N" "layer_ok E size_ok la" using Cons.prems(1) by auto
  obtain h1 where 1: "lrc_encode_layer want la (h, M) = Some (h1, 0, M)" "frame (wraws M ?V) h h1"
      "\<forall>j<length (la_chunks la). content h1 M (la_chunks la ! j) = E la (map (content h M) (la_data la)) j"
    using encode_layer [where size_ok = size_ok, OF N(2) la(1,2) Cons.prems(3,4) N(1) la(5)] by blast
  have data: "map (content h M) (la_data la) = map v (la_data la)" using Cons.prems(7) la(3) by auto
  have K: "\<forall>c\<in>?K. content h1 M c = ?v c"
  proof
    fix c assume "c \<in> ?K"
    show "content h1 M c = ?v c"
    proof (cases "c \<in> ?V")
      case True
      then have "c \<in> set (la_chunks la)" using la(1) by simp
      with 1(3) data True chunk_position_less [of c "la_chunks la"] show ?thesis by fastforce
    next
      case False
      with \<open>c \<in> ?K\<close> have "c \<in> known" by simp
      with arena_frame_content [OF Cons.prems(4) la(5) 1(2) _ False] Cons.prems(5,7) False show ?thesis by auto
    qed
  qed
  have "?K \<subseteq> N" using Cons.prems(5) la(5,6) by auto
  then obtain h2 where 2: "lrc_encode_layers want las (h1, M) = Some (h2, 0, M)" "frame (wraws M (layers_coding las)) h1 h2"
      "\<forall>c\<in>?K \<union> layers_coding las. content h2 M c = lrc_values E las ?v c"
    using Cons.IH [OF _ la(4) Cons.prems(3) frame_arena [OF 1(2) Cons.prems(4)] _ _ K] Cons.prems(1,6) by auto
  have "frame (wraws M (layers_coding (la # las))) h h2"
    using frame_trans [OF 1(2) 2(2)] by (simp add: wraws_def Un_commute image_Un)
  with 1(1) 2 show ?case by (auto simp: Un_assoc)
qed

section \<open>Decoding\<close>

definition avail_map :: "chunks \<Rightarrow> int set \<Rightarrow> int list \<Rightarrow> chunks" where
  "avail_map D E cs = filter (\<lambda>jb. cs ! nat (fst jb) \<notin> E) (layer_map D cs)"

lemma avail_map_append:
  "avail_map D E (ps @ [c]) = avail_map D E ps @ (if c \<notin> E then [(int (length ps), mref [] D c)] else [])"
proof -
  have "filter (\<lambda>jb. (ps @ [c]) ! nat (fst jb) \<notin> E) (layer_map D ps) = avail_map D E ps"
    unfolding avail_map_def by (intro filter_cong) (auto simp: layer_map_def nth_append)
  then show ?thesis by (simp add: avail_map_def layer_map_append)
qed

lemma decode_select_eq:
  "mok D \<Longrightarrow> set cs \<subseteq> set (mkeys D) \<Longrightarrow>
   lrc_decode_select cs (int (length ps)) E (D, avail_map D E ps, layer_map D ps) =
     (D, avail_map D E (ps @ cs), layer_map D (ps @ cs))"
proof (induction cs arbitrary: ps)
  case (Cons c cs)
  have "mput c (mref [] D c) D = D" using Cons.prems by (intro mput_same mget_mref) auto
  moreover have "mput (int (length ps)) bl (layer_map D ps) = layer_map D ps @ [(int (length ps), bl)]"
    "mput (int (length ps)) bl (avail_map D E ps) = avail_map D E ps @ [(int (length ps), bl)]" for bl
    by (intro mput_last; auto simp: layer_map_def avail_map_def)+
  ultimately show ?case
    using Cons.IH [of "ps @ [c]"] Cons.prems by (auto simp: layer_map_append avail_map_append add.commute Let_def)
qed simp

lemma holds_avail_map:
  assumes ar: "arena h D N W bs" and cs: "set cs \<subseteq> N" and val: "\<forall>j<length cs. cs ! j \<notin> E \<longrightarrow> content h D (cs ! j) = val (int j)"
  shows "holds h (avail_map D E cs) (int ` {j. j < length cs \<and> cs ! j \<notin> E}) bs val"
proof -
  have ok: "mok (avail_map D E cs)"
    using mok_layer_map [of D cs] by (auto simp: avail_map_def mok_def intro: sorted_wrt_map [THEN iffD2] sorted_wrt_filter dest: sorted_wrt_map [THEN iffD1])
  have ref: "mref [] (avail_map D E cs) (int j) = mref [] D (cs ! j)" if "j < length cs" "cs ! j \<notin> E" for j
  proof -
    have "(int j, mref [] D (cs ! j)) \<in> set (avail_map D E cs)"
      using that by (auto simp: avail_map_def layer_map_def)
    then have "mget (avail_map D E cs) (int j) = Some (mref [] D (cs ! j))" by (simp add: mget_in_set ok)
    then show ?thesis by simp
  qed
  have "set (mkeys (avail_map D E cs)) = int ` {j. j < length cs \<and> cs ! j \<notin> E}"
    by (force simp: avail_map_def layer_map_def mkeys_def)
  moreover have "cs ! j \<in> N" if "j < length cs" for j using cs that by auto
  ultimately show ?thesis
    using ok ref arena_simps(4,5) [OF ar] val by (auto simp: holds_def content_def)
qed

lemma decode_store_eq:
  "mok D \<Longrightarrow> distinct cs \<Longrightarrow> mok (lrc_decode_store cs j LD D) \<and>
   mget (lrc_decode_store cs j LD D) c =
     (if c \<in> set cs then Some (mref [] LD (j + int (chunk_position cs c))) else mget D c)"
proof (induction cs arbitrary: j D)
  case (Cons d cs)
  from Cons.IH [of "mput d (mref [] LD j) D" "j + 1"] Cons.prems show ?case
    by (auto simp: chunk_position_def add.assoc)
qed simp

text \<open>The buffers a layer gives back take the places of its chunks.\<close>

lemma layer_stored:
  assumes ar: "arena h D N E bs" "set cs \<subseteq> N" "distinct cs" and fr: "frame (wraws D (set cs \<inter> E)) h h'"
    and LD: "\<And>j. j < length cs \<Longrightarrow> bl_ok h' (mref [] LD (int j)) \<and> bl_length (mref [] LD (int j)) = bs \<and>
      content h' LD (int j) = w (cs ! j) \<and> bl_raws (mref [] LD (int j)) \<subseteq> bl_raws (mref [] D (cs ! j)) \<union> {length (raws h)..}"
    and w: "\<forall>c\<in>N - E. content h D c = w c"
  defines "D' \<equiv> lrc_decode_store cs 0 LD D"
  shows "arena h' D' N (E - set cs) bs" "\<forall>c\<in>N - (E - set cs). content h' D' c = w c"
    "wraws D' (E - set cs) \<subseteq> wraws D E"
proof -
  note a = arena_simps [OF ar(1)]
  have st: "mok D'" "mget D' c = (if c \<in> set cs then Some (mref [] LD (int (chunk_position cs c))) else mget D c)" for c
    using decode_store_eq [OF a(1) ar(3), of 0 LD] by (simp_all add: D'_def)
  have other: "mref [] D' c = mref [] D c" if "c \<notin> set cs" for c using st(2) that by (simp add: mref_def)
  have "mref [] D' c = mref [] LD (int (chunk_position cs c))" if "c \<in> set cs" for c using st(2) that by (simp add: mref_def)
  then have mine: "bl_ok h' (mref [] D' c)" "bl_length (mref [] D' c) = bs" "content h' D' c = w c"
      "bl_raws (mref [] D' c) \<subseteq> bl_raws (mref [] D c) \<union> {length (raws h)..}" if "c \<in> set cs" for c
    using LD [of "chunk_position cs c"] chunk_position_less [OF that] that by (simp_all add: content_def)
  have old: "r < length (raws h)" if "r \<in> bl_raws (mref [] D c)" "c \<in> N" for r c
    using bl_ok_raws [OF a(4) [OF that(2)] that(1)] .
  have raws: "bl_raws (mref [] D' d) \<subseteq> bl_raws (mref [] D d) \<union> {length (raws h)..}" for d
    using mine(4) other by (cases "d \<in> set cs") auto
  show "arena h' D' N (E - set cs) bs"
    unfolding arena_def
  proof (intro conjI ballI impI)
    have "c \<in> set (mkeys D') \<longleftrightarrow> c \<in> N" for c
      using ar(2) a(2) mkeys_mget [of c D] mkeys_mget [of c D'] st(2) [of c] by (cases "c \<in> set cs") auto
    then show "set (mkeys D') = N" by blast
  next
    fix c d assume c: "c \<in> E - set cs" "d \<in> N" "c \<noteq> d"
    with a(7) [of c d] other [of c] raws [of d] old [of _ c] a(3)
    show "bl_raws (mref [] D' c) \<inter> bl_raws (mref [] D' d) = {}" by fastforce
  next
    fix c assume "c \<in> N"
    then show "bl_ok h' (mref [] D' c)" "bl_length (mref [] D' c) = bs"
      using mine(1,2) a(4,5) other frame_bl_ok [OF fr] by (cases "c \<in> set cs"; auto)+
  qed (use st(1) a(3,6) other in auto)
  show "\<forall>c\<in>N - (E - set cs). content h' D' c = w c"
  proof
    fix c assume c: "c \<in> N - (E - set cs)"
    show "content h' D' c = w c"
    proof (cases "c \<in> set cs")
      case False
      with c w arena_frame_content [OF ar(1) _ fr, of c] other show ?thesis by (auto simp: content_def)
    qed (rule mine(3))
  qed
  show "wraws D' (E - set cs) \<subseteq> wraws D E" using other by (fastforce simp: wraws_def)
qed

text \<open>One layer that has something to recover and can: its chunks become available.\<close>

lemma decode_layer:
  assumes la: "la_code la = Some C" "chunk_code C (enc la) size_ok" "length (la_data la) = get_data_chunk_count C"
      "length (la_chunks la) = get_chunk_count C" "la_chunks la = la_data la @ la_coding la" "distinct (la_chunks la)"
    and ar: "size_ok bs" "arena h D N E bs" "set (la_chunks la) \<subseteq> N" "\<forall>c\<in>N - E. content h D c = w c"
    and w: "\<forall>j<length (la_chunks la). w (la_chunks la ! j) = enc la (map w (la_data la)) j"
      "\<forall>c\<in>set (la_data la). length (w c) = bs"
    and few: "card (set (la_chunks la) \<inter> E) \<le> get_coding_chunk_count C" "set (la_chunks la) \<inter> E \<noteq> {}"
  shows "\<exists>h' LD. decode_chunks C want (avail_map D E (la_chunks la)) (layer_map D (la_chunks la)) h = Some (h', 0, LD) \<and>
    frame (wraws D E) h h' \<and> arena h' (lrc_decode_store (la_chunks la) 0 LD D) N (E - set (la_chunks la)) bs \<and>
    (\<forall>c\<in>N - (E - set (la_chunks la)). content h' (lrc_decode_store (la_chunks la) 0 LD D) c = w c) \<and>
    wraws (lrc_decode_store (la_chunks la) 0 LD D) (E - set (la_chunks la)) \<subseteq> wraws D E"
proof -
  let ?cs = "la_chunks la" and ?n = "length (la_chunks la)" and ?ds = "map w (la_data la)"
  let ?V = "{j. j < ?n \<and> ?cs ! j \<in> E}" and ?A = "int ` {j. j < ?n \<and> ?cs ! j \<notin> E}"
  note a = arena_simps [OF ar(2)]
  have V: "int ` {..<?n} - ?A = int ` ?V" by auto
  have img: "(!) ?cs ` ?V = set ?cs \<inter> E" by (auto simp: in_set_conv_nth)
  have "card (set ?cs \<inter> E) = card ?V"
    unfolding img [symmetric] using la(6) by (intro card_image) (auto simp: inj_on_def nth_eq_iff_index_eq)
  moreover have "card ?A = ?n - card ?V"
  proof -
    have "{j. j < ?n \<and> ?cs ! j \<notin> E} = {..<?n} - ?V" by auto
    then have "card {j. j < ?n \<and> ?cs ! j \<notin> E} = ?n - card ?V" by (simp only:) (subst card_Diff_subset, auto)
    then show ?thesis by (simp add: card_image)
  qed
  moreover have "get_coding_chunk_count C = ?n - get_data_chunk_count C"
    using chunk_code.counts [OF la(2)] la(4) by (simp add: get_coding_chunk_count_def)
  ultimately have A: "get_data_chunk_count C \<le> card ?A" "?A \<subseteq> int ` {..<?n}" "?A \<noteq> int ` {..<?n}"
    using few img V chunk_code.counts [OF la(2)] la(4) by auto
  have len: "length ?ds = get_data_chunk_count C" "\<And>d. d \<in> set ?ds \<Longrightarrow> length d = bs" using la(3) w(2) by auto
  have avail: "content h D (?cs ! j) = enc la ?ds j" if "j < ?n" "?cs ! j \<notin> E" for j
  proof -
    have "?cs ! j \<in> N - E" using that ar(3) nth_mem by blast
    with ar(4) w(1) that(1) show ?thesis by simp
  qed
  have holds: "holds h (avail_map D E ?cs) ?A bs (enc la ?ds \<circ> nat)"
    by (rule holds_avail_map [OF ar(2,3)]) (use avail in auto)
  have lm: "arena h (layer_map D ?cs) (int ` {..<?n}) (int ` {..<?n} - ?A) bs"
    unfolding V by (rule arena_layer_map [OF ar(2,3) la(6)]) auto
  have cont: "content h (layer_map D ?cs) c = enc la ?ds (nat c)" if "c \<in> ?A" for c
    using that avail by (auto simp: content_layer_map)
  note u = A(2,3,1) holds lm cont
  from chunk_code.decode_all [OF la(2) ar(1) len u [unfolded la(4)], folded la(4), of want]
  obtain h' LD where d: "decode_chunks C want (avail_map D E ?cs) (layer_map D ?cs) h = Some (h', 0, LD)"
      "frame (wraws (layer_map D ?cs) (int ` {..<?n} - ?A)) h h'"
      "\<And>j. j < ?n \<Longrightarrow> bl_ok h' (mref [] LD (int j)) \<and> bl_length (mref [] LD (int j)) = bs \<and>
         content h' LD (int j) = enc la ?ds j \<and>
         bl_raws (mref [] LD (int j)) \<subseteq> bl_raws (mref [] (layer_map D ?cs) (int j)) \<union> {length (raws h)..}"
    by auto
  have "?V \<subseteq> {..<?n}" by auto
  from wraws_layer_map [OF this] have fr: "frame (wraws D (set ?cs \<inter> E)) h h'" using d(2) unfolding V img by simp
  have LD: "bl_ok h' (mref [] LD (int j)) \<and> bl_length (mref [] LD (int j)) = bs \<and> content h' LD (int j) = w (?cs ! j) \<and>
      bl_raws (mref [] LD (int j)) \<subseteq> bl_raws (mref [] D (?cs ! j)) \<union> {length (raws h)..}" if "j < ?n" for j
    using d(3) [OF that] w(1) that by (simp add: mref_layer_map)
  have "frame (wraws D E) h h'" using fr by (rule frame_mono) (auto simp: wraws_def)
  with d(1) layer_stored [OF ar(2,3) la(6) fr LD ar(4)] show ?thesis by blast
qed

text \<open>The loop: \<open>w\<close> is what the chunks must hold.\<close>

definition layer_holds :: "layer_code \<Rightarrow> (nat \<Rightarrow> bool) \<Rightarrow> int set \<Rightarrow> (int \<Rightarrow> byte list) \<Rightarrow> layer \<Rightarrow> bool" where
  "layer_holds enc size_ok N w la \<longleftrightarrow>
     layer_ok enc size_ok la \<and> la_chunks la = la_data la @ la_coding la \<and> distinct (la_chunks la) \<and>
     la_chunks_as_set la = set (la_chunks la) \<and> set (la_chunks la) \<subseteq> N \<and>
     (\<forall>j<length (la_chunks la). w (la_chunks la ! j) = enc la (map w (la_data la)) j)"

lemma decode_layers:
  assumes "\<forall>la\<in>set las. layer_holds enc size_ok N w la"
    "size_ok bs" "\<forall>c\<in>N. length (w c) = bs" "finite N"
    "arena h D N E bs" "\<forall>c\<in>N - E. content h D c = w c" "want \<inter> lrc_left las E = {}" "WE = {} \<or> WE = E \<inter> want" "want \<subseteq> N"
  shows "\<exists>h' D'. lrc_decode_layers want las E WE (h, D) = Some (h', 0, D', {}) \<and> frame (wraws D E) h h' \<and>
    mok D' \<and> set (mkeys D') = N \<and>
    (\<forall>c\<in>want \<union> (N - E). bl_ok h' (mref [] D' c) \<and> bl_length (mref [] D' c) = bs \<and> content h' D' c = w c)"
  using assms
proof (induction las arbitrary: h D E WE)
  case Nil
  then have "want \<inter> E = {}" "WE = {}" by (auto simp: lrc_left_def)
  then have "want \<subseteq> N - E" using Nil.prems(9) by blast
  with \<open>WE = {}\<close> Nil.prems(6) arena_simps(1,2,4,5) [OF Nil.prems(5)] show ?case by auto
next
  case (Cons la las)
  let ?S = "set (la_chunks la)"
  have la: "la_chunks la = la_data la @ la_coding la" "distinct (la_chunks la)" "la_chunks_as_set la = ?S" "?S \<subseteq> N"
      "\<forall>j<length (la_chunks la). w (la_chunks la ! j) = enc la (map w (la_data la)) j" using Cons.prems(1) by (auto simp: layer_holds_def)
  obtain C where C: "la_code la = Some C" "chunk_code C (enc la) size_ok" "length (la_data la) = get_data_chunk_count C"
      "length (la_chunks la) = get_chunk_count C" using Cons.prems(1) by (auto simp: layer_ok_def layer_holds_def)
  have rest: "\<forall>la\<in>set las. layer_holds enc size_ok N w la" using Cons.prems(1) by simp
  have fin: "finite E" using finite_subset [OF arena_simps(3) [OF Cons.prems(5)] Cons.prems(4)] .
  have left: "lrc_left (la # las) E = lrc_left las (layer_left la E)" by (simp add: lrc_left_def)
  note IH = Cons.IH [OF rest Cons.prems(2-4) _ _ _ _ Cons.prems(9)]
  show ?case
  proof (cases "card (?S \<inter> E) > get_coding_chunk_count C \<or> ?S \<inter> E = {}")
    case True
    then have "layer_left la E = E" using C(1) la(3) by (auto simp: layer_left_def)
    then obtain h' D' where "lrc_decode_layers want las E WE (h, D) = Some (h', 0, D', {})" "frame (wraws D E) h h'"
        "mok D'" "set (mkeys D') = N"
        "\<forall>c\<in>want \<union> (N - E). bl_ok h' (mref [] D' c) \<and> bl_length (mref [] D' c) = bs \<and> content h' D' c = w c"
      using IH [OF Cons.prems(5,6) _ Cons.prems(8)] Cons.prems(7) left by auto
    with True C(1) la(3) fin show ?thesis by (auto simp: Let_def)
  next
    case False
    then have few: "\<forall>c\<in>set (la_data la). length (w c) = bs" "card (?S \<inter> E) \<le> get_coding_chunk_count C" "?S \<inter> E \<noteq> {}"
      using Cons.prems(3) la(1,4) by auto
    obtain h1 LD where 1: "decode_chunks C (lrc_positions (la_chunks la) want) (avail_map D E (la_chunks la)) (layer_map D (la_chunks la)) h = Some (h1, 0, LD)"
        "frame (wraws D E) h h1" "arena h1 (lrc_decode_store (la_chunks la) 0 LD D) N (E - ?S) bs"
        "\<forall>c\<in>N - (E - ?S). content h1 (lrc_decode_store (la_chunks la) 0 LD D) c = w c"
        "wraws (lrc_decode_store (la_chunks la) 0 LD D) (E - ?S) \<subseteq> wraws D E"
      using decode_layer [where enc = enc and la = la and w = w, OF C la(1,2) Cons.prems(2,5) la(4) Cons.prems(6) la(5) few] by blast
    let ?D = "lrc_decode_store (la_chunks la) 0 LD D"
    have sel: "lrc_decode_select (la_chunks la) 0 E (D, [], []) = (D, avail_map D E (la_chunks la), layer_map D (la_chunks la))"
      using decode_select_eq [of D "la_chunks la" "[]" E] arena_simps(1,2) [OF Cons.prems(5)] la(4)
      by (simp add: layer_map_def avail_map_def)
    have run: "lrc_decode_layers want (la # las) E WE (h, D) =
        (if (E - ?S) \<inter> want = {} then Some (h1, 0, ?D, {}) else lrc_decode_layers want las (E - ?S) ((E - ?S) \<inter> want) (h1, ?D))"
      using False C(1) la(3) fin 1(1) sel by (simp add: Let_def)
    show ?thesis
    proof (cases "(E - ?S) \<inter> want = {}")
      case True
      with run 1 arena_simps [OF 1(3)] Cons.prems(9) show ?thesis by auto
    next
      case ne: False
      have "layer_left la E = E - ?S" using False C(1) la(3) by (auto simp: layer_left_def)
      then obtain h' D' where 2: "lrc_decode_layers want las (E - ?S) ((E - ?S) \<inter> want) (h1, ?D) = Some (h', 0, D', {})"
          "frame (wraws ?D (E - ?S)) h1 h'" "mok D'" "set (mkeys D') = N"
          "\<forall>c\<in>want \<union> (N - (E - ?S)). bl_ok h' (mref [] D' c) \<and> bl_length (mref [] D' c) = bs \<and> content h' D' c = w c"
        using IH [OF 1(3,4), of "(E - ?S) \<inter> want"] Cons.prems(7) left by auto
      have "frame (wraws D E) h h'" using frame_trans [OF 1(2) 2(2)] 1(5) by (simp add: Un_absorb2)
      with run ne 2 show ?thesis by auto
    qed
  qed
qed

section \<open>The contract of the base class\<close>

definition lrc_data :: "lrc \<Rightarrow> int set" where
  "lrc_data L = chunk_index (lrc_chunk_mapping L) ` {..<lrc_data_chunk_count L}"

definition lrc_blocks :: "lrc \<Rightarrow> byte list list \<Rightarrow> int \<Rightarrow> byte list" where
  "lrc_blocks L ds c = ds ! chunk_position (map (chunk_index (lrc_chunk_mapping L)) [0..<lrc_data_chunk_count L]) c"

definition lrc_enc :: "lrc \<Rightarrow> layer_code \<Rightarrow> byte list list \<Rightarrow> int \<Rightarrow> byte list" where
  "lrc_enc L E ds = lrc_values E (lrc_layers L) (lrc_blocks L ds)"

definition lrc_fits :: "lrc \<Rightarrow> (nat \<Rightarrow> bool) \<Rightarrow> nat \<Rightarrow> nat \<Rightarrow> bool" where
  "lrc_fits L size_ok len bs \<longleftrightarrow>
     lrc_get_chunk_size L len = Some bs \<and> size_ok bs \<and> len < 2 ^ 32 \<and> len \<le> lrc_data_chunk_count L * bs"

text \<open>Encoding starts at the first layer: no later one contains everything that is wanted.\<close>

definition lrc_encodable :: "lrc \<Rightarrow> int set \<Rightarrow> bool" where
  "lrc_encodable L want \<longleftrightarrow> lrc_top (rev (lrc_layers L)) want (length (lrc_layers L)) = 0"

lemma layout_coding: "lrc_layout known las \<Longrightarrow> layers_coding las \<inter> known = {}"
  by (induction las arbitrary: known) auto

lemma layout_layer:
  "lrc_layout known las \<Longrightarrow> la \<in> set las \<Longrightarrow> la_chunks la = la_data la @ la_coding la \<and> distinct (la_chunks la) \<and>
     la_chunks_as_set la = set (la_chunks la) \<and> set (la_chunks la) \<subseteq> known \<union> layers_coding las"
proof (induction las arbitrary: known)
  case (Cons lb las)
  from Cons.IH [of "known \<union> set (la_coding lb)"] Cons.prems show ?case by (cases "la \<in> set las") auto
qed simp

locale lrc_code =
  fixes L :: lrc and E :: layer_code and size_ok :: "nat \<Rightarrow> bool"
  assumes layers: "\<forall>la\<in>set (lrc_layers L). layer_ok E size_ok la"
    and layout: "lrc_layout (lrc_data L) (lrc_layers L)"
    and covered: "lrc_data L \<union> layers_coding (lrc_layers L) = int ` {..<lrc_chunk_count L}"
    and mapping: "bij_betw (chunk_index (lrc_chunk_mapping L)) {..<lrc_chunk_count L} (int ` {..<lrc_chunk_count L})"
    and data_le: "lrc_data_chunk_count L \<le> lrc_chunk_count L"
begin

lemma blocks_nth:
  assumes "i < lrc_data_chunk_count L"
  shows "lrc_blocks L ds (chunk_index (lrc_chunk_mapping L) i) = ds ! i"
proof -
  have "inj_on (chunk_index (lrc_chunk_mapping L)) {..<lrc_data_chunk_count L}"
    using bij_betw_imp_inj_on [OF mapping] by (rule inj_on_subset) (use data_le in auto)
  then have "distinct (map (chunk_index (lrc_chunk_mapping L)) [0..<lrc_data_chunk_count L])"
    by (simp add: distinct_map lessThan_atLeast0)
  from chunk_position_nth [OF this, of i] assms show ?thesis by (simp add: lrc_blocks_def)
qed

lemma blocks_length:
  assumes "length ds = lrc_data_chunk_count L" "\<And>d. d \<in> set ds \<Longrightarrow> length d = bs"
  shows "\<forall>c\<in>lrc_data L. length (lrc_blocks L ds c) = bs"
  using assms blocks_nth [of _ ds] by (auto simp: lrc_data_def)

lemma parity: "chunk_index (lrc_chunk_mapping L) ` {lrc_data_chunk_count L..<lrc_chunk_count L} = layers_coding (lrc_layers L)"
proof -
  let ?f = "chunk_index (lrc_chunk_mapping L)"
  have "{lrc_data_chunk_count L..<lrc_chunk_count L} = {..<lrc_chunk_count L} - {..<lrc_data_chunk_count L}"
    using data_le by auto
  then have "?f ` {lrc_data_chunk_count L..<lrc_chunk_count L} = ?f ` ({..<lrc_chunk_count L} - {..<lrc_data_chunk_count L})"
    by (rule arg_cong)
  also have "\<dots> = ?f ` {..<lrc_chunk_count L} - lrc_data L"
    unfolding lrc_data_def
    by (rule inj_on_image_set_diff [OF bij_betw_imp_inj_on [OF mapping]]) (use data_le in auto)
  finally have "?f ` {lrc_data_chunk_count L..<lrc_chunk_count L} = ?f ` {..<lrc_chunk_count L} - lrc_data L" .
  then show ?thesis
    using covered layout_coding [OF layout] bij_betw_imp_surj_on [OF mapping] by auto
qed

lemma layers_hold:
  assumes "length ds = lrc_data_chunk_count L" "\<And>d. d \<in> set ds \<Longrightarrow> length d = bs" "la \<in> set (lrc_layers L)"
  shows "layer_holds E size_ok (int ` {..<lrc_chunk_count L}) (lrc_enc L E ds) la"
  unfolding layer_holds_def lrc_enc_def
  using layout_layer [OF layout assms(3)] layers assms(3) covered
    values_layer [OF layers layout blocks_length [OF assms(1,2)] assms(3)] by blast

lemma enc_length:
  assumes "length ds = lrc_data_chunk_count L" "\<And>d. d \<in> set ds \<Longrightarrow> length d = bs"
  shows "\<forall>c\<in>int ` {..<lrc_chunk_count L}. length (lrc_enc L E ds c) = bs"
  using values_length [OF layers layout blocks_length [OF assms]] covered by (simp add: lrc_enc_def)

lemma encode_ok:
  assumes fits: "lrc_fits L size_ok len bs" and top: "lrc_encodable L want"
    and ar: "arena h M (int ` {..<lrc_chunk_count L}) (layers_coding (lrc_layers L)) bs"
    and data: "\<And>i. i < lrc_data_chunk_count L \<Longrightarrow> content h M (chunk_index (lrc_chunk_mapping L) i) = ds ! i"
  shows "\<exists>h'. lrc_encode_chunks L want M h = Some (h', 0, M) \<and> frame (wraws M (layers_coding (lrc_layers L))) h h' \<and>
    holds h' M (int ` {..<lrc_chunk_count L}) bs (lrc_enc L E ds)"
proof -
  have v: "\<forall>c\<in>lrc_data L. content h M c = lrc_blocks L ds c" using data by (auto simp: lrc_data_def blocks_nth)
  have bs: "size_ok bs" using fits by (simp add: lrc_fits_def)
  have sub: "lrc_data L \<subseteq> int ` {..<lrc_chunk_count L}" using covered by blast
  obtain h' where h': "lrc_encode_layers want (lrc_layers L) (h, M) = Some (h', 0, M)"
      "frame (wraws M (layers_coding (lrc_layers L))) h h'"
      "\<forall>c\<in>lrc_data L \<union> layers_coding (lrc_layers L). content h' M c = lrc_enc L E ds c"
    using encode_layers [OF layers layout bs ar sub subset_refl v, of want] by (auto simp: lrc_enc_def)
  from arena_simps [OF frame_arena [OF h'(2) ar]] h'(3)
  have "holds h' M (int ` {..<lrc_chunk_count L}) bs (lrc_enc L E ds)" unfolding covered by (simp add: holds_def)
  with h'(1,2) top show ?thesis by (simp add: lrc_encode_chunks_def lrc_encodable_def)
qed

lemma decode_ok:
  assumes fits: "lrc_fits L size_ok len bs" and ds: "length ds = lrc_data_chunk_count L" "\<And>d. d \<in> set ds \<Longrightarrow> length d = bs"
    and A: "A \<subseteq> int ` {..<lrc_chunk_count L}" "set (mkeys chunks) = A" and want: "want \<subseteq> int ` {..<lrc_chunk_count L}" "lrc_restores L want A"
    and ar: "arena h M (int ` {..<lrc_chunk_count L}) (int ` {..<lrc_chunk_count L} - A) bs"
    and data: "\<And>c. c \<in> A \<Longrightarrow> content h M c = lrc_enc L E ds c"
  shows "\<exists>h' M'. lrc_decode_chunks L want chunks M h = Some (h', 0, M') \<and> frame (wraws M (int ` {..<lrc_chunk_count L} - A)) h h' \<and>
    mok M' \<and> set (mkeys M') = int ` {..<lrc_chunk_count L} \<and>
    (\<forall>c\<in>want \<union> A. bl_ok h' (mref [] M' c) \<and> bl_length (mref [] M' c) = bs \<and> content h' M' c = lrc_enc L E ds c)"
proof -
  let ?N = "int ` {..<lrc_chunk_count L}"
  have miss: "lrc_missing L A = ?N - A" by (auto simp: lrc_missing_iff)
  have 1: "\<forall>la\<in>set (rev (lrc_layers L)). layer_holds E size_ok ?N (lrc_enc L E ds) la"
    using layers_hold [OF ds] by simp
  have 2: "size_ok bs" using fits by (simp add: lrc_fits_def)
  have 3: "\<forall>c\<in>?N - (?N - A). content h M c = lrc_enc L E ds c" using data by auto
  have 4: "want \<inter> lrc_left (rev (lrc_layers L)) (?N - A) = {}" using want(2) by (simp add: lrc_restores_def miss)
  obtain h' M' where r: "lrc_decode_layers want (rev (lrc_layers L)) (?N - A) {} (h, M) = Some (h', 0, M', {})"
      "frame (wraws M (?N - A)) h h'" "mok M'" "set (mkeys M') = ?N"
      "\<forall>c\<in>want \<union> (?N - (?N - A)). bl_ok h' (mref [] M' c) \<and> bl_length (mref [] M' c) = bs \<and> content h' M' c = lrc_enc L E ds c"
    using decode_layers [OF 1 2 enc_length [OF ds] _ ar 3 4, of "{}"] want(1) by auto
  moreover have "?N - (?N - A) = A" using A(1) by blast
  ultimately show ?thesis by (simp add: lrc_decode_chunks_def A(2) miss)
qed

end

lemma lrc_codec_simps [simp]:
  "chunk_mapping (lrc_codec L) = lrc_chunk_mapping L" "get_chunk_count (lrc_codec L) = lrc_chunk_count L"
  "get_data_chunk_count (lrc_codec L) = lrc_data_chunk_count L" "get_chunk_size (lrc_codec L) = lrc_get_chunk_size L"
  "minimum_to_decode (lrc_codec L) = lrc_minimum_to_decode L"
  "encode_chunks (lrc_codec L) = lrc_encode_chunks L" "decode_chunks (lrc_codec L) = lrc_decode_chunks L"
  by (simp_all add: lrc_codec_def lrc_get_chunk_count_def lrc_get_data_chunk_count_def)

sublocale lrc_code \<subseteq> erasure_code "lrc_codec L" "lrc_enc L E" "lrc_restores L" "lrc_fits L size_ok" "lrc_encodable L"
proof (unfold_locales, unfold lrc_codec_simps parity)
  fix len bs assume f: "lrc_fits L size_ok len bs"
  then obtain la las where "lrc_layers L = la # las" by (cases "lrc_layers L") (auto simp: lrc_fits_def lrc_get_chunk_size_def)
  with layers obtain C where "chunk_code C (E la) size_ok" by (auto simp: layer_ok_def)
  with f chunk_code.size_pos [of C "E la" size_ok bs]
  show "lrc_get_chunk_size L len = Some bs \<and> 0 < bs \<and> len < 2 ^ 32 \<and> len \<le> lrc_data_chunk_count L * bs"
    by (simp add: lrc_fits_def)
next
  fix ds :: "byte list list" and bs i assume "length ds = lrc_data_chunk_count L" "i < lrc_data_chunk_count L"
  then show "lrc_enc L E ds (chunk_index (lrc_chunk_mapping L) i) = ds ! i"
    using values_known [OF layout] blocks_nth [of i ds] by (auto simp: lrc_enc_def lrc_data_def)
next
  fix len bs want ds h and M :: chunks
  assume "lrc_fits L size_ok len bs" "lrc_encodable L want"
    "arena h M (int ` {..<lrc_chunk_count L}) (layers_coding (lrc_layers L)) bs"
    "\<And>i. i < lrc_data_chunk_count L \<Longrightarrow> content h M (chunk_index (lrc_chunk_mapping L) i) = ds ! i"
  then show "\<exists>h' rc M'. lrc_encode_chunks L want M h = Some (h', rc, M') \<and>
      frame (wraws M (layers_coding (lrc_layers L))) h h' \<and> holds h' M' (int ` {..<lrc_chunk_count L}) bs (lrc_enc L E ds)"
    using encode_ok [of len bs want h M ds] by blast
next
  fix len bs ds A want h0 chunks h and M :: chunks
  assume "lrc_fits L size_ok len bs" "length ds = lrc_data_chunk_count L" "\<And>d. d \<in> set ds \<Longrightarrow> length d = bs"
    "A \<subseteq> int ` {..<lrc_chunk_count L}" "want \<subseteq> int ` {..<lrc_chunk_count L}" "lrc_restores L want A"
    "holds h0 chunks A bs (lrc_enc L E ds)"
    "arena h M (int ` {..<lrc_chunk_count L}) (int ` {..<lrc_chunk_count L} - A) bs"
    "\<And>c. c \<in> A \<Longrightarrow> content h M c = lrc_enc L E ds c"
  then show "\<exists>h' M'. lrc_decode_chunks L want chunks M h = Some (h', 0, M') \<and>
      frame (wraws M (int ` {..<lrc_chunk_count L} - A)) h h' \<and> mok M' \<and> set (mkeys M') = int ` {..<lrc_chunk_count L} \<and>
      (\<forall>c\<in>want \<union> A. bl_ok h' (mref [] M' c) \<and> bl_length (mref [] M' c) = bs \<and> content h' M' c = lrc_enc L E ds c)"
    by (intro decode_ok) (auto simp: holds_def)
qed (use data_le mapping in auto)

context lrc_code
begin

lemma is_erasure_code:
  "erasure_code (lrc_codec L) (lrc_enc L E) (lrc_restores L) (lrc_fits L size_ok) (lrc_encodable L)"
  by unfold_locales

end

end
