(* ===== verification/Jerasure.thy ===== *)
theory Jerasure
  imports Jerasure_Lib Chunk_Access Plugin_Registry
begin

text \<open>
  The jerasure plugin, \<open>src/src/erasure-code/jerasure\<close>: seven coding techniques behind one
  class. The class and its subclasses are one record with the technique as a field; the
  virtual functions distinguish it. The functions of the jerasure library are the fields of
  \<open>techniques\<close>; a null pointer they return is \<open>None\<close>. Signed overflow, a division by zero and a
  failed assertion have no result.
\<close>

section \<open>The library\<close>

type_synonym pointers = "cptr option list"

record techniques =
  je_lib :: jerasure
  reed_sol_vandermonde_coding_matrix :: "int \<Rightarrow> int \<Rightarrow> int \<Rightarrow> int list option"
  reed_sol_r6_coding_matrix :: "int \<Rightarrow> int \<Rightarrow> int list option"
  reed_sol_r6_encode :: "int \<Rightarrow> int \<Rightarrow> pointers \<Rightarrow> pointers \<Rightarrow> int \<Rightarrow> heap \<Rightarrow> heap option"
  jerasure_matrix_decode ::
    "int \<Rightarrow> int \<Rightarrow> int \<Rightarrow> int list \<Rightarrow> int \<Rightarrow> int list \<Rightarrow> pointers \<Rightarrow> pointers \<Rightarrow> int \<Rightarrow> heap \<Rightarrow> (heap \<times> int) option"
  cauchy_original_coding_matrix :: "int \<Rightarrow> int \<Rightarrow> int \<Rightarrow> int list option"
  cauchy_good_general_coding_matrix :: "int \<Rightarrow> int \<Rightarrow> int \<Rightarrow> int list option"
  jerasure_matrix_to_bitmatrix :: "int \<Rightarrow> int \<Rightarrow> int \<Rightarrow> int list option \<Rightarrow> int list option"
  jerasure_smart_bitmatrix_to_schedule :: "int \<Rightarrow> int \<Rightarrow> int \<Rightarrow> int list option \<Rightarrow> int list list option"
  jerasure_schedule_encode ::
    "int \<Rightarrow> int \<Rightarrow> int \<Rightarrow> int list list option \<Rightarrow> pointers \<Rightarrow> pointers \<Rightarrow> int \<Rightarrow> int \<Rightarrow> heap \<Rightarrow> heap option"
  jerasure_schedule_decode_lazy ::
    "int \<Rightarrow> int \<Rightarrow> int \<Rightarrow> int list option \<Rightarrow> int list \<Rightarrow> pointers \<Rightarrow> pointers \<Rightarrow> int \<Rightarrow> int \<Rightarrow> int \<Rightarrow> heap \<Rightarrow> (heap \<times> int) option"
  liberation_coding_bitmatrix :: "int \<Rightarrow> int \<Rightarrow> int list option"
  blaum_roth_coding_bitmatrix :: "int \<Rightarrow> int \<Rightarrow> int list option"
  liber8tion_coding_bitmatrix :: "int \<Rightarrow> int list option"
  galois_init_default_field :: "int \<Rightarrow> int"

section \<open>The object\<close>

datatype technique = ReedSolomonVandermonde | ReedSolomonRAID6 | CauchyOrig | CauchyGood | Liberation | BlaumRoth | Liber8tion

fun technique_name :: "technique \<Rightarrow> string" where
  "technique_name ReedSolomonVandermonde = ''reed_sol_van''"
| "technique_name ReedSolomonRAID6 = ''reed_sol_r6_op''"
| "technique_name CauchyOrig = ''cauchy_orig''"
| "technique_name CauchyGood = ''cauchy_good''"
| "technique_name Liberation = ''liberation''"
| "technique_name BlaumRoth = ''blaum_roth''"
| "technique_name Liber8tion = ''liber8tion''"

record jerasure_code =
  je_technique :: technique
  je_k :: int
  je_m :: int
  je_w :: int
  je_DEFAULT_K :: string
  je_DEFAULT_M :: string
  je_DEFAULT_W :: string
  je_ruleset_root :: string
  je_ruleset_failure_domain :: string
  je_per_chunk_alignment :: bool
  je_matrix :: "int list option"
  je_bitmatrix :: "int list option"
  je_schedule :: "int list list option"
  je_packetsize :: int
  je_chunk_mapping :: "int list"
  je_profile :: profile

definition jerasure_base :: "technique \<Rightarrow> jerasure_code" where
  "jerasure_base t =
     \<lparr>je_technique = t, je_k = 0, je_m = 0, je_w = 0, je_DEFAULT_K = ''2'', je_DEFAULT_M = ''1'', je_DEFAULT_W = ''8'',
      je_ruleset_root = ''default'', je_ruleset_failure_domain = ''host'', je_per_chunk_alignment = False,
      je_matrix = None, je_bitmatrix = None, je_schedule = None, je_packetsize = 0, je_chunk_mapping = [], je_profile = []\<rparr>"

text \<open>The constructors of the subclasses.\<close>

definition vandermonde_new :: jerasure_code where [simp]:
  "vandermonde_new =
     (jerasure_base ReedSolomonVandermonde)\<lparr>je_DEFAULT_K := ''7'', je_DEFAULT_M := ''3'', je_DEFAULT_W := ''8''\<rparr>"

definition raid6_new :: jerasure_code where [simp]:
  "raid6_new = (jerasure_base ReedSolomonRAID6)\<lparr>je_DEFAULT_K := ''7'', je_DEFAULT_W := ''8''\<rparr>"

definition cauchy_new :: "technique \<Rightarrow> jerasure_code" where [simp]:
  "cauchy_new t = (jerasure_base t)\<lparr>je_DEFAULT_K := ''7'', je_DEFAULT_M := ''3'', je_DEFAULT_W := ''8''\<rparr>"

definition liberation_new :: "technique \<Rightarrow> jerasure_code" where [simp]:
  "liberation_new t = (jerasure_base t)\<lparr>je_DEFAULT_K := ''2'', je_DEFAULT_M := ''2'', je_DEFAULT_W := ''7''\<rparr>"

definition liber8tion_new :: jerasure_code where [simp]:
  "liber8tion_new = (liberation_new Liber8tion)\<lparr>je_DEFAULT_K := ''2'', je_DEFAULT_M := ''2'', je_DEFAULT_W := ''8''\<rparr>"

fun jerasure_new :: "technique \<Rightarrow> jerasure_code" where
  "jerasure_new ReedSolomonVandermonde = vandermonde_new"
| "jerasure_new ReedSolomonRAID6 = raid6_new"
| "jerasure_new CauchyOrig = cauchy_new CauchyOrig"
| "jerasure_new CauchyGood = cauchy_new CauchyGood"
| "jerasure_new Liberation = liberation_new Liberation"
| "jerasure_new BlaumRoth = liberation_new BlaumRoth"
| "jerasure_new Liber8tion = liber8tion_new"

definition jerasure_get_chunk_count :: "jerasure_code \<Rightarrow> nat" where
  "jerasure_get_chunk_count c = u32_of_int (je_k c + je_m c)"

definition jerasure_get_data_chunk_count :: "jerasure_code \<Rightarrow> nat" where
  "jerasure_get_data_chunk_count c = u32_of_int (je_k c)"

section \<open>Chunk sizes\<close>

text \<open>A product of two \<open>int\<close>s.\<close>

definition imul :: "int \<Rightarrow> int \<Rightarrow> int option" where
  "imul a b = do { assert_that (INT_MIN \<le> a * b \<and> a * b \<le> INT_MAX); Some (a * b) }"

definition LARGEST_VECTOR_WORDSIZE :: int where
  "LARGEST_VECTOR_WORDSIZE = 16"

text \<open>\<open>get_alignment\<close> of the first Reed-Solomon class: \<open>sizeof(int)\<close> is unsigned, so the last factor
  wraps. The second has the same text.\<close>

definition reed_sol_alignment :: "jerasure_code \<Rightarrow> nat option" where
  "reed_sol_alignment c =
     (if je_per_chunk_alignment c
      then do { a \<leftarrow> imul (je_w c) LARGEST_VECTOR_WORDSIZE; Some (u32_of_int a) }
      else do {
        kw \<leftarrow> imul (je_k c) (je_w c);
        let alignment = u32_of_int (kw * 4);
        if (je_w c * 4) mod LARGEST_VECTOR_WORDSIZE \<noteq> 0
        then do { kwl \<leftarrow> imul kw LARGEST_VECTOR_WORDSIZE; Some (u32_of_int kwl) }
        else Some alignment })"

definition raid6_alignment :: "jerasure_code \<Rightarrow> nat option" where [simp]:
  "raid6_alignment c = reed_sol_alignment c"

definition packet_alignment :: "jerasure_code \<Rightarrow> nat option" where
  "packet_alignment c = do {
     kw \<leftarrow> imul (je_k c) (je_w c);
     kwp \<leftarrow> imul kw (je_packetsize c);
     let alignment = u32_of_int (kwp * 4);
     wp \<leftarrow> imul (je_w c) (je_packetsize c);
     if (wp * 4) mod LARGEST_VECTOR_WORDSIZE \<noteq> 0
     then do { kwpl \<leftarrow> imul kwp LARGEST_VECTOR_WORDSIZE; Some (u32_of_int kwpl) }
     else Some alignment }"

definition cauchy_alignment :: "jerasure_code \<Rightarrow> nat option" where
  "cauchy_alignment c =
     (if je_per_chunk_alignment c
      then do {
        wp \<leftarrow> imul (je_w c) (je_packetsize c);
        let alignment = u32_of_int wp;
        let modulo = alignment mod 16;
        Some (if modulo \<noteq> 0 then u32 (alignment + (16 - modulo)) else alignment) }
      else packet_alignment c)"

fun jerasure_get_alignment :: "technique \<Rightarrow> jerasure_code \<Rightarrow> nat option" where
  "jerasure_get_alignment ReedSolomonVandermonde c = reed_sol_alignment c"
| "jerasure_get_alignment ReedSolomonRAID6 c = raid6_alignment c"
| "jerasure_get_alignment CauchyOrig c = cauchy_alignment c"
| "jerasure_get_alignment CauchyGood c = cauchy_alignment c"
| "jerasure_get_alignment Liberation c = packet_alignment c"
| "jerasure_get_alignment BlaumRoth c = packet_alignment c"
| "jerasure_get_alignment Liber8tion c = packet_alignment c"

definition jerasure_get_chunk_size :: "jerasure_code \<Rightarrow> nat \<Rightarrow> nat option" where
  "jerasure_get_chunk_size c object_size = do {
     alignment \<leftarrow> jerasure_get_alignment (je_technique c) c;
     let k = u32_of_int (je_k c);
     if je_per_chunk_alignment c then do {
       assert_that (k \<noteq> 0);
       let chunk_size = object_size div k;
       let chunk_size = (if object_size mod k \<noteq> 0 then u32 (chunk_size + 1) else chunk_size);
       assert_that (alignment \<le> chunk_size \<and> alignment \<noteq> 0);
       let modulo = chunk_size mod alignment;
       Some (if modulo \<noteq> 0 then u32 (chunk_size + (alignment - modulo)) else chunk_size) }
     else do {
       assert_that (alignment \<noteq> 0);
       let tail = object_size mod alignment;
       let padded_length = u32 (object_size + (if tail \<noteq> 0 then alignment - tail else 0));
       assert_that (k \<noteq> 0 \<and> padded_length mod k = 0);
       Some (padded_length div k) } }"

section \<open>Encoding and decoding\<close>

definition vandermonde_encode :: "techniques \<Rightarrow> jerasure_code \<Rightarrow> pointers \<Rightarrow> pointers \<Rightarrow> int \<Rightarrow> heap \<Rightarrow> heap option" where [simp]:
  "vandermonde_encode T c data coding blocksize h = do {
     matrix \<leftarrow> je_matrix c;
     jerasure_matrix_encode (je_lib T) (je_k c) (je_m c) (je_w c) matrix data coding blocksize h }"

definition vandermonde_decode ::
    "techniques \<Rightarrow> jerasure_code \<Rightarrow> int list \<Rightarrow> pointers \<Rightarrow> pointers \<Rightarrow> int \<Rightarrow> heap \<Rightarrow> (heap \<times> int) option" where [simp]:
  "vandermonde_decode T c erasures data coding blocksize h = do {
     matrix \<leftarrow> je_matrix c;
     jerasure_matrix_decode T (je_k c) (je_m c) (je_w c) matrix 1 erasures data coding blocksize h }"

definition raid6_encode :: "techniques \<Rightarrow> jerasure_code \<Rightarrow> pointers \<Rightarrow> pointers \<Rightarrow> int \<Rightarrow> heap \<Rightarrow> heap option" where [simp]:
  "raid6_encode T c data coding blocksize h = reed_sol_r6_encode T (je_k c) (je_w c) data coding blocksize h"

definition raid6_decode ::
    "techniques \<Rightarrow> jerasure_code \<Rightarrow> int list \<Rightarrow> pointers \<Rightarrow> pointers \<Rightarrow> int \<Rightarrow> heap \<Rightarrow> (heap \<times> int) option" where [simp]:
  "raid6_decode T c erasures data coding blocksize h = do {
     matrix \<leftarrow> je_matrix c;
     jerasure_matrix_decode T (je_k c) (je_m c) (je_w c) matrix 1 erasures data coding blocksize h }"

definition cauchy_encode :: "techniques \<Rightarrow> jerasure_code \<Rightarrow> pointers \<Rightarrow> pointers \<Rightarrow> int \<Rightarrow> heap \<Rightarrow> heap option" where [simp]:
  "cauchy_encode T c data coding blocksize h =
     jerasure_schedule_encode T (je_k c) (je_m c) (je_w c) (je_schedule c) data coding blocksize (je_packetsize c) h"

definition cauchy_decode ::
    "techniques \<Rightarrow> jerasure_code \<Rightarrow> int list \<Rightarrow> pointers \<Rightarrow> pointers \<Rightarrow> int \<Rightarrow> heap \<Rightarrow> (heap \<times> int) option" where [simp]:
  "cauchy_decode T c erasures data coding blocksize h =
     jerasure_schedule_decode_lazy T (je_k c) (je_m c) (je_w c) (je_bitmatrix c) erasures data coding
       blocksize (je_packetsize c) 1 h"

definition liberation_encode :: "techniques \<Rightarrow> jerasure_code \<Rightarrow> pointers \<Rightarrow> pointers \<Rightarrow> int \<Rightarrow> heap \<Rightarrow> heap option" where [simp]:
  "liberation_encode T c data coding blocksize h =
     jerasure_schedule_encode T (je_k c) (je_m c) (je_w c) (je_schedule c) data coding blocksize (je_packetsize c) h"

definition liberation_decode ::
    "techniques \<Rightarrow> jerasure_code \<Rightarrow> int list \<Rightarrow> pointers \<Rightarrow> pointers \<Rightarrow> int \<Rightarrow> heap \<Rightarrow> (heap \<times> int) option" where [simp]:
  "liberation_decode T c erasures data coding blocksize h =
     jerasure_schedule_decode_lazy T (je_k c) (je_m c) (je_w c) (je_bitmatrix c) erasures data coding
       blocksize (je_packetsize c) 1 h"

fun jerasure_encode :: "techniques \<Rightarrow> technique \<Rightarrow> jerasure_code \<Rightarrow> pointers \<Rightarrow> pointers \<Rightarrow> int \<Rightarrow> heap \<Rightarrow> heap option" where
  "jerasure_encode T ReedSolomonVandermonde c = vandermonde_encode T c"
| "jerasure_encode T ReedSolomonRAID6 c = raid6_encode T c"
| "jerasure_encode T CauchyOrig c = cauchy_encode T c"
| "jerasure_encode T CauchyGood c = cauchy_encode T c"
| "jerasure_encode T _ c = liberation_encode T c"

fun jerasure_decode ::
    "techniques \<Rightarrow> technique \<Rightarrow> jerasure_code \<Rightarrow> int list \<Rightarrow> pointers \<Rightarrow> pointers \<Rightarrow> int \<Rightarrow> heap \<Rightarrow> (heap \<times> int) option" where
  "jerasure_decode T ReedSolomonVandermonde c = vandermonde_decode T c"
| "jerasure_decode T ReedSolomonRAID6 c = raid6_decode T c"
| "jerasure_decode T CauchyOrig c = cauchy_decode T c"
| "jerasure_decode T CauchyGood c = cauchy_decode T c"
| "jerasure_decode T _ c = liberation_decode T c"

definition jerasure_encode_chunks ::
    "techniques \<Rightarrow> jerasure_code \<Rightarrow> int set \<Rightarrow> chunks \<Rightarrow> heap \<Rightarrow> (heap \<times> int \<times> chunks) option" where
  "jerasure_encode_chunks T c want_to_encode encoded h = do {
     assert_that (0 \<le> je_k c \<and> 0 \<le> je_m c);
     (h, encoded, chunks) \<leftarrow> c_strs (map int [0..<nat (je_k c + je_m c)]) (h, encoded);
     let blocksize = int_of_u32 (bl_length (mref [] encoded 0));
     let encoded = mput 0 (mref [] encoded 0) encoded;
     h \<leftarrow> jerasure_encode T (je_technique c) c (take (nat (je_k c)) chunks) (drop (nat (je_k c)) chunks) blocksize h;
     Some (h, 0, encoded) }"

definition jerasure_decode_chunks ::
    "techniques \<Rightarrow> jerasure_code \<Rightarrow> int set \<Rightarrow> chunks \<Rightarrow> chunks \<Rightarrow> heap \<Rightarrow> (heap \<times> int \<times> chunks) option" where
  "jerasure_decode_chunks T c want_to_read chunks decoded h = do {
     assert_that (chunks \<noteq> [] \<and> 0 \<le> je_k c \<and> 0 \<le> je_m c);
     let blocksize = bl_length (snd (hd chunks));
     let all = map int [0..<nat (je_k c + je_m c)];
     let erasures = filter (\<lambda>i. mget chunks i = None) all;
     (h, decoded, ps) \<leftarrow> c_strs all (h, decoded);
     assert_that (erasures \<noteq> []);
     (h, r) \<leftarrow> jerasure_decode T (je_technique c) c (erasures @ [- 1]) (take (nat (je_k c)) ps) (drop (nat (je_k c)) ps)
       (int_of_u32 blocksize) h;
     Some (h, r, decoded) }"

definition jerasure_codec :: "techniques \<Rightarrow> jerasure_code \<Rightarrow> codec" where
  "jerasure_codec T c =
     \<lparr>chunk_mapping = je_chunk_mapping c, get_profile = je_profile c,
      get_chunk_count = jerasure_get_chunk_count c, get_data_chunk_count = jerasure_get_data_chunk_count c,
      get_chunk_size = jerasure_get_chunk_size c,
      minimum_to_decode = base_minimum_to_decode (jerasure_get_data_chunk_count c),
      encode_chunks = jerasure_encode_chunks T c, decode_chunks = jerasure_decode_chunks T c\<rparr>"

section \<open>Profiles\<close>

definition is_prime :: "int \<Rightarrow> bool" where
  "is_prime value \<longleftrightarrow> value \<in> set
     [2,3,5,7,11,13,17,19,23,29,31,37,41,43,47,53,59,61,67,71,
      73,79,83,89,97,101,103,107,109,113,127,131,137,139,149,
      151,157,163,167,173,179,
      181,191,193,197,199,211,223,227,229,233,239,241,251,257]"

text \<open>\<open>ErasureCodeJerasure::parse\<close>.\<close>

definition jerasure_parse :: "jerasure_code \<Rightarrow> profile \<Rightarrow> (int \<times> jerasure_code \<times> profile) option" where
  "jerasure_parse c profile = do {
     let (err, mapping) = parse_base profile (je_chunk_mapping c);
     let (err_k, profile, k) = to_int ''k'' profile (je_DEFAULT_K c);
     let (err_m, profile, m) = to_int ''m'' profile (je_DEFAULT_M c);
     let (err_w, profile, w) = to_int ''w'' profile (je_DEFAULT_W c);
     let err = err OR err_k OR err_m OR err_w;
     let c = c\<lparr>je_k := k, je_m := m, je_w := w, je_chunk_mapping := mapping\<rparr>;
     assert_that (mapping = [] \<or> INT_MIN \<le> k + m \<and> k + m \<le> INT_MAX);
     Some (if mapping \<noteq> [] \<and> int_of_u32 (u32 (length mapping)) \<noteq> k + m
           then (- EINVAL, c\<lparr>je_chunk_mapping := []\<rparr>, profile) else (err, c, profile)) }"

text \<open>The test both Reed-Solomon classes make of \<open>w\<close>.\<close>

definition reed_sol_check_w :: "int \<Rightarrow> jerasure_code \<Rightarrow> profile \<Rightarrow> int \<times> jerasure_code \<times> profile" where
  "reed_sol_check_w err c profile =
     (if je_w c \<noteq> 8 \<and> je_w c \<noteq> 16 \<and> je_w c \<noteq> 32
      then let profile = mput ''w'' ''8'' profile; (_, profile, w) = to_int ''w'' profile (je_DEFAULT_W c)
           in (- EINVAL, c\<lparr>je_w := w\<rparr>, profile)
      else (err, c, profile))"

definition vandermonde_parse :: "jerasure_code \<Rightarrow> profile \<Rightarrow> (int \<times> jerasure_code \<times> profile) option" where
  "vandermonde_parse c profile = do {
     (err, c, profile) \<leftarrow> jerasure_parse c profile;
     let (err, c, profile) = reed_sol_check_w err c profile;
     let (err_b, profile, b) = to_bool ''jerasure-per-chunk-alignment'' profile ''false'';
     Some (err OR err_b, c\<lparr>je_per_chunk_alignment := b\<rparr>, profile) }"

definition raid6_parse :: "jerasure_code \<Rightarrow> profile \<Rightarrow> (int \<times> jerasure_code \<times> profile) option" where
  "raid6_parse c profile = do {
     (err, c, profile) \<leftarrow> jerasure_parse c profile;
     Some (reed_sol_check_w err (c\<lparr>je_m := 2\<rparr>) (mdel ''m'' profile)) }"

definition DEFAULT_PACKETSIZE :: string where
  "DEFAULT_PACKETSIZE = ''2048''"

definition cauchy_parse :: "jerasure_code \<Rightarrow> profile \<Rightarrow> (int \<times> jerasure_code \<times> profile) option" where
  "cauchy_parse c profile = do {
     (err, c, profile) \<leftarrow> jerasure_parse c profile;
     let (err_p, profile, p) = to_int ''packetsize'' profile DEFAULT_PACKETSIZE;
     let (err_b, profile, b) = to_bool ''jerasure-per-chunk-alignment'' profile ''false'';
     Some (err OR err_p OR err_b, c\<lparr>je_packetsize := p, je_per_chunk_alignment := b\<rparr>, profile) }"

definition check_k :: "jerasure_code \<Rightarrow> bool" where
  "check_k c \<longleftrightarrow> \<not> je_k c > je_w c"

definition liberation_check_w :: "jerasure_code \<Rightarrow> bool" where [simp]:
  "liberation_check_w c \<longleftrightarrow> \<not> (je_w c \<le> 2 \<or> \<not> is_prime (je_w c))"

definition blaum_roth_check_w :: "jerasure_code \<Rightarrow> bool" where [simp]:
  "blaum_roth_check_w c \<longleftrightarrow> je_w c = 7 \<or> \<not> (je_w c \<le> 2 \<or> \<not> is_prime (je_w c + 1))"

fun check_w :: "technique \<Rightarrow> jerasure_code \<Rightarrow> bool" where
  "check_w BlaumRoth c \<longleftrightarrow> blaum_roth_check_w c"
| "check_w _ c \<longleftrightarrow> liberation_check_w c"

definition check_packetsize_set :: "jerasure_code \<Rightarrow> bool" where
  "check_packetsize_set c \<longleftrightarrow> je_packetsize c \<noteq> 0"

definition check_packetsize :: "jerasure_code \<Rightarrow> bool" where
  "check_packetsize c \<longleftrightarrow> je_packetsize c mod 4 = 0"

definition revert_to_default :: "jerasure_code \<Rightarrow> profile \<Rightarrow> int \<times> jerasure_code \<times> profile" where
  "revert_to_default c profile =
     (let (err_k, profile, k) = to_int ''k'' (mput ''k'' (je_DEFAULT_K c) profile) (je_DEFAULT_K c);
          (err_w, profile, w) = to_int ''w'' (mput ''w'' (je_DEFAULT_W c) profile) (je_DEFAULT_W c);
          (err_p, profile, p) = to_int ''packetsize'' (mput ''packetsize'' DEFAULT_PACKETSIZE profile) DEFAULT_PACKETSIZE
      in (err_k OR err_w OR err_p, c\<lparr>je_k := k, je_w := w, je_packetsize := p\<rparr>, profile))"

definition liberation_parse :: "jerasure_code \<Rightarrow> profile \<Rightarrow> (int \<times> jerasure_code \<times> profile) option" where
  "liberation_parse c profile = do {
     (err, c, profile) \<leftarrow> jerasure_parse c profile;
     let (err_p, profile, p) = to_int ''packetsize'' profile DEFAULT_PACKETSIZE;
     let c = c\<lparr>je_packetsize := p\<rparr>;
     Some (if \<not> check_k c \<or> \<not> check_w (je_technique c) c \<or> \<not> check_packetsize_set c \<or> \<not> check_packetsize c
           then (let (_, c, profile) = revert_to_default c profile in (- EINVAL, c, profile))
           else (err OR err_p, c, profile)) }"

definition liber8tion_parse :: "jerasure_code \<Rightarrow> profile \<Rightarrow> (int \<times> jerasure_code \<times> profile) option" where
  "liber8tion_parse c profile = do {
     (err, c, profile) \<leftarrow> jerasure_parse c profile;
     let (err_m, profile, m) = to_int ''m'' (mdel ''m'' profile) (je_DEFAULT_M c);
     let (err_w, profile, w) = to_int ''w'' (mdel ''w'' profile) (je_DEFAULT_W c);
     let (err_p, profile, p) = to_int ''packetsize'' profile DEFAULT_PACKETSIZE;
     let c = c\<lparr>je_m := m, je_w := w, je_packetsize := p\<rparr>;
     Some (if \<not> check_k c \<or> \<not> check_packetsize_set c
           then (let (_, c, profile) = revert_to_default c profile in (- EINVAL, c, profile))
           else (err OR err_m OR err_w OR err_p, c, profile)) }"

fun technique_parse :: "technique \<Rightarrow> jerasure_code \<Rightarrow> profile \<Rightarrow> (int \<times> jerasure_code \<times> profile) option" where
  "technique_parse ReedSolomonVandermonde c profile = vandermonde_parse c profile"
| "technique_parse ReedSolomonRAID6 c profile = raid6_parse c profile"
| "technique_parse CauchyOrig c profile = cauchy_parse c profile"
| "technique_parse CauchyGood c profile = cauchy_parse c profile"
| "technique_parse Liberation c profile = liberation_parse c profile"
| "technique_parse BlaumRoth c profile = liberation_parse c profile"
| "technique_parse Liber8tion c profile = liber8tion_parse c profile"

section \<open>\<open>init\<close>\<close>

definition prepare_schedule :: "techniques \<Rightarrow> int list option \<Rightarrow> jerasure_code \<Rightarrow> jerasure_code" where
  "prepare_schedule T matrix c =
     (let bitmatrix = jerasure_matrix_to_bitmatrix T (je_k c) (je_m c) (je_w c) matrix
      in c\<lparr>je_bitmatrix := bitmatrix,
           je_schedule := jerasure_smart_bitmatrix_to_schedule T (je_k c) (je_m c) (je_w c) bitmatrix\<rparr>)"

definition vandermonde_prepare :: "techniques \<Rightarrow> jerasure_code \<Rightarrow> jerasure_code" where [simp]:
  "vandermonde_prepare T c = c\<lparr>je_matrix := reed_sol_vandermonde_coding_matrix T (je_k c) (je_m c) (je_w c)\<rparr>"

definition raid6_prepare :: "techniques \<Rightarrow> jerasure_code \<Rightarrow> jerasure_code" where [simp]:
  "raid6_prepare T c = c\<lparr>je_matrix := reed_sol_r6_coding_matrix T (je_k c) (je_w c)\<rparr>"

definition cauchy_orig_prepare :: "techniques \<Rightarrow> jerasure_code \<Rightarrow> jerasure_code" where [simp]:
  "cauchy_orig_prepare T c = prepare_schedule T (cauchy_original_coding_matrix T (je_k c) (je_m c) (je_w c)) c"

definition cauchy_good_prepare :: "techniques \<Rightarrow> jerasure_code \<Rightarrow> jerasure_code" where [simp]:
  "cauchy_good_prepare T c = prepare_schedule T (cauchy_good_general_coding_matrix T (je_k c) (je_m c) (je_w c)) c"

definition liberation_prepare :: "techniques \<Rightarrow> jerasure_code \<Rightarrow> jerasure_code" where [simp]:
  "liberation_prepare T c =
     (let bitmatrix = liberation_coding_bitmatrix T (je_k c) (je_w c)
      in c\<lparr>je_bitmatrix := bitmatrix,
           je_schedule := jerasure_smart_bitmatrix_to_schedule T (je_k c) (je_m c) (je_w c) bitmatrix\<rparr>)"

definition blaum_roth_prepare :: "techniques \<Rightarrow> jerasure_code \<Rightarrow> jerasure_code" where [simp]:
  "blaum_roth_prepare T c =
     (let bitmatrix = blaum_roth_coding_bitmatrix T (je_k c) (je_w c)
      in c\<lparr>je_bitmatrix := bitmatrix,
           je_schedule := jerasure_smart_bitmatrix_to_schedule T (je_k c) (je_m c) (je_w c) bitmatrix\<rparr>)"

definition liber8tion_prepare :: "techniques \<Rightarrow> jerasure_code \<Rightarrow> jerasure_code" where [simp]:
  "liber8tion_prepare T c =
     (let bitmatrix = liber8tion_coding_bitmatrix T (je_k c)
      in c\<lparr>je_bitmatrix := bitmatrix,
           je_schedule := jerasure_smart_bitmatrix_to_schedule T (je_k c) (je_m c) (je_w c) bitmatrix\<rparr>)"

fun jerasure_prepare :: "techniques \<Rightarrow> technique \<Rightarrow> jerasure_code \<Rightarrow> jerasure_code" where
  "jerasure_prepare T ReedSolomonVandermonde c = vandermonde_prepare T c"
| "jerasure_prepare T ReedSolomonRAID6 c = raid6_prepare T c"
| "jerasure_prepare T CauchyOrig c = cauchy_orig_prepare T c"
| "jerasure_prepare T CauchyGood c = cauchy_good_prepare T c"
| "jerasure_prepare T Liberation c = liberation_prepare T c"
| "jerasure_prepare T BlaumRoth c = blaum_roth_prepare T c"
| "jerasure_prepare T Liber8tion c = liber8tion_prepare T c"

definition jerasure_init_code :: "techniques \<Rightarrow> jerasure_code \<Rightarrow> profile \<Rightarrow> (int \<times> jerasure_code \<times> profile) option" where
  "jerasure_init_code T c profile = do {
     let profile = mput ''technique'' (technique_name (je_technique c)) profile;
     let (err_r, profile, root) = to_string ''ruleset-root'' profile ''default'';
     let (err_d, profile, domain) = to_string ''ruleset-failure-domain'' profile ''host'';
     let c = c\<lparr>je_ruleset_root := root, je_ruleset_failure_domain := domain\<rparr>;
     (err, c, profile) \<leftarrow> technique_parse (je_technique c) c profile;
     let err = err_r OR err_d OR err;
     Some (if err \<noteq> 0 then (err, c, profile)
           else (err, (jerasure_prepare T (je_technique c) c)\<lparr>je_profile := profile\<rparr>, profile)) }"

section \<open>The plugin\<close>

definition technique_of :: "string \<Rightarrow> technique option" where
  "technique_of t =
     (if t = ''reed_sol_van'' then Some ReedSolomonVandermonde
      else if t = ''reed_sol_r6_op'' then Some ReedSolomonRAID6
      else if t = ''cauchy_orig'' then Some CauchyOrig
      else if t = ''cauchy_good'' then Some CauchyGood
      else if t = ''liberation'' then Some Liberation
      else if t = ''blaum_roth'' then Some BlaumRoth
      else if t = ''liber8tion'' then Some Liber8tion
      else None)"

definition jerasure_factory :: "techniques \<Rightarrow> profile \<Rightarrow> (int \<times> jerasure_code option \<times> profile) option" where
  "jerasure_factory T profile =
     (case technique_of (mref [] profile ''technique'') of
        None \<Rightarrow> Some (- ENOENT, None, profile)
      | Some t \<Rightarrow> do {
          (r, interface, profile) \<leftarrow> jerasure_init_code T (jerasure_new t) profile;
          Some (if r \<noteq> 0 then (r, None, profile) else (0, Some interface, profile)) })"

definition jerasure_plugin_factory :: "techniques \<Rightarrow> string \<Rightarrow> profile \<Rightarrow> (int \<times> codec option \<times> profile) option" where
  "jerasure_plugin_factory T directory profile = do {
     (r, interface, profile) \<leftarrow> jerasure_factory T profile;
     Some (r, map_option (jerasure_codec T) interface, profile) }"

fun jerasure_init :: "techniques \<Rightarrow> int list \<Rightarrow> int" where
  "jerasure_init T [] = 0"
| "jerasure_init T (w # words) =
     (let r = galois_init_default_field T w in if r \<noteq> 0 then - r else jerasure_init T words)"

text \<open>The entry point of the plugin.\<close>

definition jerasure_erasure_code_init :: "techniques \<Rightarrow> string \<Rightarrow> string \<Rightarrow> registry \<Rightarrow> (int \<times> registry) option" where
  "jerasure_erasure_code_init T plugin_name directory reg =
     (let r = jerasure_init T [4, 8, 16, 32]
      in if r \<noteq> 0 then Some (- r, reg) else erasure_code_init (jerasure_plugin_factory T) plugin_name directory reg)"

end
