(* ===== verification/Jerasure_Code.thy ===== *)
theory Jerasure_Code
  imports Jerasure Matrix_Coding Layer_Contract
begin

text \<open>
  The Reed-Solomon technique with words of 8 bits keeps the contract of a layer, and, if
  the profile gives no mapping, that of the base class: any k of its k + m chunks give the
  object back. The locale \<open>reed_sol\<close> states what the manual of the library documents:
  \<open>reed_sol_vandermonde_coding_matrix\<close> yields a matrix whose generator has the property that
  any k rows determine the data, and \<open>jerasure_matrix_decode\<close> then rewrites the regions of
  the devices that are named as erased. \<open>ref_techniques\<close> is an instance.
\<close>

section \<open>What the library computes\<close>

definition code_row :: "nat \<Rightarrow> int list \<Rightarrow> nat \<Rightarrow> byte list" where
  "code_row k matrix i = (if i < k then unit_row k i else matrix_row matrix k (i - k))"

definition row_value :: "(byte \<Rightarrow> byte \<Rightarrow> byte) \<Rightarrow> byte list \<Rightarrow> byte list \<Rightarrow> byte" where
  "row_value mul row x = xsum (map (\<lambda>j. mul (row ! j) (x ! j)) [0..<length row])"

text \<open>Maximum distance separable: the values of any k rows determine the data.\<close>

definition mds :: "(byte \<Rightarrow> byte \<Rightarrow> byte) \<Rightarrow> nat \<Rightarrow> nat \<Rightarrow> int list \<Rightarrow> bool" where
  "mds mul k m matrix \<longleftrightarrow>
     (\<forall>I x y. I \<subseteq> {..<k + m} \<and> k \<le> card I \<and> length x = k \<and> length y = k \<and>
        (\<forall>i\<in>I. row_value mul (code_row k matrix i) x = row_value mul (code_row k matrix i) y) \<longrightarrow> x = y)"

definition coding_matrix_ok :: "(byte \<Rightarrow> byte \<Rightarrow> byte) \<Rightarrow> nat \<Rightarrow> nat \<Rightarrow> int list \<Rightarrow> bool" where
  "coding_matrix_ok mul k m matrix \<longleftrightarrow>
     length matrix = m * k \<and> set matrix \<subseteq> {0..255} \<and> (\<forall>j<k. matrix ! j = 1) \<and> mds mul k m matrix"

definition device_content :: "(byte \<Rightarrow> byte \<Rightarrow> byte) \<Rightarrow> nat \<Rightarrow> int list \<Rightarrow> byte list list \<Rightarrow> nat \<Rightarrow> byte list" where
  "device_content mul k matrix ds i =
     (if i < k then ds ! i else dot mul (matrix_row matrix k (i - k)) ds (length (ds ! 0)))"

locale reed_sol = jerasure_lib mul "je_lib T" for mul and T :: techniques +
  assumes vandermonde:
      "reed_sol_vandermonde_coding_matrix T (int k) (int m) 8 = Some matrix \<Longrightarrow> 0 < k \<Longrightarrow> 0 < m \<Longrightarrow> k + m \<le> 256 \<Longrightarrow>
       coding_matrix_ok mul k m matrix"
    and matrix_decode:
      "coding_matrix_ok mul (length data) (length coding) matrix \<Longrightarrow> bs mod 8 = 0 \<Longrightarrow>
       distinct es \<Longrightarrow> set es \<subseteq> {..<length data + length coding} \<Longrightarrow> length es \<le> length coding \<Longrightarrow>
       0 < length data \<Longrightarrow> length ds = length data \<Longrightarrow> (\<And>d. d \<in> set ds \<Longrightarrow> length d = bs) \<Longrightarrow>
       (\<And>i. i < length data + length coding \<Longrightarrow> i \<notin> set es \<Longrightarrow>
          mem_read h ((data @ coding) ! i) bs = Some (device_content mul (length data) matrix ds i)) \<Longrightarrow>
       (\<And>i. i \<in> set es \<Longrightarrow> mem_read h ((data @ coding) ! i) bs \<noteq> None) \<Longrightarrow>
       (\<And>i j. i \<in> set es \<Longrightarrow> j < length data + length coding \<Longrightarrow> i \<noteq> j \<Longrightarrow> fst ((data @ coding) ! i) \<noteq> fst ((data @ coding) ! j)) \<Longrightarrow>
       jerasure_matrix_decode T (int (length data)) (int (length coding)) 8 matrix 1 (map int es @ [- 1])
         (map Some data) (map Some coding) (int bs) h =
       map_option (\<lambda>h. (h, 0))
         (ofold (\<lambda>i h. mem_write h ((data @ coding) ! i) (device_content mul (length data) matrix ds i)) es h)"

section \<open>The contract of a layer\<close>

locale vandermonde_code = reed_sol mul T for mul and T :: techniques +
  fixes c :: jerasure_code and k m :: nat and matrix :: "int list"
  assumes fields: "je_technique c = ReedSolomonVandermonde" "je_k c = int k" "je_m c = int m" "je_w c = 8"
      "je_matrix c = Some matrix"
    and nums: "0 < k" "0 < m" "k + m \<le> 256" and matrix_ok: "coding_matrix_ok mul k m matrix"
begin

lemma counts: "jerasure_get_chunk_count c = k + m" "jerasure_get_data_chunk_count c = k"
  using fields nums by (simp_all add: jerasure_get_chunk_count_def jerasure_get_data_chunk_count_def flip: of_nat_add)

lemma drop_all: "set (drop k (map int [0..<k + m])) = int ` {k..<k + m}"
  by (simp add: drop_map)

lemma encode_ok:
  assumes bs: "0 < bs" "bs mod 8 = 0" "bs < 2 ^ 31" and ds: "length ds = k"
    and ar: "arena h M (int ` {..<k + m}) (int ` {k..<k + m}) bs"
    and data: "\<And>i. i < k \<Longrightarrow> content h M (int i) = ds ! i"
  shows "\<exists>h' M'. jerasure_encode_chunks T c want M h = Some (h', 0, M') \<and> frame (wraws M (int ` {k..<k + m})) h h' \<and>
    (\<forall>i<k + m. content h' M (int i) = device_content mul k matrix ds i) \<and>
    holds h' M' (int ` {..<k + m}) bs (device_content mul k matrix ds \<circ> nat)"
proof -
  let ?cs = "map int [0..<k + m]" and ?N = "int ` {..<k + m}" and ?W = "int ` {k..<k + m}"
  have cs: "distinct ?cs" "set ?cs \<subseteq> ?N" "k \<le> length ?cs" by (auto simp: distinct_map)
  have mx: "length matrix = (length ?cs - k) * k" "set matrix \<subseteq> {0..255}" using matrix_ok by (auto simp: coding_matrix_ok_def)
  have data': "\<And>i. i < k \<Longrightarrow> content h M (?cs ! i) = ds ! i" using data by simp
  obtain h1 M1 ps h2 where e: "c_strs ?cs (h, M) = Some (h1, M1, ps)"
      "jerasure_matrix_encode (je_lib T) (int k) (int m) 8 matrix (take k ps) (drop k ps) (int bs) h1 = Some h2"
      "solidified ?N h M h1 M1" "frame (wraws M ?W) h h2" "arena h2 M1 ?N ?W bs"
      "\<And>i. i < m \<Longrightarrow> content h2 M1 (int (k + i)) = dot mul (matrix_row matrix k i) ds bs"
      "\<And>d. d \<in> ?N - ?W \<Longrightarrow> content h2 M1 d = content h M d"
    using matrix_encode_chunks [OF bs(1,2) cs _ mx ds data'] ar unfolding drop_all by auto
  have "length (ds ! 0) = bs" using data [of 0] length_content [OF ar, of 0] nums(1) by auto
  moreover have "int i \<notin> ?W" if "i < k" for i using that by auto
  ultimately have new: "content h2 M1 (int i) = device_content mul k matrix ds i" if "i < k + m" for i
    using e(6) [of "i - k"] e(7) [of "int i"] data [of i] that by (cases "i < k") (auto simp: device_content_def)
  have old: "content h2 M (int i) = device_content mul k matrix ds i" if i: "i < k + m" for i
  proof (cases "i < k")
    case True
    then have "int i \<notin> ?W" by auto
    with True show ?thesis
      using arena_frame_content [OF ar subset_refl e(4), of "int i"] data [of i] by (auto simp: device_content_def)
  next
    case False
    then obtain p where "mref [] M (int i) = [p]" using arena_simps(6) [OF ar, of "int i"] i by auto
    with e(3) have "mref [] M1 (int i) = mref [] M (int i)" by (auto simp: solidified_def)
    with new [OF i] show ?thesis by (simp add: content_def)
  qed
  have z: "0 \<in> ?N" using nums by (auto intro: image_eqI [of _ _ 0])
  then have len: "bl_length (mref [] M1 0) = bs" "mput 0 (mref [] M1 0) M1 = M1"
    using arena_simps(1,2,5) [OF e(5)] by (auto intro: mput_same mget_mref)
  have "jerasure_encode_chunks T c want M h = Some (h2, 0, M1)"
    using e(1,2) fields nums bs(3) len by (simp add: jerasure_encode_chunks_def nat_int_add)
  moreover have "holds h2 M1 ?N bs (device_content mul k matrix ds \<circ> nat)"
    using arena_simps(1,2,4,5) [OF e(5)] new by (auto simp: holds_def)
  ultimately show ?thesis using e(4) old by blast
qed

lemma decode_ok:
  assumes bs: "0 < bs" "bs mod 8 = 0" "bs < 2 ^ 31" and ds: "length ds = k" "\<And>d. d \<in> set ds \<Longrightarrow> length d = bs"
    and A: "A \<subseteq> int ` {..<k + m}" "A \<noteq> int ` {..<k + m}" "k \<le> card A"
    and chunks: "holds h0 chunks A bs val"
    and ar: "arena h M (int ` {..<k + m}) (int ` {..<k + m} - A) bs"
    and data: "\<And>c. c \<in> A \<Longrightarrow> content h M c = device_content mul k matrix ds (nat c)"
  shows "\<exists>h' M'. jerasure_decode_chunks T c want chunks M h = Some (h', 0, M') \<and> frame (wraws M (int ` {..<k + m} - A)) h h' \<and>
    mok M' \<and> set (mkeys M') = int ` {..<k + m} \<and>
    (\<forall>d\<in>int ` {..<k + m}. bl_ok h' (mref [] M' d) \<and> bl_length (mref [] M' d) = bs \<and>
       content h' M' d = device_content mul k matrix ds (nat d) \<and>
       bl_raws (mref [] M' d) \<subseteq> bl_raws (mref [] M d) \<union> {length (raws h)..})"
proof -
  let ?cs = "map int [0..<k + m]" and ?N = "int ` {..<k + m}" and ?W = "int ` {..<k + m} - A"
  let ?v = "device_content mul k matrix ds"
  let ?es = "filter (\<lambda>i. int i \<notin> A) [0..<k + m]"
  have cs: "distinct ?cs" "set ?cs \<subseteq> ?N" by (auto simp: distinct_map)
  obtain h1 M1 qs where 1: "c_strs ?cs (h, M) = Some (h1, M1, map (Some \<circ> ptr_c_str) qs)"
      "arena h1 M1 ?N ?W bs" "solidified ?N h M h1 M1" "map (mref [] M1) ?cs = map (\<lambda>q. [q]) qs"
    using c_strs_spec [OF ar cs(2) bs(1)] by auto
  note p = arena_pointers [OF 1(2) cs(2,1) 1(4), simplified]
  have fr: "frame {} h h1" and cont: "\<And>d. d \<in> ?N \<Longrightarrow> content h1 M1 d = content h M d"
    and raws: "\<And>d. bl_raws (mref [] M1 d) \<subseteq> bl_raws (mref [] M d) \<union> {length (raws h)..}"
    using 1(3) unfolding solidified_def by auto
  have esW: "set (map int ?es) = ?W" by auto
  have v: "length (?v i) = bs" if "i < k + m" for i
    using ds nums(1) that by (auto simp: device_content_def)
  obtain h2 where 2: "ofold (\<lambda>e h. mem_write h (map ptr_c_str qs ! e) (?v e)) ?es h1 = Some h2"
      "frame (wraws M1 ((!) ?cs ` set ?es)) h1 h2" "arena h2 M1 ?N ?W bs" "\<forall>e\<in>set ?es. content h2 M1 (?cs ! e) = ?v e"
      "\<forall>d\<in>?N - (!) ?cs ` set ?es. content h2 M1 d = content h1 M1 d"
    using arena_writes_at [OF 1(2) cs(2,1) 1(4), of ?es ?v] v by auto
  have im: "(!) ?cs ` set ?es = ?W" by (force simp: image_iff)
  have new: "content h2 M1 d = ?v (nat d)" if "d \<in> ?N" for d
  proof (cases "d \<in> A")
    case True
    with that 2(5) cont data show ?thesis unfolding im by auto
  next
    case False
    with that obtain i where "d = int i" "i \<in> set ?es" by auto
    with 2(4) show ?thesis by auto
  qed
  let ?data = "map ptr_c_str (take k qs)" and ?coding = "map ptr_c_str (drop k qs)"
  have qs: "length qs = k + m" "?data @ ?coding = map ptr_c_str qs" using p(1) by (simp_all flip: map_append)
  have len: "length ?data = k" "length ?coding = m" using qs(1) by auto
  have fin: "finite A" using A(1) finite_subset by blast
  have "length ?es = card (set (map int ?es))" by (simp add: distinct_card distinct_map del: set_map)
  also have "\<dots> = k + m - card A" unfolding esW using card_Diff_subset [OF fin A(1)] by (simp add: card_image)
  finally have few: "length ?es \<le> m" using A(3) by simp
  have read: "mem_read h1 (map ptr_c_str qs ! i) bs = Some (content h M (int i))" if "i < k + m" for i
    using p(3) [of i] cont [of "int i"] that qs(1) by simp
  have "jerasure_matrix_decode T (int k) (int m) 8 matrix 1 (map int ?es @ [- 1]) (map Some ?data) (map Some ?coding) (int bs) h1 =
      map_option (\<lambda>h. (h, 0)) (ofold (\<lambda>i h. mem_write h (map ptr_c_str qs ! i) (?v i)) ?es h1)"
  proof (rule matrix_decode [of ?data ?coding matrix bs ?es ds h1, unfolded len qs(2)])
    fix i j assume "i \<in> set ?es" "j < k + m" "i \<noteq> j"
    then show "fst (map ptr_c_str qs ! i) \<noteq> fst (map ptr_c_str qs ! j)"
      using p(4) [of i j] qs(1) by (simp add: ptr_c_str_def)
  qed (use matrix_ok bs ds nums few read data in auto)
  moreover have "map Some ?data = take k (map (Some \<circ> ptr_c_str) qs)" "map Some ?coding = drop k (map (Some \<circ> ptr_c_str) qs)"
    by (simp_all add: take_map drop_map)
  ultimately have dec: "jerasure_matrix_decode T (int k) (int m) 8 matrix 1 (map int ?es @ [- 1])
      (take k (map (Some \<circ> ptr_c_str) qs)) (drop k (map (Some \<circ> ptr_c_str) qs)) (int bs) h1 = Some (h2, 0)"
    using 2(1) by simp
  have "A \<noteq> {}" using A(3) nums(1) by auto
  with arena_hd [OF holds_arena [OF chunks]] chunks
  have keys: "set (mkeys chunks) = A" "chunks \<noteq> []" "bl_length (snd (hd chunks)) = bs" by (simp_all add: holds_def)
  have "mget chunks i = None \<longleftrightarrow> i \<notin> A" for i using keys(1) mkeys_mget [of i chunks] by simp
  then have er: "filter (\<lambda>i. mget chunks i = None) ?cs = map int ?es" by (simp add: filter_map comp_def)
  have ne: "?es \<noteq> []" using esW A(1,2) by (metis Diff_eq_empty_iff list.map_disc_iff set_empty subset_antisym)
  have "jerasure_decode_chunks T c want chunks M h = Some (h2, 0, M1)"
    using 1(1) dec er ne keys(2,3) fields bs(3) by (simp add: jerasure_decode_chunks_def nat_int_add)
  moreover have "frame (wraws M ?W) h h2"
    using frame_trans [OF fr 2(2)] solidified_wraws [OF ar 1(3) subset_refl] unfolding im by simp
  ultimately show ?thesis using new raws arena_simps(1,2,4,5) [OF 2(3)] by blast
qed

end

lemma jerasure_codec_simps [simp]:
  "chunk_mapping (jerasure_codec T c) = je_chunk_mapping c" "get_profile (jerasure_codec T c) = je_profile c"
  "get_chunk_count (jerasure_codec T c) = jerasure_get_chunk_count c"
  "get_data_chunk_count (jerasure_codec T c) = jerasure_get_data_chunk_count c"
  "get_chunk_size (jerasure_codec T c) = jerasure_get_chunk_size c"
  "minimum_to_decode (jerasure_codec T c) = base_minimum_to_decode (jerasure_get_data_chunk_count c)"
  "encode_chunks (jerasure_codec T c) = jerasure_encode_chunks T c"
  "decode_chunks (jerasure_codec T c) = jerasure_decode_chunks T c"
  by (simp_all add: jerasure_codec_def)

text \<open>The block sizes the library can work with.\<close>

definition region_size :: "nat \<Rightarrow> bool" where
  "region_size bs \<longleftrightarrow> 0 < bs \<and> bs mod 8 = 0 \<and> bs < 2 ^ 31"

sublocale vandermonde_code \<subseteq> layer: chunk_code "jerasure_codec T c" "device_content mul k matrix" region_size
proof (unfold_locales, unfold jerasure_codec_simps counts)
  fix bs want ds h and M :: chunks
  assume "region_size bs" "length ds = k" "arena h M (int ` {..<k + m}) (int ` {k..<k + m}) bs"
    "\<And>i. i < k \<Longrightarrow> content h M (int i) = ds ! i"
  then show "\<exists>h' M'. jerasure_encode_chunks T c want M h = Some (h', 0, M') \<and> frame (wraws M (int ` {k..<k + m})) h h' \<and>
      (\<forall>i<k + m. content h' M (int i) = device_content mul k matrix ds i) \<and>
      holds h' M' (int ` {..<k + m}) bs (device_content mul k matrix ds \<circ> nat)"
    using encode_ok [of bs ds h M want] by (auto simp: region_size_def)
next
  fix bs ds A h0 chunks h want and M :: chunks
  assume "region_size bs" "length ds = k" "\<And>d. d \<in> set ds \<Longrightarrow> length d = bs"
    "A \<subseteq> int ` {..<k + m}" "A \<noteq> int ` {..<k + m}" "k \<le> card A" "holds h0 chunks A bs (device_content mul k matrix ds \<circ> nat)"
    "arena h M (int ` {..<k + m}) (int ` {..<k + m} - A) bs"
    "\<And>c. c \<in> A \<Longrightarrow> content h M c = device_content mul k matrix ds (nat c)"
  then show "\<exists>h' M'. jerasure_decode_chunks T c want chunks M h = Some (h', 0, M') \<and>
      frame (wraws M (int ` {..<k + m} - A)) h h' \<and> mok M' \<and> set (mkeys M') = int ` {..<k + m} \<and>
      (\<forall>d\<in>int ` {..<k + m}. bl_ok h' (mref [] M' d) \<and> bl_length (mref [] M' d) = bs \<and>
         content h' M' d = device_content mul k matrix ds (nat d) \<and>
         bl_raws (mref [] M' d) \<subseteq> bl_raws (mref [] M d) \<union> {length (raws h)..})"
    by (intro decode_ok) (auto simp: region_size_def)
qed (use nums in \<open>auto simp: region_size_def device_content_def\<close>)

context vandermonde_code
begin

lemma is_layer: "chunk_code (jerasure_codec T c) (device_content mul k matrix) region_size"
  by unfold_locales

end

end
