(* ===== verification/Jerasure_Theorems.thy ===== *)
theory Jerasure_Theorems
  imports Jerasure_Code
begin

text \<open>
  The properties of the jerasure plugin, from a profile to the bytes that come back, and
  an instance of the library's laws with one coding chunk, or two for two data chunks.
\<close>

section \<open>A reference instance\<close>

definition all_bytes :: "byte list" where
  "all_bytes = map word_of_nat [0..<256]"

lemma set_all_bytes: "set all_bytes = UNIV"
proof -
  have "b \<in> set all_bytes" for b :: byte
  proof -
    have "unat b < 2 ^ LENGTH(8)" by (rule unsigned_less)
    then show ?thesis unfolding all_bytes_def set_map by (intro image_eqI [of _ _ "unat b"]) auto
  qed
  then show ?thesis by blast
qed

text \<open>The data bytes that agree with the bytes of the devices that are left, by search.\<close>

definition find_data :: "nat \<Rightarrow> int list \<Rightarrow> nat list \<Rightarrow> (nat \<Rightarrow> byte) \<Rightarrow> byte list" where
  "find_data k matrix avail v =
     (case find (\<lambda>x. list_all (\<lambda>i. row_value gf_mul (code_row k matrix i) x = v i) avail) (List.n_lists k all_bytes) of
        None \<Rightarrow> replicate k 0 | Some x \<Rightarrow> x)"

definition ref_matrix_decode ::
    "int \<Rightarrow> int \<Rightarrow> int \<Rightarrow> int list \<Rightarrow> int \<Rightarrow> int list \<Rightarrow> pointers \<Rightarrow> pointers \<Rightarrow> int \<Rightarrow> heap \<Rightarrow> (heap \<times> int) option" where
  "ref_matrix_decode k m w matrix row_k_ones erasures data coding sz h =
     (let es = map nat (takeWhile (\<lambda>e. e \<noteq> - 1) erasures); devs = data @ coding;
          left = reads h (nat sz) devs; avail = filter (\<lambda>i. i \<notin> set es) [0..<nat k + nat m];
          cols = map (\<lambda>p. find_data (nat k) matrix avail (\<lambda>i. left ! i ! p)) [0..<nat sz];
          ds = map (\<lambda>j. map (\<lambda>x. x ! j) cols) [0..<nat k]
      in if int (length es) > m then Some (h, - 1)
         else map_option (\<lambda>h. (h, 0))
           (ofold (\<lambda>i h. do { p \<leftarrow> devs ! i; mem_write h p (device_content gf_mul (nat k) matrix ds i) }) es h))"

definition ref_techniques :: techniques where
  "ref_techniques =
     \<lparr>je_lib = ref_jerasure,
      reed_sol_vandermonde_coding_matrix = (\<lambda>k m w.
        if m = 1 then Some (replicate (nat k) 1) else if k = 2 \<and> m = 2 then Some [1, 1, 1, 2] else None),
      reed_sol_r6_coding_matrix = (\<lambda>k w. None), reed_sol_r6_encode = (\<lambda>k w data coding sz h. None),
      jerasure_matrix_decode = ref_matrix_decode,
      cauchy_original_coding_matrix = (\<lambda>k m w. None), cauchy_good_general_coding_matrix = (\<lambda>k m w. None),
      jerasure_matrix_to_bitmatrix = (\<lambda>k m w matrix. None),
      jerasure_smart_bitmatrix_to_schedule = (\<lambda>k m w bitmatrix. None),
      jerasure_schedule_encode = (\<lambda>k m w schedule data coding sz packetsize h. None),
      jerasure_schedule_decode_lazy = (\<lambda>k m w bitmatrix erasures data coding sz packetsize smart h. None),
      liberation_coding_bitmatrix = (\<lambda>k w. None), blaum_roth_coding_bitmatrix = (\<lambda>k w. None),
      liber8tion_coding_bitmatrix = (\<lambda>k. None), galois_init_default_field = (\<lambda>w. 0)\<rparr>"

lemma length_code_row: "length matrix = m * k \<Longrightarrow> i < k + m \<Longrightarrow> length (code_row k matrix i) = k"
proof -
  assume m: "length matrix = m * k" and i: "i < k + m"
  show ?thesis
  proof (cases "i < k")
    case False
    with i have "Suc (i - k) \<le> m" by simp
    then have "Suc (i - k) * k \<le> length matrix" unfolding m by (rule mult_le_mono1)
    with False show ?thesis by (simp add: code_row_def matrix_row_def)
  qed (simp add: code_row_def unit_row_def)
qed

lemma row_value_device:
  assumes "length matrix = m * k" "length ds = k" "0 < k" "\<And>d. d \<in> set ds \<Longrightarrow> length d = bs" "i < k + m" "p < bs"
  shows "row_value gf_mul (code_row k matrix i) (map (\<lambda>d. d ! p) ds) = device_content gf_mul k matrix ds i ! p"
proof -
  have "row_value gf_mul (code_row k matrix i) (map (\<lambda>d. d ! p) ds) = dot gf_mul (code_row k matrix i) ds bs ! p"
    unfolding row_value_def nth_dot [OF assms(6)] length_code_row [OF assms(1,5)]
    by (intro arg_cong [of _ _ xsum] map_cong) (auto simp: assms(2))
  moreover have "dot gf_mul (code_row k matrix i) ds bs = device_content gf_mul k matrix ds i"
    using ref_gf.dot_unit_row [of i k ds bs] assms by (auto simp: code_row_def device_content_def)
  ultimately show ?thesis by simp
qed

lemma find_data_eq:
  assumes "mds gf_mul k m matrix" "set avail \<subseteq> {..<k + m}" "k \<le> card (set avail)" "length x = k"
    "\<forall>i\<in>set avail. v i = row_value gf_mul (code_row k matrix i) x"
  shows "find_data k matrix avail v = x"
proof -
  let ?P = "\<lambda>y. list_all (\<lambda>i. row_value gf_mul (code_row k matrix i) y = v i) avail"
  have x: "x \<in> set (List.n_lists k all_bytes)" "?P x"
    using assms(4,5) by (simp_all add: set_n_lists set_all_bytes list_all_iff)
  then have "find ?P (List.n_lists k all_bytes) \<noteq> None" unfolding find_None_iff by blast
  then obtain y where y: "find ?P (List.n_lists k all_bytes) = Some y" by blast
  then have "?P y" "y \<in> set (List.n_lists k all_bytes)" unfolding find_Some_iff by auto
  then have "length y = k" "\<forall>i\<in>set avail. row_value gf_mul (code_row k matrix i) y = row_value gf_mul (code_row k matrix i) x"
    using assms(5) by (auto simp: set_n_lists list_all_iff)
  then have "y = x"
    using assms(2,3,4) assms(1) [unfolded mds_def, THEN spec [of _ "set avail"], THEN spec [of _ y], THEN spec [of _ x]] by blast
  with y show ?thesis by (simp add: find_data_def)
qed

text \<open>One row of ones: the parity of the data.\<close>

lemma parity_value: "length x = k \<Longrightarrow> row_value gf_mul (code_row k (replicate k 1) k) x = xsum x"
proof -
  assume "length x = k"
  then have "map (\<lambda>j. gf_mul (replicate k 1 ! j) (x ! j)) [0..<k] = x"
    by (intro nth_equalityI) (simp_all add: ref_gf.mul_one)
  then show ?thesis by (simp add: row_value_def code_row_def matrix_row_def)
qed

lemma data_value: "length x = k \<Longrightarrow> i < k \<Longrightarrow> row_value gf_mul (code_row k matrix i) x = x ! i"
proof -
  assume x: "length x = k" "i < k"
  have "length (unit_row k i) = k" by (simp add: unit_row_def)
  then have "row_value gf_mul (code_row k matrix i) x = dot gf_mul (unit_row k i) (map (\<lambda>b. [b]) x) 1 ! 0"
    using x by (auto simp: row_value_def code_row_def dot_def intro!: arg_cong [of _ _ xsum])
  with ref_gf.dot_unit_row [of i k "map (\<lambda>b. [b]) x" 1] x show ?thesis by simp
qed

lemma xor_cancel: "a XOR r = b XOR r \<Longrightarrow> a = (b :: byte)"
proof -
  assume "a XOR r = b XOR r"
  then have "(a XOR r) XOR r = (b XOR r) XOR r" by simp
  then show ?thesis by (simp add: xor.assoc)
qed

lemma parity_mds: "mds gf_mul k 1 (replicate k 1)"
  unfolding mds_def
proof (intro allI impI, elim conjE)
  fix I and x y :: "byte list"
  assume I: "I \<subseteq> {..<k + 1}" "k \<le> card I" and len: "length x = k" "length y = k"
    and eq: "\<forall>i\<in>I. row_value gf_mul (code_row k (replicate k 1) i) x = row_value gf_mul (code_row k (replicate k 1) i) y"
  have data: "x ! i = y ! i" if "i \<in> I" "i < k" for i using eq that data_value [OF _ that(2)] len by metis
  show "x = y"
  proof (rule nth_equalityI)
    fix j assume j: "j < length x"
    show "x ! j = y ! j"
    proof (cases "j \<in> I")
      case False
      have "I \<subseteq> {..<k + 1} - {j}" using I(1) False by blast
      moreover have "card ({..<k + 1} - {j}) = k" using j len by simp
      ultimately have "I = {..<k + 1} - {j}" using I(2) by (metis card_seteq finite_Diff finite_lessThan)
      then have rest: "i \<in> I" if "i < k + 1" "i \<noteq> j" for i using that by simp
      have "k \<in> I" using rest [of k] j len by simp
      from bspec [OF eq this] have "xsum x = xsum y" unfolding parity_value [OF len(1)] parity_value [OF len(2)] .
      moreover have "xsum z = z ! j XOR xsum (map ((!) z) (filter (\<lambda>i. i \<noteq> j) [0..<k]))" if z: "length z = k" for z
      proof -
        have "map ((!) z) [0..<k] = z" unfolding z [symmetric] by (rule map_nth)
        with xsum_split [of j "[0..<k]" "(!) z"] j len(1) show ?thesis by simp
      qed
      moreover have "map ((!) x) (filter (\<lambda>i. i \<noteq> j) [0..<k]) = map ((!) y) (filter (\<lambda>i. i \<noteq> j) [0..<k])"
        using data rest by simp
      ultimately show ?thesis using len xor_cancel by metis
    qed (use data j len in simp)
  qed (use len in simp)
qed

lemma parity_ok: "0 < k \<Longrightarrow> coding_matrix_ok gf_mul k 1 (replicate k 1)"
  using parity_mds by (auto simp: coding_matrix_ok_def)

text \<open>Two coding chunks over two data chunks: the parity, and the sum with the second one doubled.\<close>

lemma xtime_xor: "xtime (a XOR b) = xtime a XOR xtime b"
  by (auto simp: xtime_def bit_xor_iff xor.left_commute xor.assoc xor.commute)

lemma bit_xtime: "bit (xtime b) i \<longleftrightarrow> i < 8 \<and> ((i \<noteq> 0 \<and> bit b (i - 1)) \<noteq> (bit b 7 \<and> i \<in> {0, 2, 3, 4}))"
proof -
  have "bit (0x1d :: byte) i \<longleftrightarrow> i \<in> {0, 2, 3, 4}"
  proof (cases "i < 8")
    case True
    then have "i \<in> set [0..<8]" by simp
    then show ?thesis by (auto simp: upt_rec)
  qed (use bit_imp_le_length [of "0x1d :: byte" i] in auto)
  then show ?thesis
    unfolding xtime_def by (cases "bit b 7") (auto simp only: if_True if_False bit_xor_iff bit_push_bit_iff possible_bit_word, auto)
qed

lemma xtime_zero:
  assumes "xtime b = 0 \<or> xtime b = b"
  shows "b = 0"
proof (rule bit_eqI)
  fix n
  have "bit (xtime b) i \<longleftrightarrow> bit (if xtime b = 0 then 0 else b) i" for i using assms by auto
  note this [unfolded bit_xtime]
  from this [of 0] this [of 1] this [of 2] this [of 3] this [of 4] this [of 5] this [of 6] this [of 7]
  have "\<not> bit b 0 \<and> \<not> bit b 1 \<and> \<not> bit b 2 \<and> \<not> bit b 3 \<and> \<not> bit b 4 \<and> \<not> bit b 5 \<and> \<not> bit b 6 \<and> \<not> bit b 7"
    by (cases "xtime b = 0") simp_all
  moreover have "n \<in> set [0..<8]" if "bit b n" using bit_imp_le_length [OF that] by simp
  ultimately show "bit b n \<longleftrightarrow> bit 0 n" by (auto simp: upt_rec eval_nat_numeral)
qed

lemma xor_move: "a XOR r = c XOR s \<Longrightarrow> a XOR c = r XOR (s :: byte)"
proof (rule bit_eqI)
  fix n
  assume "a XOR r = c XOR s"
  then have "bit (a XOR r) n \<longleftrightarrow> bit (c XOR s) n" by simp
  then show "bit (a XOR c) n \<longleftrightarrow> bit (r XOR s) n" by (auto simp: bit_xor_iff)
qed

lemma xtime_0: "xtime 0 = 0"
  by (simp add: xtime_def)

lemma xor_eq_0: "a XOR b = 0 \<longleftrightarrow> a = (b :: byte)"
  using xor_cancel [of a b b] by auto

lemma double_values:
  "row_value gf_mul (code_row 2 [1, 1, 1, 2] 0) [a, b] = a" "row_value gf_mul (code_row 2 [1, 1, 1, 2] (Suc 0)) [a, b] = b"
  "row_value gf_mul (code_row 2 [1, 1, 1, 2] 2) [a, b] = a XOR b" "row_value gf_mul (code_row 2 [1, 1, 1, 2] 3) [a, b] = a XOR xtime b"
proof -
  have [simp]: "gf_mul 1 x = x" for x by (rule ref_gf.mul_one)
  have [simp]: "gf_mul 2 x = xtime x" for x
    by (simp add: gf_mul_def upt_rec bit_simps) 
  show "row_value gf_mul (code_row 2 [1, 1, 1, 2] 0) [a, b] = a" "row_value gf_mul (code_row 2 [1, 1, 1, 2] (Suc 0)) [a, b] = b"
    using data_value [of "[a, b]" 2 0] data_value [of "[a, b]" 2 1] by simp_all
  show "row_value gf_mul (code_row 2 [1, 1, 1, 2] 2) [a, b] = a XOR b" "row_value gf_mul (code_row 2 [1, 1, 1, 2] 3) [a, b] = a XOR xtime b"
    by (simp_all add: row_value_def code_row_def matrix_row_def upt_rec)
qed

lemma double_mds: "mds gf_mul 2 2 [1, 1, 1, 2]"
  unfolding mds_def
proof (intro allI impI, elim conjE)
  fix I and x y :: "byte list"
  assume I: "I \<subseteq> {..<2 + 2}" "2 \<le> card I" and len: "length x = 2" "length y = 2"
    and eq: "\<forall>i\<in>I. row_value gf_mul (code_row 2 [1, 1, 1, 2] i) x = row_value gf_mul (code_row 2 [1, 1, 1, 2] i) y"
  obtain a b c d where x: "x = [a, b]" and y: "y = [c, d]" using len by (auto simp: length_Suc_conv numeral_2_eq_2)
  have fin: "finite I" using I(1) by (rule finite_subset) simp
  have "\<not> card I \<le> Suc 0" using I(2) by simp
  then obtain i j where ij: "i \<in> I" "j \<in> I" "i < j" using card_le_Suc0_iff_eq [OF fin] by (metis linorder_neqE_nat)
  have "a = c \<and> b = d"
  proof -
    have "i \<in> {0, 1, 2, 3}" "j \<in> {0, 1, 2, 3}" using ij I(1) by (auto simp: subset_iff)
    moreover have "a XOR c = b XOR d" if "a XOR b = c XOR d"
      using that by (rule xor_move)
    moreover have "a XOR c = xtime (b XOR d)" if "a XOR xtime b = c XOR xtime d"
      using xor_move [OF that] by (simp add: xtime_xor)
    ultimately show ?thesis
      using bspec [OF eq ij(1)] bspec [OF eq ij(2)] ij(3) xtime_zero [of "b XOR d"] xor_eq_0 [of a c] xor_eq_0 [of b d]
      unfolding x y by (auto simp: double_values xtime_0)
  qed
  then show "x = y" using x y by simp
qed

lemma double_ok: "coding_matrix_ok gf_mul 2 2 [1, 1, 1, 2]"
  using double_mds by (auto simp: coding_matrix_ok_def less_Suc_eq numeral_2_eq_2)

text \<open>The search finds the data, so what is written are the contents of the erased devices.\<close>

lemma ref_matrix_decode_eq:
  assumes ok: "coding_matrix_ok gf_mul (length data) (length coding) matrix"
    and es: "distinct es" "set es \<subseteq> {..<length data + length coding}" "length es \<le> length coding"
    and ds: "0 < length data" "length ds = length data" "\<And>d. d \<in> set ds \<Longrightarrow> length d = bs"
    and rd: "\<And>i. i < length data + length coding \<Longrightarrow> i \<notin> set es \<Longrightarrow>
      mem_read h ((data @ coding) ! i) bs = Some (device_content gf_mul (length data) matrix ds i)"
  shows "ref_matrix_decode (int (length data)) (int (length coding)) 8 matrix 1 (map int es @ [- 1])
      (map Some data) (map Some coding) (int bs) h =
    map_option (\<lambda>h. (h, 0))
      (ofold (\<lambda>i h. mem_write h ((data @ coding) ! i) (device_content gf_mul (length data) matrix ds i)) es h)"
proof -
  let ?k = "length data" and ?m = "length coding"
  let ?avail = "filter (\<lambda>i. i \<notin> set es) [0..<?k + ?m]" and ?left = "reads h bs (map Some data @ map Some coding)"
  let ?col = "\<lambda>p. find_data ?k matrix ?avail (\<lambda>i. ?left ! i ! p)"
  have m: "mds gf_mul ?k ?m matrix" "length matrix = ?m * ?k" using ok by (simp_all add: coding_matrix_ok_def)
  have left: "?left ! i = device_content gf_mul ?k matrix ds i" if "i \<in> set ?avail" for i
    using rd [of i] that by (auto simp: reads_def nth_append split: if_splits)
  have "set ?avail = {..<?k + ?m} - set es" by auto
  then have card: "?k \<le> card (set ?avail)"
    using card_Diff_subset [of "set es" "{..<?k + ?m}"] es by (simp add: distinct_card)
  have col: "?col p = map (\<lambda>d. d ! p) ds" if p: "p < bs" for p
  proof (rule find_data_eq [OF m(1) _ card])
    show "\<forall>i\<in>set ?avail. ?left ! i ! p = row_value gf_mul (code_row ?k matrix i) (map (\<lambda>d. d ! p) ds)"
      using row_value_device [OF m(2) ds(2,1,3) _ p] left by auto
  qed (use ds in auto)
  have "map (\<lambda>j. map (\<lambda>x. x ! j) (map ?col [0..<bs])) [0..<?k] = ds"
    using ds(2,3) col by (intro nth_equalityI) (auto intro!: nth_equalityI)
  moreover have "map nat (takeWhile (\<lambda>e. e \<noteq> - 1) (map int es @ [- 1])) = es"
    by (subst takeWhile_append2) (auto simp: comp_def)
  moreover have "ofold (\<lambda>i h. do { p \<leftarrow> (map Some data @ map Some coding) ! i; mem_write h p (device_content gf_mul ?k matrix ds i) }) es h =
      ofold (\<lambda>i h. mem_write h ((data @ coding) ! i) (device_content gf_mul ?k matrix ds i)) es h"
    by (rule ofold_cong) (use es(2) in \<open>auto simp: nth_append subset_iff\<close>)
  ultimately show ?thesis using es(3) by (simp add: ref_matrix_decode_def Let_def del: map_map)
qed

interpretation ref_rs: reed_sol gf_mul ref_techniques
proof -
  have lib: "jerasure_lib gf_mul (je_lib ref_techniques)" by (simp add: ref_techniques_def ref_lib.jerasure_lib_axioms)
  show "reed_sol gf_mul ref_techniques"
  proof (intro reed_sol.intro lib reed_sol_axioms.intro)
    fix k m matrix
    assume "reed_sol_vandermonde_coding_matrix ref_techniques (int k) (int m) 8 = Some matrix" "0 < k"
    then show "coding_matrix_ok gf_mul k m matrix"
      using parity_ok [of k] double_ok by (auto simp: ref_techniques_def split: if_splits)
  next
    fix data coding :: "cptr list" and matrix bs es ds h
    assume "coding_matrix_ok gf_mul (length data) (length coding) matrix" "distinct es"
      "set es \<subseteq> {..<length data + length coding}" "length es \<le> length coding"
      "0 < length data" "length ds = length data" "\<And>d. d \<in> set ds \<Longrightarrow> length d = bs"
      "\<And>i. i < length data + length coding \<Longrightarrow> i \<notin> set es \<Longrightarrow>
          mem_read h ((data @ coding) ! i) bs = Some (device_content gf_mul (length data) matrix ds i)"
    from ref_matrix_decode_eq [OF this]
    show "jerasure_matrix_decode ref_techniques (int (length data)) (int (length coding)) 8 matrix 1 (map int es @ [- 1])
         (map Some data) (map Some coding) (int bs) h =
       map_option (\<lambda>h. (h, 0))
         (ofold (\<lambda>i h. mem_write h ((data @ coding) ! i) (device_content gf_mul (length data) matrix ds i)) es h)"
      by (simp add: ref_techniques_def)
  qed
qed

section \<open>Chunk sizes\<close>

lemma round_up:
  fixes a :: nat
  assumes "0 < a"
  shows "a dvd n + (if n mod a \<noteq> 0 then a - n mod a else 0)" "n + (if n mod a \<noteq> 0 then a - n mod a else 0) < n + a"
proof -
  have m: "n mod a < a" using assms by simp
  have "n div a * a + n mod a = n" by simp
  with m have "n + (a - n mod a) = n div a * a + a" by linarith
  then show "a dvd n + (if n mod a \<noteq> 0 then a - n mod a else 0)" by (cases "n mod a = 0") auto
  show "n + (if n mod a \<noteq> 0 then a - n mod a else 0) < n + a" using assms by auto
qed

lemma ceil_div:
  fixes k :: nat
  assumes "0 < k"
  shows "n \<le> k * (n div k + (if n mod k \<noteq> 0 then 1 else 0))" "k * (n div k + (if n mod k \<noteq> 0 then 1 else 0)) < n + k"
proof -
  have "k * (n div k) + n mod k = n" "n mod k < k" using assms by simp_all
  then show "n \<le> k * (n div k + (if n mod k \<noteq> 0 then 1 else 0))" "k * (n div k + (if n mod k \<noteq> 0 then 1 else 0)) < n + k"
    by (cases "n mod k = 0"; simp add: algebra_simps; linarith)+
qed

lemma chunk_size_padded:
  assumes "jerasure_get_alignment (je_technique c) c = Some al" "0 < al" "je_k c = int k" "0 < k" "k < 2 ^ 31"
    "len + al < 2 ^ 32" "\<not> je_per_chunk_alignment c" "k dvd al"
  shows "\<exists>bs. jerasure_get_chunk_size c len = Some bs \<and> al dvd k * bs \<and> len \<le> k * bs \<and> k * bs < len + al"
proof -
  let ?p = "len + (if len mod al \<noteq> 0 then al - len mod al else 0)"
  note r = round_up [OF assms(2), of len]
  have u: "u32 ?p = ?p" "u32_of_int (int k) = k" using r(2) assms(5,6) by auto
  have "k dvd ?p" using dvd_trans [OF assms(8) r(1)] .
  then have "k * (?p div k) = ?p" "?p mod k = 0" by auto
  moreover have "jerasure_get_chunk_size c len = Some (?p div k)"
    using assms(1-4,7) u \<open>?p mod k = 0\<close> by (simp add: jerasure_get_chunk_size_def Let_def assert_that_def)
  ultimately show ?thesis using r by auto
qed

lemma chunk_size_per_chunk:
  assumes "jerasure_get_chunk_size c len = Some bs" "jerasure_get_alignment (je_technique c) c = Some al"
    "je_k c = int k" "k < 2 ^ 31" "len + al < 2 ^ 32" "je_per_chunk_alignment c"
  shows "0 < k \<and> len \<le> k * bs \<and> k * bs < len + k * al \<and> al dvd bs"
proof -
  define cs where "cs = len div k + (if len mod k \<noteq> 0 then 1 else 0)"
  define q where "q = cs + (if cs mod al \<noteq> 0 then al - cs mod al else 0)"
  have k: "u32_of_int (int k) = k" using assms(4) by simp
  have run: "0 < k \<and> 0 < al \<and> (let cs = (if len mod k \<noteq> 0 then u32 (len div k + 1) else len div k) in
      bs = (if cs mod al \<noteq> 0 then u32 (cs + (al - cs mod al)) else cs))"
    using assms(1) by (simp add: jerasure_get_chunk_size_def assms(2,3,6) k assert_that_def Let_def split: if_splits)
  then have pos: "0 < k" "0 < al" by auto
  have c: "len \<le> k * cs" "k * cs < len + k" unfolding cs_def by (rule ceil_div [OF pos(1)])+
  have r: "al dvd q" "q < cs + al" unfolding q_def by (rule round_up [OF pos(2)])+
  have "cs \<le> len"
  proof (cases "len mod k = 0")
    case False
    then have "len \<noteq> 0" "k \<noteq> 1" by (metis mod_0, metis mod_by_1)
    with pos(1) have "0 < len" "1 < k" by auto
    then have "len div k < len" by simp
    then show ?thesis by (simp add: cs_def)
  qed (simp add: cs_def)
  then have u: "u32 q = q" "u32 cs = cs" using r(2) assms(5) by simp_all
  have "(if len mod k \<noteq> 0 then u32 (len div k + 1) else len div k) = cs" using u(2) by (cases "len mod k = 0") (simp_all add: cs_def)
  with run u(1) have bs: "bs = q" by (simp add: q_def split: if_splits)
  have 1: "k * q \<le> k * (cs + (al - 1))" using r(2) by (intro mult_le_mono2) linarith
  have 2: "k * (cs + (al - 1)) + k = k * cs + k * al" using pos(2) by (cases al) (simp_all add: algebra_simps)
  have 3: "k * cs \<le> k * q" by (simp add: q_def)
  from 1 2 c(2) have "k * q < len + k * al" by linarith
  moreover from 3 c(1) have "len \<le> k * q" by linarith
  ultimately show ?thesis using bs r(1) pos(1) by simp
qed

lemma chunk_size_whole:
  assumes "jerasure_get_chunk_size c len = Some bs" "jerasure_get_alignment (je_technique c) c = Some al"
    "je_k c = int k" "k < 2 ^ 31" "len + al < 2 ^ 32" "\<not> je_per_chunk_alignment c"
  shows "0 < k \<and> len \<le> k * bs \<and> k * bs < len + al \<and> al dvd k * bs"
proof -
  let ?p = "len + (if len mod al \<noteq> 0 then al - len mod al else 0)"
  have k: "u32_of_int (int k) = k" using assms(4) by simp
  have run: "0 < k \<and> 0 < al \<and> u32 ?p mod k = 0 \<and> bs = u32 ?p div k"
    using assms(1) by (simp add: jerasure_get_chunk_size_def assms(2,3,6) k assert_that_def Let_def split: if_splits)
  then have r: "al dvd ?p" "?p < len + al" using round_up [of al len] by blast+
  then have "u32 ?p = ?p" using assms(5) by simp
  with run have "k * bs = ?p" by auto
  with r run show ?thesis by simp
qed

text \<open>C40: whatever the technique, the chunk size it answers holds the object in \<open>k\<close> chunks and pads it
  by less than one alignment unit, counted per chunk if the profile asks for that and for the
  whole stripe otherwise.\<close>

theorem jerasure_get_chunk_size_bounds:
  assumes "jerasure_get_chunk_size c len = Some bs" "jerasure_get_alignment (je_technique c) c = Some al"
    "je_k c = int k" "k < 2 ^ 31" "len + al < 2 ^ 32"
  shows "0 < k \<and> len \<le> k * bs \<and> k * bs < len + (if je_per_chunk_alignment c then k * al else al) \<and>
    al dvd (if je_per_chunk_alignment c then bs else k * bs)"
  using chunk_size_per_chunk [OF assms] chunk_size_whole [OF assms] by auto

definition rs_4_2 :: jerasure_code where
  "rs_4_2 = (jerasure_new ReedSolomonVandermonde)\<lparr>je_k := 4, je_m := 2, je_w := 8\<rparr>"

theorem jerasure_get_chunk_size_bounds_witness:
  "jerasure_get_chunk_size rs_4_2 1000 = Some 256 \<and> 1000 \<le> 4 * (256 :: nat) \<and> 4 * 256 < 1000 + (128 :: nat)"
proof -
  have "jerasure_get_chunk_size rs_4_2 1000 = Some 256" "jerasure_get_alignment (je_technique rs_4_2) rs_4_2 = Some 128"
    by (simp_all add: rs_4_2_def jerasure_base_def reed_sol_alignment_def imul_def INT_MIN_def INT_MAX_def
        LARGEST_VECTOR_WORDSIZE_def jerasure_get_chunk_size_def)
  with jerasure_get_chunk_size_bounds [of rs_4_2 1000 256 128 4] show ?thesis
    by (simp add: rs_4_2_def jerasure_base_def)
qed

section \<open>From a profile to a code\<close>

definition names_rs :: "profile \<Rightarrow> nat \<Rightarrow> nat \<Rightarrow> bool" where
  "names_rs p k m \<longleftrightarrow> mok p \<and> mget p ''technique'' = Some ''reed_sol_van'' \<and>
     mget p ''k'' = Some (stringify k) \<and> mget p ''m'' = Some (stringify m) \<and>
     (mget p ''w'' = None \<or> mget p ''w'' = Some (stringify 8)) \<and> mget p ''mapping'' = None \<and>
     mget p ''jerasure-per-chunk-alignment'' = None"

definition rs_described :: "jerasure_code \<Rightarrow> nat \<Rightarrow> nat \<Rightarrow> bool" where
  "rs_described c k m \<longleftrightarrow> je_technique c = ReedSolomonVandermonde \<and> je_k c = int k \<and> je_m c = int m \<and> je_w c = 8 \<and>
     je_chunk_mapping c = [] \<and> \<not> je_per_chunk_alignment c"

lemma mok_with_default [simp]: "mok p \<Longrightarrow> mok (with_default n d p)"
  by (auto simp: with_default_def split: option.splits)

lemma technique_base [simp]: "je_technique (jerasure_base t) = t"
  by (simp add: jerasure_base_def)

lemma eight: "''8'' = stringify 8"
  by code_simp

lemma jerasure_parse_named:
  assumes "mok p" "mget p ''k'' = Some (stringify k)" "mget p ''m'' = Some (stringify m)" "int k < INT_MAX" "int m < INT_MAX"
    "mget p ''w'' = None \<or> mget p ''w'' = Some (stringify 8)" "mget p ''mapping'' = None"
    "je_chunk_mapping c = []" "je_DEFAULT_W c = ''8''"
  shows "\<exists>p'. jerasure_parse c p = Some (0, c\<lparr>je_k := int k, je_m := int m, je_w := 8, je_chunk_mapping := []\<rparr>, p') \<and>
    (p' = p \<or> p' = mput ''w'' ''8'' p)"
proof -
  have "to_int ''k'' p d = (0, p, int k)" "to_int ''m'' p d = (0, p, int m)" for d
    using assms by (simp_all add: to_int_decimal)
  moreover have "\<exists>p'. to_int ''w'' p ''8'' = (0, p', 8) \<and> (p' = p \<or> p' = mput ''w'' ''8'' p)"
    using assms(1,6) to_int_decimal [of 8 p "''w''" "''8''"] to_int_default [of p "''w''" "''8''" 8] eight
    by (auto simp: INT_MAX_def)
  ultimately show ?thesis
    using assms(7-9) by (auto simp: jerasure_parse_def parse_base_def to_mapping_def)
qed

lemma rs_factory:
  assumes "names_rs p k m" "int k < INT_MAX" "int m < INT_MAX"
  shows "\<exists>c p'. jerasure_factory T p = Some (0, Some c, p') \<and> rs_described c k m \<and> je_profile c = p' \<and>
    je_matrix c = reed_sol_vandermonde_coding_matrix T (int k) (int m) 8"
proof -
  let ?p = "with_default ''ruleset-failure-domain'' ''host''
     (with_default ''ruleset-root'' ''default'' (mput ''technique'' ''reed_sol_van'' p))"
  let ?c = "(jerasure_new ReedSolomonVandermonde)\<lparr>je_ruleset_root :=
      mref [] (with_default ''ruleset-root'' ''default'' (mput ''technique'' ''reed_sol_van'' p)) ''ruleset-root'',
      je_ruleset_failure_domain := mref [] ?p ''ruleset-failure-domain''\<rparr>"
  have p: "mok ?p" "mget ?p ''k'' = Some (stringify k)" "mget ?p ''m'' = Some (stringify m)"
      "mget ?p ''w'' = None \<or> mget ?p ''w'' = Some (stringify 8)" "mget ?p ''mapping'' = None"
      "mget ?p ''jerasure-per-chunk-alignment'' = None"
    using assms(1) by (simp_all add: names_rs_def mget_with_default)
  have c: "je_chunk_mapping ?c = []" "je_DEFAULT_W ?c = ''8''" by (simp_all add: jerasure_base_def)
  obtain p' where p': "jerasure_parse ?c ?p = Some (0, ?c\<lparr>je_k := int k, je_m := int m, je_w := 8, je_chunk_mapping := []\<rparr>, p')"
      "p' = ?p \<or> p' = mput ''w'' ''8'' ?p"
    using jerasure_parse_named [OF p(1-3) assms(2,3) p(4,5) c] by blast
  then have "mok p'" "mget p' ''jerasure-per-chunk-alignment'' = None" using p(1,6) by auto
  then have "to_bool ''jerasure-per-chunk-alignment'' p' ''false'' =
      (0, mput ''jerasure-per-chunk-alignment'' ''false'' p', False)"
    by (simp add: to_bool_def with_default_def)
  then have v: "vandermonde_parse ?c ?p = Some (0,
      ?c\<lparr>je_k := int k, je_m := int m, je_w := 8, je_chunk_mapping := [], je_per_chunk_alignment := False\<rparr>,
      mput ''jerasure-per-chunk-alignment'' ''false'' p')"
    using p'(1) by (simp add: vandermonde_parse_def reed_sol_check_w_def)
  have t: "mref [] p ''technique'' = ''reed_sol_van''" using assms(1) by (simp add: names_rs_def)
  show ?thesis
    using v by (simp add: jerasure_factory_def t technique_of_def jerasure_init_code_def to_string_def Let_def rs_described_def)
qed

section \<open>The data comes back\<close>

lemma rs_code:
  assumes "reed_sol mul T" "rs_described c k m" "je_matrix c = Some matrix" "0 < k" "0 < m" "k + m \<le> 256"
    "reed_sol_vandermonde_coding_matrix T (int k) (int m) 8 = Some matrix"
  shows "vandermonde_code mul T c k m matrix"
  using assms reed_sol.vandermonde [OF assms(1,7,4-6)]
  by (simp add: vandermonde_code_def vandermonde_code_axioms_def rs_described_def)

lemma rs_fits:
  assumes "rs_described c k m" "0 < k" "0 < m" "k + m \<le> 256" "0 < len" "len + 32 * k < 2 ^ 31"
  shows "\<exists>bs. plain_fits (jerasure_codec T c) region_size len bs \<and> k * bs < len + 32 * k"
proof -
  have al: "jerasure_get_alignment (je_technique c) c = Some (32 * k)"
    using assms by (simp add: rs_described_def reed_sol_alignment_def imul_def LARGEST_VECTOR_WORDSIZE_def INT_MIN_def INT_MAX_def)
  have "\<exists>bs. jerasure_get_chunk_size c len = Some bs \<and> 32 * k dvd k * bs \<and> len \<le> k * bs \<and> k * bs < len + 32 * k"
    using assms by (intro chunk_size_padded [OF al]) (auto simp: rs_described_def)
  then obtain bs where bs: "jerasure_get_chunk_size c len = Some bs" "32 * k dvd k * bs" "len \<le> k * bs" "k * bs < len + 32 * k" by blast
  have "k * 32 dvd k * bs" using bs(2) by (simp add: mult.commute)
  then have "32 dvd bs" using assms(2) by simp
  then have "bs mod 8 = 0" by presburger
  moreover have "0 < bs" using bs(3) assms(5) by (cases bs) auto
  moreover have "bs \<le> k * bs" using assms(2) by simp
  then have "bs < 2 ^ 31" using bs(4) assms(6) by linarith
  ultimately show ?thesis
    using bs assms by (auto simp: plain_fits_def region_size_def rs_described_def jerasure_get_data_chunk_count_def)
qed

lemma rs_round_trip:
  assumes code: "vandermonde_code mul T c k m matrix" and c: "rs_described c k m"
    and raw: "bl_ok h raw" "0 < bl_length raw" "bl_length raw + 32 * k < 2 ^ 31" and A: "A \<subseteq> int ` {..<k + m}" "k \<le> card A"
  shows "\<exists>h1 M h2 out pad. encode (jerasure_codec T c) A raw [] h = Some (h1, 0, M) \<and> set (mkeys M) = A \<and>
    decode_concat (jerasure_codec T c) M [] h1 = Some (h2, 0, out) \<and> frame {} h h2 \<and>
    bl_bytes h2 out = bl_bytes h raw @ replicate pad 0 \<and> pad < 32 * k"
proof -
  note nums = vandermonde_code.nums [OF code]
  have cnt: "get_chunk_count (jerasure_codec T c) = k + m" "get_data_chunk_count (jerasure_codec T c) = k"
    using vandermonde_code.counts [OF code] by simp_all
  have plain: "plain_code (jerasure_codec T c) (device_content mul k matrix) region_size"
    using vandermonde_code.is_layer [OF code] c
    by (simp add: plain_code_def plain_code_axioms_def rs_described_def)
  obtain bs where bs: "plain_fits (jerasure_codec T c) region_size (bl_length raw) bs" "k * bs < bl_length raw + 32 * k"
    using rs_fits [OF c nums raw(2,3)] by blast
  have ne: "A \<noteq> {}" using A(2) nums(1) by auto
  have "chunk_index (chunk_mapping (jerasure_codec T c)) ` {..<k} \<subseteq> A \<or>
      plain_recoverable (jerasure_codec T c) (chunk_index (chunk_mapping (jerasure_codec T c)) ` {..<k}) A"
    using A(2) cnt by (simp add: plain_recoverable_def)
  then obtain h1 M h2 out where "encode (jerasure_codec T c) A raw [] h = Some (h1, 0, M)" "set (mkeys M) = A"
      "decode_concat (jerasure_codec T c) M [] h1 = Some (h2, 0, out)" "frame {} h h2"
      "bl_bytes h2 out = bl_bytes h raw @ replicate (k * bs - bl_length raw) 0"
    using erasure_code.encode_decode_concat [OF plain_code.is_erasure_code [OF plain] raw(1) bs(1), unfolded cnt, OF A(1) ne] by auto
  moreover have "k * bs - bl_length raw < 32 * k" using bs(2) nums(1) by auto
  ultimately show ?thesis by blast
qed

text \<open>C6: the way of an object through the jerasure plugin. A profile that names the technique
  \<open>reed_sol_van\<close> with \<open>k\<close> and \<open>m\<close> gives a code, and of an object that is encoded with it any \<open>k\<close>
  chunks give the object back byte for byte, followed by less than one alignment unit of zeros.\<close>

theorem jerasure_round_trip:
  assumes "reed_sol mul T" "names_rs p k m" "0 < k" "0 < m" "k + m \<le> 256"
    "reed_sol_vandermonde_coding_matrix T (int k) (int m) 8 \<noteq> None"
    "bl_ok h raw" "0 < bl_length raw" "bl_length raw + 32 * k < 2 ^ 31" "A \<subseteq> int ` {..<k + m}" "k \<le> card A"
  shows "\<exists>c p' h1 M h2 out pad. jerasure_factory T p = Some (0, Some c, p') \<and>
    encode (jerasure_codec T c) A raw [] h = Some (h1, 0, M) \<and> set (mkeys M) = A \<and>
    decode_concat (jerasure_codec T c) M [] h1 = Some (h2, 0, out) \<and>
    bl_bytes h2 out = bl_bytes h raw @ replicate pad 0 \<and> pad < 32 * k"
proof -
  have "int k < INT_MAX" "int m < INT_MAX" using assms(5) by (auto simp: INT_MAX_def)
  from rs_factory [OF assms(2) this] obtain c p' where c: "jerasure_factory T p = Some (0, Some c, p')" "rs_described c k m"
      "je_matrix c = reed_sol_vandermonde_coding_matrix T (int k) (int m) 8" by blast
  then obtain matrix where "je_matrix c = Some matrix" "reed_sol_vandermonde_coding_matrix T (int k) (int m) 8 = Some matrix"
    using assms(6) by auto
  from rs_round_trip [OF rs_code [OF assms(1) c(2) this(1) assms(3-5) this(2)] c(2) assms(7-11)] c(1) show ?thesis by blast
qed

definition rs_profile :: profile where
  "rs_profile = [(''k'', ''2''), (''m'', ''1''), (''technique'', ''reed_sol_van'')]"

lemma rs_profile_names: "names_rs rs_profile 2 1"
  by (simp add: names_rs_def rs_profile_def mget_def mok_def) code_simp

theorem jerasure_round_trip_witness:
  "\<exists>c p' h1 M h2 out pad. jerasure_factory ref_techniques rs_profile = Some (0, Some c, p') \<and>
    encode (jerasure_codec ref_techniques c) {0, 2} example_object [] example_heap = Some (h1, 0, M) \<and> set (mkeys M) = {0, 2} \<and>
    decode_concat (jerasure_codec ref_techniques c) M [] h1 = Some (h2, 0, out) \<and>
    bl_bytes h2 out = [20, 30, 40, 50, 60] @ replicate pad 0 \<and> pad < 64"
proof -
  have "{0, 2} \<subseteq> int ` {..<2 + 1}" "2 \<le> card {0, 2 :: int}" by (auto intro: image_eqI [of _ _ 2])
  from jerasure_round_trip [OF ref_rs.reed_sol_axioms rs_profile_names _ _ _ _ example_object_ok(1) _ _ this]
  show ?thesis by (simp add: example_object_ok ref_techniques_def)
qed

text \<open>The code the factory makes of \<open>rs_profile\<close>, as an instance of the contracts.\<close>

definition rs_2_1 :: jerasure_code where
  "rs_2_1 = (case jerasure_factory ref_techniques rs_profile of Some (_, Some c, _) \<Rightarrow> c | _ \<Rightarrow> vandermonde_new)"

lemma rs_2_1_described: "rs_described rs_2_1 2 1" "je_matrix rs_2_1 = Some [1, 1]"
  using rs_factory [OF rs_profile_names, of ref_techniques]
  by (auto simp: rs_2_1_def INT_MAX_def ref_techniques_def eval_nat_numeral)

interpretation ex_rs: vandermonde_code gf_mul ref_techniques rs_2_1 2 1 "[1, 1]"
  by (rule rs_code [OF ref_rs.reed_sol_axioms rs_2_1_described]) (simp_all add: ref_techniques_def eval_nat_numeral)

interpretation ex_layer: chunk_code "jerasure_codec ref_techniques rs_2_1" "device_content gf_mul 2 [1, 1]" region_size
  by (rule ex_rs.is_layer)

interpretation ex_plain: plain_code "jerasure_codec ref_techniques rs_2_1" "device_content gf_mul 2 [1, 1]" region_size
  by unfold_locales (use rs_2_1_described(1) in \<open>simp add: rs_described_def jerasure_codec_def\<close>)

section \<open>What profiles can do\<close>

definition mapped_profile :: profile where
  "mapped_profile = [(''k'', ''2''), (''m'', ''1''), (''mapping'', ''D_D''), (''technique'', ''reed_sol_van'')]"

definition mapped_heap :: heap where
  "mapped_heap = \<lparr>raws = [\<lparr>raw_addr = 64, raw_data = replicate 40 5\<rparr>], place = (\<lambda>_. 1), junk = (\<lambda>_ _. 1)\<rparr>"

definition mapped_object :: bufferlist where
  "mapped_object = [\<lparr>p_raw = 0, p_off = 0, p_len = 40\<rparr>]"

definition read_back :: "profile \<Rightarrow> int set \<Rightarrow> (int \<times> int \<times> int \<times> byte list) option" where
  "read_back p A = do {
     (r, c, p) \<leftarrow> jerasure_factory ref_techniques p;
     c \<leftarrow> c;
     (h, re, M) \<leftarrow> encode (jerasure_codec ref_techniques c) A mapped_object [] mapped_heap;
     (h, rd, out) \<leftarrow> decode_concat (jerasure_codec ref_techniques c) M [] h;
     Some (r, re, rd, take 40 (bl_bytes h out)) }"

text \<open>An example: \<open>encode_chunks\<close> does not look at the mapping of the profile, which decides where
  \<open>encode_prepare\<close> puts the data and where \<open>decode_concat\<close> reads it. With \<open>mapping=D_D\<close> the
  factory succeeds, and an object of 40 bytes is read back differently with all chunks there: a
  data chunk has been overwritten with the parity.\<close>

theorem jerasure_mapping_ignored:
  "read_back mapped_profile {0, 1, 2} = Some (0, 0, 0, replicate 32 5 @ replicate 8 4) \<and>
   bl_bytes mapped_heap mapped_object = replicate 40 5"
  by code_simp

text \<open>A profile with \<open>k=0\<close> is accepted, because the check of \<open>k\<close> is commented out, and then no
  chunk size can be computed: the alignment is zero and the size is taken modulo it.\<close>

theorem jerasure_zero_k_accepted:
  assumes "names_rs p 0 m" "int m < INT_MAX"
  shows "\<exists>c p'. jerasure_factory T p = Some (0, Some c, p') \<and> je_k c = 0 \<and> (\<forall>len. jerasure_get_chunk_size c len = None)"
proof -
  obtain c p' where c: "jerasure_factory T p = Some (0, Some c, p')" "rs_described c 0 m"
    using rs_factory [OF assms(1) _ assms(2), of T] by (auto simp: INT_MAX_def)
  then have "jerasure_get_alignment (je_technique c) c = Some 0"
    by (simp add: rs_described_def reed_sol_alignment_def imul_def INT_MIN_def INT_MAX_def LARGEST_VECTOR_WORDSIZE_def)
  with c show ?thesis by (auto simp: jerasure_get_chunk_size_def rs_described_def assert_that_def)
qed

theorem jerasure_zero_k_accepted_witness:
  "\<exists>c p'. jerasure_factory ref_techniques [(''k'', ''0''), (''m'', ''1''), (''technique'', ''reed_sol_van'')] = Some (0, Some c, p') \<and>
    je_k c = 0 \<and> (\<forall>len. jerasure_get_chunk_size c len = None)"
proof -
  have "''0'' = stringify 0" "''1'' = stringify 1" by code_simp+
  then have "names_rs [(''k'', ''0''), (''m'', ''1''), (''technique'', ''reed_sol_van'')] 0 1"
    by (simp add: names_rs_def mget_def mok_def)
  from jerasure_zero_k_accepted [OF this, of ref_techniques] show ?thesis by (simp add: INT_MAX_def)
qed

text \<open>With \<open>jerasure-per-chunk-alignment\<close> an object whose chunks are smaller than the alignment
  fails an assertion when its chunk size is computed, and so does encoding it.\<close>

theorem jerasure_small_object_aborts:
  assumes "je_per_chunk_alignment c" "jerasure_get_alignment (je_technique c) c = Some al" "je_k c = int k" "k < 2 ^ 31"
    "bl_length raw \<le> k * (al - 1)"
  shows "jerasure_get_chunk_size c (bl_length raw) = None \<and> encode (jerasure_codec T c) want raw encoded h = None"
proof -
  let ?len = "bl_length raw"
  let ?cs = "if ?len mod k \<noteq> 0 then u32 (?len div k + 1) else ?len div k"
  have "k = 0 \<or> al = 0 \<or> ?cs < al"
  proof (rule ccontr)
    assume "\<not> (k = 0 \<or> al = 0 \<or> ?cs < al)"
    then have pos: "0 < k" "0 < al" "al \<le> ?cs" by auto
    have "?cs \<le> ?len div k + (if ?len mod k \<noteq> 0 then 1 else 0)" by (simp add: u32_def)
    then have "k * al \<le> k * (?len div k + (if ?len mod k \<noteq> 0 then 1 else 0))" using pos(3) by (intro mult_le_mono2) linarith
    then have "k * al < ?len + k" using ceil_div(2) [OF pos(1), of ?len] by linarith
    moreover have "k * al = k * (al - 1) + k" using pos(2) by (cases al) simp_all
    ultimately show False using assms(5) by linarith
  qed
  then have "jerasure_get_chunk_size c ?len = None"
    using assms(1-4) by (auto simp: jerasure_get_chunk_size_def assert_that_def Let_def)
  then show ?thesis by (simp add: encode_def encode_prepare_def)
qed

theorem jerasure_small_object_aborts_witness:
  "jerasure_get_chunk_size (rs_4_2\<lparr>je_per_chunk_alignment := True\<rparr>) 5 = None \<and>
   encode (jerasure_codec ref_techniques (rs_4_2\<lparr>je_per_chunk_alignment := True\<rparr>)) {0} example_object [] example_heap = None"
  using jerasure_small_object_aborts [of "rs_4_2\<lparr>je_per_chunk_alignment := True\<rparr>" 128 4 example_object ref_techniques "{0}" "[]" example_heap]
  by (simp add: rs_4_2_def jerasure_base_def reed_sol_alignment_def imul_def INT_MIN_def INT_MAX_def
      LARGEST_VECTOR_WORDSIZE_def example_object_ok)

text \<open>\<open>reed_sol_r6_op\<close> always has two coding chunks, but the length of the mapping is compared
  with \<open>k + m\<close> before \<open>m\<close> is set: a mapping of \<open>k + 2\<close> chunks is refused and one of \<open>k + 1\<close> is
  accepted.\<close>

theorem raid6_mapping_length:
  "map_option fst (jerasure_factory T [(''k'', ''2''), (''mapping'', ''DD__''), (''technique'', ''reed_sol_r6_op'')]) = Some (- EINVAL) \<and>
   map_option fst (jerasure_factory T [(''k'', ''2''), (''mapping'', ''DD_''), (''technique'', ''reed_sol_r6_op'')]) = Some 0"
  by code_simp

section \<open>What the factory guarantees\<close>

fun technique_ok :: "technique \<Rightarrow> jerasure_code \<Rightarrow> bool" where
  "technique_ok ReedSolomonVandermonde c \<longleftrightarrow> je_w c \<in> {8, 16, 32}"
| "technique_ok ReedSolomonRAID6 c \<longleftrightarrow> je_m c = 2 \<and> je_w c \<in> {8, 16, 32}"
| "technique_ok CauchyOrig c \<longleftrightarrow> True"
| "technique_ok CauchyGood c \<longleftrightarrow> True"
| "technique_ok Liberation c \<longleftrightarrow> je_k c \<le> je_w c \<and> 2 < je_w c \<and> is_prime (je_w c) \<and> je_packetsize c \<noteq> 0 \<and> 4 dvd je_packetsize c"
| "technique_ok BlaumRoth c \<longleftrightarrow> je_k c \<le> je_w c \<and> (je_w c = 7 \<or> 2 < je_w c \<and> is_prime (je_w c + 1)) \<and>
     je_packetsize c \<noteq> 0 \<and> 4 dvd je_packetsize c"
| "technique_ok Liber8tion c \<longleftrightarrow> je_m c = 2 \<and> je_w c = 8 \<and> je_k c \<le> 8 \<and> je_packetsize c \<noteq> 0"

lemma mok_to_int: "to_int n p d = (e, p', v) \<Longrightarrow> mok p \<Longrightarrow> mok p'"
  by (auto simp: to_int_def Let_def split: sum.splits)

lemma jerasure_parse_keeps:
  assumes "jerasure_parse c p = Some (e, c', p')" "mok p"
  shows "mok p' \<and> je_technique c' = je_technique c \<and> je_DEFAULT_M c' = je_DEFAULT_M c \<and> je_DEFAULT_W c' = je_DEFAULT_W c"
  using assms by (auto simp: jerasure_parse_def bind_eq_Some_conv Let_def split: prod.splits if_splits dest!: mok_to_int)

lemma liber8tion_parse_ok:
  assumes "liber8tion_parse c p = Some (0, c', p')" "mok p" "je_DEFAULT_M c = ''2''" "je_DEFAULT_W c = ''8''"
  shows "technique_ok Liber8tion c' \<and> je_technique c' = je_technique c"
proof -
  obtain e c1 p1 where 1: "jerasure_parse c p = Some (e, c1, p1)"
    using assms(1) by (auto simp: liber8tion_parse_def bind_eq_Some_conv)
  note k = jerasure_parse_keeps [OF 1 assms(2)]
  have two: "''2'' = stringify 2" by code_simp
  have m: "to_int ''m'' (mdel ''m'' p1) ''2'' = (0, mput ''m'' ''2'' (mdel ''m'' p1), 2)"
    using to_int_default [of "mdel ''m'' p1" "''m''" "''2''" 2] k two by (simp add: INT_MAX_def)
  have w: "to_int ''w'' (mdel ''w'' q) ''8'' = (0, mput ''w'' ''8'' (mdel ''w'' q), 8)" if "mok q" for q
    using to_int_default [of "mdel ''w'' q" "''w''" "''8''" 8] that eight by (simp add: INT_MAX_def)
  from assms(1,3,4) k w [of "mput ''m'' ''2'' (mdel ''m'' p1)"] show ?thesis
    by (auto simp: liber8tion_parse_def 1 m Let_def check_k_def check_packetsize_set_def split: prod.splits if_splits)
qed

lemma technique_parse_base:
  "technique_parse t c p = Some (r, c', p') \<Longrightarrow> \<exists>e c1 p1. jerasure_parse c p = Some (e, c1, p1)"
  by (cases t) (auto simp: vandermonde_parse_def raid6_parse_def cauchy_parse_def liberation_parse_def liber8tion_parse_def bind_eq_Some_conv)

lemma parse_ok:
  assumes "technique_parse t c p = Some (0, c', p')" "mok p" "c = (jerasure_new t)\<lparr>je_ruleset_root := root, je_ruleset_failure_domain := domain\<rparr>"
  shows "technique_ok t c' \<and> je_technique c' = t"
proof -
  obtain e c1 p1 where 1: "jerasure_parse c p = Some (e, c1, p1)" using technique_parse_base [OF assms(1)] by blast
  note k = jerasure_parse_keeps [OF 1 assms(2)]
  note checks = check_k_def check_packetsize_set_def check_packetsize_def
  show ?thesis
  proof (cases t)
    case ReedSolomonVandermonde
    with k 1 assms show ?thesis
      by (auto simp: vandermonde_parse_def reed_sol_check_w_def to_bool_def Let_def split: prod.splits if_splits)
  next
    case ReedSolomonRAID6
    with k 1 assms show ?thesis by (auto simp: raid6_parse_def reed_sol_check_w_def Let_def split: prod.splits if_splits)
  next
    case Liberation
    with k 1 assms show ?thesis by (auto simp: liberation_parse_def checks Let_def split: prod.splits if_splits)
  next
    case BlaumRoth
    with k 1 assms show ?thesis by (auto simp: liberation_parse_def checks Let_def split: prod.splits if_splits)
  next
    case Liber8tion
    with assms liber8tion_parse_ok [of c p c' p'] show ?thesis by (simp add: jerasure_base_def)
  qed (use k 1 assms in \<open>auto simp: cauchy_parse_def Let_def split: prod.splits\<close>)
qed

lemma prepare_keeps:
  "technique_ok t (jerasure_prepare T t' c) = technique_ok t c" "je_technique (jerasure_prepare T t' c) = je_technique c"
  by (cases t; cases t'; simp add: prepare_schedule_def Let_def)
    (cases t'; simp add: prepare_schedule_def Let_def)

lemma technique_ok_profile: "technique_ok t (c\<lparr>je_profile := p\<rparr>) = technique_ok t c"
  by (cases t) simp_all

text \<open>C39: the factory returns an object exactly when it returns 0, and the object has the technique the
  profile names, keeps the profile that is handed back, and satisfies what its technique demands
  of \<open>k\<close>, \<open>m\<close>, \<open>w\<close> and the packet size.\<close>

theorem jerasure_factory_result:
  assumes "jerasure_factory T p = Some (r, co, p')" "mok p"
  shows "(r = 0 \<longleftrightarrow> co \<noteq> None) \<and> (\<forall>c. co = Some c \<longrightarrow>
    technique_of (mref [] p ''technique'') = Some (je_technique c) \<and> technique_ok (je_technique c) c \<and> je_profile c = p')"
proof (cases "technique_of (mref [] p ''technique'')")
  case None
  with assms(1) show ?thesis by (auto simp: jerasure_factory_def)
next
  case (Some t)
  then obtain r' c' where i: "jerasure_init_code T (jerasure_new t) p = Some (r', c', p')"
      "(r, co) = (if r' \<noteq> 0 then (r', None) else (0, Some c'))"
    using assms(1) by (auto simp: jerasure_factory_def bind_eq_Some_conv split: if_splits)
  have new: "je_technique (jerasure_new t) = t" by (cases t) simp_all
  show ?thesis
  proof (cases "r' = 0")
    case True
    obtain root domain q c1 where p: "technique_parse t ((jerasure_new t)\<lparr>je_ruleset_root := root, je_ruleset_failure_domain := domain\<rparr>) q = Some (0, c1, p')"
        "mok q" "c' = (jerasure_prepare T (je_technique c1) c1)\<lparr>je_profile := p'\<rparr>"
      using i(1) True assms(2) new
      by (auto simp: jerasure_init_code_def to_string_def Let_def bind_eq_Some_conv split: if_splits)
    from parse_ok [OF p(1,2) refl] p(3) i(2) True Some show ?thesis
      by (simp add: prepare_keeps technique_ok_profile)
  qed (use i(2) in auto)
qed

theorem jerasure_factory_result_witness:
  "\<exists>c p'. jerasure_factory ref_techniques [(''technique'', ''liber8tion'')] = Some (0, Some c, p') \<and> technique_ok Liber8tion c \<and>
    je_profile c = p'"
proof -
  have "map_option (\<lambda>(r, co, p). (r, co \<noteq> None)) (jerasure_factory ref_techniques [(''technique'', ''liber8tion'')]) = Some (0, True)"
    by code_simp
  then obtain c p' where f: "jerasure_factory ref_techniques [(''technique'', ''liber8tion'')] = Some (0, Some c, p')" by auto
  have "mok [(''technique'', ''liber8tion'')]" "technique_of (mref [] [(''technique'', ''liber8tion'')] ''technique'') = Some Liber8tion"
    by code_simp+
  with jerasure_factory_result [OF f] f show ?thesis by auto
qed

end
