(* ===== verification/Lrc_Jerasure.thy ===== *)
theory Lrc_Jerasure
  imports Lrc_Kml Lrc_Code Jerasure_Theorems
begin

text \<open>
  The layered code over the jerasure plugin, as the short form of a profile with \<open>k\<close>, \<open>m\<close> and
  \<open>l\<close> creates it: the registry loads the plugin, every layer gets a Reed-Solomon code, and the
  layers keep the contract of the base class.
\<close>

section \<open>The plugin in the registry\<close>

definition jerasure_installed :: "techniques \<Rightarrow> linker \<Rightarrow> string \<Rightarrow> string \<Rightarrow> bool" where
  "jerasure_installed T dl ver dir \<longleftrightarrow>
     dl (plugin_file dir ''jerasure'') = Some \<lparr>lib_version = Some ver, lib_init = Some (jerasure_erasure_code_init T)\<rparr> \<and>
     jerasure_init T [4, 8, 16, 32] = 0"

definition jerasure_ready :: "techniques \<Rightarrow> registry \<Rightarrow> bool" where
  "jerasure_ready T reg \<longleftrightarrow> \<not> locked reg \<and> \<not> loading reg \<and> registry_ok reg \<and>
     (\<forall>q. mget (plugins reg) ''jerasure'' = Some q \<longrightarrow> pl_factory q = jerasure_plugin_factory T)"

lemma jerasure_lookup:
  assumes "jerasure_installed T dl ver dir" "jerasure_ready T reg"
  shows "\<exists>q reg'. registry_lookup dl ver ''jerasure'' dir reg = Some (0, Some q, reg') \<and>
    pl_factory q = jerasure_plugin_factory T \<and> jerasure_ready T reg'"
proof (cases "mget (plugins reg) ''jerasure''")
  case None
  let ?f = "plugin_file dir ''jerasure''"
  let ?q = "\<lparr>pl_library = Some ?f, pl_factory = jerasure_plugin_factory T\<rparr>"
  let ?reg = "(dlopen_count ?f reg)\<lparr>plugins := mput ''jerasure'' ?q (plugins reg)\<rparr>"
  have m: "mok (plugins reg)" using assms(2) by (simp add: jerasure_ready_def registry_ok_def)
  have "registry_lookup dl ver ''jerasure'' dir reg = Some (0, Some ?q, ?reg)"
    using assms None m by (simp add: registry_lookup_def registry_get_def registry_load_def jerasure_erasure_code_init_def
        jerasure_installed_def jerasure_ready_def erasure_code_init_def registry_add_def dlopen_count_def mput_mput Let_def
        del: jerasure_init.simps)
  moreover have "registry_ok ?reg" using assms(2) None by (intro register_ok) (simp_all add: jerasure_ready_def)
  then have "jerasure_ready T ?reg" using assms(2) m by (simp add: jerasure_ready_def dlopen_count_def)
  ultimately show ?thesis by auto
next
  case (Some q)
  have "reg\<lparr>locked := False\<rparr> = reg" "reg\<lparr>locked := True, locked := False\<rparr> = reg"
    using assms(2) by (simp_all add: jerasure_ready_def)
  with Some assms(2) show ?thesis by (auto simp: registry_lookup_def registry_get_def jerasure_ready_def)
qed

lemma registry_jerasure:
  assumes "jerasure_installed T dl ver dir" "jerasure_ready T reg"
    "jerasure_factory T p = Some (0, Some c, p')" "je_profile c = p'"
  shows "\<exists>reg'. registry_factory dl ver ''jerasure'' dir p reg = Some (0, Some (jerasure_codec T c), p', reg') \<and> jerasure_ready T reg'"
  using jerasure_lookup [OF assms(1,2)] assms(3,4)
  by (auto simp: registry_factory_def jerasure_plugin_factory_def jerasure_codec_def)

section \<open>The layers\<close>

definition layer_made :: "techniques \<Rightarrow> string \<Rightarrow> layer \<Rightarrow> bool" where
  "layer_made T s la \<longleftrightarrow>
     la_data la = map_positions ''D'' s \<and> la_coding la = map_positions ''c'' s \<and> la_chunks la = la_data la @ la_coding la \<and>
     la_chunks_as_set la = set (map_positions ''cD'' s) \<and> la_chunks_map la = s \<and>
     (\<exists>c. la_code la = Some (jerasure_codec T c) \<and> rs_described c (length (la_data la)) (length (la_coding la)) \<and>
        je_matrix c = reed_sol_vandermonde_coding_matrix T (int (length (la_data la))) (int (length (la_coding la))) 8)"

lemma prepared_profile:
  "la_profile (layer_prepare (layer_new s)) =
     [(''k'', stringify (length (map_positions ''D'' s))), (''m'', stringify (length (map_positions ''c'' s))),
      (''plugin'', ''jerasure''), (''technique'', ''reed_sol_van'')]"
  by (simp add: layer_prepare_def layer_new_def default_entry_def mget_def) code_simp

lemma layers_made:
  assumes "jerasure_installed T dl ver dir" "jerasure_ready T reg" "\<forall>s\<in>set rows. int (length s) < INT_MAX"
  shows "\<exists>las reg'. lrc_layers_init dl ver dir (map layer_new rows) reg = Some (0, las, reg') \<and>
    jerasure_ready T reg' \<and> list_all2 (layer_made T) rows las"
  using assms
proof (induction rows arbitrary: reg)
  case (Cons s rows)
  let ?la = "layer_prepare (layer_new s)"
  have le: "length (map_positions cs s) \<le> length s" for cs by (simp add: length_map_positions)
  have "names_rs (la_profile ?la) (length (map_positions ''D'' s)) (length (map_positions ''c'' s))"
    unfolding prepared_profile by (simp add: names_rs_def mget_def mok_def)
  moreover have "int (length (map_positions cs s)) < INT_MAX" for cs using le [of cs] Cons.prems(3) by simp
  ultimately obtain c p' where c: "jerasure_factory T (la_profile ?la) = Some (0, Some c, p')" "je_profile c = p'"
      "rs_described c (length (map_positions ''D'' s)) (length (map_positions ''c'' s))"
      "je_matrix c = reed_sol_vandermonde_coding_matrix T (int (length (map_positions ''D'' s))) (int (length (map_positions ''c'' s))) 8"
    using rs_factory by blast
  obtain reg1 where 1: "registry_factory dl ver ''jerasure'' dir (la_profile ?la) reg = Some (0, Some (jerasure_codec T c), p', reg1)"
      "jerasure_ready T reg1"
    using registry_jerasure [OF Cons.prems(1,2) c(1,2)] by blast
  obtain las reg' where 2: "lrc_layers_init dl ver dir (map layer_new rows) reg1 = Some (0, las, reg')"
      "jerasure_ready T reg'" "list_all2 (layer_made T) rows las"
    using Cons.IH [OF Cons.prems(1) 1(2)] Cons.prems(3) by auto
  have "mref [] (la_profile ?la) ''plugin'' = ''jerasure''" unfolding prepared_profile by (simp add: mget_def)
  moreover have "layer_made T s (?la\<lparr>la_code := Some (jerasure_codec T c), la_profile := p'\<rparr>)"
    using c(3,4) by (auto simp: layer_made_def layer_prepare_def layer_new_def Let_def)
  ultimately show ?case using 1 2 by simp
qed simp

section \<open>The layout\<close>

lemma row_sets:
  fixes g kk mm i :: nat
  defines "b \<equiv> kk + mm + 1"
  shows "set (map_positions ''D'' (global_row g kk mm)) = int ` {p. p < g * b \<and> p mod b < kk}"
    "set (map_positions ''c'' (global_row g kk mm)) = int ` {p. p < g * b \<and> kk \<le> p mod b \<and> p mod b < kk + mm}"
    "set (map_positions ''D'' (local_row g (kk + mm) i)) = int ` {p. p < g * b \<and> p div b = i \<and> p mod b < kk + mm}"
    "set (map_positions ''c'' (local_row g (kk + mm) i)) = int ` {p. p < g * b \<and> p div b = i \<and> p mod b = kk + mm}"
proof -
  have "p mod b < b" for p unfolding b_def by simp
  then have top: "\<not> p mod b < kk + mm \<longleftrightarrow> p mod b = kk + mm" for p using less_Suc_eq [of "p mod b" "kk + mm"] by (auto simp: b_def)
  note nth = row_nth [of _ g kk mm, folded b_def]
  have len: "length (global_row g kk mm) = g * b" "length (local_row g (kk + mm) i) = g * b" by (simp_all add: b_def)
  show "set (map_positions ''D'' (global_row g kk mm)) = int ` {p. p < g * b \<and> p mod b < kk}"
    "set (map_positions ''c'' (global_row g kk mm)) = int ` {p. p < g * b \<and> kk \<le> p mod b \<and> p mod b < kk + mm}"
    "set (map_positions ''D'' (local_row g (kk + mm) i)) = int ` {p. p < g * b \<and> p div b = i \<and> p mod b < kk + mm}"
    "set (map_positions ''c'' (local_row g (kk + mm) i)) = int ` {p. p < g * b \<and> p div b = i \<and> p mod b = kk + mm}"
    unfolding set_map_positions len
    by (rule arg_cong [of _ _ "image int"], rule Collect_cong, use nth top in \<open>auto split: if_splits\<close>)+
qed

lemma made_layer:
  assumes "layer_made T s la"
  shows "la_chunks la = la_data la @ la_coding la" "distinct (la_chunks la)" "la_chunks_as_set la = set (la_chunks la)"
  using assms by (auto simp: layer_made_def distinct_map_positions set_map_positions)

text \<open>Layers that only read what is known before all of them can come in any order.\<close>

lemma layout_independent:
  assumes "\<forall>la\<in>set las. la_chunks la = la_data la @ la_coding la \<and> distinct (la_chunks la) \<and> la_chunks_as_set la = set (la_chunks la)"
    "\<forall>la\<in>set las. set (la_data la) \<subseteq> known" "\<forall>la\<in>set las. set (la_coding la) \<inter> known = {}"
    "sorted_wrt (\<lambda>la lb. set (la_coding la) \<inter> set (la_coding lb) = {}) las"
  shows "lrc_layout known las"
  using assms
proof (induction las arbitrary: known)
  case (Cons la las)
  have "\<forall>lb\<in>set las. set (la_coding lb) \<inter> (known \<union> set (la_coding la)) = {}"
    using Cons.prems(3,4) by (simp add: Int_Un_distrib Int_commute)
  moreover have "\<forall>lb\<in>set las. set (la_data lb) \<subseteq> known \<union> set (la_coding la)" using Cons.prems(2) by auto
  ultimately have "lrc_layout (known \<union> set (la_coding la)) las"
    using Cons.prems(1,4) by (intro Cons.IH) (meson list.set_intros(2), assumption+, simp)
  with Cons.prems show ?case by auto
qed simp

text \<open>The layers of the short form.\<close>

lemma kml_layers_cases:
  assumes "list_all2 (layer_made T) (kml_rows g kk mm) las"
  obtains la0 locals where "las = la0 # locals" "layer_made T (global_row g kk mm) la0" "length locals = g"
    "\<And>i. i < g \<Longrightarrow> layer_made T (local_row g (kk + mm) i) (locals ! i)"
proof -
  obtain la0 ls where "las = la0 # ls" "layer_made T (global_row g kk mm) la0"
      "list_all2 (layer_made T) (map (local_row g (kk + mm)) [0..<g]) ls"
    using assms by (auto simp: kml_rows_def list_all2_Cons1)
  with that show ?thesis by (auto simp: list_all2_conv_all_nth)
qed

lemma kml_layout:
  fixes g kk mm :: nat
  defines "b \<equiv> kk + mm + 1"
  assumes made: "list_all2 (layer_made T) (kml_rows g kk mm) las"
  shows "lrc_layout (int ` {p. p < g * b \<and> p mod b < kk}) las"
    "int ` {p. p < g * b \<and> p mod b < kk} \<union> layers_coding las = int ` {..<g * b}"
proof -
  obtain la0 ls where las: "las = la0 # ls" "layer_made T (global_row g kk mm) la0" "length ls = g"
      "\<And>i. i < g \<Longrightarrow> layer_made T (local_row g (kk + mm) i) (ls ! i)" using kml_layers_cases [OF made] by metis
  note sets = row_sets [where kk = kk and mm = mm, folded b_def]
  have mod_b: "p mod b < b" for p unfolding b_def by simp
  let ?D = "int ` {p. p < g * b \<and> p mod b < kk}" and ?C = "int ` {p. p < g * b \<and> kk \<le> p mod b \<and> p mod b < kk + mm}"
  have 0: "set (la_data la0) = ?D" "set (la_coding la0) = ?C" using las(2) sets by (simp_all add: layer_made_def)
  have known: "?D \<union> ?C = int ` {p. p < g * b \<and> p mod b < kk + mm}"
    unfolding image_Un [symmetric] by (rule arg_cong [of _ _ "image int"]) auto
  have loc: "set (la_data (ls ! i)) = int ` {p. p < g * b \<and> p div b = i \<and> p mod b < kk + mm}"
      "set (la_coding (ls ! i)) = int ` {p. p < g * b \<and> p div b = i \<and> p mod b = kk + mm}" if "i < g" for i
    using las(4) [OF that] sets by (simp_all add: layer_made_def)
  have "\<forall>la\<in>set ls. la_chunks la = la_data la @ la_coding la \<and> distinct (la_chunks la) \<and> la_chunks_as_set la = set (la_chunks la)"
    unfolding all_set_conv_all_nth las(3) using made_layer [OF las(4)] by blast
  moreover have "\<forall>la\<in>set ls. set (la_data la) \<subseteq> ?D \<union> ?C" unfolding known all_set_conv_all_nth las(3) using loc(1) by auto
  moreover have "\<forall>la\<in>set ls. set (la_coding la) \<inter> (?D \<union> ?C) = {}" unfolding known all_set_conv_all_nth las(3) using loc(2) by auto
  moreover have "sorted_wrt (\<lambda>la lb. set (la_coding la) \<inter> set (la_coding lb) = {}) ls"
    using loc las(3) by (auto simp: sorted_wrt_iff_nth_less)
  ultimately have "lrc_layout (?D \<union> ?C) ls" by (rule layout_independent)
  then show "lrc_layout ?D las" using las(1) made_layer [OF las(2)] 0 by auto
  have "layers_coding ls = int ` {p. p < g * b \<and> p mod b = kk + mm}"
  proof -
    have "p div b < g" if "p < g * b" for p using that by (simp add: div_less_iff_less_mult b_def)
    then have "(\<Union>i<g. int ` {p. p < g * b \<and> p div b = i \<and> p mod b = kk + mm}) = int ` {p. p < g * b \<and> p mod b = kk + mm}" by auto
    moreover have "layers_coding ls = (\<Union>i<g. set (la_coding (ls ! i)))" using las(3) by (fastforce simp: layers_coding_def in_set_conv_nth)
    ultimately show ?thesis using loc(2) by simp
  qed
  moreover have "p mod b < kk + mm \<or> p mod b = kk + mm" for p using mod_b [of p] unfolding b_def by linarith
  ultimately show "?D \<union> layers_coding las = int ` {..<g * b}"
    unfolding las(1) layers_coding_simps 0 Un_assoc [symmetric] known by auto
qed

section \<open>From the profile to the code\<close>

definition names_kml :: "profile \<Rightarrow> nat \<Rightarrow> nat \<Rightarrow> nat \<Rightarrow> bool" where
  "names_kml p g kk mm \<longleftrightarrow> mok p \<and> mget p ''k'' = Some (stringify (g * kk)) \<and> mget p ''m'' = Some (stringify (g * mm)) \<and>
     mget p ''l'' = Some (stringify (kk + mm)) \<and>
     mget p ''mapping'' = None \<and> mget p ''layers'' = None \<and> mget p ''ruleset-steps'' = None"

definition kml_object :: "techniques \<Rightarrow> nat \<Rightarrow> nat \<Rightarrow> nat \<Rightarrow> lrc \<Rightarrow> bool" where
  "kml_object T g kk mm L \<longleftrightarrow> list_all2 (layer_made T) (kml_rows g kk mm) (lrc_layers L) \<and>
     lrc_chunk_count L = g * (kk + mm + 1) \<and> lrc_data_chunk_count L = g * kk \<and>
     lrc_chunk_mapping L = mapping_positions (mapping_row g kk mm)"

lemma kml_parsed:
  assumes "names_kml p g kk mm" "0 < g" "0 < kk + mm" "int (g * (kk + mm)) < INT_MAX" "lrc_chunk_mapping L = []"
  shows "\<exists>steps. lrc_parse_kml L p = Some (0, L\<lparr>lrc_ruleset_steps := steps\<rparr>,
    mput ''layers'' (layers_text (kml_rows g kk mm)) (mput ''mapping'' (mapping_row g kk mm) p))"
proof -
  let ?p = "mput ''layers'' (layers_text (kml_rows g kk mm)) (mput ''mapping'' (mapping_row g kk mm) p)"
  have "kk + mm \<le> g * (kk + mm)" using assms(2) by simp
  then have "int (g * kk) < INT_MAX" "int (g * mm) < INT_MAX" "int (kk + mm) < INT_MAX"
    using assms(4) by (auto simp: add_mult_distrib2 simp del: of_nat_mult of_nat_add)
  then have "to_int ''k'' p d = (0, p, int (g * kk))" "to_int ''m'' p d = (0, p, int (g * mm))" "to_int ''l'' p d = (0, p, int (kk + mm))" for d
    using assms(1) by (simp_all add: to_int_decimal names_kml_def del: of_nat_mult of_nat_add)
  moreover have "parse_base p (lrc_chunk_mapping L) = (0, [])"
    using assms(1,5) by (simp add: parse_base_def to_mapping_def names_kml_def)
  moreover have "L\<lparr>lrc_chunk_mapping := []\<rparr> = L" using assms(5) by simp
  moreover have neg: "int n \<noteq> - 1" for n by linarith
  moreover have "kml_generate (int (g * kk)) (int (g * mm)) (int (kk + mm)) p = Some (0, ?p, int g)"
    using assms(1-4) by (intro kml_generated) (simp_all add: names_kml_def)
  ultimately have "lrc_parse_kml L p = Some (0, L\<lparr>lrc_ruleset_steps :=
      lrc_default_steps (mref [] ?p ''ruleset-locality'') (mref ''host'' ?p ''ruleset-failure-domain'') (int g) (int (kk + mm)) (lrc_ruleset_steps L)\<rparr>, ?p)"
    unfolding lrc_parse_kml_def by (simp only: Let_def prod.case neg simp_thms if_False bind.bind_lunit or.left_neutral)
  then show ?thesis by blast
qed

lemma made_maps: "list_all2 (layer_made T) rows las \<Longrightarrow> map la_chunks_map las = rows"
  by (induction rows las rule: list_all2_induct) (auto simp: layer_made_def)

lemma rows_length: "s \<in> set (kml_rows g kk mm) \<Longrightarrow> length s = g * (kk + mm + 1)"
  by (auto simp: kml_rows_def)

lemma init_mapped:
  assumes "mget p ''mapping'' = Some s" "lrc_layers L \<noteq> []" "\<forall>la\<in>set (lrc_layers L). length (la_chunks_map la) = length s"
  shows "\<exists>p' L'. lrc_init_mapping L p = (0, L', p') \<and> lrc_layers L' = lrc_layers L \<and> lrc_chunk_mapping L' = lrc_chunk_mapping L \<and>
    lrc_chunk_count L' = length s \<and> lrc_data_chunk_count L' = length (filter (\<lambda>c. c = CHR ''D'') s)"
  using assms by (simp add: lrc_init_mapping_def lrc_layers_sanity_checks_def list_ex_iff Let_def not_less Suc_le_eq)

lemma kml_factory:
  assumes sp: "spirit_lib sp" and p: "names_kml p g kk mm" "0 < g" "0 < kk" "g * (kk + mm + 1) < 2 ^ 31 - 1"
    and reg: "jerasure_installed T dl ver dir" "jerasure_ready T reg"
  shows "\<exists>L p' reg'. lrc_factory sp dl ver dir p reg = Some (0, Some L, p', reg') \<and> kml_object T g kk mm L \<and> jerasure_ready T reg'"
proof -
  let ?rows = "kml_rows g kk mm" and ?m = "mapping_row g kk mm"
  let ?p = "mput ''layers'' (layers_text ?rows) (mput ''mapping'' ?m p)"
  have "int n < INT_MAX" if "n \<le> g * (kk + mm + 1)" for n using that p(4) by (simp add: INT_MAX_def)
  then have lt: "int (g * (kk + mm)) < INT_MAX" "\<forall>s\<in>set ?rows. int (length s) < INT_MAX"
    using rows_length [of _ g kk mm] eq_refl by (simp del: of_nat_mult, blast)
  have mok: "mok p" using p(1) by (simp add: names_kml_def)
  obtain steps where 1: "lrc_parse_kml (lrc_new dir) p = Some (0, (lrc_new dir)\<lparr>lrc_ruleset_steps := steps\<rparr>, ?p)"
    using kml_parsed [OF p(1,2) _ lt(1), of "lrc_new dir"] p(3) by (auto simp: lrc_new_def)
  let ?q = "with_default ''ruleset-root'' ''default'' ?p"
  obtain root where 2: "lrc_parse sp ((lrc_new dir)\<lparr>lrc_ruleset_steps := steps\<rparr>) ?p =
      Some (0, (lrc_new dir)\<lparr>lrc_ruleset_steps := steps, lrc_chunk_mapping := mapping_positions ?m, lrc_ruleset_root := root\<rparr>, ?q)"
    using p(1) mok by (auto simp: lrc_parse_def parse_base_def to_mapping_def lrc_parse_ruleset_def to_string_def lrc_new_def
        mget_with_default names_kml_def Let_def)
  have 3: "lrc_layers_description sp ?q = Some (0, layers_json ?rows)"
    using spirit_lib.layers_text_read [OF sp _ rows_text] mok
    by (simp add: lrc_layers_description_def mget_with_default get_array_def kml_rows_def)
  obtain las reg' where 4: "lrc_layers_init dl ver dir (map layer_new ?rows) reg = Some (0, las, reg')"
      "jerasure_ready T reg'" "list_all2 (layer_made T) ?rows las"
    using layers_made [OF reg lt(2)] by blast
  let ?L = "(lrc_new dir)\<lparr>lrc_ruleset_steps := steps, lrc_chunk_mapping := mapping_positions ?m, lrc_ruleset_root := root, lrc_layers := las\<rparr>"
  have "\<forall>la\<in>set las. length (la_chunks_map la) = length ?m"
    using made_maps [OF 4(3)] rows_length [of _ g kk mm] by (metis image_eqI image_set row_length(1))
  moreover have "las \<noteq> []" using 4(3) by (auto simp: kml_rows_def)
  moreover have "mget ?q ''mapping'' = Some ?m" using mok by (simp add: mget_with_default)
  ultimately obtain L p' where 5: "lrc_init_mapping ?L ?q = (0, L, p')" "kml_object T g kk mm L"
    using init_mapped [of ?q ?m ?L] 4(3) row_counts(1) [of g kk mm] by (auto simp: kml_object_def)
  have new: "lrc_directory (lrc_new dir) = dir" "lrc_layers (lrc_new dir) = []" by (simp_all add: lrc_new_def)
  have "lrc_factory sp dl ver dir p reg = Some (0, Some L, p', reg')"
    using 1 2 3 4(1) 5(1) spirit_lib.rows_parse [OF sp, of ?rows "[]"]
    by (simp add: lrc_factory_def lrc_init_def new Let_def)
  with 4(2) 5(2) show ?thesis by blast
qed

section \<open>The contract\<close>

definition kml_code :: "(byte \<Rightarrow> byte \<Rightarrow> byte) \<Rightarrow> techniques \<Rightarrow> layer_code" where
  "kml_code mul T la = device_content mul (length (la_data la))
     (the (reed_sol_vandermonde_coding_matrix T (int (length (la_data la))) (int (length (la_coding la))) 8))"

lemma made_ok:
  assumes "reed_sol mul T" "layer_made T s la" "length (la_data la) = k" "length (la_coding la) = m" "0 < k" "0 < m" "k + m \<le> 256"
    "reed_sol_vandermonde_coding_matrix T (int k) (int m) 8 \<noteq> None"
  shows "layer_ok (kml_code mul T) region_size la"
proof -
  obtain matrix where matrix: "reed_sol_vandermonde_coding_matrix T (int k) (int m) 8 = Some matrix" using assms(8) by auto
  obtain c where c: "la_code la = Some (jerasure_codec T c)" "rs_described c k m" "je_matrix c = Some matrix"
    using assms(2-4) matrix by (auto simp: layer_made_def)
  have code: "vandermonde_code mul T c k m matrix" by (rule rs_code [OF assms(1) c(2,3) assms(5-7) matrix])
  have "kml_code mul T la = device_content mul k matrix" using assms(3,4) matrix by (simp add: kml_code_def)
  with c(1) vandermonde_code.is_layer [OF code] vandermonde_code.counts [OF code] made_layer(1) [OF assms(2)] assms(3,4)
  show ?thesis by (simp add: layer_ok_def)
qed

lemma kml_data:
  assumes "kml_object T g kk mm L"
  shows "lrc_data L = int ` {p. p < g * (kk + mm + 1) \<and> p mod (kk + mm + 1) < kk}"
proof -
  have "{i. i < g * (kk + mm + 1) \<and> mapping_row g kk mm ! i = CHR ''D''} = {p. p < g * (kk + mm + 1) \<and> p mod (kk + mm + 1) < kk}"
    using row_nth(1) [of _ g kk mm] by (auto split: if_splits)
  with mapping_positions_data [of "mapping_row g kk mm"] row_counts(1) [of g kk mm] assms show ?thesis
    by (simp add: lrc_data_def kml_object_def)
qed

lemma kml_is_code:
  assumes "reed_sol mul T" "kml_object T g kk mm L" "2 \<le> g" "0 < kk" "0 < mm" "g * (kk + mm) \<le> 256"
    "reed_sol_vandermonde_coding_matrix T (int (g * kk)) (int (g * mm)) 8 \<noteq> None"
    "reed_sol_vandermonde_coding_matrix T (int (kk + mm)) 1 8 \<noteq> None"
  shows "lrc_code L (kml_code mul T) region_size"
proof -
  let ?b = "kk + mm + 1"
  have made: "list_all2 (layer_made T) (kml_rows g kk mm) (lrc_layers L)" using assms(2) by (simp add: kml_object_def)
  obtain la0 ls where las: "lrc_layers L = la0 # ls" "layer_made T (global_row g kk mm) la0" "length ls = g"
      "\<And>i. i < g \<Longrightarrow> layer_made T (local_row g (kk + mm) i) (ls ! i)" using kml_layers_cases [OF made] by metis
  have "2 * (kk + mm) \<le> g * (kk + mm)" using assms(3) by (intro mult_le_mono1)
  from order_trans [OF this assms(6)] have l: "kk + mm + 1 \<le> 256" using assms(4) by presburger
  have "layer_ok (kml_code mul T) region_size la0"
    using assms(3-8) row_counts(2,3) [of g kk mm] las(2)
    by (intro made_ok [OF assms(1) las(2), of "g * kk" "g * mm"]) (auto simp: layer_made_def add_mult_distrib2)
  moreover have "layer_ok (kml_code mul T) region_size (ls ! i)" if "i < g" for i
    using assms(3-8) local_counts [OF that, of "kk + mm"] las(4) [OF that] l
    by (intro made_ok [OF assms(1) las(4) [OF that], of "kk + mm" 1]) (auto simp: layer_made_def)
  ultimately have ok: "\<forall>la\<in>set (lrc_layers L). layer_ok (kml_code mul T) region_size la"
    unfolding las(1) using las(3) by (auto simp: in_set_conv_nth)
  show ?thesis
    using ok kml_layout [OF made] mapping_positions_bij [of "mapping_row g kk mm"] assms(2)
    by unfold_locales (simp_all add: kml_data [OF assms(2)] kml_object_def trans_le_add2)
qed

end
