(* ===== verification/Lrc_Theorems.thy ===== *)
theory Lrc_Theorems
  imports Lrc_Jerasure
begin

text \<open>
  The properties of the layered code: what its chunks hold, what comes back when chunks are
  lost, and where it does less than it promises.
\<close>

section \<open>What the layers restore\<close>

lemma left_layer:
  assumes "la \<in> set las" "la_code la = Some C" "card (la_chunks_as_set la \<inter> E) \<le> get_coding_chunk_count C" "finite E"
  shows "la_chunks_as_set la \<inter> lrc_left las E = {}"
  using assms
proof (induction las arbitrary: E)
  case (Cons lb las)
  have left: "lrc_left (lb # las) E = lrc_left las (layer_left lb E)" by (simp add: lrc_left_def)
  have sub: "layer_left lb E \<subseteq> E" by (rule layer_left_subset)
  show ?case
  proof (cases "lb = la")
    case True
    then have "la_chunks_as_set la \<inter> layer_left lb E = {}" using Cons.prems by (auto simp: layer_left_def)
    with left lrc_left_subset [of las "layer_left lb E"] show ?thesis by auto
  next
    case False
    have "card (la_chunks_as_set la \<inter> layer_left lb E) \<le> card (la_chunks_as_set la \<inter> E)"
      using sub Cons.prems(4) by (intro card_mono) auto
    with Cons False finite_subset [OF sub] left show ?thesis by auto
  qed
qed simp

lemma ok_coding:
  assumes "layer_ok E size_ok la" "la_chunks la = la_data la @ la_coding la"
  obtains C where "la_code la = Some C" "get_coding_chunk_count C = length (la_coding la)"
proof -
  obtain C where C: "la_code la = Some C" "chunk_code C (E la) size_ok" "length (la_data la) = get_data_chunk_count C"
      "length (la_chunks la) = get_chunk_count C" using assms(1) by (auto simp: layer_ok_def)
  have "get_coding_chunk_count C = get_chunk_count C - get_data_chunk_count C"
    using chunk_code.counts [OF C(2)] by (simp add: get_coding_chunk_count_def)
  with C assms(2) that show ?thesis by simp
qed

text \<open>A group of the short form: \<open>l\<close> chunks and their local parity.\<close>

definition kml_group :: "nat \<Rightarrow> nat \<Rightarrow> nat \<Rightarrow> int set" where
  "kml_group g l j = int ` {p. p < g * (l + 1) \<and> p div (l + 1) = j}"

definition kml_survives :: "nat \<Rightarrow> nat \<Rightarrow> nat \<Rightarrow> int set \<Rightarrow> bool" where
  "kml_survives g m l A \<longleftrightarrow> card (int ` {..<g * (l + 1)} - A) \<le> m \<or> (\<forall>j<g. card (kml_group g l j - A) \<le> 1)"

lemma made_sets:
  assumes "layer_made T (local_row g (kk + mm) i) la"
  shows "la_chunks_as_set la = kml_group g (kk + mm) i"
proof -
  have cover: "p mod (kk + mm + 1) < kk + mm \<or> p mod (kk + mm + 1) = kk + mm" for p
    using mod_less_divisor [of "kk + mm + 1" p] by linarith
  have "la_chunks_as_set la = int ` ({p. p < g * (kk + mm + 1) \<and> p div (kk + mm + 1) = i \<and> p mod (kk + mm + 1) < kk + mm} \<union>
      {p. p < g * (kk + mm + 1) \<and> p div (kk + mm + 1) = i \<and> p mod (kk + mm + 1) = kk + mm})"
    unfolding image_Un row_sets [symmetric] using made_layer(1,3) [OF assms] assms by (simp add: layer_made_def)
  also have "\<dots> = kml_group g (kk + mm) i"
    unfolding kml_group_def by (rule arg_cong [of _ _ "image int"]) (use cover in blast)
  finally show ?thesis .
qed

lemma kml_restores:
  assumes code: "lrc_code L E size_ok" and L: "kml_object T g kk mm L" and A: "kml_survives g (g * mm) (kk + mm) A"
  shows "lrc_restores L (lrc_data L) A"
proof -
  let ?b = "kk + mm + 1"
  have made: "list_all2 (layer_made T) (kml_rows g kk mm) (lrc_layers L)" using L by (simp add: kml_object_def)
  obtain la0 ls where las: "lrc_layers L = la0 # ls" "layer_made T (global_row g kk mm) la0" "length ls = g"
      "\<And>i. i < g \<Longrightarrow> layer_made T (local_row g (kk + mm) i) (ls ! i)" using kml_layers_cases [OF made] by metis
  let ?N = "int ` {..<g * ?b}" and ?E = "lrc_missing L A" and ?left = "lrc_left (rev (lrc_layers L)) (lrc_missing L A)"
  have E: "?E = ?N - A" using L by (auto simp: lrc_missing_iff kml_object_def)
  then have fin: "finite ?E" by simp
  have ok: "layer_ok E size_ok la" if "la \<in> set (lrc_layers L)" for la using lrc_code.layers [OF code] that by blast
  have data: "lrc_data L \<subseteq> ?N" using lrc_code.covered [OF code] L by (auto simp: kml_object_def)
  consider "card ?E \<le> g * mm" | "\<forall>j<g. card (kml_group g (kk + mm) j - A) \<le> 1" using A E by (auto simp: kml_survives_def)
  then have "lrc_data L \<inter> ?left = {}"
  proof cases
    case 1
    obtain C where C: "la_code la0 = Some C" "get_coding_chunk_count C = length (la_coding la0)"
      using ok_coding [OF ok [of la0] made_layer(1) [OF las(2)]] las(1) by auto
    have "card (la_chunks_as_set la0 \<inter> ?E) \<le> card ?E" using fin by (intro card_mono) auto
    also have "\<dots> \<le> get_coding_chunk_count C" using 1 C(2) las(2) row_counts(3) [of g kk mm] by (simp add: layer_made_def)
    finally have "la_chunks_as_set la0 \<inter> ?left = {}" using C(1) fin las(1) by (intro left_layer) auto
    moreover have "lrc_data L \<subseteq> la_chunks_as_set la0"
      unfolding kml_data [OF L] row_sets(1) [symmetric] using made_layer(1,3) [OF las(2)] las(2) by (auto simp: layer_made_def)
    ultimately show ?thesis by blast
  next
    case 2
    have none: "kml_group g (kk + mm) i \<inter> ?left = {}" if i: "i < g" for i
    proof -
      obtain C where C: "la_code (ls ! i) = Some C" "get_coding_chunk_count C = length (la_coding (ls ! i))"
        using ok_coding [OF ok [of "ls ! i"] made_layer(1) [OF las(4) [OF i]]] las(1,3) i by auto
      have "la_chunks_as_set (ls ! i) \<inter> ?E \<subseteq> kml_group g (kk + mm) i - A" using E made_sets [OF las(4) [OF i]] by auto
      moreover have "finite (kml_group g (kk + mm) i - A)" by (simp add: kml_group_def)
      ultimately have "card (la_chunks_as_set (ls ! i) \<inter> ?E) \<le> card (kml_group g (kk + mm) i - A)" by (intro card_mono)
      also have "\<dots> \<le> get_coding_chunk_count C" using 2 i C(2) las(4) [OF i] local_counts(2) [OF i] by (simp add: layer_made_def)
      finally show ?thesis unfolding made_sets [OF las(4) [OF i], symmetric] using C(1) fin las(1,3) i by (intro left_layer) auto
    qed
    have cover: "?N = (\<Union>i<g. kml_group g (kk + mm) i)"
    proof -
      have "p div ?b < g" if "p < g * ?b" for p using that by (simp add: div_less_iff_less_mult)
      then show ?thesis by (auto simp: kml_group_def)
    qed
    have "?N \<inter> ?left = {}" unfolding cover using none by (simp add: UN_extend_simps(4) del: UN_simps)
    with Int_mono [OF data subset_refl [of ?left]] show ?thesis by (simp only: subset_empty)
  qed
  then show ?thesis by (simp add: lrc_restores_def)
qed

lemma top_none:
  "\<forall>la\<in>set xs. \<not> want \<subseteq> la_chunks_as_set la \<Longrightarrow> lrc_top (xs @ ys) want t = lrc_top ys want (t - length xs)"
  by (induction xs arbitrary: t) auto

lemma kml_encodable:
  assumes "kml_object T g kk mm L" "2 \<le> g"
  shows "lrc_encodable L (int ` {..<g * (kk + mm + 1)})"
proof -
  have made: "list_all2 (layer_made T) (kml_rows g kk mm) (lrc_layers L)" using assms(1) by (simp add: kml_object_def)
  obtain la0 ls where las: "lrc_layers L = la0 # ls" "layer_made T (global_row g kk mm) la0" "length ls = g"
      "\<And>i. i < g \<Longrightarrow> layer_made T (local_row g (kk + mm) i) (ls ! i)" using kml_layers_cases [OF made] by metis
  have "\<not> int ` {..<g * (kk + mm + 1)} \<subseteq> kml_group g (kk + mm) i" for i
  proof -
    let ?b = "kk + mm + 1"
    have "1 * ?b < g * ?b" using assms(2) by (intro mult_strict_right_mono) auto
    then have "0 < g * ?b" "?b < g * ?b" using assms(2) by simp_all
    then have "int 0 \<in> int ` {..<g * ?b}" "int ?b \<in> int ` {..<g * ?b}" by (blast intro: lessThan_iff [THEN iffD2])+
    moreover have "\<not> (int 0 \<in> kml_group g (kk + mm) i \<and> int ?b \<in> kml_group g (kk + mm) i)"
      unfolding kml_group_def inj_image_mem_iff [OF inj_of_nat] by auto
    ultimately show ?thesis by blast
  qed
  then have "\<forall>la\<in>set (rev ls). \<not> int ` {..<g * (kk + mm + 1)} \<subseteq> la_chunks_as_set la"
    using made_sets [OF las(4)] las(3) by (auto simp: in_set_conv_nth)
  from top_none [OF this, of "[la0]"] show ?thesis by (simp add: lrc_encodable_def las(1))
qed

lemma kml_fits:
  assumes "kml_object T g kk mm L" "0 < g" "0 < kk" "0 < mm" "g * (kk + mm) \<le> 256" "0 < len" "len + 32 * (g * kk) < 2 ^ 31"
  shows "\<exists>bs. lrc_fits L region_size len bs \<and> g * kk * bs < len + 32 * (g * kk)"
proof -
  have made: "list_all2 (layer_made T) (kml_rows g kk mm) (lrc_layers L)" using assms(1) by (simp add: kml_object_def)
  obtain la0 ls where las: "lrc_layers L = la0 # ls" "layer_made T (global_row g kk mm) la0" using kml_layers_cases [OF made] by metis
  then obtain c where c: "la_code la0 = Some (jerasure_codec T c)" "rs_described c (g * kk) (g * mm)"
    using row_counts(2,3) [of g kk mm] by (auto simp: layer_made_def)
  have "g * kk + g * mm \<le> 256" using assms(5) by (simp add: add_mult_distrib2)
  then obtain bs where bs: "plain_fits (jerasure_codec T c) region_size len bs" "g * kk * bs < len + 32 * (g * kk)"
    using rs_fits [OF c(2) _ _ _ assms(6,7), of T] assms(2-4) by auto
  have "get_data_chunk_count (jerasure_codec T c) = g * kk"
    using c(2) assms(7) by (simp add: jerasure_codec_def jerasure_get_data_chunk_count_def rs_described_def del: of_nat_mult)
  with bs las(1) c(1) assms(1) show ?thesis
    by (auto simp: lrc_fits_def plain_fits_def lrc_get_chunk_size_def kml_object_def)
qed

section \<open>Objects of the short form\<close>

definition kml_linker :: "techniques \<Rightarrow> linker" where
  "kml_linker T f = (if f = plugin_file ''lib'' ''jerasure''
     then Some \<lparr>lib_version = Some ''12.0.2'', lib_init = Some (jerasure_erasure_code_init T)\<rparr> else None)"

definition kml_profile :: "string \<Rightarrow> string \<Rightarrow> string \<Rightarrow> profile" where
  "kml_profile k m l = [(''k'', k), (''l'', l), (''m'', m)]"

lemma kml_installed: "jerasure_installed ref_techniques (kml_linker ref_techniques) ''12.0.2'' ''lib''"
  by (simp add: jerasure_installed_def kml_linker_def ref_techniques_def)

lemma registry_new_ready: "jerasure_ready T registry_new"
  using registry_ok_new by (simp add: jerasure_ready_def registry_new_def mget_def)

lemma kml_2_2_2: "names_kml (kml_profile ''2'' ''2'' ''2'') 2 1 1"
  by (simp add: names_kml_def kml_profile_def mget_def mok_def) code_simp

lemma kml_2_1_3: "names_kml (kml_profile ''2'' ''1'' ''3'') 1 2 1"
  by (simp add: names_kml_def kml_profile_def mget_def mok_def) code_simp

text \<open>The code the factory makes of the profile \<open>k=2 m=2 l=2\<close>.\<close>

definition lrc_2_2_2 :: lrc where
  "lrc_2_2_2 =
     (case lrc_factory ref_spirit (kml_linker ref_techniques) ''12.0.2'' ''lib'' (kml_profile ''2'' ''2'' ''2'') registry_new of
        Some (_, Some L, _) \<Rightarrow> L | _ \<Rightarrow> lrc_new [])"

lemma lrc_2_2_2_object: "kml_object ref_techniques 2 1 1 lrc_2_2_2"
  using kml_factory [OF ref_sp.spirit_lib_axioms kml_2_2_2 _ _ _ kml_installed registry_new_ready] by (auto simp: lrc_2_2_2_def)

interpretation ex_lrc: lrc_code lrc_2_2_2 "kml_code gf_mul ref_techniques" region_size
  by (rule kml_is_code [OF ref_rs.reed_sol_axioms lrc_2_2_2_object]) (simp_all add: ref_techniques_def)

section \<open>Encoding and decoding refine the layers' equations\<close>

lemma lrc_held:
  assumes code: "lrc_code L E size_ok" and raw: "bl_ok h raw" "lrc_fits L size_ok (bl_length raw) bs"
    and A: "A \<subseteq> int ` {..<lrc_chunk_count L}" "A \<noteq> {}"
    and held: "holds h1 M A bs (lrc_enc L E (map (block (lrc_data_chunk_count L) bs (bl_bytes h raw)) [0..<lrc_data_chunk_count L]))"
    and want: "want \<subseteq> int ` {..<lrc_chunk_count L}" "want \<subseteq> A \<or> lrc_restores L want A"
  shows "\<exists>h2 D. decode (lrc_codec L) want M [] h1 = Some (h2, 0, D) \<and>
    (\<forall>c\<in>want. content h2 D c = lrc_enc L E (map (block (lrc_data_chunk_count L) bs (bl_bytes h raw)) [0..<lrc_data_chunk_count L]) c)"
proof -
  let ?k = "lrc_data_chunk_count L"
  note ec = lrc_code.is_erasure_code [OF code]
  have fs: "bl_length raw \<le> ?k * bs" "0 < bs" using erasure_code.fits_size [OF ec raw(2)] by simp_all
  have "length (bl_bytes h raw) = bl_length raw" using raw(1) by (simp add: buf_simps)
  then have "length d = bs" if "d \<in> set (map (block ?k bs (bl_bytes h raw)) [0..<?k])" for d
    using that fs length_block [of "bl_bytes h raw" ?k bs] by auto
  then show ?thesis
    using erasure_code.decode_spec [OF ec raw(2), of "map (block ?k bs (bl_bytes h raw)) [0..<?k]" A h1 M want] A held want
    by (auto simp del: set_map)
qed

text \<open>C5: encoding and decoding of the layered code refine the equations of its layers. Seen through the
  contents of the buffers, what encode stores is \<open>lrc_values\<close>: the layers applied one after the
  other to the blocks of the object. Whatever set \<open>A\<close> of chunks is left, decode delivers these
  contents for every set of wanted chunks that one pass over the layers reaches, which is what
  \<open>lrc_left\<close> computes on sets of chunk numbers.\<close>

theorem lrc_refines_layers:
  fixes L E size_ok h raw bs
  defines "N \<equiv> int ` {..<lrc_chunk_count L}"
    and "v \<equiv> lrc_values E (lrc_layers L) (lrc_blocks L (map (block (lrc_data_chunk_count L) bs (bl_bytes h raw)) [0..<lrc_data_chunk_count L]))"
  assumes "lrc_code L E size_ok" "bl_ok h raw" "lrc_fits L size_ok (bl_length raw) bs" "lrc_encodable L N"
  shows "\<exists>h1 M. encode (lrc_codec L) N raw [] h = Some (h1, 0, M) \<and> (\<forall>c\<in>N. content h1 M c = v c) \<and>
    (\<forall>A want. A \<subseteq> N \<and> A \<noteq> {} \<and> want \<subseteq> N \<and> want \<inter> lrc_left (rev (lrc_layers L)) (N - A) = {} \<longrightarrow>
       (\<exists>h2 D. decode (lrc_codec L) want (survivors A M) [] h1 = Some (h2, 0, D) \<and> (\<forall>c\<in>want. content h2 D c = v c)))"
proof -
  note ec = lrc_code.is_erasure_code [OF assms(3)]
  obtain h1 M where e: "encode (lrc_codec L) N raw [] h = Some (h1, 0, M)" "holds h1 M N bs v"
    using erasure_code.encode_spec [OF ec assms(4,5,6)] by (auto simp: N_def v_def lrc_enc_def)
  have "\<exists>h2 D. decode (lrc_codec L) want (survivors A M) [] h1 = Some (h2, 0, D) \<and> (\<forall>c\<in>want. content h2 D c = v c)"
    if "A \<subseteq> N" "A \<noteq> {}" "want \<subseteq> N" "want \<inter> lrc_left (rev (lrc_layers L)) (N - A) = {}" for A want
  proof -
    have "lrc_missing L A = N - A" by (auto simp: lrc_missing_iff N_def)
    with that(4) have "lrc_restores L want A" by (simp add: lrc_restores_def)
    with lrc_held [OF assms(3-5) _ that(2), of h1 "survivors A M" want] holds_survivors [OF e(2) that(1)] that(1,3)
    show ?thesis unfolding N_def v_def lrc_enc_def by blast
  qed
  with e show ?thesis by (auto simp: holds_def)
qed

text \<open>Two of the six chunks are lost.\<close>

lemma lost_0_5:
  "{1, 2, 3, 4} \<subseteq> int ` {..<2 * (1 + 1 + 1)}" "kml_survives 2 (2 * 1) (1 + 1) {1, 2, 3, 4}"
proof -
  have six: "int ` {..<6} = {0, 1, 2, 3, 4, 5}" by (auto simp: image_iff less_Suc_eq eval_nat_numeral intro: exI [of _ "nat _"])
  then show "{1, 2, 3, 4} \<subseteq> int ` {..<2 * (1 + 1 + 1)}" by simp
  have "card (int ` {..<6} - {1, 2, 3, 4}) \<le> card {0, 5 :: int}" unfolding six by (intro card_mono) auto
  then show "kml_survives 2 (2 * 1) (1 + 1) {1, 2, 3, 4}" by (simp add: kml_survives_def)
qed

theorem lrc_refines_layers_witness:
  "\<exists>h1 M v. encode (lrc_codec lrc_2_2_2) (int ` {..<6}) example_object [] example_heap = Some (h1, 0, M) \<and>
     (\<forall>c\<in>int ` {..<6}. content h1 M c = v c) \<and>
     (\<exists>h2 D. decode (lrc_codec lrc_2_2_2) {0} (survivors {1, 2, 3, 4} M) [] h1 = Some (h2, 0, D) \<and> content h2 D 0 = v 0)"
proof -
  note L = lrc_2_2_2_object
  have n: "lrc_chunk_count lrc_2_2_2 = 6" using L by (simp add: kml_object_def)
  obtain bs where bs: "lrc_fits lrc_2_2_2 region_size (bl_length example_object) bs"
    using kml_fits [OF L, of 5] by (auto simp: example_object_ok)
  have enc: "lrc_encodable lrc_2_2_2 (int ` {..<lrc_chunk_count lrc_2_2_2})" using kml_encodable [OF L] n by simp
  have zero: "0 \<in> lrc_data lrc_2_2_2" unfolding kml_data [OF L] by (auto intro: image_eqI [of _ _ 0])
  have "lrc_missing lrc_2_2_2 {1, 2, 3, 4} = int ` {..<6} - {1, 2, 3, 4}" using n by (auto simp: lrc_missing_iff)
  then have "{0} \<inter> lrc_left (rev (lrc_layers lrc_2_2_2)) (int ` {..<6} - {1, 2, 3, 4}) = {}"
    using kml_restores [OF ex_lrc.lrc_code_axioms L lost_0_5(2)] zero by (auto simp: lrc_restores_def)
  moreover have "{0} \<subseteq> int ` {..<6}" by (auto intro: image_eqI [of _ _ 0])
  ultimately have want: "{1, 2, 3, 4} \<subseteq> int ` {..<6} \<and> {1, 2, 3, 4 :: int} \<noteq> {} \<and> {0} \<subseteq> int ` {..<6} \<and>
      {0} \<inter> lrc_left (rev (lrc_layers lrc_2_2_2)) (int ` {..<6} - {1, 2, 3, 4}) = {}" using lost_0_5(1) by simp
  let ?v = "lrc_values (kml_code gf_mul ref_techniques) (lrc_layers lrc_2_2_2) (lrc_blocks lrc_2_2_2 (map (block
      (lrc_data_chunk_count lrc_2_2_2) bs (bl_bytes example_heap example_object)) [0..<lrc_data_chunk_count lrc_2_2_2]))"
  obtain h1 M where 1: "encode (lrc_codec lrc_2_2_2) (int ` {..<6}) example_object [] example_heap = Some (h1, 0, M)"
      "\<forall>c\<in>int ` {..<6}. content h1 M c = ?v c"
      "\<exists>h2 D. decode (lrc_codec lrc_2_2_2) {0} (survivors {1, 2, 3, 4} M) [] h1 = Some (h2, 0, D) \<and> (\<forall>c\<in>{0}. content h2 D c = ?v c)"
    using lrc_refines_layers [OF ex_lrc.lrc_code_axioms example_object_ok(1) bs enc, unfolded n] want by meson
  then show ?thesis by (intro exI [of _ h1] exI [of _ M] exI [of _ ?v]) simp
qed

section \<open>From a profile to stored data\<close>

lemma survives_nonempty:
  assumes "kml_survives g (g * mm) (kk + mm) A" "0 < g" "0 < kk" "0 < mm"
  shows "A \<noteq> {}"
proof
  assume A: "A = {}"
  have n: "1 * (kk + mm + 1) \<le> g * (kk + mm + 1)" using assms(2) by (intro mult_le_mono1) simp
  have "g * mm < g * (kk + mm + 1)" using assms(2) by (intro mult_strict_left_mono) auto
  then have "card (kml_group g (kk + mm) 0) \<le> 1"
    using assms(1,2) by (auto simp: kml_survives_def A card_image)
  moreover have "int 0 \<in> kml_group g (kk + mm) 0" "int 1 \<in> kml_group g (kk + mm) 0"
    unfolding kml_group_def inj_image_mem_iff [OF inj_of_nat] using n assms(2-4) by auto
  then have "card {int 0, int 1} \<le> card (kml_group g (kk + mm) 0)" by (intro card_mono) (auto simp: kml_group_def)
  ultimately show False by simp
qed

text \<open>C4: the short form from a profile to the bytes that come back. Given \<open>k\<close>, \<open>m\<close> and \<open>l\<close> that make at least two local groups
  (\<open>g\<close> groups of \<open>kk\<close> data and \<open>mm\<close> global coding chunks, so \<open>k = g kk\<close>, \<open>m = g mm\<close>, \<open>l = kk + mm\<close>), the factory of the layered
  code generates the mapping and the layers, reads its own JSON text, has the registry load the jerasure plugin, and creates a code. An
  object that is encoded with it comes back byte for byte when at most \<open>m\<close> chunks are lost, or at most one in each group.\<close>

theorem lrc_kml_round_trip:
  assumes lib: "reed_sol mul T" "spirit_lib sp" and p: "names_kml p g kk mm" "2 \<le> g" "0 < kk" "0 < mm" "g * (kk + mm) \<le> 256"
    and matrices: "reed_sol_vandermonde_coding_matrix T (int (g * kk)) (int (g * mm)) 8 \<noteq> None"
      "reed_sol_vandermonde_coding_matrix T (int (kk + mm)) 1 8 \<noteq> None"
    and reg: "jerasure_installed T dl ver dir" "jerasure_ready T reg"
    and raw: "bl_ok h raw" "0 < bl_length raw" "bl_length raw + 32 * (g * kk) < 2 ^ 31"
    and A: "A \<subseteq> int ` {..<g * (kk + mm + 1)}" "kml_survives g (g * mm) (kk + mm) A"
  shows "\<exists>L p' reg' h1 M h2 out pad. lrc_factory sp dl ver dir p reg = Some (0, Some L, p', reg') \<and>
    encode (lrc_codec L) (int ` {..<g * (kk + mm + 1)}) raw [] h = Some (h1, 0, M) \<and>
    decode_concat (lrc_codec L) (survivors A M) [] h1 = Some (h2, 0, out) \<and>
    bl_bytes h2 out = bl_bytes h raw @ replicate pad 0 \<and> pad < 32 * (g * kk)"
proof -
  have "g * 1 \<le> g * (kk + mm)" using p(3) by (intro mult_le_mono2) simp
  then have "g * (kk + mm + 1) < 2 ^ 31 - 1" "0 < g" using p(2,5) by (simp_all add: add_mult_distrib2)
  then obtain L p' reg' where L: "lrc_factory sp dl ver dir p reg = Some (0, Some L, p', reg')" "kml_object T g kk mm L"
    using kml_factory [OF lib(2) p(1) _ p(3) _ reg] by auto
  have code: "lrc_code L (kml_code mul T) region_size" by (rule kml_is_code [OF lib(1) L(2) p(2-5) matrices])
  obtain bs where bs: "lrc_fits L region_size (bl_length raw) bs" "g * kk * bs < bl_length raw + 32 * (g * kk)"
    using kml_fits [OF L(2) \<open>0 < g\<close> p(3-5) raw(2,3)] by blast
  have cnt: "lrc_chunk_count L = g * (kk + mm + 1)" "lrc_data_chunk_count L = g * kk" using L(2) by (simp_all add: kml_object_def)
  have rec: "chunk_index (lrc_chunk_mapping L) ` {..<lrc_data_chunk_count L} \<subseteq> A \<or>
      lrc_restores L (chunk_index (lrc_chunk_mapping L) ` {..<lrc_data_chunk_count L}) A"
    using kml_restores [OF code L(2) A(2)] by (simp add: lrc_data_def)
  note ec = erasure_code.encode_lose_decode [OF lrc_code.is_erasure_code [OF code] raw(1) bs(1), unfolded lrc_codec_simps,
      OF _ survives_nonempty [OF A(2) \<open>0 < g\<close> p(3,4)] rec, unfolded cnt, OF A(1) kml_encodable [OF L(2) p(2)]]
  then obtain h1 M h2 out where "encode (lrc_codec L) (int ` {..<g * (kk + mm + 1)}) raw [] h = Some (h1, 0, M)"
      "decode_concat (lrc_codec L) (survivors A M) [] h1 = Some (h2, 0, out)"
      "bl_bytes h2 out = bl_bytes h raw @ replicate (g * kk * bs - bl_length raw) 0" by blast
  moreover have "0 < g * kk" using \<open>0 < g\<close> p(3) by simp
  then have "g * kk * bs - bl_length raw < 32 * (g * kk)" using bs(2) by linarith
  ultimately show ?thesis using L(1) by blast
qed

theorem lrc_kml_round_trip_witness:
  "\<exists>L p' reg' h1 M h2 out pad.
     lrc_factory ref_spirit (kml_linker ref_techniques) ''12.0.2'' ''lib'' (kml_profile ''2'' ''2'' ''2'') registry_new = Some (0, Some L, p', reg') \<and>
     encode (lrc_codec L) (int ` {..<6}) example_object [] example_heap = Some (h1, 0, M) \<and>
     decode_concat (lrc_codec L) (survivors {1, 2, 3, 4} M) [] h1 = Some (h2, 0, out) \<and>
     bl_bytes h2 out = [20, 30, 40, 50, 60] @ replicate pad 0 \<and> pad < 64"
proof -
  have object: "bl_bytes example_heap example_object = [20, 30, 40, 50, 60]" by code_simp
  have "reed_sol_vandermonde_coding_matrix ref_techniques (int (2 * 1)) (int (2 * 1)) 8 \<noteq> None"
    "reed_sol_vandermonde_coding_matrix ref_techniques (int (1 + 1)) 1 8 \<noteq> None" by (simp_all add: ref_techniques_def)
  note lrc_kml_round_trip [OF ref_rs.reed_sol_axioms ref_sp.spirit_lib_axioms kml_2_2_2 _ _ _ _ this kml_installed registry_new_ready
      example_object_ok(1) _ _ lost_0_5]
  then show ?thesis unfolding object example_object_ok(2) by simp
qed

section \<open>Less than promised\<close>

lemma single_group_layers:
  assumes "kml_object T 1 kk mm L" "want \<subseteq> int ` {..<kk + mm + 1}"
  obtains la where "layer_made T (local_row 1 (kk + mm) 0) la"
    "\<And>M h. lrc_encode_chunks L want M h = lrc_encode_layers want [la] (h, M)"
proof -
  have made: "list_all2 (layer_made T) (kml_rows 1 kk mm) (lrc_layers L)" using assms(1) by (simp add: kml_object_def)
  obtain la0 ls where las: "lrc_layers L = la0 # ls" "length ls = 1" "layer_made T (local_row 1 (kk + mm) 0) (ls ! 0)"
    using kml_layers_cases [OF made] by (metis zero_less_one)
  then obtain la where la: "ls = [la]" by (auto simp: length_Suc_conv)
  have "want \<subseteq> la_chunks_as_set la"
    unfolding made_sets [OF las(3) [unfolded la nth_Cons_0]] using assms(2) by (auto simp: kml_group_def)
  with that [of la] las(1,3) la show ?thesis by (simp add: lrc_encode_chunks_def Let_def del: lrc_encode_layers.simps)
qed

lemma single_group_encode:
  assumes "reed_sol mul T" "kml_object T 1 kk mm L" "0 < kk" "kk + mm + 1 \<le> 256"
    "reed_sol_vandermonde_coding_matrix T (int (kk + mm)) 1 8 \<noteq> None" "want \<subseteq> int ` {..<kk + mm + 1}"
    and ar: "region_size bs" "arena h M (int ` {..<kk + mm + 1}) W bs" "int (kk + mm) \<in> W"
  shows "\<exists>h'. lrc_encode_chunks L want M h = Some (h', 0, M) \<and> frame (wraws M {int (kk + mm)}) h h'"
proof -
  obtain la where la: "layer_made T (local_row 1 (kk + mm) 0) la"
      "\<And>M h. lrc_encode_chunks L want M h = lrc_encode_layers want [la] (h, M)"
    using single_group_layers [OF assms(2,6)] by blast
  have "{p. p < 1 * (kk + mm + 1) \<and> p div (kk + mm + 1) = 0 \<and> p mod (kk + mm + 1) = kk + mm} = {kk + mm}" by auto
  then have coding: "set (la_coding la) = {int (kk + mm)}"
    using la(1) row_sets(4) [of 1 kk mm 0] by (simp add: layer_made_def)
  have chunks: "set (la_chunks la) \<subseteq> int ` {..<kk + mm + 1}"
    unfolding made_layer(3) [OF la(1), symmetric] made_sets [OF la(1)] by (auto simp: kml_group_def)
  have "layer_ok (kml_code mul T) region_size la"
    using local_counts [of 0 1 "kk + mm"] la(1) assms(3-5)
    by (intro made_ok [OF assms(1) la(1), of "kk + mm" 1]) (simp_all add: layer_made_def)
  from encode_layer [OF this made_layer(1,2) [OF la(1)] ar(1,2) chunks, of want] ar(3) coding show ?thesis
    by (auto simp: la(2))
qed

lemma single_group_parity:
  assumes "kml_object T 1 kk mm L"
  shows "int (kk + mm) \<in> chunk_index (lrc_chunk_mapping L) ` {kk..<kk + mm + 1}"
proof -
  let ?f = "chunk_index (lrc_chunk_mapping L)"
  have bij: "bij_betw ?f {..<kk + mm + 1} (int ` {..<kk + mm + 1})"
    using mapping_positions_bij [of "mapping_row 1 kk mm"] assms by (simp add: kml_object_def)
  have "int (kk + mm) \<in> ?f ` {..<kk + mm + 1}"
    unfolding bij_betw_imp_surj_on [OF bij] by (rule imageI) simp
  then obtain i where i: "i < kk + mm + 1" "?f i = int (kk + mm)" by auto
  have "int (kk + mm) \<notin> ?f ` {..<kk}" using kml_data [OF assms] assms by (auto simp: lrc_data_def kml_object_def)
  with i have "\<not> i < kk" by force
  with i show ?thesis by (intro image_eqI [of _ _ i]) simp_all
qed

text \<open>C37: with a single local group, \<open>l = k + m\<close>, the global coding chunks are never computed: the only local layer
  contains every chunk that can be asked for, so \<open>encode_chunks\<close> starts, and ends, with it. What is stored for the
  global coding chunks is the memory \<open>encode_prepare\<close> allocated for them and did not initialise; encode reports success.\<close>

theorem lrc_single_group_unencoded:
  assumes "reed_sol mul T" "kml_object T 1 kk mm L" "0 < kk" "0 < mm" "kk + mm + 1 \<le> 256"
    "reed_sol_vandermonde_coding_matrix T (int (kk + mm)) 1 8 \<noteq> None"
    and raw: "bl_ok h raw" "0 < bl_length raw" "bl_length raw + 32 * kk < 2 ^ 31" and want: "want \<subseteq> int ` {..<kk + mm + 1}"
  shows "\<exists>h1 M1 h2 M2. encode_prepare (lrc_codec L) raw [] h = Some (h1, 0, M1) \<and>
    encode (lrc_codec L) want raw [] h = Some (h2, 0, M2) \<and> set (mkeys M2) = want \<and>
    (\<forall>c\<in>want. int kk \<le> c \<and> c < int (kk + mm) \<longrightarrow> content h2 M2 c = content h1 M1 c)"
proof -
  let ?n = "kk + mm + 1" and ?C = "lrc_codec L" and ?idx = "chunk_index (lrc_chunk_mapping L)"
  have cnt: "lrc_chunk_count L = ?n" "lrc_data_chunk_count L = kk" using assms(2) by (simp_all add: kml_object_def)
  have bij: "bij_betw ?idx {..<?n} (int ` {..<?n})"
    using mapping_positions_bij [of "mapping_row 1 kk mm"] assms(2) by (simp add: kml_object_def)
  obtain bs where bs: "lrc_fits L region_size (bl_length raw) bs" using kml_fits [OF assms(2), of "bl_length raw"] assms(3-5) raw by auto
  then have "0 < bs" by (simp add: lrc_fits_def region_size_def)
  with bs obtain h1 M1 where p: "encode_prepare ?C raw [] h = Some (h1, 0, M1)"
      "prep_inv kk ?idx bs (block kk bs (bl_bytes h raw)) h ?n (h1, M1)"
    using encode_prepare_spec [OF raw(1), of ?C bs] bij_betw_imp_inj_on [OF bij] by (auto simp: lrc_fits_def cnt)
  let ?N = "int ` {..<?n}"
  note ar = prep_inv_arena(1) [OF p(2) _ bij_betw_imp_inj_on [OF bij], unfolded bij_betw_imp_surj_on [OF bij]]
  obtain h2 where e: "lrc_encode_chunks L want M1 h1 = Some (h2, 0, M1)" "frame (wraws M1 {int (kk + mm)}) h1 h2"
    using single_group_encode [OF assms(1-3,5,6) want _ ar single_group_parity [OF assms(2)]] bs by (auto simp: lrc_fits_def)
  have "encode ?C want raw [] h = Some (h2, 0, erase_unwanted want ?n M1)"
    using p(1) e(1) assms(5) by (simp add: encode_def cnt Let_def)
  moreover have "mok M1" "set (mkeys M1) = ?N" using arena_simps(1,2) [OF ar] by auto
  note erased = erase_unwanted_spec [OF this(1), of want ?n]
  have "c \<in> set (mkeys (erase_unwanted want ?n M1)) \<longleftrightarrow> c \<in> want" for c
    using erased [of c] want \<open>set (mkeys M1) = ?N\<close> mkeys_mget [of c M1] mkeys_mget [of c "erase_unwanted want ?n M1"]
    by (cases "c \<in> want") auto
  then have "set (mkeys (erase_unwanted want ?n M1)) = want" by blast
  moreover have "content h2 (erase_unwanted want ?n M1) c = content h1 M1 c" if "c \<in> want" "c < int (kk + mm)" for c
  proof -
    have "content h2 M1 c = content h1 M1 c"
      using arena_frame_content [OF ar _ e(2)] single_group_parity [OF assms(2)] that want by auto
    with erased that(1) show ?thesis by (simp add: content_def mref_def)
  qed
  ultimately show ?thesis using p(1) by blast
qed

theorem lrc_single_group_unencoded_witness:
  "\<exists>L p' reg' h1 M1 h2 M2.
     lrc_factory ref_spirit (kml_linker ref_techniques) ''12.0.2'' ''lib'' (kml_profile ''2'' ''1'' ''3'') registry_new = Some (0, Some L, p', reg') \<and>
     encode_prepare (lrc_codec L) example_object [] example_heap = Some (h1, 0, M1) \<and>
     encode (lrc_codec L) (int ` {..<4}) example_object [] example_heap = Some (h2, 0, M2) \<and> content h2 M2 2 = content h1 M1 2"
proof -
  obtain L p' reg' where L: "lrc_factory ref_spirit (kml_linker ref_techniques) ''12.0.2'' ''lib'' (kml_profile ''2'' ''1'' ''3'') registry_new =
      Some (0, Some L, p', reg')" "kml_object ref_techniques 1 2 1 L"
    using kml_factory [OF ref_sp.spirit_lib_axioms kml_2_1_3 _ _ _ kml_installed registry_new_ready] by auto
  have "reed_sol_vandermonde_coding_matrix ref_techniques (int (2 + 1)) 1 8 \<noteq> None" by (simp add: ref_techniques_def)
  from lrc_single_group_unencoded [OF ref_rs.reed_sol_axioms L(2) _ _ _ this example_object_ok(1), of "int ` {..<4}"] L(1)
  show ?thesis by (auto simp: example_object_ok(2))
qed

text \<open>C38: \<open>decode_chunks\<close> can report success without having read anything. When every layer misses more chunks than
  it can restore, no layer computes \<open>want_to_read_erasures\<close>, which is what the result is decided by, and the buffers of the wanted
  chunks come back as they were allocated.\<close>

theorem lrc_decode_silent:
  assumes "\<forall>la\<in>set (lrc_layers L). \<exists>C. la_code la = Some C \<and>
    get_coding_chunk_count C < card (la_chunks_as_set la \<inter> lrc_missing L (set (mkeys chunks)))"
  shows "lrc_decode_chunks L want chunks decoded h = Some (h, 0, decoded)"
proof -
  have "lrc_decode_layers want las E {} (h, decoded) = Some (h, 0, decoded, {})"
    if "\<forall>la\<in>set las. \<exists>C. la_code la = Some C \<and> get_coding_chunk_count C < card (la_chunks_as_set la \<inter> E)" for las E
    using that by (induction las) auto
  from this [of "rev (lrc_layers L)" "lrc_missing L (set (mkeys chunks))"] assms show ?thesis by (simp add: lrc_decode_chunks_def)
qed

theorem lrc_decode_silent_witness:
  "lrc_decode_chunks lrc_4_2_3 {0} [(7, [])] [(0, [])] example_heap = Some (example_heap, 0, [(0, [])])"
proof (rule lrc_decode_silent)
  have "list_all (\<lambda>la. case la_code la of None \<Rightarrow> False | Some C \<Rightarrow>
      get_coding_chunk_count C < card (la_chunks_as_set la \<inter> lrc_missing lrc_4_2_3 {7})) (lrc_layers lrc_4_2_3)" by code_simp
  then show "\<forall>la\<in>set (lrc_layers lrc_4_2_3). \<exists>C. la_code la = Some C \<and>
      get_coding_chunk_count C < card (la_chunks_as_set la \<inter> lrc_missing lrc_4_2_3 (set (mkeys [(7, [])])))"
    by (auto simp: list_all_iff mkeys_def split: option.splits)
qed

end
