(* ===== verification/OptLrc_Loss.thy ===== *)
theory OptLrc_Loss
  imports OptLrc_Theorems
begin

text \<open>
  Losses the Optimal-LRC plugin does not survive and does not report. \<open>decode\<close> of one lost
  chunk xors the rest of its local group, whatever the matrix is and whether the rest is
  there or not; a chunk that is missing too is a new buffer of uninitialised bytes. From
  this follow the wrong repair with the shipped matrix for 17 chunks and the silent
  failure when a second chunk of the group is lost.
\<close>

section \<open>Buffers for missing chunks\<close>

lemma mem_write_junk: "mem_write h p bs = Some h' \<Longrightarrow> junk h' = junk h"
  by (auto simp: mem_write_def split: prod.splits if_splits)

lemma create_aligned_junk: "create_aligned n align h = (h', r) \<Longrightarrow> junk h' = junk h"
  by (auto simp: create_aligned_def Let_def)

lemma rebuild_copy_junk: "rebuild_copy nb pos ps h = Some h' \<Longrightarrow> junk h' = junk h"
  by (induction nb pos ps h rule: rebuild_copy.induct)
    (auto simp: ptr_copy_in_def dest: mem_write_junk split: bind_splits)

lemma consolidate_junk:
  assumes "consolidate amem moved h = Some (h', q)"
  shows "junk h' = junk h"
proof -
  obtain p ps where u: "fold push_back moved [] = p # ps"
    using assms by (cases "fold push_back moved []") (auto simp: consolidate_def)
  obtain h1 r where c: "create_aligned (bl_length (p # ps)) amem h = (h1, r)" by fastforce
  show ?thesis
    using assms u c create_aligned_junk [OF c] rebuild_copy_junk [of "ptr_of_raw h1 r" 0 "p # ps" h1]
    by (auto simp: consolidate_def rebuild_into_def Let_def simp del: rebuild_copy.simps
        split: if_splits bind_splits list.splits)
qed

lemma rebuild_aligned_loop_junk: "rebuild_aligned_loop asize amem bl h = Some (h', bl') \<Longrightarrow> junk h' = junk h"
proof (induction asize amem bl h arbitrary: h' bl' rule: rebuild_aligned_loop.induct)
  case (2 asize amem p ps h)
  obtain moved rest where t: "take_unaligned h asize amem 0 (p # ps) = (moved, rest)" by fastforce
  show ?case
  proof (cases "ptr_is_aligned h amem p \<and> ptr_is_n_align_sized asize p")
    case True
    with 2 show ?thesis by (auto split: if_splits bind_splits)
  next
    case False
    with "2.prems" t obtain h1 q bl1 where "asize \<noteq> 0" "consolidate amem moved h = Some (h1, q)"
        "rebuild_aligned_loop asize amem rest h1 = Some (h', bl1)"
      by (auto simp del: take_unaligned.simps split: if_splits bind_splits)
    with "2.IH"(2) [of "(moved, rest)" moved rest "(h1, q)" h1 q h' bl1] False t show ?thesis
      using consolidate_junk by auto
  qed
qed simp

lemma decode_slot_keeps:
  assumes "decode_slot chunks bs j (h1, M) = Some (h2, M')" "frame {} h h1" "mok M"
    and "\<And>c bl. mget chunks c = Some bl \<Longrightarrow> bl_ok h bl"
  shows "frame {} h1 h2" "junk h2 = junk h1" "i \<noteq> int j \<Longrightarrow> mref [] M' i = mref [] M i"
    "mget chunks (int j) = None \<Longrightarrow> mref [] M (int j) = [] \<Longrightarrow> 0 < bs \<Longrightarrow>
      content h2 M' (int j) = map (junk h1 (length (raws h1))) [0..<bs]"
proof -
  have "frame {} h1 h2 \<and> junk h2 = junk h1 \<and> (i \<noteq> int j \<longrightarrow> mref [] M' i = mref [] M i) \<and>
    (mget chunks (int j) = None \<longrightarrow> mref [] M (int j) = [] \<longrightarrow> 0 < bs \<longrightarrow>
      content h2 M' (int j) = map (junk h1 (length (raws h1))) [0..<bs])"
  proof (cases "mget chunks (int j)")
    case None
    obtain h3 r where c: "create_aligned bs SIMD_ALIGN h1 = (h3, r)" by fastforce
    have "raw_data (raws h3 ! r) = map (junk h1 (length (raws h1))) [0..<bs]"
      using c by (auto simp: create_aligned_def Let_def nth_append)
    with assms(1,3) None c create_aligned_spec(1,2) [OF c] create_aligned_junk [OF c] show ?thesis
      by (auto simp: decode_slot_def push_front_def ptr_of_raw_def content_def bl_bytes_def ptr_bytes_def mref_def)
  next
    case (Some bl)
    obtain h3 bl' where r: "rebuild_aligned_loop SIMD_ALIGN SIMD_ALIGN bl h1 = Some (h3, bl')" "realigned h1 bl h3 bl'"
      using rebuild_aligned_loop_spec [OF frame_empty_bl(1) [OF assms(2) assms(4) [OF Some]], of SIMD_ALIGN SIMD_ALIGN]
      by (auto simp: SIMD_ALIGN_def)
    with assms(1,3) Some rebuild_aligned_loop_junk [OF r(1)] show ?thesis
      by (auto simp: decode_slot_def rebuild_aligned_def rebuild_aligned_size_and_memory_def realigned_def mref_def)
  qed
  then show "frame {} h1 h2" "junk h2 = junk h1" "i \<noteq> int j \<Longrightarrow> mref [] M' i = mref [] M i"
    "mget chunks (int j) = None \<Longrightarrow> mref [] M (int j) = [] \<Longrightarrow> 0 < bs \<Longrightarrow>
      content h2 M' (int j) = map (junk h1 (length (raws h1))) [0..<bs]" by auto
qed

lemma fresh_slots:
  assumes bs: "bs > 0" and ch: "\<And>c bl. mget chunks c = Some bl \<Longrightarrow> bl_ok h bl \<and> bl_length bl = bs"
  shows "\<exists>h' M. ofold (decode_slot chunks bs) [0..<n] (h, []) = Some (h', M) \<and> slot_inv chunks bs h n (h', M) \<and>
    (\<forall>i<n. mget chunks (int i) = None \<longrightarrow> (\<exists>u\<ge>length (raws h). content h' M (int i) = map (junk h u) [0..<bs]))"
proof -
  let ?P = "\<lambda>j s. slot_inv chunks bs h j s \<and> junk (fst s) = junk h \<and> (\<forall>i<j. mget chunks (int i) = None \<longrightarrow>
    (\<exists>u\<ge>length (raws h). content (fst s) (snd s) (int i) = map (junk h u) [0..<bs]))"
  have "\<exists>s. ofold (decode_slot chunks bs) [0..<n] (h, []) = Some s \<and> ?P (length [0..<n]) s"
  proof (rule ofold_invariant)
    show "?P 0 (h, [])" by (simp add: slot_inv_def mkeys_def)
    fix j s
    assume j: "j < length [0..<n]" and P: "?P j s"
    obtain h1 M where s: "s = (h1, M)" by fastforce
    have M: "frame {} h h1" "mok M" "set (mkeys M) = int ` {..<j}" "\<And>i. i < j \<Longrightarrow> bl_ok h1 (mref [] M (int i))"
      using P s by (auto simp: slot_inv_def)
    obtain h2 M' where d: "decode_slot chunks bs j (h1, M) = Some (h2, M')" "slot_inv chunks bs h (Suc j) (h2, M')"
      using decode_slot_step [of chunks bs h j h1 M, OF _ bs ch] P s by fastforce
    have keep: "frame {} h1 h2" "junk h2 = junk h1" "\<And>i. i \<noteq> int j \<Longrightarrow> mref [] M' i = mref [] M i"
      "mget chunks (int j) = None \<Longrightarrow> mref [] M (int j) = [] \<Longrightarrow>
        content h2 M' (int j) = map (junk h1 (length (raws h1))) [0..<bs]"
      using decode_slot_keeps [OF d(1) M(1,2)] ch bs by blast+
    have "int j \<notin> set (mkeys M)" using M(3) by auto
    then have new: "mref [] M (int j) = []" by (simp add: mkeys_mget)
    have "\<exists>u\<ge>length (raws h). content h2 M' (int i) = map (junk h u) [0..<bs]"
      if i: "i < Suc j" "mget chunks (int i) = None" for i
    proof (cases "i = j")
      case True
      with keep(4) new i(2) P s frame_length [OF M(1)] show ?thesis by auto
    next
      case False
      with i have "i < j" by simp
      with P s i(2) keep(3) [of "int i"] frame_empty_bl(2) [OF keep(1) M(4)] show ?thesis by (auto simp: content_def)
    qed
    with d keep(2) P s j show "\<exists>s'. decode_slot chunks bs ([0..<n] ! j) s = Some s' \<and> ?P (Suc j) s'" by auto
  qed
  then show ?thesis by auto
qed

section \<open>Decoding one chunk\<close>

lemma filter_eq_upt: "a < n \<Longrightarrow> filter (\<lambda>i. i = a) [0..<n] = [a]"
  by (induction n) (auto simp: less_Suc_eq filter_empty_conv)

context optlrc_repair
begin

lemma decode_single:
  assumes c: "c < n" "2 \<le> gsize c" "int c \<notin> A" and bs: "0 < bs" "bs < 2 ^ 31"
    and A: "A \<subseteq> int ` {..<n}" "A \<noteq> {}" "holds h chunks A bs val"
  shows "\<exists>h' D. decode (optlrc_codec J o') {int c} chunks [] h = Some (h', 0, D) \<and>
    content h' D (int c) = vxor bs (others h' D c) \<and> (\<forall>d\<in>A. content h' D d = val d) \<and>
    (\<forall>d<n. int d \<notin> A \<longrightarrow> d \<noteq> c \<longrightarrow> (\<exists>u\<ge>length (raws h). content h' D (int d) = map (junk h u) [0..<bs]))"
proof -
  let ?N = "int ` {..<n}"
  have key: "set (mkeys chunks) = A" "mok chunks" using A(3) by (auto simp: holds_def)
  have ch: "bl_ok h bl \<and> bl_length bl = bs" if "mget chunks c = Some bl" for c bl
    using A(3) that mkeys_mget [of c chunks] key by (auto simp: holds_def)
  have hd: "chunks \<noteq> [] \<and> bl_length (snd (hd chunks)) = bs" using arena_hd [OF holds_arena [OF A(3)] A(2)] .
  obtain h1 M1 where s: "ofold (decode_slot chunks bs) [0..<n] (h, []) = Some (h1, M1)" "slot_inv chunks bs h n (h1, M1)"
      "\<forall>i<n. mget chunks (int i) = None \<longrightarrow> (\<exists>u\<ge>length (raws h). content h1 M1 (int i) = map (junk h u) [0..<bs])"
    using fresh_slots [OF bs(1), of chunks h n] ch by blast
  note ar = slot_inv_arena [OF s(2) key(1) A(1)]
  have W: "int c \<in> ?N - A" using c by auto
  obtain h2 M2 loc where d: "optlrc_decode_one J o' (int bs) (int c) (h1, M1, replicate (Suc r) None, 1) = Some (h2, M2, loc, 0)"
      "\<forall>d\<in>?N. content h2 M2 d = (if d = int c then vxor bs (others h1 M1 c) else content h1 M1 d)"
    using decode_one_xor [OF ar(1) bs(1) _ c(1) W c(2), of "replicate (Suc r) None" 1] by auto
  have "filter (\<lambda>i. i \<notin> set (mkeys chunks) \<and> i \<in> {int c}) (map int [0..<n]) = [int c]"
  proof -
    have "filter (\<lambda>i. i \<notin> set (mkeys chunks) \<and> i \<in> {int c}) (map int [0..<n]) = filter (\<lambda>i. i = int c) (map int [0..<n])"
      using key(1) c(3) by (intro filter_cong) auto
    also have "\<dots> = [int c]" using c(1) by (simp add: filter_map comp_def filter_eq_upt)
    finally show ?thesis .
  qed
  then have "optlrc_decode_chunks J o' {int c} chunks M1 h1 = Some (h2, 0, M2)"
    using d(1) hd bs(2) nums(6) params counts(1)
    by (simp add: optlrc_decode_chunks_def Let_def nat_add_distrib del: replicate_Suc)
  moreover have "k \<le> n" using nums by simp
  ultimately have dec: "decode (optlrc_codec J o') {int c} chunks [] h = Some (h2, 0, M2)"
    using key(1) c(3) hd s(1) counts by (simp add: decode_def optlrc_codec_def)
  have "others h2 M2 c = others h1 M1 c" using c(1) d(2) by (intro others_cong) auto
  moreover have "content h2 M2 e = val e" if "e \<in> A" for e
    using d(2) A(1,3) that c(3) ar(3) [OF that] by (auto simp: holds_def)
  moreover have "mget chunks (int e) = None" if "int e \<notin> A" for e using that key(1) mkeys_mget [of "int e" chunks] by auto
  ultimately show ?thesis using dec d(2) s(3) c(1) by auto
qed

end

section \<open>Two losses in a group\<close>

text \<open>Two families of blocks that differ in one place have different sums.\<close>

lemma vxor_differ:
  assumes "distinct xs" "a \<in> set xs" "\<And>x. x \<in> set xs \<Longrightarrow> x \<noteq> a \<Longrightarrow> f x = g x" "length (f a) = bs" "length (g a) = bs"
  shows "vxor bs (map f xs) = vxor bs (map g xs) \<longleftrightarrow> f a = g a"
proof -
  let ?R = "\<lambda>i. xsum (map (\<lambda>y. g y ! i) (filter (\<lambda>y. y \<noteq> a) xs))"
  have cancel: "x XOR z = y XOR z \<longleftrightarrow> x = y" for x y z :: byte
  proof
    assume "x XOR z = y XOR z"
    then have "(x XOR z) XOR z = (y XOR z) XOR z" by simp
    then show "x = y" by (simp only: xor.assoc xor_self_eq xor.right_neutral)
  qed simp
  have "xsum (map (\<lambda>y. f y ! i) (filter (\<lambda>y. y \<noteq> a) xs)) = ?R i" for i
    using assms(3) by (intro arg_cong [of _ _ xsum] map_cong) auto
  then have "vxor bs (map f xs) = map (\<lambda>i. f a ! i XOR ?R i) [0..<bs]" "vxor bs (map g xs) = map (\<lambda>i. g a ! i XOR ?R i) [0..<bs]"
    using xsum_split [OF assms(2,1), of "\<lambda>y. f y ! _"] xsum_split [OF assms(2,1), of "\<lambda>y. g y ! _"]
    by (simp_all add: vxor_def comp_def)
  then have "vxor bs (map f xs) = vxor bs (map g xs) \<longleftrightarrow> (\<forall>i<bs. f a ! i XOR ?R i = g a ! i XOR ?R i)" by auto
  also have "\<dots> \<longleftrightarrow> (\<forall>i<bs. f a ! i = g a ! i)" by (simp only: cancel)
  also have "\<dots> \<longleftrightarrow> f a = g a" using assms(4,5) by (auto intro: nth_equalityI)
  finally show ?thesis .
qed

context optlrc_code
begin

lemma second_loss:
  assumes c: "c < n" "d < n" "c \<noteq> d" "d div Suc r = c div Suc r" and bs: "0 < bs" "bs < 2 ^ 31"
    and ds: "length ds = k" "length (ds ! 0) = bs"
    and A: "A \<subseteq> int ` {..<n} - {int c, int d}" "A \<noteq> {}" "holds h chunks A bs (optlrc_enc mul o' ds)"
    and rest: "\<And>e. e < n \<Longrightarrow> e \<noteq> c \<Longrightarrow> e \<noteq> d \<Longrightarrow> e div Suc r = c div Suc r \<Longrightarrow> int e \<in> A"
  shows "\<exists>h' D u. decode (optlrc_codec J o') {int c} chunks [] h = Some (h', 0, D) \<and> length (raws h) \<le> u \<and>
    content h' D (int d) = map (junk h u) [0..<bs] \<and>
    (content h' D (int c) = optlrc_enc mul o' ds (int c) \<longleftrightarrow> content h' D (int d) = optlrc_enc mul o' ds (int d))"
proof -
  have sub: "int c \<notin> A" "int d \<notin> A" "A \<subseteq> int ` {..<n}" using A(1) by auto
  obtain h' D where dec: "decode (optlrc_codec J o') {int c} chunks [] h = Some (h', 0, D)"
      "content h' D (int c) = vxor bs (others h' D c)" "\<forall>e\<in>A. content h' D e = optlrc_enc mul o' ds e"
      "\<forall>e<n. int e \<notin> A \<longrightarrow> e \<noteq> c \<longrightarrow> (\<exists>u\<ge>length (raws h). content h' D (int e) = map (junk h u) [0..<bs])"
    using decode_single [OF c(1) group(1) [OF c(1)] sub(1) bs sub(3) A(2,3)] by blast
  obtain u where u: "length (raws h) \<le> u" "content h' D (int d) = map (junk h u) [0..<bs]"
    using dec(4) c(2,3) sub(2) by blast
  let ?xs = "filter (\<lambda>m. m \<noteq> c mod Suc r) [0..<gsize c]" and ?a = "d - first c"
  note m = members [OF c(1)]
  have "d \<in> set (local_group n r (c div Suc r))" using c by (simp add: local_group_def)
  then have a: "first c + ?a = d" "?a < gsize c" unfolding m(6) by auto
  then have "?a \<in> set ?xs" using c(3) m(2) by auto
  moreover have "content h' D (int (first c + x)) = optlrc_enc mul o' ds (int (first c + x))" if "x \<in> set ?xs" "x \<noteq> ?a" for x
  proof -
    have x: "x < gsize c" "first c + x \<noteq> c" "first c + x \<noteq> d" using that m(2) a(1) by auto
    have "first c + x < n" using x(1) m(5) by linarith
    from rest [OF this x(2,3) member_group [OF x(1) c(1)]] dec(3) show ?thesis by blast
  qed
  ultimately have "vxor bs (others h' D c) = vxor bs (map (\<lambda>m. optlrc_enc mul o' ds (int (first c + m))) ?xs) \<longleftrightarrow>
      content h' D (int (first c + ?a)) = optlrc_enc mul o' ds (int (first c + ?a))"
    unfolding others_def using u(2) ds(2) a(1) by (intro vxor_differ) (auto simp: optlrc_enc_def)
  then have "content h' D (int c) = optlrc_enc mul o' ds (int c) \<longleftrightarrow> content h' D (int d) = optlrc_enc mul o' ds (int d)"
    unfolding dec(2) enc_others [OF c(1) ds] a(1) .
  with dec(1) u show ?thesis by blast
qed

lemma double_loss:
  assumes raw: "bl_ok h raw" "0 < bl_length raw" "bl_length raw < 2 ^ 31"
    and c: "c \<in> {0..<opt_n o'}" "d \<in> {0..<opt_n o'}" "c \<noteq> d" "d div (opt_r o' + 1) = c div (opt_r o' + 1)"
    and A: "A \<subseteq> {0..<opt_n o'} - {c, d}" "A \<noteq> {}" "{e \<in> {0..<opt_n o'} - {c, d}. e div (opt_r o' + 1) = c div (opt_r o' + 1)} \<subseteq> A"
  shows "\<exists>bs m h1 M h2 D u. optlrc_get_chunk_size o' (bl_length raw) = Some bs \<and>
    encode (optlrc_codec J o') {0..<opt_n o'} raw [] h = Some (h1, 0, M) \<and>
    optlrc_minimum_to_decode o' {c} A {} = Some (0, m) \<and>
    decode (optlrc_codec J o') {c} (survivors A M) [] h1 = Some (h2, 0, D) \<and>
    length (raws h1) \<le> u \<and> content h2 D d = map (junk h1 u) [0..<bs] \<and>
    (content h2 D c = content h1 M c \<longleftrightarrow> content h2 D d = content h1 M d)"
proof -
  obtain i j where ij: "c = int i" "i < n" "d = int j" "j < n" using c(1,2) unfolding all_chunks [symmetric] by blast
  obtain bs h1 M ds where e: "optlrc_fits o' (bl_length raw) bs" "encode (optlrc_codec J o') {0..<opt_n o'} raw [] h = Some (h1, 0, M)"
      "ds = map (block k bs (bl_bytes h raw)) [0..<k]" "\<forall>d\<in>set ds. length d = bs"
      "holds h1 M {0..<opt_n o'} bs (optlrc_enc mul o' ds)"
    using encode_all [OF raw] by blast
  have "length ds = k" using e(3) by simp
  then have ds: "length ds = k" "length (ds ! 0) = bs" using e(4) nums by auto
  have A': "A \<subseteq> {0..<opt_n o'}" "A \<subseteq> int ` {..<n} - {int i, int j}" using A(1) ij all_chunks by auto
  have grp: "x div Suc r = y div Suc r \<longleftrightarrow> int x div (opt_r o' + 1) = int y div (opt_r o' + 1)" for x y
    unfolding r1 by (simp only: zdiv_int [symmetric] of_nat_eq_iff)
  have rest: "int e \<in> A" if "e < n" "e \<noteq> i" "e \<noteq> j" "e div Suc r = i div Suc r" for e
    using that(1-3) iffD1 [OF grp that(4)] A(3) ij params(1) by auto
  have neq: "i \<noteq> j" and g: "j div Suc r = i div Suc r" using c(3,4) ij grp by auto
  obtain h2 D u where "decode (optlrc_codec J o') {c} (survivors A M) [] h1 = Some (h2, 0, D)" "length (raws h1) \<le> u"
      "content h2 D d = map (junk h1 u) [0..<bs]"
      "content h2 D c = optlrc_enc mul o' ds c \<longleftrightarrow> content h2 D d = optlrc_enc mul o' ds d"
    using second_loss [OF ij(2,4) neq g fits_block(1,2) [OF e(1)] ds A'(2) A(2) holds_survivors [OF e(5) A'(1)] rest]
    unfolding ij by blast
  moreover have "\<exists>m. optlrc_minimum_to_decode o' {c} A {} = Some (0, m)"
  proof -
    have "{c} - A = {c}" "\<not> {c} \<subseteq> A" "A \<subseteq> int ` {..<n}" "{c} \<subseteq> int ` {..<n}" using A(1) A'(1) c(1) all_chunks by auto
    then show ?thesis using minimum_eq [of A "{c}"] by simp
  qed
  moreover have "content h1 M c = optlrc_enc mul o' ds c" "content h1 M d = optlrc_enc mul o' ds d"
    using e(5) c by (auto simp: holds_def)
  moreover have "optlrc_get_chunk_size o' (bl_length raw) = Some bs" using e(1) by (simp add: optlrc_fits_def)
  ultimately show ?thesis using e(2) by metis
qed

end

section \<open>A group that does not cancel\<close>

lemma vxor_others_iff:
  assumes "x \<in> set xs" "distinct xs" "length (f x) = bs"
  shows "vxor bs (map f (filter (\<lambda>y. y \<noteq> x) xs)) = f x \<longleftrightarrow> (\<forall>i<bs. xsum (map (\<lambda>y. f y ! i) xs) = 0)"
proof -
  have "xsum (map (\<lambda>y. f y ! i) xs) = 0 \<longleftrightarrow> xsum (map (\<lambda>y. f y ! i) (filter (\<lambda>y. y \<noteq> x) xs)) = f x ! i" for i
    unfolding xsum_split [OF assms(1,2), of "\<lambda>y. f y ! i"] by (auto simp: xor_eq_0_iff)
  then show ?thesis using assms(3) by (auto simp: vxor_def comp_def list_eq_iff_nth_eq)
qed

context optlrc_encoder
begin

lemma enc_sum:
  assumes "set es \<subseteq> {..<n}" "i < bs" "length (ds ! 0) = bs"
  shows "xsum (map (\<lambda>e. optlrc_enc mul o' ds (int e) ! i) es) =
    xsum (map (\<lambda>j. mul (xsum (map (\<lambda>e. generator_row o' e ! j) es)) (ds ! j ! i)) [0..<k])"
proof -
  have "map (\<lambda>e. optlrc_enc mul o' ds (int e) ! i) es =
      map (\<lambda>e. xsum (map (\<lambda>j. mul (generator_row o' e ! j) (ds ! j ! i)) [0..<k])) es"
    using assms rows(4) by (intro map_cong) (auto simp: optlrc_enc_def)
  then show ?thesis by (simp only: xsum_swap [of _ "[0..<k]" es] mul_xsum)
qed

text \<open>A chunk whose group is there otherwise: it comes back exactly when the group cancels.\<close>

lemma single_loss:
  assumes c: "c < n" "2 \<le> gsize c" and bs: "0 < bs" "bs < 2 ^ 31" and ds: "length (ds ! 0) = bs"
    and A: "A \<subseteq> int ` {..<n} - {int c}" "A \<noteq> {}" "holds h chunks A bs (optlrc_enc mul o' ds)"
    and rest: "\<And>e. e < n \<Longrightarrow> e \<noteq> c \<Longrightarrow> e div Suc r = c div Suc r \<Longrightarrow> int e \<in> A"
  shows "\<exists>h' D. decode (optlrc_codec J o') {int c} chunks [] h = Some (h', 0, D) \<and>
    (content h' D (int c) = optlrc_enc mul o' ds (int c) \<longleftrightarrow>
      (\<forall>i<bs. xsum (map (\<lambda>e. optlrc_enc mul o' ds (int e) ! i) [first c..<first c + gsize c]) = 0))"
proof -
  have sub: "int c \<notin> A" "A \<subseteq> int ` {..<n}" using A(1) by auto
  obtain h' D where dec: "decode (optlrc_codec J o') {int c} chunks [] h = Some (h', 0, D)"
      "content h' D (int c) = vxor bs (others h' D c)" "\<forall>e\<in>A. content h' D e = optlrc_enc mul o' ds e"
    using decode_single [OF c sub(1) bs sub(2) A(2,3)] by blast
  let ?f = "\<lambda>m. optlrc_enc mul o' ds (int (first c + m))"
  note m = members [OF c(1)]
  have "content h' D (int (first c + x)) = ?f x" if x: "x < gsize c" "x \<noteq> c mod Suc r" for x
  proof -
    have "first c + x < n" "first c + x \<noteq> c" using x m(2,5) by linarith+
    from rest [OF this member_group [OF x(1) c(1)]] dec(3) show ?thesis by blast
  qed
  then have oth: "others h' D c = map ?f (filter (\<lambda>m. m \<noteq> c mod Suc r) [0..<gsize c])" by (simp add: others_def)
  have fc: "?f (c mod Suc r) = optlrc_enc mul o' ds (int c)" using m(2) by simp
  have sums: "map (\<lambda>e. optlrc_enc mul o' ds (int e) ! i) [first c..<first c + gsize c] = map (\<lambda>m. ?f m ! i) [0..<gsize c]" for i
    using map_add_upt [of "first c" "gsize c"] by (auto intro: nth_equalityI)
  have "vxor bs (map ?f (filter (\<lambda>m. m \<noteq> c mod Suc r) [0..<gsize c])) = ?f (c mod Suc r) \<longleftrightarrow>
      (\<forall>i<bs. xsum (map (\<lambda>m. ?f m ! i) [0..<gsize c]) = 0)"
    using m(3) ds by (intro vxor_others_iff) (auto simp: optlrc_enc_def)
  then have "content h' D (int c) = optlrc_enc mul o' ds (int c) \<longleftrightarrow>
      (\<forall>i<bs. xsum (map (\<lambda>e. optlrc_enc mul o' ds (int e) ! i) [first c..<first c + gsize c]) = 0)"
    unfolding dec(2) oth sums fc .
  with dec(1) show ?thesis by blast
qed

end

text \<open>An object of zeros and a single one, cut into blocks.\<close>

lemma block_single_one:
  assumes "j < k" "p + q < k * bs" "0 < bs"
  shows "block k bs (replicate p 0 @ 1 # replicate q 0) j ! (p mod bs) = (if j = p div bs then 1 else 0)"
proof -
  let ?o = "replicate p 0 @ 1 # replicate q 0 :: byte list"
  let ?z = "?o @ replicate (k * bs - length ?o) 0" and ?m = "j * bs + p mod bs"
  have "Suc j * bs \<le> k * bs" using assms(1) by (intro mult_le_mono1) simp
  moreover have "p mod bs < bs" using assms(3) by simp
  ultimately have m: "?m < k * bs" "p mod bs < bs" by auto
  have "?z ! x = (if x = p then 1 else 0)" if "x < k * bs" for x
    using that assms(2) by (auto simp: nth_append nth_Cons')
  then have "?z ! ?m = (if ?m = p then 1 else 0)" using m(1) by blast
  moreover have "?m = p \<longleftrightarrow> j = p div bs"
    using div_mult_mod_eq [of p bs] assms(3) by (metis add_right_cancel mult_cancel2 not_gr_zero)
  moreover have "block k bs ?o j ! (p mod bs) = ?z ! ?m"
  proof -
    have "j * bs \<le> length ?z" using m(1) assms(2) by simp
    then show ?thesis unfolding block_def nth_take [OF m(2)] by (rule nth_drop)
  qed
  ultimately show ?thesis by simp
qed

lemma columns_17_12_6:
  "list_all (\<lambda>j. xsum (map (\<lambda>e. map word_of_int (optlrc_17_12_6 ! e) ! j) [14, 15, 16]) \<noteq> 0) [0..<12]"
  by code_simp

lemma xsum_single: "j < k \<Longrightarrow> xsum (map (\<lambda>l. if l = j then a else 0) [0..<k]) = a"
proof -
  assume "j < k"
  moreover have "xsum (map (\<lambda>l. if l = j then a else 0) (filter (\<lambda>l. l \<noteq> j) [0..<k])) = xsum (map (\<lambda>l. 0) (filter (\<lambda>l. l \<noteq> j) [0..<k]))"
    by (intro arg_cong [of _ _ xsum] map_cong) auto
  ultimately show ?thesis using xsum_split [of j "[0..<k]" "\<lambda>l. if l = j then a else 0"] by simp
qed

lemma encoder_17_12_6:
  assumes "jerasure_lib mul J" and p: "opt_n o' = 17" "opt_k o' = 12" "opt_r o' = 6"
    and "opt_mapping o' = mapping_positions (unit_mapping optlrc_17_12_6)" "opt_chunk_mapping o' = opt_mapping o'"
  shows "optlrc_encoder mul J o' 17 12 6 optlrc_17_12_6"
proof -
  have "configs 17 12 6 = Some optlrc_17_12_6" by (simp add: configs_def config_table_def)
  moreover have "generator_systematic optlrc_17_12_6 17 12 (mapping_positions (unit_mapping optlrc_17_12_6))" by code_simp
  ultimately show ?thesis
    by (intro optlrc_encoder.intro optlrc_repair.intro optlrc_repair_axioms.intro optlrc_encoder_axioms.intro)
      (use assms in simp_all)
qed

lemma last_group_17_12_6:
  assumes "c \<in> {14, 15, 16 :: nat}"
  shows "group_first 6 c = 14" "group_size 17 6 c = 3" "c div 7 = 2" "e < 17 \<Longrightarrow> e div 7 = 2 \<Longrightarrow> e \<in> {14, 15, 16 :: nat}"
  using assms by (auto simp: group_first_def group_size_def)

lemma minimum_17_12_6:
  assumes o': "optlrc_encoder mul J o' 17 12 6 optlrc_17_12_6"
    and c: "c \<in> {14, 15, 16}" "{14, 15, 16} - {c} \<subseteq> A" "A \<subseteq> {0..<17} - {c}"
  shows "optlrc_minimum_to_decode o' {c} A {} = Some (0, {14, 15, 16} - {c})"
proof -
  have "A \<subseteq> int ` {..<17}" "{c} \<subseteq> int ` {..<17}" "{c} - A = {c}" "{c} \<inter> A = {}" "\<not> {c} \<subseteq> A"
    using c by (auto simp: image_int_atLeastLessThan lessThan_atLeast0)
  moreover have "{x \<in> A. x div 7 = c div 7} = {14, 15, 16} - {c}"
  proof -
    have iff: "x div 7 = c div 7 \<longleftrightarrow> x \<in> {14, 15, 16}" if "x \<in> {0..<17}" for x using c(1) that by auto
    define G where "G = {14, 15, 16 :: int}"
    have "{x \<in> A. x div 7 = c div 7} = {x \<in> A. x \<in> G}" using iff c(3) unfolding G_def [symmetric] by blast
    also have "\<dots> = G - {c}" using c(2,3) unfolding G_def [symmetric] by blast
    finally show ?thesis unfolding G_def .
  qed
  ultimately show ?thesis
    using optlrc_repair.minimum_eq [OF optlrc_encoder.axioms(1) [OF o'], of A "{c}"]
      optlrc_repair.params(3) [OF optlrc_encoder.axioms(1) [OF o']] by simp
qed

text \<open>Zeros and a one: the sum of the last three chunks is a column sum of the matrix.\<close>

lemma wrong_sum_17_12_6:
  assumes o': "optlrc_encoder mul J o' 17 12 6 optlrc_17_12_6" and mul: "\<forall>a. mul a 0 = 0 \<and> mul a 1 = a"
    and bs: "0 < bs" "p + q < 12 * bs"
    and ds: "ds = map (block 12 bs (replicate p 0 @ 1 # replicate q 0)) [0..<12]" "length (ds ! 0) = bs"
  shows "xsum (map (\<lambda>e. optlrc_enc mul o' ds (int e) ! (p mod bs)) [14, 15, 16]) \<noteq> 0"
proof -
  let ?s = "\<lambda>j. xsum (map (\<lambda>e. generator_row o' e ! j) [14, 15, 16])"
  have p: "p div bs < 12" using bs by (simp add: div_less_iff_less_mult)
  have "mul (?s j) (ds ! j ! (p mod bs)) = (if j = p div bs then ?s (p div bs) else 0)" if "j < 12" for j
    using block_single_one [OF that bs(2,1)] mul that by (simp add: ds(1))
  then have "xsum (map (\<lambda>j. mul (?s j) (ds ! j ! (p mod bs))) [0..<12]) = xsum (map (\<lambda>j. if j = p div bs then ?s (p div bs) else 0) [0..<12])"
    by (intro arg_cong [of _ _ xsum] map_cong) auto
  also have "\<dots> = ?s (p div bs)" using p by (rule xsum_single)
  also have "\<dots> \<noteq> 0" using columns_17_12_6 p optlrc_encoder.rows(3) [OF o'] by (simp only: list_all_iff) auto
  finally show ?thesis
    using optlrc_encoder.enc_sum [OF o', of "[14, 15, 16]" "p mod bs" bs ds] ds(2) bs(1) by simp
qed

section \<open>Properties\<close>

text \<open>C19: two chunks \<open>c\<close> and \<open>d\<close> of one local group are lost, of a code with a good matrix, and \<open>c\<close>
  is wanted. \<open>minimum_to_decode\<close> counts the wanted losses only and reports success. \<open>decode\<close> of the
  rest reports success too. In place of \<open>d\<close> it xors a new buffer that nobody has written, and
  what it delivers for \<open>c\<close> is right exactly when that memory happens to hold the lost chunk \<open>d\<close>.\<close>

theorem optlrc_double_loss_silent:
  assumes "jerasure_lib mul J" and "optlrc_wf o'"
    and "bl_ok h raw" "0 < bl_length raw" "bl_length raw < 2 ^ 31"
    and "c \<in> {0..<opt_n o'}" "d \<in> {0..<opt_n o'}" "c \<noteq> d" "d div (opt_r o' + 1) = c div (opt_r o' + 1)"
    and "A \<subseteq> {0..<opt_n o'} - {c, d}" "A \<noteq> {}"
    and "{e \<in> {0..<opt_n o'} - {c, d}. e div (opt_r o' + 1) = c div (opt_r o' + 1)} \<subseteq> A"
  shows "\<exists>bs m h1 M h2 D u. optlrc_get_chunk_size o' (bl_length raw) = Some bs \<and>
    encode (optlrc_codec J o') {0..<opt_n o'} raw [] h = Some (h1, 0, M) \<and>
    optlrc_minimum_to_decode o' {c} A {} = Some (0, m) \<and>
    decode (optlrc_codec J o') {c} (survivors A M) [] h1 = Some (h2, 0, D) \<and>
    length (raws h1) \<le> u \<and> content h2 D d = map (junk h1 u) [0..<bs] \<and>
    (content h2 D c = content h1 M c \<longleftrightarrow> content h2 D d = content h1 M d)"
proof -
  obtain n k r G where "optlrc_code mul J o' n k r G" using optlrc_wf_code [OF assms(1,2)] .
  from optlrc_code.double_loss [OF this assms(3-12)] show ?thesis .
qed

theorem optlrc_double_loss_silent_witness:
  "\<exists>bs m h1 M h2 D u. optlrc_get_chunk_size example_code 5 = Some bs \<and>
    encode (optlrc_codec ref_jerasure example_code) {0..<9} example_object [] example_heap = Some (h1, 0, M) \<and>
    optlrc_minimum_to_decode example_code {0} {2, 3, 4, 5, 6, 7, 8} {} = Some (0, m) \<and>
    decode (optlrc_codec ref_jerasure example_code) {0} (survivors {2, 3, 4, 5, 6, 7, 8} M) [] h1 = Some (h2, 0, D) \<and>
    length (raws h1) \<le> u \<and> content h2 D 1 = map (junk h1 u) [0..<bs] \<and>
    (content h2 D 0 = content h1 M 0 \<longleftrightarrow> content h2 D 1 = content h1 M 1)"
proof -
  have "0 \<in> {0..<opt_n example_code}" "1 \<in> {0..<opt_n example_code}" "(0 :: int) \<noteq> 1" "1 div (opt_r example_code + 1) = 0 div (opt_r example_code + 1)"
    "{2, 3, 4, 5, 6, 7, 8} \<subseteq> {0..<opt_n example_code} - {0, 1}" "{2, 3, 4, 5, 6, 7, 8 :: int} \<noteq> {}"
    "{e \<in> {0..<opt_n example_code} - {0, 1}. e div (opt_r example_code + 1) = 0 div (opt_r example_code + 1)} \<subseteq> {2, 3, 4, 5, 6, 7, 8}"
    by code_simp+
  from optlrc_double_loss_silent [OF ref_lib.jerasure_lib_axioms example_wf example_object_ok(1) _ _ this]
  show ?thesis by (simp add: example_object_ok example_code_def)
qed

text \<open>C18: the matrix for 17 chunks, 12 data chunks and locality 6 does not repair the chunks of its
  last group. With one of the chunks 14, 15 and 16 lost and the other two there, \<open>minimum_to_decode\<close>
  asks for these two and \<open>decode\<close> reports success, but it delivers the lost chunk exactly for
  the objects whose last three chunks xor to zero. An object of any length that consists of
  zeros and a single one, wherever it stands, is not among them. Of the field multiplication this uses
  that zero and one behave as such on the right, too.\<close>

theorem optlrc_17_12_6_repair_wrong:
  assumes "jerasure_lib mul J" and "\<forall>a. mul a 0 = 0 \<and> mul a 1 = a"
    and "opt_n o' = 17" "opt_k o' = 12" "opt_r o' = 6"
    and "opt_mapping o' = mapping_positions (unit_mapping optlrc_17_12_6)" "opt_chunk_mapping o' = opt_mapping o'"
    and "bl_ok h raw" "0 < bl_length raw" "bl_length raw < 2 ^ 31"
    and "c \<in> {14, 15, 16}" "{14, 15, 16} - {c} \<subseteq> A" "A \<subseteq> {0..<17} - {c}"
  shows "\<exists>h1 M h2 D. encode (optlrc_codec J o') {0..<17} raw [] h = Some (h1, 0, M) \<and>
    optlrc_minimum_to_decode o' {c} A {} = Some (0, {14, 15, 16} - {c}) \<and>
    decode (optlrc_codec J o') {c} (survivors A M) [] h1 = Some (h2, 0, D) \<and>
    (content h2 D c = content h1 M c \<longleftrightarrow>
      (\<forall>i<length (content h1 M c). content h1 M 14 ! i XOR content h1 M 15 ! i XOR content h1 M 16 ! i = 0)) \<and>
    (\<forall>p q. bl_bytes h raw = replicate p 0 @ 1 # replicate q 0 \<longrightarrow> content h2 D c \<noteq> content h1 M c)"
proof -
  have o': "optlrc_encoder mul J o' 17 12 6 optlrc_17_12_6" using encoder_17_12_6 [OF assms(1,3-7)] .
  obtain bs h1 M ds where e: "optlrc_fits o' (bl_length raw) bs" "encode (optlrc_codec J o') {0..<17} raw [] h = Some (h1, 0, M)"
      "ds = map (block 12 bs (bl_bytes h raw)) [0..<12]" "\<forall>d\<in>set ds. length d = bs"
      "holds h1 M {0..<17} bs (optlrc_enc mul o' ds)"
    using optlrc_encoder.encode_all [OF o' assms(8-10), unfolded assms(3)] by blast
  note bs = optlrc_encoder.fits_block [OF o' e(1)]
  have ds: "length (ds ! 0) = bs" using e(3,4) by simp
  obtain i where i: "c = int i" "i \<in> {14, 15, 16}" using assms(11) by (intro that [of "nat c"]) auto
  note g = last_group_17_12_6 [OF i(2)]
  have A: "A \<subseteq> int ` {..<17} - {int i}" "A \<subseteq> {0..<17}" "A \<noteq> {}"
    using assms(11-13) i by (auto simp: image_int_atLeastLessThan lessThan_atLeast0)
  have rest: "int x \<in> A" if "x < 17" "x \<noteq> i" "x div Suc 6 = i div Suc 6" for x
  proof -
    have "x \<in> {14, 15, 16}" using g(4) [OF that(1)] g(3) that(3) by simp
    then have "int x \<in> {14, 15, 16} - {c}" using that(2) i(1) by auto
    with assms(12) show ?thesis by blast
  qed
  obtain h2 D where d: "decode (optlrc_codec J o') {c} (survivors A M) [] h1 = Some (h2, 0, D)"
      "content h2 D c = optlrc_enc mul o' ds c \<longleftrightarrow> (\<forall>i<bs. xsum (map (\<lambda>e. optlrc_enc mul o' ds (int e) ! i) [14, 15, 16]) = 0)"
  proof -
    have "i < 17" "2 \<le> group_size 17 6 i" "[group_first 6 i..<group_first 6 i + group_size 17 6 i] = [14, 15, 16]"
      using i(2) unfolding g by (auto simp: upt_rec)
    from optlrc_encoder.single_loss [OF o' this(1,2) bs(1,2) ds A(1,3) holds_survivors [OF e(5) A(2)] rest, unfolded this(3)]
    show ?thesis using that unfolding i(1) by blast
  qed
  have cont: "content h1 M x = optlrc_enc mul o' ds x" if "x \<in> {14, 15, 16}" for x using e(5) that by (auto simp: holds_def)
  have "length (content h1 M c) = bs" using cont [OF assms(11)] ds by (simp add: optlrc_enc_def)
  then have "content h2 D c = content h1 M c \<longleftrightarrow>
      (\<forall>i<length (content h1 M c). content h1 M 14 ! i XOR content h1 M 15 ! i XOR content h1 M 16 ! i = 0)"
    using d(2) cont assms(11) by (simp add: cont)
  moreover have "content h2 D c \<noteq> content h1 M c" if raw: "bl_bytes h raw = replicate p 0 @ 1 # replicate q 0" for p q
  proof -
    have "bl_length raw = p + Suc q" using raw assms(8) length_bl_bytes [of h raw] by simp
    then have "p + q < 12 * bs" using bs(4) by simp
    from wrong_sum_17_12_6 [OF o' assms(2) bs(1) this _ ds] e(3) raw bs(1) d(2) cont [OF assms(11)] show ?thesis by auto
  qed
  ultimately show ?thesis using e(2) d(1) minimum_17_12_6 [OF o' assms(11-13)] by blast
qed

definition bad_code :: optlrc where
  "bad_code =
     \<lparr>opt_n = 17, opt_k = 12, opt_r = 6, opt_ruleset_root = ''default'',
      opt_mapping = mapping_positions (unit_mapping optlrc_17_12_6), opt_ruleset_steps = [],
      opt_chunk_mapping = mapping_positions (unit_mapping optlrc_17_12_6), opt_profile = []\<rparr>"

interpretation bad: optlrc_encoder gf_mul ref_jerasure bad_code 17 12 6 optlrc_17_12_6
  by (rule encoder_17_12_6) (simp_all add: bad_code_def ref_lib.jerasure_lib_axioms)

definition one_heap :: heap where
  "one_heap = \<lparr>raws = [\<lparr>raw_addr = 64, raw_data = [0, 1, 0]\<rparr>], place = (\<lambda>_. 1), junk = (\<lambda>_ _. 1)\<rparr>"

definition one_object :: bufferlist where
  "one_object = [\<lparr>p_raw = 0, p_off = 0, p_len = 3\<rparr>]"

lemma gf_mul_one_right: "gf_mul a 1 = a"
proof (rule bit_word_eqI)
  fix n assume "n < LENGTH(8)"
  then have n: "n \<in> {0, 1, 2, 3, 4, 5, 6, 7}" by auto
  have x: "map (\<lambda>i. (xtime ^^ i) 1) [0, 1, 2, 3, 4, 5, 6, 7] = [1, 2, 4, 8, 16, 32, 64, 128]" by code_simp
  have "[0..<8] = [0, 1, 2, 3, 4, 5, 6, 7 :: nat]" by (simp add: upt_rec)
  then have "gf_mul a 1 = xsum (map (\<lambda>i. if bit a i then (xtime ^^ i) 1 else 0) [0, 1, 2, 3, 4, 5, 6, 7])" by (simp only: gf_mul_def)
  also have "\<dots> = (if bit a 0 then 1 else 0) XOR (if bit a 1 then 2 else 0) XOR (if bit a 2 then 4 else 0) XOR (if bit a 3 then 8 else 0)
    XOR (if bit a 4 then 16 else 0) XOR (if bit a 5 then 32 else 0) XOR (if bit a 6 then 64 else 0) XOR (if bit a 7 then 128 else 0)"
    using x by (simp only: list.map xsum_simps list.inject xor.right_neutral)
  finally have e: "gf_mul a 1 = \<dots>" .
  show "bit (gf_mul a 1) n = bit a n" unfolding e
    using n by (elim insertE emptyE) (simp_all add: bit_xor_iff if_distribR if_distrib [of "\<lambda>w. bit w _"])
qed

lemma gf_mul_zero_right: "gf_mul a 0 = 0"
proof -
  have "(xtime ^^ i) 0 = 0" for i by (induction i) (simp_all add: xtime_def)
  then have "(\<lambda>i. if bit a i then (xtime ^^ i) 0 else 0) = (\<lambda>i. 0)" by auto
  then show ?thesis by (simp add: gf_mul_def)
qed

theorem optlrc_17_12_6_repair_wrong_witness:
  "\<exists>h1 M h2 D. encode (optlrc_codec ref_jerasure bad_code) {0..<17} one_object [] one_heap = Some (h1, 0, M) \<and>
    optlrc_minimum_to_decode bad_code {14} ({0..<17} - {14}) {} = Some (0, {15, 16}) \<and>
    decode (optlrc_codec ref_jerasure bad_code) {14} (survivors ({0..<17} - {14}) M) [] h1 = Some (h2, 0, D) \<and>
    content h2 D 14 \<noteq> content h1 M 14"
proof -
  have raw: "bl_ok one_heap one_object" "bl_length one_object = 3" "bl_bytes one_heap one_object = replicate 1 0 @ 1 # replicate 1 0"
    by (simp_all add: bl_ok_def ptr_ok_def bl_length_def bl_bytes_def ptr_bytes_def one_object_def one_heap_def)
  have c: "(14 :: int) \<in> {14, 15, 16}" "{14, 15, 16 :: int} - {14} \<subseteq> {0..<17} - {14}" "{0..<17} - {14} \<subseteq> {0..<17 :: int} - {14}" by auto
  have d: "{14, 15, 16 :: int} - {14} = {15, 16}" by auto
  have "opt_n bad_code = 17" "opt_k bad_code = 12" "opt_r bad_code = 6"
    "opt_mapping bad_code = mapping_positions (unit_mapping optlrc_17_12_6)" "opt_chunk_mapping bad_code = opt_mapping bad_code"
    by (simp_all add: bad_code_def)
  from optlrc_17_12_6_repair_wrong [OF ref_lib.jerasure_lib_axioms _ this raw(1) _ _ c, unfolded d] gf_mul_one_right gf_mul_zero_right raw(2)
  show ?thesis using raw(3) by (simp del: replicate_0 replicate_Suc) blast
qed

end
