(* ===== verification/EC_Util.thy ===== *)
theory EC_Util
  imports Codec_Contract
begin

text \<open>
  Striping, \<open>src/src/osd/ECUtil.cc\<close> and \<open>ECUtil.h\<close>: an object is a sequence of stripes of a fixed
  width, each of which is encoded by the plugin, and a shard is the sequence of its
  chunks. Offsets are 64-bit numbers; a division by zero and a failed assertion have no result. The
  code is the argument \<open>C\<close>; what is proved here holds for every code that keeps the contract of
  \<open>Codec_Contract\<close>.
\<close>

section \<open>Offsets\<close>

definition u64 :: "nat \<Rightarrow> nat" where
  "u64 n = n mod 2 ^ 64"

record stripe_info =
  stripe_width :: nat
  chunk_size :: nat

definition stripe_info_new :: "nat \<Rightarrow> nat \<Rightarrow> stripe_info option" where
  "stripe_info_new stripe_size width = do {
     assert_that (stripe_size \<noteq> 0 \<and> width mod stripe_size = 0);
     Some \<lparr>stripe_width = width, chunk_size = width div stripe_size\<rparr> }"

definition logical_offset_is_stripe_aligned :: "stripe_info \<Rightarrow> nat \<Rightarrow> bool option" where
  "logical_offset_is_stripe_aligned s logical = do {
     assert_that (stripe_width s \<noteq> 0);
     Some (logical mod stripe_width s = 0) }"

definition logical_to_prev_chunk_offset :: "stripe_info \<Rightarrow> nat \<Rightarrow> nat option" where
  "logical_to_prev_chunk_offset s offset = do {
     assert_that (stripe_width s \<noteq> 0);
     Some (u64 (offset div stripe_width s * chunk_size s)) }"

definition logical_to_next_chunk_offset :: "stripe_info \<Rightarrow> nat \<Rightarrow> nat option" where
  "logical_to_next_chunk_offset s offset = do {
     assert_that (stripe_width s \<noteq> 0);
     Some (u64 (u64 (offset + stripe_width s - 1) div stripe_width s * chunk_size s)) }"

definition logical_to_prev_stripe_offset :: "stripe_info \<Rightarrow> nat \<Rightarrow> nat option" where
  "logical_to_prev_stripe_offset s offset = do {
     assert_that (stripe_width s \<noteq> 0);
     Some (offset - offset mod stripe_width s) }"

definition logical_to_next_stripe_offset :: "stripe_info \<Rightarrow> nat \<Rightarrow> nat option" where
  "logical_to_next_stripe_offset s offset = do {
     assert_that (stripe_width s \<noteq> 0);
     Some (if offset mod stripe_width s \<noteq> 0 then u64 (offset - offset mod stripe_width s + stripe_width s) else offset) }"

definition aligned_logical_offset_to_chunk_offset :: "stripe_info \<Rightarrow> nat \<Rightarrow> nat option" where
  "aligned_logical_offset_to_chunk_offset s offset = do {
     assert_that (stripe_width s \<noteq> 0 \<and> offset mod stripe_width s = 0);
     Some (u64 (offset div stripe_width s * chunk_size s)) }"

definition aligned_chunk_offset_to_logical_offset :: "stripe_info \<Rightarrow> nat \<Rightarrow> nat option" where
  "aligned_chunk_offset_to_logical_offset s offset = do {
     assert_that (chunk_size s \<noteq> 0 \<and> offset mod chunk_size s = 0);
     Some (u64 (offset div chunk_size s * stripe_width s)) }"

definition aligned_offset_len_to_chunk :: "stripe_info \<Rightarrow> nat \<times> nat \<Rightarrow> (nat \<times> nat) option" where
  "aligned_offset_len_to_chunk s x = do {
     off \<leftarrow> aligned_logical_offset_to_chunk_offset s (fst x);
     len \<leftarrow> aligned_logical_offset_to_chunk_offset s (snd x);
     Some (off, len) }"

definition offset_len_to_stripe_bounds :: "stripe_info \<Rightarrow> nat \<times> nat \<Rightarrow> (nat \<times> nat) option" where
  "offset_len_to_stripe_bounds s x = do {
     off \<leftarrow> logical_to_prev_stripe_offset s (fst x);
     len \<leftarrow> logical_to_next_stripe_offset s (u64 ((fst x - off) + snd x));
     Some (off, len) }"

section \<open>Encoding and decoding stripe by stripe\<close>

text \<open>The values of the counter of \<open>for (i = 0; i < len; i += step)\<close>; that \<open>step\<close> divides \<open>len\<close> is
  asserted before each loop.\<close>

definition offsets :: "nat \<Rightarrow> nat \<Rightarrow> nat list" where
  "offsets len step = map (\<lambda>j. j * step) [0..<len div step]"

definition append_encoded :: "stripe_info \<Rightarrow> int \<times> bufferlist \<Rightarrow> chunks \<Rightarrow> chunks option" where
  "append_encoded s e out = do {
     assert_that (bl_length (snd e) = chunk_size s);
     Some (mput (fst e) (fst (claim_append (mref [] out (fst e)) (snd e))) out) }"

definition encode_stripe :: "stripe_info \<Rightarrow> codec \<Rightarrow> bufferlist \<Rightarrow> int set \<Rightarrow> nat \<Rightarrow> heap \<times> chunks \<Rightarrow> (heap \<times> chunks) option" where
  "encode_stripe s C inp want i st =
     (case st of (h, out) \<Rightarrow> do {
        buf \<leftarrow> substr_of inp (u32 i) (u32 (stripe_width s));
        (h, r, encoded) \<leftarrow> encode C want buf [] h;
        assert_that (r = 0);
        out \<leftarrow> ofold (append_encoded s) encoded out;
        Some (h, out) })"

definition ecutil_encode ::
    "stripe_info \<Rightarrow> codec \<Rightarrow> bufferlist \<Rightarrow> int set \<Rightarrow> chunks \<Rightarrow> heap \<Rightarrow> (heap \<times> int \<times> chunks) option" where
  "ecutil_encode s C inp want out h = do {
     let logical_size = bl_length inp;
     assert_that (stripe_width s \<noteq> 0 \<and> logical_size mod stripe_width s = 0);
     assert_that (out = []);
     if logical_size = 0 then Some (h, 0, out)
     else do {
       (h, out) \<leftarrow> ofold (encode_stripe s C inp want) (offsets logical_size (stripe_width s)) (h, out);
       assert_that (list_all (\<lambda>e. aligned_chunk_offset_to_logical_offset s (bl_length (snd e)) = Some logical_size) out);
       Some (h, 0, out) } }"

text \<open>The chunks of one stripe.\<close>

definition stripe_chunks :: "stripe_info \<Rightarrow> chunks \<Rightarrow> nat \<Rightarrow> chunks option" where
  "stripe_chunks s to_decode i =
     ofold (\<lambda>e chunks. do {
       bl \<leftarrow> substr_of (snd e) (u32 i) (u32 (chunk_size s));
       Some (mput (fst e) bl chunks) }) to_decode []"

definition decode_concat_stripe :: "stripe_info \<Rightarrow> codec \<Rightarrow> chunks \<Rightarrow> nat \<Rightarrow> heap \<times> bufferlist \<Rightarrow> (heap \<times> bufferlist) option" where
  "decode_concat_stripe s C to_decode i st =
     (case st of (h, out) \<Rightarrow> do {
        chunks \<leftarrow> stripe_chunks s to_decode i;
        (h, r, bl) \<leftarrow> decode_concat C chunks [] h;
        assert_that (bl_length bl = stripe_width s);
        assert_that (r = 0);
        Some (h, fst (claim_append out bl)) })"

definition ecutil_decode_concat ::
    "stripe_info \<Rightarrow> codec \<Rightarrow> chunks \<Rightarrow> bufferlist \<Rightarrow> heap \<Rightarrow> (heap \<times> int \<times> bufferlist) option" where
  "ecutil_decode_concat s C to_decode out h = do {
     assert_that (to_decode \<noteq> []);
     let total_data_size = bl_length (snd (hd to_decode));
     assert_that (chunk_size s \<noteq> 0 \<and> total_data_size mod chunk_size s = 0);
     assert_that (bl_length out = 0);
     assert_that (list_all (\<lambda>e. bl_length (snd e) = total_data_size) to_decode);
     if total_data_size = 0 then Some (h, 0, out)
     else do {
       (h, out) \<leftarrow> ofold (decode_concat_stripe s C to_decode) (offsets total_data_size (chunk_size s)) (h, out);
       Some (h, 0, out) } }"

text \<open>The second \<open>decode\<close> delivers chunks, into the lists its last argument points to. The list of a
  null pointer is \<open>None\<close>; the pointers are different.\<close>

type_synonym targets = "(int, bufferlist option) omap"

definition claim_decoded :: "stripe_info \<Rightarrow> chunks \<Rightarrow> int \<Rightarrow> targets \<Rightarrow> targets option" where
  "claim_decoded s out_bls c out = do {
     bl \<leftarrow> mget out_bls c;
     assert_that (bl_length bl = chunk_size s);
     dst \<leftarrow> mref None out c;
     Some (mput c (Some (fst (claim_append dst bl))) out) }"

definition decode_stripe ::
    "stripe_info \<Rightarrow> codec \<Rightarrow> int set \<Rightarrow> chunks \<Rightarrow> nat \<Rightarrow> heap \<times> targets \<Rightarrow> (heap \<times> targets) option" where
  "decode_stripe s C need to_decode i st =
     (case st of (h, out) \<Rightarrow> do {
        chunks \<leftarrow> stripe_chunks s to_decode i;
        (h, r, out_bls) \<leftarrow> decode C need chunks [] h;
        assert_that (r = 0);
        out \<leftarrow> ofold (claim_decoded s out_bls) (mkeys out) out;
        Some (h, out) })"

definition ecutil_decode :: "stripe_info \<Rightarrow> codec \<Rightarrow> chunks \<Rightarrow> targets \<Rightarrow> heap \<Rightarrow> (heap \<times> int \<times> targets) option" where
  "ecutil_decode s C to_decode out h = do {
     assert_that (to_decode \<noteq> []);
     let total_data_size = bl_length (snd (hd to_decode));
     assert_that (chunk_size s \<noteq> 0 \<and> total_data_size mod chunk_size s = 0);
     assert_that (list_all (\<lambda>e. bl_length (snd e) = total_data_size) to_decode);
     if total_data_size = 0 then Some (h, 0, out)
     else do {
       assert_that (list_all (\<lambda>e. case snd e of None \<Rightarrow> False | Some bl \<Rightarrow> bl_length bl = 0) out);
       let need = set (mkeys out);
       (h, out) \<leftarrow> ofold (decode_stripe s C need to_decode) (offsets total_data_size (chunk_size s)) (h, out);
       assert_that (list_all (\<lambda>e. case snd e of None \<Rightarrow> False | Some bl \<Rightarrow> bl_length bl = total_data_size) out);
       Some (h, 0, out) } }"

section \<open>Stripes of an object, chunks of a shard\<close>

text \<open>A list of pieces of the same length.\<close>

lemma length_pieces: "(\<And>i. i < m \<Longrightarrow> length (f i) = b) \<Longrightarrow> length (concat (map f [0..<m])) = m * b"
  by (induction m) auto

lemma concat_piece:
  assumes "\<And>i. i < m \<Longrightarrow> length (f i) = b" "j < m"
  shows "take b (drop (j * b) (concat (map f [0..<m]))) = f j"
  using assms
proof (induction m)
  case (Suc m)
  have len: "length (concat (map f [0..<m])) = m * b"
    using Suc.prems(1) by (intro length_pieces) simp
  show ?case
  proof (cases "j < m")
    case True
    then have "j * b + b \<le> m * b" using mult_le_mono1 [of "Suc j" m b] by simp
    with True Suc len show ?thesis by simp
  next
    case False
    with Suc.prems have "j = m" by simp
    with len Suc.prems(1) [of m] show ?thesis by simp
  qed
qed simp

lemma concat_pieces: "concat (map (\<lambda>j. take w (drop (j * w) xs)) [0..<m]) = take (m * w) xs"
  by (induction m) (simp_all add: take_add add.commute [of w])

text \<open>The map holds, for each chunk in \<open>A\<close>, a shard made of the pieces \<open>v 0 c, v 1 c, \<dots>\<close>, all of
  them \<open>cs\<close> bytes.\<close>

definition shards :: "heap \<Rightarrow> chunks \<Rightarrow> int set \<Rightarrow> nat \<Rightarrow> nat \<Rightarrow> (nat \<Rightarrow> int \<Rightarrow> byte list) \<Rightarrow> bool" where
  "shards h M A cs j v \<longleftrightarrow> holds h M A (j * cs) (\<lambda>c. concat (map (\<lambda>i. v i c) [0..<j])) \<and>
     (\<forall>c\<in>A. \<forall>i<j. length (v i c) = cs)"

text \<open>The state of the loops after \<open>j\<close> rounds: a map that is empty before the first.\<close>

definition grown :: "heap \<Rightarrow> chunks \<Rightarrow> int set \<Rightarrow> nat \<Rightarrow> nat \<Rightarrow> (nat \<Rightarrow> int \<Rightarrow> byte list) \<Rightarrow> bool" where
  "grown h M A cs j v \<longleftrightarrow> (if j = 0 then M = [] else shards h M A cs j v)"

lemma grown_pieces:
  assumes "grown h M A cs j v"
  shows "mok M" "set (mkeys M) \<subseteq> A" "c \<in> A \<Longrightarrow> bl_ok h (mref [] M c) \<and> bl_length (mref [] M c) = j * cs \<and>
      content h M c = concat (map (\<lambda>i. v i c) [0..<j])" "c \<in> A \<Longrightarrow> i < j \<Longrightarrow> length (v i c) = cs"
  using assms by (auto simp: grown_def shards_def holds_def mkeys_def mref_def content_def split: if_splits)

lemma shards_length:
  assumes "shards h M A cs S v" "e \<in> set M"
  shows "bl_length (snd e) = S * cs"
proof -
  have "mget M (fst e) = Some (snd e)" "fst e \<in> A"
    using assms by (auto simp: shards_def holds_def mget_in_set mkeys_def)
  then show ?thesis using assms by (auto simp: shards_def holds_def mref_def)
qed

lemma shards_frame: "frame {} h h' \<Longrightarrow> shards h M A cs j v \<Longrightarrow> shards h' M A cs j v"
  using frame_bl_ok frame_bl_bytes by (fastforce simp: shards_def holds_def content_def)

lemma append_encoded_fold:
  assumes "mok out" "distinct (map fst M)" "\<forall>e\<in>set M. bl_length (snd e) = chunk_size s"
  shows "\<exists>out'. ofold (append_encoded s) M out = Some out' \<and> mok out' \<and>
    (\<forall>c. mget out' c = (case map_of M c of None \<Rightarrow> mget out c | Some bl \<Rightarrow> Some (mref [] out c @ bl)))"
  using assms
proof (induction M arbitrary: out)
  case (Cons e M)
  let ?out = "mput (fst e) (mref [] out (fst e) @ snd e) out"
  obtain out' where out': "ofold (append_encoded s) M ?out = Some out'" "mok out'"
      "\<forall>c. mget out' c = (case map_of M c of None \<Rightarrow> mget ?out c | Some bl \<Rightarrow> Some (mref [] ?out c @ bl))"
    using Cons.IH [of ?out] Cons.prems by auto
  have none: "map_of M (fst e) = None" using Cons.prems(2) by (simp add: map_of_eq_None_iff)
  have "append_encoded s e out = Some ?out" using Cons.prems(3) by (simp add: append_encoded_def claim_append_def)
  moreover have "mget out' c = (case map_of (e # M) c of None \<Rightarrow> mget out c | Some bl \<Rightarrow> Some (mref [] out c @ bl))" for c
    using spec [OF out'(3), of c] none Cons.prems(1) by (cases e) (auto simp: mref_def split: option.splits)
  ultimately show ?case using out'(1,2) by simp
qed simp

text \<open>One more chunk for every shard.\<close>

lemma append_encoded_shards:
  assumes g: "grown h out A (chunk_size s) j v" and f: "frame {} h h'" and M: "holds h' M A (chunk_size s) (v j)"
  shows "\<exists>out'. ofold (append_encoded s) M out = Some out' \<and> shards h' out' A (chunk_size s) (Suc j) v"
proof -
  note out = grown_pieces [OF g]
  have m: "mok M" "set (mkeys M) = A" using M by (auto simp: holds_def)
  have "\<forall>e\<in>set M. bl_length (snd e) = chunk_size s"
  proof
    fix e assume e: "e \<in> set M"
    then have "mget M (fst e) = Some (snd e)" using m(1) by (simp add: mget_in_set)
    moreover have "fst e \<in> A" using e m(2) by (auto simp: mkeys_def)
    ultimately show "bl_length (snd e) = chunk_size s" using M by (auto simp: holds_def mref_def)
  qed
  then obtain out' where out': "ofold (append_encoded s) M out = Some out'" "mok out'"
      "\<forall>c. mget out' c = (case map_of M c of None \<Rightarrow> mget out c | Some bl \<Rightarrow> Some (mref [] out c @ bl))"
    using append_encoded_fold [OF out(1), of M s] mok_distinct [OF m(1)] by (auto simp: mkeys_def)
  have new: "mget out' c = Some (mref [] out c @ mref [] M c)" if "c \<in> A" for c
  proof -
    have "c \<in> set (mkeys M)" using that m(2) by simp
    then obtain bl where "mget M c = Some bl" using mkeys_mget [of c M] by auto
    with out'(3) show ?thesis by (simp add: mget_def mref_def)
  qed
  have "c \<in> set (mkeys out') \<longleftrightarrow> c \<in> A" for c
  proof (cases "c \<in> A")
    case False
    then have "mget M c = None" "mget out c = None" using m(2) out(2) mkeys_mget [of c M] mkeys_mget [of c out] by auto
    with out'(3) False show ?thesis by (simp add: mkeys_mget mget_def)
  qed (simp add: mkeys_mget new)
  moreover have "bl_ok h' (mref [] out' c) \<and> bl_length (mref [] out' c) = Suc j * chunk_size s \<and>
      content h' out' c = concat (map (\<lambda>i. v i c) [0..<Suc j])" if c: "c \<in> A" for c
    using new [OF c] out(3) [OF c] M c frame_bl_ok [OF f] frame_bl_bytes [OF f, of "mref [] out c"]
    by (auto simp: holds_def content_def mref_def)
  moreover have "length (v i c) = chunk_size s" if c: "c \<in> A" "i < Suc j" for c i
  proof (cases "i = j")
    case True
    have "length (bl_bytes h' (mref [] M c)) = chunk_size s" "content h' M c = v j c"
      using M c(1) by (auto simp: holds_def buf_simps)
    with True show ?thesis by (simp add: content_def)
  qed (use out(4) [OF c(1), of i] c in simp)
  ultimately show ?thesis using out'(1,2) by (auto simp: shards_def holds_def)
qed

text \<open>Reading stripe \<open>j\<close> out of every shard.\<close>

lemma stripe_chunks_fold:
  assumes "mok out" "distinct (map fst M)" "\<forall>e\<in>set M. substr_of (snd e) (u32 i) (u32 (chunk_size s)) = Some (g (fst e))"
  shows "\<exists>out'. ofold (\<lambda>e chunks. do { bl \<leftarrow> substr_of (snd e) (u32 i) (u32 (chunk_size s)); Some (mput (fst e) bl chunks) }) M out = Some out' \<and>
    mok out' \<and> (\<forall>c. mget out' c = (if c \<in> fst ` set M then Some (g c) else mget out c))"
  using assms
proof (induction M arbitrary: out)
  case (Cons e M)
  obtain out' where "ofold (\<lambda>e chunks. do { bl \<leftarrow> substr_of (snd e) (u32 i) (u32 (chunk_size s)); Some (mput (fst e) bl chunks) }) M (mput (fst e) (g (fst e)) out) = Some out'"
      "mok out'" "\<forall>c. mget out' c = (if c \<in> fst ` set M then Some (g c) else mget (mput (fst e) (g (fst e)) out) c)"
    using Cons.IH [of "mput (fst e) (g (fst e)) out"] Cons.prems by auto
  with Cons.prems show ?case by auto
qed simp

lemma stripe_chunks_ok:
  assumes sh: "shards h M A (chunk_size s) S v" and j: "j < S" and len: "S * chunk_size s < 2 ^ 32"
  shows "\<exists>ch. stripe_chunks s M (j * chunk_size s) = Some ch \<and> holds h ch A (chunk_size s) (v j)"
proof -
  have m: "mok M" "set (mkeys M) = A" using sh by (auto simp: shards_def holds_def)
  have le: "j * chunk_size s + chunk_size s \<le> S * chunk_size s" using mult_le_mono1 [of "Suc j" S "chunk_size s"] j by simp
  have u: "u32 (j * chunk_size s) = j * chunk_size s" "u32 (chunk_size s) = chunk_size s" using le len by (simp_all add: u32_def)
  define g where "g c = the (substr_of (mref [] M c) (j * chunk_size s) (chunk_size s))" for c
  have g: "substr_of (mref [] M c) (j * chunk_size s) (chunk_size s) = Some (g c) \<and> bl_ok h (g c) \<and>
      bl_length (g c) = chunk_size s \<and> bl_bytes h (g c) = v j c" if c: "c \<in> A" for c
  proof -
    have b: "bl_ok h (mref [] M c)" "bl_length (mref [] M c) = S * chunk_size s"
      "bl_bytes h (mref [] M c) = concat (map (\<lambda>i. v i c) [0..<S])" "\<And>i. i < S \<Longrightarrow> length (v i c) = chunk_size s"
      using sh c by (auto simp: shards_def holds_def content_def)
    have p: "take (chunk_size s) (drop (j * chunk_size s) (bl_bytes h (mref [] M c))) = v j c"
      unfolding b(3) by (rule concat_piece [OF b(4) j])
    then show ?thesis using substr_of_spec [OF b(1), of "j * chunk_size s" "chunk_size s"] b(2) le len
      by (auto simp: g_def)
  qed
  have "\<forall>e\<in>set M. substr_of (snd e) (u32 (j * chunk_size s)) (u32 (chunk_size s)) = Some (g (fst e))"
  proof
    fix e assume e: "e \<in> set M"
    then have "mget M (fst e) = Some (snd e)" "fst e \<in> A" using m by (auto simp: mget_in_set mkeys_def)
    then show "substr_of (snd e) (u32 (j * chunk_size s)) (u32 (chunk_size s)) = Some (g (fst e))"
      using g [of "fst e"] by (simp add: u mref_def)
  qed
  moreover have "mok []" "distinct (map fst M)" using mok_distinct [OF m(1)] by (simp_all add: mkeys_def mok_def)
  ultimately obtain ch where ch: "stripe_chunks s M (j * chunk_size s) = Some ch" "mok ch"
      "\<forall>c. mget ch c = (if c \<in> fst ` set M then Some (g c) else mget [] c)"
    using stripe_chunks_fold [of "[]" M "j * chunk_size s" s g] unfolding stripe_chunks_def by blast
  have A: "fst ` set M = A" using m(2) by (simp add: mkeys_def)
  have "set (mkeys ch) = A" using ch(3) by (auto simp: mkeys_mget A mget_def split: if_splits)
  with ch g show ?thesis by (auto simp: holds_def content_def mref_def A)
qed

text \<open>The lists the caller points to hold the pieces delivered so far.\<close>

definition delivered :: "heap \<Rightarrow> targets \<Rightarrow> int set \<Rightarrow> nat \<Rightarrow> nat \<Rightarrow> (nat \<Rightarrow> int \<Rightarrow> byte list) \<Rightarrow> bool" where
  "delivered h out W cs j v \<longleftrightarrow> mok out \<and> set (mkeys out) = W \<and>
     (\<forall>c\<in>W. \<exists>bl. mget out c = Some (Some bl) \<and> bl_ok h bl \<and> bl_length bl = j * cs \<and>
        bl_bytes h bl = concat (map (\<lambda>i. v i c) [0..<j]))"

lemma delivered_length:
  assumes "delivered h out W cs j v"
  shows "list_all (\<lambda>e. case snd e of None \<Rightarrow> False | Some bl \<Rightarrow> bl_length bl = j * cs) out"
proof -
  have "case snd e of None \<Rightarrow> False | Some bl \<Rightarrow> bl_length bl = j * cs" if "e \<in> set out" for e
  proof -
    have e: "mget out (fst e) = Some (snd e)" "fst e \<in> W"
      using that assms by (auto simp: delivered_def mget_in_set mkeys_def)
    from assms e(2) obtain bl where "mget out (fst e) = Some (Some bl)" "bl_length bl = j * cs"
      by (auto simp only: delivered_def)
    moreover from this e(1) have "snd e = Some bl" by simp
    ultimately show ?thesis by simp
  qed
  then show ?thesis by (simp add: list_all_iff)
qed

lemma claim_decoded_fold:
  assumes "mok out" "distinct cs" "\<forall>c\<in>set cs. \<exists>d. mget out c = Some (Some d)"
    "\<forall>c\<in>set cs. \<exists>bl. mget out_bls c = Some bl \<and> bl_length bl = chunk_size s"
  shows "\<exists>out'. ofold (claim_decoded s out_bls) cs out = Some out' \<and> mok out' \<and> set (mkeys out') = set (mkeys out) \<and>
    (\<forall>c. mget out' c = (if c \<in> set cs then Some (Some (the (mref None out c) @ mref [] out_bls c)) else mget out c))"
  using assms
proof (induction cs arbitrary: out)
  case (Cons c cs)
  obtain d bl where c: "mget out c = Some (Some d)" "mget out_bls c = Some bl" "bl_length bl = chunk_size s"
    using Cons.prems(3,4) by auto
  let ?out = "mput c (Some (d @ bl)) out"
  have ok: "mok ?out" "set (mkeys ?out) = set (mkeys out)"
    using Cons.prems(1) c(1) by (auto simp: om.set_keys_put mkeys_mget)
  have t: "\<forall>c\<in>set cs. \<exists>d. mget ?out c = Some (Some d)" using Cons.prems(1,2,3) by auto
  obtain out' where out': "ofold (claim_decoded s out_bls) cs ?out = Some out'" "mok out'" "set (mkeys out') = set (mkeys out)"
      "\<forall>c. mget out' c = (if c \<in> set cs then Some (Some (the (mref None ?out c) @ mref [] out_bls c)) else mget ?out c)"
    using Cons.IH [OF ok(1) _ t] Cons.prems(2,4) ok(2) by auto
  have "claim_decoded s out_bls c out = Some ?out" using c by (simp add: claim_decoded_def claim_append_def mref_def)
  with out' Cons.prems c show ?case by (auto simp: mref_def)
qed simp

lemma claim_decoded_delivered:
  assumes out: "delivered h out W (chunk_size s) j v" and f: "frame {} h h'" and cs: "0 < chunk_size s"
    and bls: "\<forall>c\<in>W. bl_ok h' (mref [] out_bls c) \<and> bl_length (mref [] out_bls c) = chunk_size s \<and> content h' out_bls c = v j c"
  shows "\<exists>out'. ofold (claim_decoded s out_bls) (mkeys out) out = Some out' \<and> delivered h' out' W (chunk_size s) (Suc j) v"
proof -
  have o: "mok out" "set (mkeys out) = W" "\<And>c. c \<in> W \<Longrightarrow> \<exists>bl. mget out c = Some (Some bl) \<and> bl_ok h bl \<and>
      bl_length bl = j * chunk_size s \<and> bl_bytes h bl = concat (map (\<lambda>i. v i c) [0..<j])"
    using out by (auto simp: delivered_def)
  have b: "\<exists>bl. mget out_bls c = Some bl \<and> bl_length bl = chunk_size s" if "c \<in> W" for c
    using bspec [OF bls that] cs by (cases "mget out_bls c") (auto simp: mref_def)
  have t: "\<forall>c\<in>set (mkeys out). \<exists>d. mget out c = Some (Some d)" using o(2,3) by fast
  obtain out' where out': "ofold (claim_decoded s out_bls) (mkeys out) out = Some out'" "mok out'" "set (mkeys out') = W"
      "\<forall>c. mget out' c = (if c \<in> W then Some (Some (the (mref None out c) @ mref [] out_bls c)) else mget out c)"
    using claim_decoded_fold [OF o(1) mok_distinct [OF o(1)] t, of out_bls s] o(2) b by auto
  have "\<exists>bl. mget out' c = Some (Some bl) \<and> bl_ok h' bl \<and> bl_length bl = Suc j * chunk_size s \<and>
      bl_bytes h' bl = concat (map (\<lambda>i. v i c) [0..<Suc j])" if c: "c \<in> W" for c
  proof -
    obtain d where d: "mget out c = Some (Some d)" "bl_ok h d" "bl_length d = j * chunk_size s"
        "bl_bytes h d = concat (map (\<lambda>i. v i c) [0..<j])" using o(3) [OF c] by auto
    have "mget out' c = Some (Some (d @ mref [] out_bls c))" using out'(4) c d(1) by (simp add: mref_def)
    moreover have "bl_ok h' d" "bl_bytes h' d = bl_bytes h d"
      using frame_bl_ok [OF f d(2)] frame_bl_bytes [OF f d(2)] by auto
    ultimately show ?thesis using d bspec [OF bls c] by (simp add: content_def)
  qed
  with out' show ?thesis by (auto simp: delivered_def)
qed

text \<open>The data of stripe \<open>j\<close>, and what its chunks must hold.\<close>

definition stripe :: "nat \<Rightarrow> byte list \<Rightarrow> nat \<Rightarrow> byte list" where
  "stripe width obj j = take width (drop (j * width) obj)"

lemma offsets_nth: "j < length (offsets len step) \<Longrightarrow> offsets len step ! j = j * step" "length (offsets len step) = len div step"
  by (simp_all add: offsets_def)

context erasure_code
begin

definition stripe_enc :: "nat \<Rightarrow> byte list \<Rightarrow> nat \<Rightarrow> int \<Rightarrow> byte list" where
  "stripe_enc cs obj j = enc (map (block k cs (stripe (k * cs) obj j)) [0..<k])"

lemma encode_stripe_ok:
  assumes s: "stripe_width s = k * chunk_size s" "fits (k * chunk_size s) (chunk_size s)"
    and inp: "bl_ok h0 inp" "bl_length inp < 2 ^ 32" "j * (k * chunk_size s) + k * chunk_size s \<le> bl_length inp" "frame {} h0 h"
    and want: "encodable want" "want \<subseteq> int ` {..<n}"
    and out: "grown h out want (chunk_size s) j (stripe_enc (chunk_size s) (bl_bytes h0 inp))"
  shows "\<exists>h' out'. encode_stripe s C inp want (j * stripe_width s) (h, out) = Some (h', out') \<and> frame {} h h' \<and>
    shards h' out' want (chunk_size s) (Suc j) (stripe_enc (chunk_size s) (bl_bytes h0 inp))"
proof -
  let ?w = "k * chunk_size s"
  have ok: "bl_ok h inp" "bl_bytes h inp = bl_bytes h0 inp"
    using frame_bl_ok [OF inp(4,1)] frame_bl_bytes [OF inp(4,1)] by auto
  obtain buf where buf: "substr_of inp (j * ?w) ?w = Some buf" "bl_ok h buf" "bl_length buf = ?w"
      "bl_bytes h buf = stripe ?w (bl_bytes h0 inp) j"
    using substr_of_spec [OF ok(1) inp(3,2)] ok(2) by (auto simp: stripe_def)
  have u: "u32 (j * ?w) = j * ?w" "u32 ?w = ?w" using inp(2,3) by (simp_all add: u32_def)
  have "int ` {..<n} \<inter> want = want" using want(2) by auto
  then obtain h' M where e: "encode C want buf [] h = Some (h', 0, M)" "frame {} h h'"
      "holds h' M want (chunk_size s) (stripe_enc (chunk_size s) (bl_bytes h0 inp) j)"
    using encode_spec [OF buf(2) _ want(1), of "chunk_size s"] s(2) buf(3,4) by (auto simp: stripe_enc_def)
  obtain out' where "ofold (append_encoded s) M out = Some out'"
      "shards h' out' want (chunk_size s) (Suc j) (stripe_enc (chunk_size s) (bl_bytes h0 inp))"
    using append_encoded_shards [OF out e(2,3)] by blast
  with buf(1) e(1,2) u s(1) show ?thesis by (simp add: encode_stripe_def)
qed

lemma ecutil_encode_spec:
  assumes s: "stripe_width s = k * chunk_size s" "fits (k * chunk_size s) (chunk_size s)"
    and inp: "bl_ok h inp" "bl_length inp < 2 ^ 32" "bl_length inp = S * stripe_width s" "0 < S" "0 < k"
    and want: "encodable want" "want \<subseteq> int ` {..<n}"
  shows "\<exists>h' out. ecutil_encode s C inp want [] h = Some (h', 0, out) \<and> frame {} h h' \<and>
    shards h' out want (chunk_size s) S (stripe_enc (chunk_size s) (bl_bytes h inp))"
proof -
  let ?v = "stripe_enc (chunk_size s) (bl_bytes h inp)" and ?is = "offsets (bl_length inp) (stripe_width s)"
  let ?P = "\<lambda>j (h', out). frame {} h h' \<and> grown h' out want (chunk_size s) j ?v"
  have w: "0 < stripe_width s" "0 < chunk_size s" using fits_size [OF s(2)] s(1) inp(5) by auto
  have S: "length ?is = S" using inp(3) w by (simp add: offsets_nth)
  have "\<exists>st. ofold (encode_stripe s C inp want) ?is (h, []) = Some st \<and> ?P (length ?is) st"
  proof (rule ofold_invariant)
    fix j st assume j: "j < length ?is" and inv: "?P j st"
    obtain h1 out where st: "st = (h1, out)" by fastforce
    have "j * stripe_width s + stripe_width s \<le> bl_length inp"
      using mult_le_mono1 [of "Suc j" S "stripe_width s"] j S inp(3) by simp
    then obtain h2 out' where "encode_stripe s C inp want (j * stripe_width s) (h1, out) = Some (h2, out')" "frame {} h1 h2"
        "shards h2 out' want (chunk_size s) (Suc j) ?v"
      using encode_stripe_ok [OF s inp(1,2) _ _ want, of j h1 out] inv st s(1) by auto
    then show "\<exists>st'. encode_stripe s C inp want (?is ! j) st = Some st' \<and> ?P (Suc j) st'"
      using inv st frame_trans [of "{}" h h1 "{}" h2] offsets_nth(1) [OF j] by (auto simp: grown_def)
  qed (simp add: grown_def)
  then obtain h' out where e: "ofold (encode_stripe s C inp want) ?is (h, []) = Some (h', out)" "frame {} h h'"
      "shards h' out want (chunk_size s) S ?v"
    using S inp(4) by (auto simp: grown_def)
  have "list_all (\<lambda>e. aligned_chunk_offset_to_logical_offset s (bl_length (snd e)) = Some (bl_length inp)) out"
    using shards_length [OF e(3)] w inp(2,3) by (auto simp: list_all_iff aligned_chunk_offset_to_logical_offset_def u64_def)
  moreover have "0 < bl_length inp" "bl_length inp mod stripe_width s = 0" using inp(3,4) w by auto
  ultimately show ?thesis using e w by (auto simp: ecutil_encode_def Let_def)
qed

lemma length_stripe_blocks:
  assumes "fits (k * cs) cs" "Suc j * (k * cs) \<le> length obj" "d \<in> set (map (block k cs (stripe (k * cs) obj j)) [0..<k])"
  shows "length d = cs"
proof -
  have "length (stripe (k * cs) obj j) = k * cs" using assms(2) by (simp add: stripe_def)
  then show ?thesis using assms(3) by (auto simp: length_block)
qed

lemma decode_concat_stripe_ok:
  assumes s: "stripe_width s = k * chunk_size s" "fits (k * chunk_size s) (chunk_size s)"
    and sh: "shards h M A (chunk_size s) S (stripe_enc (chunk_size s) obj)" "S * chunk_size s < 2 ^ 32"
    and obj: "length obj = S * (k * chunk_size s)" "j < S"
    and A: "A \<subseteq> int ` {..<n}" "A \<noteq> {}" "idx ` {..<k} \<subseteq> A \<or> recoverable (idx ` {..<k}) A"
    and out: "bl_ok h out" "bl_bytes h out = take (j * (k * chunk_size s)) obj"
  shows "\<exists>h' out'. decode_concat_stripe s C M (j * chunk_size s) (h, out) = Some (h', out') \<and> frame {} h h' \<and>
    bl_ok h' out' \<and> bl_bytes h' out' = take (Suc j * (k * chunk_size s)) obj"
proof -
  let ?w = "k * chunk_size s" and ?ds = "map (block k (chunk_size s) (stripe (k * chunk_size s) obj j)) [0..<k]"
  have le: "Suc j * ?w \<le> length obj" using mult_le_mono1 [of "Suc j" S ?w] obj by simp
  obtain ch where ch: "stripe_chunks s M (j * chunk_size s) = Some ch" "holds h ch A (chunk_size s) (enc ?ds)"
    using stripe_chunks_ok [OF sh(1) obj(2) sh(2)] by (auto simp: stripe_enc_def)
  obtain h' bl where d: "decode_concat C ch [] h = Some (h', 0, bl)" "frame {} h h'" "bl_ok h' bl"
      "bl_bytes h' bl = concat ?ds" "bl_length bl = ?w"
    using decode_concat_spec [OF s(2) _ length_stripe_blocks [OF s(2) le] A(1,2) ch(2) A(3)] by auto
  have "length (stripe ?w obj j) = ?w" using le by (simp add: stripe_def)
  then have "concat ?ds = stripe ?w obj j" using concat_blocks [of "stripe ?w obj j" k "chunk_size s"] by simp
  then have "take (j * ?w) obj @ concat ?ds = take (Suc j * ?w) obj" by (simp add: stripe_def take_add add.commute [of ?w])
  moreover have "bl_ok h' out" "bl_bytes h' out = bl_bytes h out"
    using frame_bl_ok [OF d(2) out(1)] frame_bl_bytes [OF d(2) out(1)] by auto
  ultimately show ?thesis using ch(1) d s(1) out(2)
    by (simp add: decode_concat_stripe_def claim_append_def)
qed

lemma ecutil_decode_concat_spec:
  assumes s: "stripe_width s = k * chunk_size s" "fits (k * chunk_size s) (chunk_size s)"
    and sh: "shards h M A (chunk_size s) S (stripe_enc (chunk_size s) obj)" "S * chunk_size s < 2 ^ 32" "0 < S"
    and obj: "length obj = S * (k * chunk_size s)"
    and A: "A \<subseteq> int ` {..<n}" "A \<noteq> {}" "idx ` {..<k} \<subseteq> A \<or> recoverable (idx ` {..<k}) A"
  shows "\<exists>h' out. ecutil_decode_concat s C M [] h = Some (h', 0, out) \<and> frame {} h h' \<and> bl_ok h' out \<and> bl_bytes h' out = obj"
proof -
  let ?is = "offsets (S * chunk_size s) (chunk_size s)"
  let ?P = "\<lambda>j (h', out). frame {} h h' \<and> bl_ok h' out \<and> bl_bytes h' out = take (j * (k * chunk_size s)) obj"
  have c: "0 < chunk_size s" using fits_size [OF s(2)] by simp
  then have S: "length ?is = S" by (simp add: offsets_nth)
  have "\<exists>st. ofold (decode_concat_stripe s C M) ?is (h, []) = Some st \<and> ?P (length ?is) st"
  proof (rule ofold_invariant)
    fix j st assume j: "j < length ?is" and inv: "?P j st"
    obtain h1 out where st: "st = (h1, out)" by fastforce
    have "shards h1 M A (chunk_size s) S (stripe_enc (chunk_size s) obj)" using inv st shards_frame [OF _ sh(1)] by simp
    then obtain h2 out' where "decode_concat_stripe s C M (j * chunk_size s) (h1, out) = Some (h2, out')" "frame {} h1 h2"
        "bl_ok h2 out'" "bl_bytes h2 out' = take (Suc j * (k * chunk_size s)) obj"
      using decode_concat_stripe_ok [OF s _ sh(2) obj _ A, of h1 M j out] inv st j S by auto
    then show "\<exists>st'. decode_concat_stripe s C M (?is ! j) st = Some st' \<and> ?P (Suc j) st'"
      using inv st frame_trans [of "{}" h h1 "{}" h2] offsets_nth(1) [OF j] by auto
  qed simp
  then obtain h' out where d: "ofold (decode_concat_stripe s C M) ?is (h, []) = Some (h', out)" "?P S (h', out)"
    unfolding S by auto
  have ne: "M \<noteq> []" using A(2) sh(1) by (auto simp: shards_def holds_def mkeys_def)
  then show ?thesis using d shards_length [OF sh(1)] c sh(3) obj
    by (auto simp: ecutil_decode_concat_def Let_def list_all_iff)
qed

text \<open>Striped encoding, loss of shards, striped decoding.\<close>

lemma striped_round_trip:
  assumes s: "stripe_width s = k * chunk_size s" "fits (k * chunk_size s) (chunk_size s)"
    and inp: "bl_ok h inp" "bl_length inp < 2 ^ 32" "bl_length inp = S * stripe_width s" "0 < S" "0 < k"
    and want: "encodable want" "want \<subseteq> int ` {..<n}"
    and A: "A \<subseteq> want" "A \<noteq> {}" "idx ` {..<k} \<subseteq> A \<or> recoverable (idx ` {..<k}) A"
  shows "\<exists>h1 M h2 out. ecutil_encode s C inp want [] h = Some (h1, 0, M) \<and>
    ecutil_decode_concat s C (survivors A M) [] h1 = Some (h2, 0, out) \<and> bl_bytes h2 out = bl_bytes h inp"
proof -
  obtain h1 M where e: "ecutil_encode s C inp want [] h = Some (h1, 0, M)"
      "shards h1 M want (chunk_size s) S (stripe_enc (chunk_size s) (bl_bytes h inp))"
    using ecutil_encode_spec [OF s inp want] by blast
  have sh: "shards h1 (survivors A M) A (chunk_size s) S (stripe_enc (chunk_size s) (bl_bytes h inp))"
    using e(2) A(1) holds_survivors [of h1 M want _ _ A] by (auto simp: shards_def)
  have "S * chunk_size s \<le> bl_length inp" using inp(3,5) s(1) by simp
  then have "S * chunk_size s < 2 ^ 32" using inp(2) by simp
  moreover have "length (bl_bytes h inp) = S * (k * chunk_size s)" using inp(1,3) s(1) by (simp add: buf_simps)
  moreover have "A \<subseteq> int ` {..<n}" using A(1) want(2) by auto
  ultimately show ?thesis using ecutil_decode_concat_spec [OF s sh _ inp(4) _ _ A(2,3)] e(1) by auto
qed

text \<open>Lost shards are rebuilt from the others.\<close>

lemma decode_stripe_ok:
  assumes fits: "fits (k * chunk_size s) (chunk_size s)"
    and sh: "shards h M A (chunk_size s) S (stripe_enc (chunk_size s) obj)" "S * chunk_size s < 2 ^ 32"
    and obj: "length obj = S * (k * chunk_size s)" "j < S"
    and A: "A \<subseteq> int ` {..<n}" "A \<noteq> {}" "W \<subseteq> int ` {..<n}" "W \<subseteq> A \<or> recoverable W A"
    and out: "delivered h out W (chunk_size s) j (stripe_enc (chunk_size s) obj)"
  shows "\<exists>h' out'. decode_stripe s C W M (j * chunk_size s) (h, out) = Some (h', out') \<and> frame {} h h' \<and>
    delivered h' out' W (chunk_size s) (Suc j) (stripe_enc (chunk_size s) obj)"
proof -
  let ?ds = "map (block k (chunk_size s) (stripe (k * chunk_size s) obj j)) [0..<k]"
  have le: "Suc j * (k * chunk_size s) \<le> length obj" using mult_le_mono1 [of "Suc j" S "k * chunk_size s"] obj by simp
  obtain ch where ch: "stripe_chunks s M (j * chunk_size s) = Some ch" "holds h ch A (chunk_size s) (enc ?ds)"
    using stripe_chunks_ok [OF sh(1) obj(2) sh(2)] by (auto simp: stripe_enc_def)
  obtain h' bls where d: "decode C W ch [] h = Some (h', 0, bls)" "frame {} h h'"
      "\<forall>c\<in>W. bl_ok h' (mref [] bls c) \<and> bl_length (mref [] bls c) = chunk_size s \<and> content h' bls c = enc ?ds c"
    using decode_spec [OF fits _ length_stripe_blocks [OF fits le] A(1,2) ch(2) A(3,4)] by auto
  have "0 < chunk_size s" using fits_size [OF fits] by simp
  then obtain out' where "ofold (claim_decoded s bls) (mkeys out) out = Some out'"
      "delivered h' out' W (chunk_size s) (Suc j) (stripe_enc (chunk_size s) obj)"
    using claim_decoded_delivered [OF out d(2), of bls] d(3) by (auto simp: stripe_enc_def)
  with ch(1) d(1,2) show ?thesis by (auto simp: decode_stripe_def)
qed

lemma ecutil_decode_spec:
  assumes fits: "fits (k * chunk_size s) (chunk_size s)"
    and sh: "shards h M A (chunk_size s) S (stripe_enc (chunk_size s) obj)" "S * chunk_size s < 2 ^ 32" "0 < S"
    and obj: "length obj = S * (k * chunk_size s)"
    and A: "A \<subseteq> int ` {..<n}" "A \<noteq> {}" "W \<subseteq> int ` {..<n}" "W \<subseteq> A \<or> recoverable W A"
    and out: "delivered h out W (chunk_size s) 0 (stripe_enc (chunk_size s) obj)"
  shows "\<exists>h' out'. ecutil_decode s C M out h = Some (h', 0, out') \<and> frame {} h h' \<and>
    delivered h' out' W (chunk_size s) S (stripe_enc (chunk_size s) obj)"
proof -
  let ?is = "offsets (S * chunk_size s) (chunk_size s)" and ?v = "stripe_enc (chunk_size s) obj"
  let ?P = "\<lambda>j (h', out'). frame {} h h' \<and> delivered h' out' W (chunk_size s) j ?v"
  have c: "0 < chunk_size s" using fits_size [OF fits] by simp
  then have S: "length ?is = S" by (simp add: offsets_nth)
  have W: "set (mkeys out) = W" using out by (simp add: delivered_def)
  have "\<exists>st. ofold (decode_stripe s C W M) ?is (h, out) = Some st \<and> ?P (length ?is) st"
  proof (rule ofold_invariant)
    fix j st assume j: "j < length ?is" and inv: "?P j st"
    obtain h1 out1 where st: "st = (h1, out1)" by fastforce
    have "shards h1 M A (chunk_size s) S ?v" using inv st shards_frame [OF _ sh(1)] by simp
    then obtain h2 out2 where "decode_stripe s C W M (j * chunk_size s) (h1, out1) = Some (h2, out2)" "frame {} h1 h2"
        "delivered h2 out2 W (chunk_size s) (Suc j) ?v"
      using decode_stripe_ok [OF fits _ sh(2) obj _ A, of h1 M j out1] inv st j S by auto
    then show "\<exists>st'. decode_stripe s C W M (?is ! j) st = Some st' \<and> ?P (Suc j) st'"
      using inv st frame_trans [of "{}" h h1 "{}" h2] offsets_nth(1) [OF j] by auto
  qed (use out in simp)
  then obtain h' out' where d: "ofold (decode_stripe s C W M) ?is (h, out) = Some (h', out')" "?P S (h', out')"
    unfolding S by auto
  have ne: "M \<noteq> []" using A(2) sh(1) by (auto simp: shards_def holds_def mkeys_def)
  then have "list_all (\<lambda>e. bl_length (snd e) = S * chunk_size s) M" "bl_length (snd (hd M)) = S * chunk_size s"
    using shards_length [OF sh(1)] by (auto simp: list_all_iff)
  moreover have "list_all (\<lambda>e. case snd e of None \<Rightarrow> False | Some bl \<Rightarrow> bl_length bl = S * chunk_size s) out'"
    using d(2) delivered_length [of h' out' W "chunk_size s" S ?v] by simp
  ultimately show ?thesis using d ne delivered_length [OF out, unfolded mult_0] c sh(3) W
    by (simp add: ecutil_decode_def Let_def)
qed

lemma striped_rebuild:
  assumes s: "stripe_width s = k * chunk_size s" "fits (k * chunk_size s) (chunk_size s)"
    and inp: "bl_ok h inp" "bl_length inp < 2 ^ 32" "bl_length inp = S * stripe_width s" "0 < S" "0 < k"
    and want: "encodable want" "want \<subseteq> int ` {..<n}"
    and A: "A \<subseteq> want" "A \<noteq> {}" "W \<subseteq> want" "W \<subseteq> A \<or> recoverable W A"
  shows "\<exists>h1 M h2 T. ecutil_encode s C inp want [] h = Some (h1, 0, M) \<and>
    ecutil_decode s C (survivors A M) (map (\<lambda>c. (c, Some [])) (sorted_list_of_set W)) h1 = Some (h2, 0, T) \<and>
    (\<forall>c\<in>W. \<exists>bl. mget T c = Some (Some bl) \<and> bl_bytes h2 bl = content h1 M c)"
proof -
  let ?T = "map (\<lambda>c. (c, Some [])) (sorted_list_of_set W) :: targets"
  obtain h1 M where e: "ecutil_encode s C inp want [] h = Some (h1, 0, M)"
      "shards h1 M want (chunk_size s) S (stripe_enc (chunk_size s) (bl_bytes h inp))"
    using ecutil_encode_spec [OF s inp want] by blast
  have sh: "shards h1 (survivors A M) A (chunk_size s) S (stripe_enc (chunk_size s) (bl_bytes h inp))"
    using e(2) A(1) holds_survivors [of h1 M want _ _ A] by (auto simp: shards_def)
  have "S * chunk_size s \<le> bl_length inp" using inp(3,5) s(1) by simp
  then have len: "S * chunk_size s < 2 ^ 32" using inp(2) by simp
  have obj: "length (bl_bytes h inp) = S * (k * chunk_size s)" using inp(1,3) s(1) by (simp add: buf_simps)
  have sub: "A \<subseteq> int ` {..<n}" "W \<subseteq> int ` {..<n}" using A(1,3) want(2) by auto
  have "finite W" using sub(2) by (rule finite_subset) simp
  then have "mok ?T" "set (mkeys ?T) = W" "\<forall>c\<in>W. mget ?T c = Some (Some [])"
    by (auto simp: mok_def mkeys_def mget_def map_of_map_restrict comp_def)
  then have "delivered h1 ?T W (chunk_size s) 0 (stripe_enc (chunk_size s) (bl_bytes h inp))"
    by (simp add: delivered_def)
  then obtain h2 T where d: "ecutil_decode s C (survivors A M) ?T h1 = Some (h2, 0, T)"
      "delivered h2 T W (chunk_size s) S (stripe_enc (chunk_size s) (bl_bytes h inp))"
    using ecutil_decode_spec [OF s(2) sh len inp(4) obj sub(1) A(2) sub(2) A(4)] by blast
  have "\<exists>bl. mget T c = Some (Some bl) \<and> bl_bytes h2 bl = content h1 M c" if "c \<in> W" for c
    using d(2) e(2) that A(3) unfolding delivered_def shards_def holds_def by (metis subsetD)
  with e(1) d(1) show ?thesis by blast
qed

end

section \<open>Properties\<close>

lemma stripe_bounds:
  assumes "0 < stripe_width s" "off + len + stripe_width s \<le> 2 ^ 64"
  shows "\<exists>o' l. offset_len_to_stripe_bounds s (off, len) = Some (o', l) \<and> stripe_width s dvd o' \<and> stripe_width s dvd l \<and>
    o' \<le> off \<and> off < o' + stripe_width s \<and> off + len \<le> o' + l \<and> o' + l < off + len + stripe_width s"
proof -
  let ?w = "stripe_width s"
  have m: "off mod ?w < ?w" "off mod ?w \<le> off" using assms(1) by simp_all
  define x where "x = off mod ?w + len"
  define l where "l = (if x mod ?w \<noteq> 0 then x - x mod ?w + ?w else x)"
  have x: "x mod ?w < ?w" "x mod ?w \<le> x" "x + ?w \<le> 2 ^ 64" using assms m unfolding x_def by (simp, simp, linarith)
  have "x - x mod ?w + ?w = ?w * Suc (x div ?w)" by (simp add: minus_mod_eq_mult_div)
  then have "?w dvd x - x mod ?w + ?w" by simp
  then have l1: "?w dvd l" by (simp add: l_def mod_eq_0_iff_dvd)
  have "x \<le> x - x mod ?w + ?w" using x(1,2) by linarith
  then have l2: "x \<le> l" "l < x + ?w" using x(2) assms(1) by (auto simp: l_def)
  have "l < 2 ^ 64 \<or> l = x - x mod ?w + ?w" "x < 2 ^ 64" using x assms(1) by (auto simp: l_def)
  then have "logical_to_next_stripe_offset s x = Some l"
    using x assms(1) by (auto simp: logical_to_next_stripe_offset_def l_def u64_def)
  moreover have "off - (off - off mod ?w) = off mod ?w" using m(2) by simp
  moreover have "u64 x = x" using x assms(1) by (simp add: u64_def)
  ultimately have "offset_len_to_stripe_bounds s (off, len) = Some (off - off mod ?w, l)"
    using assms(1) by (simp add: offset_len_to_stripe_bounds_def logical_to_prev_stripe_offset_def x_def)
  moreover have "?w dvd off - off mod ?w" by simp
  moreover have "off - off mod ?w \<le> off" "off < off - off mod ?w + ?w" "off + len \<le> off - off mod ?w + l"
      "off - off mod ?w + l < off + len + ?w"
    using l2 m unfolding x_def by linarith+
  ultimately show ?thesis using l1 by blast
qed

text \<open>C16: the stripes a range of an object touches. For every range whose end stays one stripe below
  \<open>2 ^ 64\<close> the bounds are aligned, cover the range and exceed it by less than one stripe on
  either side.\<close>

theorem stripe_bounds_cover:
  assumes "0 < stripe_width s" "off + len + stripe_width s \<le> 2 ^ 64"
  shows "\<exists>o' l. offset_len_to_stripe_bounds s (off, len) = Some (o', l) \<and> stripe_width s dvd o' \<and> stripe_width s dvd l \<and>
    o' \<le> off \<and> off < o' + stripe_width s \<and> off + len \<le> o' + l \<and> o' + l < off + len + stripe_width s"
  by (rule stripe_bounds [OF assms])

theorem stripe_bounds_cover_witness:
  "\<exists>o' l. offset_len_to_stripe_bounds \<lparr>stripe_width = 8192, chunk_size = 4096\<rparr> (10000, 500) = Some (o', l) \<and>
    8192 dvd o' \<and> 8192 dvd l \<and> o' \<le> 10000 \<and> 10000 < o' + 8192 \<and> 10000 + 500 \<le> o' + l \<and> o' + l < 10000 + 500 + 8192"
  using stripe_bounds_cover [of "\<lparr>stripe_width = 8192, chunk_size = 4096\<rparr>" 10000 500] by simp

text \<open>C17: offsets in an object and in a shard correspond. An aligned offset in the object is mapped to
  an aligned offset in the shards, \<open>stripe_size\<close> times smaller, and back to itself.\<close>

theorem chunk_offset_round_trip:
  assumes "stripe_info_new stripe_size width = Some s" "0 < width" "off < 2 ^ 64" "width dvd off"
  shows "\<exists>c. aligned_logical_offset_to_chunk_offset s off = Some c \<and> chunk_size s dvd c \<and> c * stripe_size = off \<and>
    aligned_chunk_offset_to_logical_offset s c = Some off"
proof -
  have s: "stripe_width s = width" "chunk_size s * stripe_size = width" "stripe_size \<noteq> 0"
    using assms(1) by (auto simp: stripe_info_new_def split: bind_splits if_splits)
  obtain q where q: "off = width * q" using assms(4) by auto
  have cs: "0 < chunk_size s" using s(2) assms(2) by (cases "chunk_size s") auto
  have eq: "q * chunk_size s * stripe_size = off" using q s(2) by (simp add: mult.assoc mult.commute)
  have "q * chunk_size s * 1 \<le> q * chunk_size s * stripe_size" by (rule mult_le_mono2) (use s(3) in simp)
  then have "q * chunk_size s < 2 ^ 64" using assms(3) eq by simp
  then have "aligned_logical_offset_to_chunk_offset s off = Some (q * chunk_size s)"
    using q assms(2) s(1) by (simp add: aligned_logical_offset_to_chunk_offset_def u64_def)
  moreover have "aligned_chunk_offset_to_logical_offset s (q * chunk_size s) = Some off"
    using q cs s(1) assms(3) by (simp add: aligned_chunk_offset_to_logical_offset_def u64_def mult.commute)
  ultimately show ?thesis using eq by auto
qed

theorem chunk_offset_round_trip_witness:
  "\<exists>c. aligned_logical_offset_to_chunk_offset \<lparr>stripe_width = 8192, chunk_size = 4096\<rparr> 16384 = Some c \<and> 4096 dvd c \<and>
    c * 2 = 16384 \<and> aligned_chunk_offset_to_logical_offset \<lparr>stripe_width = 8192, chunk_size = 4096\<rparr> c = Some 16384"
proof -
  have "stripe_info_new 2 8192 = Some \<lparr>stripe_width = 8192, chunk_size = 4096\<rparr>" by (simp add: stripe_info_new_def)
  from chunk_offset_round_trip [OF this, of 16384] show ?thesis by simp
qed

end
