(* ===== verification/EC_Pool.thy ===== *)
theory EC_Pool
  imports OptLrc_Plugin Str_Map EC_Util
begin

text \<open>
  Erasure coded pools: how the monitor (\<open>src/src/mon/OSDMonitor.cc\<close>) reads a profile and derives from
  it the size and the stripe width of a pool, and how the OSD (\<open>src/src/osd/PGBackend.cc\<close>,
  \<open>ECBackend.cc\<close>) makes from the same profile the code and the stripe layout it stores objects with.
  Each daemon has a plugin registry of its own. Messages are left out, and with them
  \<open>check_legacy_ec_plugin\<close>, which only writes one.
\<close>

section \<open>The monitor\<close>

abbreviation (input) EAGAIN :: int where "EAGAIN \<equiv> 11"

text \<open>The profiles of the map and of the pending change, and the options that are read.\<close>

record monitor =
  osdmap_profiles :: "(string, profile) omap"
  pending_profiles :: "(string, profile) omap"
  osd_pool_default_size :: nat
  osd_pool_default_min_size :: nat
  osd_pool_default_erasure_code_profile :: string
  osd_pool_erasure_code_stripe_unit :: nat
  erasure_code_dir :: string

definition get_erasure_code_profile :: "monitor \<Rightarrow> string \<Rightarrow> profile" where
  "get_erasure_code_profile mon name = mref [] (osdmap_profiles mon) name"

definition mon_get_erasure_code ::
    "linker \<Rightarrow> string \<Rightarrow> monitor \<Rightarrow> string \<Rightarrow> registry \<Rightarrow> (int \<times> codec option \<times> registry) option" where
  "mon_get_erasure_code dl ver mon name reg =
     (if mget (pending_profiles mon) name \<noteq> None then Some (- EAGAIN, None, reg)
      else let profile = get_erasure_code_profile mon name in
        case mget profile ''plugin'' of
          None \<Rightarrow> Some (- EINVAL, None, reg)
        | Some plugin \<Rightarrow> do {
            (r, C, _, reg) \<leftarrow> registry_factory dl ver plugin (erasure_code_dir mon) profile reg;
            Some (r, C, reg) })"

abbreviation (input) TYPE_REPLICATED :: nat where "TYPE_REPLICATED \<equiv> 1"
abbreviation (input) TYPE_ERASURE :: nat where "TYPE_ERASURE \<equiv> 3"

definition prepare_pool_size ::
    "linker \<Rightarrow> string \<Rightarrow> monitor \<Rightarrow> nat \<Rightarrow> string \<Rightarrow> registry \<Rightarrow> (int \<times> (nat \<times> nat) option \<times> registry) option" where
  "prepare_pool_size dl ver mon pool_type name reg =
     (if pool_type = TYPE_REPLICATED then Some (0, Some (osd_pool_default_size mon, osd_pool_default_min_size mon), reg)
      else if pool_type = TYPE_ERASURE then do {
        (err, C, reg) \<leftarrow> mon_get_erasure_code dl ver mon name reg;
        if err = 0 then do {
          C \<leftarrow> C;
          let size = get_chunk_count C;
          Some (0, Some (size, min (u32 (get_data_chunk_count C + 1)) size), reg) }
        else Some (err, None, reg) }
      else Some (- EINVAL, None, reg))"

text \<open>The unit of a stripe: that of the profile, which has been checked when the profile was
  stored, or the configured one.\<close>

definition pool_stripe_unit :: "monitor \<Rightarrow> profile \<Rightarrow> nat option" where
  "pool_stripe_unit mon profile =
     (case mget profile ''stripe_unit'' of
        None \<Rightarrow> Some (osd_pool_erasure_code_stripe_unit mon)
      | Some v \<Rightarrow> (case strict_si_cast uint32_t (str_c_str v) of Inl _ \<Rightarrow> None | Inr u \<Rightarrow> Some (nat u)))"

definition prepare_pool_stripe_width ::
    "linker \<Rightarrow> string \<Rightarrow> monitor \<Rightarrow> nat \<Rightarrow> string \<Rightarrow> nat \<Rightarrow> registry \<Rightarrow> (int \<times> nat \<times> registry) option" where
  "prepare_pool_stripe_width dl ver mon pool_type name width reg =
     (if pool_type = TYPE_REPLICATED then Some (0, width, reg)
      else if pool_type = TYPE_ERASURE then do {
        (err, C, reg) \<leftarrow> mon_get_erasure_code dl ver mon name reg;
        if err \<noteq> 0 then Some (err, width, reg)
        else do {
          C \<leftarrow> C;
          let data_chunks = get_data_chunk_count C;
          unit \<leftarrow> pool_stripe_unit mon (get_erasure_code_profile mon name);
          size \<leftarrow> get_chunk_size C (u32 (unit * data_chunks));
          Some (0, u32 (data_chunks * size), reg) } }
      else Some (- EINVAL, width, reg))"

section \<open>Profiles given on the command line\<close>

definition split_pair :: "string \<Rightarrow> string \<times> string" where
  "split_pair s = (takeWhile (\<lambda>c. c \<noteq> CHR ''='') s, drop 1 (dropWhile (\<lambda>c. c \<noteq> CHR ''='') s))"

definition put_pairs :: "string list \<Rightarrow> profile \<Rightarrow> profile" where
  "put_pairs args m = fold (\<lambda>s. case split_pair s of (key, v) \<Rightarrow> mput key v) args m"

definition parse_erasure_code_profile :: "spirit \<Rightarrow> monitor \<Rightarrow> string list \<Rightarrow> profile \<Rightarrow> (int \<times> profile) option" where
  "parse_erasure_code_profile sp mon args m = do {
     (r, m) \<leftarrow> get_json_str_map sp (osd_pool_default_erasure_code_profile mon) m True;
     if r \<noteq> 0 then Some (r, m)
     else do {
       default_plugin \<leftarrow> mget m ''plugin'';
       let user = put_pairs args [];
       let m = put_pairs args m;
       Some (0, if mget user ''plugin'' \<noteq> None \<and> mget user ''plugin'' \<noteq> Some default_plugin then user else m) } }"

section \<open>The OSD\<close>

text \<open>The constructor of \<open>ECBackend\<close>; \<open>stripe_width\<close> is narrowed to \<open>unsigned\<close> when the code is asked
  for a chunk size, and the product is one of \<open>unsigned\<close>.\<close>

definition ec_backend :: "codec \<Rightarrow> nat \<Rightarrow> stripe_info option" where
  "ec_backend C width = do {
     sinfo \<leftarrow> stripe_info_new (get_data_chunk_count C) width;
     size \<leftarrow> get_chunk_size C (u32 width);
     assert_that (u32 (get_data_chunk_count C * size) = width);
     Some sinfo }"

text \<open>The erasure coded case of \<open>build_pg_backend\<close>. The result of \<open>factory\<close> is ignored.\<close>

definition build_ec_backend ::
    "linker \<Rightarrow> string \<Rightarrow> string \<Rightarrow> profile \<Rightarrow> nat \<Rightarrow> registry \<Rightarrow> (codec \<times> stripe_info \<times> registry) option" where
  "build_ec_backend dl ver directory profile width reg = do {
     plugin \<leftarrow> mget profile ''plugin'';
     (r, ec_impl, _, reg) \<leftarrow> registry_factory dl ver plugin directory profile reg;
     C \<leftarrow> ec_impl;
     sinfo \<leftarrow> ec_backend C width;
     Some (C, sinfo, reg) }"

section \<open>A registry that can provide a plugin\<close>

definition provides :: "registry \<Rightarrow> string \<Rightarrow> (string \<Rightarrow> profile \<Rightarrow> (int \<times> codec option \<times> profile) option) \<Rightarrow> bool" where
  "provides reg name fac \<longleftrightarrow> registry_ok reg \<and> \<not> locked reg \<and> \<not> loading reg \<and>
     (\<forall>q. mget (plugins reg) name = Some q \<longrightarrow> pl_factory q = fac)"

lemma registry_factory_provided:
  assumes "map_of factories name = Some fac" "provides reg name fac"
    and "fac dir p = Some (0, Some C, p')" "get_profile C = p'"
  shows "\<exists>reg'. registry_factory (simple_directory ver dir factories) ver name dir p reg = Some (0, Some C, p', reg') \<and>
    provides reg' name fac"
proof (cases "mget (plugins reg) name")
  case None
  let ?f = "plugin_file dir name" and ?q = "\<lparr>pl_library = Some (plugin_file dir name), pl_factory = fac\<rparr>"
  let ?reg = "(dlopen_count ?f reg)\<lparr>plugins := mput name ?q (plugins reg)\<rparr>"
  have ok: "registry_ok reg" "\<not> locked reg" "\<not> loading reg" using assms(2) by (auto simp: provides_def)
  then have m: "mok (plugins reg)" by (simp add: registry_ok_def)
  have "simple_directory ver dir factories ?f = Some \<lparr>lib_version = Some ver, lib_init = Some (erasure_code_init fac)\<rparr>"
    using assms(1) by (simp add: simple_directory_file)
  then have "registry_lookup (simple_directory ver dir factories) ver name dir reg = Some (0, Some ?q, ?reg)"
    using ok None m by (simp add: registry_lookup_def registry_get_def registry_load_def erasure_code_init_def
        registry_add_def dlopen_count_def mput_mput Let_def)
  then have "registry_factory (simple_directory ver dir factories) ver name dir p reg = Some (0, Some C, p', ?reg)"
    using assms(3,4) by (simp add: registry_factory_def)
  moreover have "registry_ok ?reg" by (rule register_ok [OF ok(1) None]) simp
  ultimately show ?thesis using ok m by (auto simp: provides_def dlopen_count_def)
next
  case (Some q)
  then have "registry_lookup (simple_directory ver dir factories) ver name dir reg = Some (0, Some q, reg)" "pl_factory q = fac"
    using assms(2) by (auto simp: provides_def registry_lookup_def registry_get_def Let_def)
  with assms show ?thesis by (auto simp: registry_factory_def)
qed

section \<open>Striped objects in an Optimal-LRC pool\<close>

context optlrc_code
begin

text \<open>A whole number of chunks of the size the code asks for is cut into chunks of the same size.\<close>

lemma chunk_size_fixpoint:
  assumes "optlrc_fits o' len bs" "k * bs < 2 ^ 31"
  shows "optlrc_fits o' (k * bs) bs"
proof -
  have k: "2 \<le> k" "k < 16" "opt_k o' = int k" using nums params by auto
  have b: "bs mod (32 * k) = 0" "0 < bs"
    using optlrc_chunk_size [of o' len bs] assms(1) k by (auto simp: optlrc_fits_def)
  have al: "optlrc_get_alignment o' = 32 * k" "u32_of_int (opt_k o') = k"
    using k by (simp_all add: optlrc_get_alignment_def u32_of_int_def)
  have "u32_sub (u32 (k * bs + k)) 1 = k * bs + (k - 1)" using assms(2) k by (simp add: u32_def u32_sub_def)
  moreover have "(k * bs + (k - 1)) div k = bs" using k(1) by (intro div_nat_eqI) simp_all
  ultimately have "u32_sub (u32 (k * bs + k)) 1 div k = bs" by simp
  then show ?thesis using al b k assms(2) by (simp add: optlrc_fits_def optlrc_get_chunk_size_def Let_def)
qed

lemma backend:
  assumes "optlrc_fits o' len bs" "k * bs < 2 ^ 31"
  shows "ec_backend (optlrc_codec J o') (k * bs) = Some \<lparr>stripe_width = k * bs, chunk_size = bs\<rparr>"
proof -
  have "get_chunk_size (optlrc_codec J o') (k * bs) = Some bs" "get_data_chunk_count (optlrc_codec J o') = k"
    using chunk_size_fixpoint [OF assms] by (simp_all add: optlrc_fits_def optlrc_codec_def counts)
  then show ?thesis using assms(2) nums by (simp add: ec_backend_def stripe_info_new_def u32_def)
qed

lemma striped:
  assumes fits: "optlrc_fits o' (k * bs) bs" and s: "s = \<lparr>stripe_width = k * bs, chunk_size = bs\<rparr>"
    and obj: "bl_ok h obj" "0 < bl_length obj" "bl_length obj < 2 ^ 32" "k * bs dvd bl_length obj"
    and A: "A \<subseteq> {0..<opt_n o'}" "one_lost_per_group o' A"
  shows "\<exists>h1 M h2 out h3 T. ecutil_encode s (optlrc_codec J o') obj {0..<opt_n o'} [] h = Some (h1, 0, M) \<and>
    ecutil_decode_concat s (optlrc_codec J o') (survivors A M) [] h1 = Some (h2, 0, out) \<and> bl_bytes h2 out = bl_bytes h obj \<and>
    ecutil_decode s (optlrc_codec J o') (survivors A M)
      (map (\<lambda>c. (c, Some [])) (sorted_list_of_set ({0..<opt_n o'} - A))) h1 = Some (h3, 0, T) \<and>
    (\<forall>c\<in>{0..<opt_n o'} - A. \<exists>bl. mget T c = Some (Some bl) \<and> bl_bytes h3 bl = content h1 M c)"
proof -
  have C: "get_chunk_count (optlrc_codec J o') = n" "get_data_chunk_count (optlrc_codec J o') = k"
    by (simp_all add: optlrc_codec_def counts)
  obtain S where S: "bl_length obj = S * (k * bs)" using obj(4) by (metis dvdE mult.commute)
  then have "0 < S" "0 < k" using obj(2) nums by (auto intro: Suc_le_lessD)
  note st = _ _ obj(1,3) _ this TrueI _ _ one_lost_nonempty [OF A(2)]
  note rt = ec.striped_round_trip [unfolded C, OF st, where s = s and want = "{0..<opt_n o'}"]
    and rb = ec.striped_rebuild [unfolded C, OF st, where s = s and want = "{0..<opt_n o'}" and W = "{0..<opt_n o'} - A"]
  have rec: "locally_recoverable o' (ec.idx ` {..<k}) A" "locally_recoverable o' ({0..<opt_n o'} - A) A"
    by (rule one_lost_recoverable [OF A(2) idx_data_subset], rule one_lost_recoverable [OF A(2) Diff_subset])
  have "\<exists>h1 M h2 out. ecutil_encode s (optlrc_codec J o') obj {0..<opt_n o'} [] h = Some (h1, 0, M) \<and>
      ecutil_decode_concat s (optlrc_codec J o') (survivors A M) [] h1 = Some (h2, 0, out) \<and> bl_bytes h2 out = bl_bytes h obj"
    using fits S all_chunks rec(1) A(1) by (intro rt) (simp_all add: s)
  moreover have "\<exists>h1 M h2 T. ecutil_encode s (optlrc_codec J o') obj {0..<opt_n o'} [] h = Some (h1, 0, M) \<and>
      ecutil_decode s (optlrc_codec J o') (survivors A M)
        (map (\<lambda>c. (c, Some [])) (sorted_list_of_set ({0..<opt_n o'} - A))) h1 = Some (h2, 0, T) \<and>
      (\<forall>c\<in>{0..<opt_n o'} - A. \<exists>bl. mget T c = Some (Some bl) \<and> bl_bytes h2 bl = content h1 M c)"
    using fits S all_chunks rec(2) A(1) by (intro rb) (simp_all add: s)
  ultimately show ?thesis by auto
qed

end

section \<open>Properties\<close>

text \<open>What the two daemons compute from the profile of an Optimal-LRC pool.\<close>

lemma optlrc_pool:
  assumes lib: "jerasure_lib mul J" and code: "((int n, int k, int r), G) \<in> set config_table" "(n, k, r) \<noteq> (17, 12, 6)"
      "names_code p n k r (unit_mapping G)" "steps_ok sp p" "mget p ''plugin'' = Some ''optlrc''"
    and mon: "mget (osdmap_profiles mon) name = Some p" "mget (pending_profiles mon) name = None"
    and unit: "pool_stripe_unit mon p = Some u" "0 < u" "u \<le> 2 ^ 27"
    and fac: "map_of factories ''optlrc'' = Some (optlrc_plugin_factory sp J)"
    and reg: "provides reg ''optlrc'' (optlrc_plugin_factory sp J)" "provides oreg ''optlrc'' (optlrc_plugin_factory sp J)"
  shows "\<exists>o' n' k' r' G' bs reg1 reg2 reg3. optlrc_code mul J o' n' k' r' G' \<and> opt_n o' = int n \<and> opt_r o' = int r \<and>
    optlrc_fits o' (k' * bs) bs \<and> 0 < k' * bs \<and> k' * bs < 2 ^ 31 \<and> k' = k \<and>
    prepare_pool_size (simple_directory ver (erasure_code_dir mon) factories) ver mon TYPE_ERASURE name reg = Some (0, Some (n, k + 1), reg1) \<and>
    prepare_pool_stripe_width (simple_directory ver (erasure_code_dir mon) factories) ver mon TYPE_ERASURE name 0 reg1 = Some (0, k' * bs, reg2) \<and>
    build_ec_backend (simple_directory ver dir factories) ver dir p (k' * bs) oreg =
      Some (optlrc_codec J o', \<lparr>stripe_width = k' * bs, chunk_size = bs\<rparr>, reg3)"
proof -
  obtain o' p' where f: "optlrc_factory sp p = Some (0, Some o', p')" "optlrc_wf o'" "opt_profile o' = p'"
      "opt_n o' = int n" "opt_k o' = int k" "opt_r o' = int r"
    using factory_creates [OF code(1-4)] by blast
  let ?C = "optlrc_codec J o'" and ?dir = "erasure_code_dir mon"
  have pf: "optlrc_plugin_factory sp J d p = Some (0, Some ?C, p')" "get_profile ?C = p'" for d
    using f(1,3) by (simp_all add: optlrc_plugin_factory_def optlrc_codec_def)
  obtain reg1 where 1: "registry_factory (simple_directory ver ?dir factories) ver ''optlrc'' ?dir p reg = Some (0, Some ?C, p', reg1)"
      "provides reg1 ''optlrc'' (optlrc_plugin_factory sp J)"
    using registry_factory_provided [OF fac reg(1) pf] by blast
  obtain reg2 where 2: "registry_factory (simple_directory ver ?dir factories) ver ''optlrc'' ?dir p reg1 = Some (0, Some ?C, p', reg2)"
    using registry_factory_provided [OF fac 1(2) pf] by blast
  obtain reg3 where 3: "registry_factory (simple_directory ver dir factories) ver ''optlrc'' dir p oreg = Some (0, Some ?C, p', reg3)"
    using registry_factory_provided [OF fac reg(2) pf] by blast
  obtain n' k' r' G' where c: "optlrc_code mul J o' n' k' r' G'" using optlrc_wf_code [OF lib f(2)] by metis
  note rep = optlrc_encoder.axioms(1) [OF optlrc_code.axioms(1) [OF c]]
  have k': "k' = k" "n' = n" "2 \<le> k'" "k' < 16" "k' < n'"
    using optlrc_repair.params [OF rep] optlrc_repair.nums [OF rep] f(4,5) by auto
  have cnt: "get_chunk_count ?C = n'" "get_data_chunk_count ?C = k'"
    using optlrc_repair.counts [OF rep] by (simp_all add: optlrc_codec_def)
  have "u * k' \<le> 2 ^ 27 * 15" using unit(3) k'(4) by (intro mult_le_mono) auto
  then have len: "0 < u * k'" "u * k' < 2 ^ 31" "u * k' + 15 + 7200 < 2 ^ 31" using unit(2) k'(3) by auto
  obtain bs where bs: "optlrc_fits o' (u * k') bs" using optlrc_encoder.fits_exists [OF optlrc_code.axioms(1) [OF c] len(1,2)] by blast
  have "k' * bs < u * k' + k' + k' * (32 * k')" "u * k' \<le> k' * bs"
    using optlrc_chunk_size [of o' "u * k'" bs] optlrc_chunk_size_total [of o' "u * k'" bs] bs f(5) k' by (auto simp: optlrc_fits_def)
  moreover have "k' * (32 * k') \<le> 15 * (32 * 15)" using k'(4) by (intro mult_le_mono) auto
  ultimately have w: "k' * bs < 2 ^ 31" "0 < k' * bs" using len k'(4) by linarith+
  have "prepare_pool_size (simple_directory ver ?dir factories) ver mon TYPE_ERASURE name reg = Some (0, Some (n, k + 1), reg1)"
    using 1(1) mon code(5) cnt k' by (simp add: prepare_pool_size_def mon_get_erasure_code_def get_erasure_code_profile_def mref_def u32_def)
  moreover have "get_chunk_size ?C (u * k') = Some bs" using bs by (simp add: optlrc_fits_def optlrc_codec_def)
  then have "prepare_pool_stripe_width (simple_directory ver ?dir factories) ver mon TYPE_ERASURE name 0 reg1 = Some (0, k' * bs, reg2)"
    using 2 mon code(5) cnt unit(1) len w
    by (simp add: prepare_pool_stripe_width_def mon_get_erasure_code_def get_erasure_code_profile_def mref_def u32_def Let_def)
  moreover have "build_ec_backend (simple_directory ver dir factories) ver dir p (k' * bs) oreg =
      Some (?C, \<lparr>stripe_width = k' * bs, chunk_size = bs\<rparr>, reg3)"
    using 3 code(5) optlrc_code.backend [OF c bs w(1)] by (simp add: build_ec_backend_def)
  moreover have "optlrc_fits o' (k' * bs) bs" by (rule optlrc_code.chunk_size_fixpoint [OF c bs w(1)])
  ultimately show ?thesis using c f(4,6) w k'(1) by blast
qed

text \<open>C3: an Optimal-LRC pool, from its profile to its objects. The monitor gives the pool \<open>n\<close> shards, a
  minimum of \<open>k + 1\<close> and a stripe width; the OSD, which makes the code anew, accepts that width;
  an object that is written stripe by stripe and loses at most one shard per local group is
  read back byte for byte, and the lost shards are rebuilt as they were.\<close>

theorem optlrc_pool_round_trip:
  assumes "jerasure_lib mul J" "((int n, int k, int r), G) \<in> set config_table" "(n, k, r) \<noteq> (17, 12, 6)"
      "names_code p n k r (unit_mapping G)" "steps_ok sp p" "mget p ''plugin'' = Some ''optlrc''"
      "mget (osdmap_profiles mon) name = Some p" "mget (pending_profiles mon) name = None"
      "pool_stripe_unit mon p = Some u" "0 < u" "u \<le> 2 ^ 27"
      "map_of factories ''optlrc'' = Some (optlrc_plugin_factory sp J)"
      "provides reg ''optlrc'' (optlrc_plugin_factory sp J)" "provides oreg ''optlrc'' (optlrc_plugin_factory sp J)"
  shows "\<exists>w o' s reg1 reg2 reg3. 0 < w \<and> w < 2 ^ 31 \<and> opt_n o' = int n \<and> opt_r o' = int r \<and>
    prepare_pool_size (simple_directory ver (erasure_code_dir mon) factories) ver mon TYPE_ERASURE name reg = Some (0, Some (n, k + 1), reg1) \<and>
    prepare_pool_stripe_width (simple_directory ver (erasure_code_dir mon) factories) ver mon TYPE_ERASURE name 0 reg1 = Some (0, w, reg2) \<and>
    build_ec_backend (simple_directory ver dir factories) ver dir p w oreg = Some (optlrc_codec J o', s, reg3) \<and> stripe_width s = w \<and>
    (\<forall>h obj A. bl_ok h obj \<and> 0 < bl_length obj \<and> bl_length obj < 2 ^ 32 \<and> w dvd bl_length obj \<and>
        A \<subseteq> {0..<int n} \<and> one_lost_per_group o' A \<longrightarrow>
      (\<exists>h1 M h2 out h3 T. ecutil_encode s (optlrc_codec J o') obj {0..<int n} [] h = Some (h1, 0, M) \<and>
        ecutil_decode_concat s (optlrc_codec J o') (survivors A M) [] h1 = Some (h2, 0, out) \<and> bl_bytes h2 out = bl_bytes h obj \<and>
        ecutil_decode s (optlrc_codec J o') (survivors A M)
          (map (\<lambda>c. (c, Some [])) (sorted_list_of_set ({0..<int n} - A))) h1 = Some (h3, 0, T) \<and>
        (\<forall>c\<in>{0..<int n} - A. \<exists>bl. mget T c = Some (Some bl) \<and> bl_bytes h3 bl = content h1 M c)))"
proof -
  obtain o' n' k' r' G' bs reg1 reg2 reg3 where p: "optlrc_code mul J o' n' k' r' G'" "opt_n o' = int n" "opt_r o' = int r" "optlrc_fits o' (k' * bs) bs"
      "0 < k' * bs" "k' * bs < 2 ^ 31"
      "prepare_pool_size (simple_directory ver (erasure_code_dir mon) factories) ver mon TYPE_ERASURE name reg = Some (0, Some (n, k + 1), reg1)"
      "prepare_pool_stripe_width (simple_directory ver (erasure_code_dir mon) factories) ver mon TYPE_ERASURE name 0 reg1 = Some (0, k' * bs, reg2)"
      "build_ec_backend (simple_directory ver dir factories) ver dir p (k' * bs) oreg =
        Some (optlrc_codec J o', \<lparr>stripe_width = k' * bs, chunk_size = bs\<rparr>, reg3)"
    using optlrc_pool [OF assms] by blast
  note st = optlrc_code.striped [OF p(1,4) refl, unfolded p(2)]
  show ?thesis
    by (rule exI [of _ "k' * bs"], rule exI [of _ o'], rule exI [of _ "\<lparr>stripe_width = k' * bs, chunk_size = bs\<rparr>"],
        intro exI conjI, rule p(5), rule p(6), rule p(2), rule p(3), rule p(7), rule p(8), rule p(9), simp)
      (intro allI impI, elim conjE, rule st)
qed

definition pool_profile :: profile where
  "pool_profile = [(''k'', stringify 4), (''mapping'', unit_mapping optlrc_9_4_2), (''n'', stringify 9), (''plugin'', ''optlrc''), (''r'', stringify 2)]"

definition pool_monitor :: monitor where
  "pool_monitor = \<lparr>osdmap_profiles = [(''lrc'', pool_profile)], pending_profiles = [], osd_pool_default_size = 3,
     osd_pool_default_min_size = 2, osd_pool_default_erasure_code_profile = ''plugin=jerasure'',
     osd_pool_erasure_code_stripe_unit = 4096, erasure_code_dir = ''lib''\<rparr>"

definition pool_plugins :: linker where
  "pool_plugins = simple_directory ''12.0.2'' ''lib'' [(''optlrc'', optlrc_plugin_factory ref_spirit ref_jerasure)]"

definition pool_object :: "nat \<Rightarrow> heap \<times> bufferlist" where
  "pool_object w = (\<lparr>raws = [\<lparr>raw_addr = 64, raw_data = replicate (2 * w) 7\<rparr>], place = (\<lambda>_. 1), junk = (\<lambda>_ _. 1)\<rparr>,
     [\<lparr>p_raw = 0, p_off = 0, p_len = 2 * w\<rparr>])"

lemma pool_object_ok:
  assumes "0 < w"
  shows "bl_ok (fst (pool_object w)) (snd (pool_object w))" "bl_length (snd (pool_object w)) = 2 * w"
    "bl_bytes (fst (pool_object w)) (snd (pool_object w)) = replicate (2 * w) 7"
  using assms by (simp_all add: pool_object_def buf_simps ptr_ok_def ptr_bytes_def)

lemma pool_example:
  "names_code pool_profile 9 4 2 (unit_mapping optlrc_9_4_2)" "steps_ok ref_spirit pool_profile"
  "((int 9, int 4, int 2), optlrc_9_4_2) \<in> set config_table" "mget pool_profile ''plugin'' = Some ''optlrc''"
  "mget (osdmap_profiles pool_monitor) ''lrc'' = Some pool_profile" "mget (pending_profiles pool_monitor) ''lrc'' = None"
  "pool_stripe_unit pool_monitor pool_profile = Some 4096" "erasure_code_dir pool_monitor = ''lib''"
  "provides registry_new ''optlrc'' fac"
  by (simp_all add: names_code_def pool_profile_def mok_def mget_def INT_MAX_def steps_ok_def config_table_def pool_monitor_def
      pool_stripe_unit_def provides_def registry_new_def registry_ok_new [unfolded registry_new_def])

text \<open>An object of two stripes that loses the first shard of each group.\<close>

theorem optlrc_pool_round_trip_witness:
  "\<exists>w o' s reg1 reg2 reg3 h1 M h2 out.
    prepare_pool_size pool_plugins ''12.0.2'' pool_monitor TYPE_ERASURE ''lrc'' registry_new = Some (0, Some (9, 5), reg1) \<and>
    prepare_pool_stripe_width pool_plugins ''12.0.2'' pool_monitor TYPE_ERASURE ''lrc'' 0 reg1 = Some (0, w, reg2) \<and>
    build_ec_backend pool_plugins ''12.0.2'' ''lib'' pool_profile w registry_new = Some (optlrc_codec ref_jerasure o', s, reg3) \<and>
    ecutil_encode s (optlrc_codec ref_jerasure o') (snd (pool_object w)) {0..<9} [] (fst (pool_object w)) = Some (h1, 0, M) \<and>
    ecutil_decode_concat s (optlrc_codec ref_jerasure o') (survivors {1, 2, 4, 5, 7, 8} M) [] h1 = Some (h2, 0, out) \<and>
    bl_bytes h2 out = replicate (2 * w) 7"
proof -
  have fac: "map_of [(''optlrc'', optlrc_plugin_factory ref_spirit ref_jerasure)] ''optlrc'' = Some (optlrc_plugin_factory ref_spirit ref_jerasure)"
    by simp
  have u: "(9, 4, 2) \<noteq> (17 :: nat, 12 :: nat, 6 :: nat)" "0 < (4096 :: nat)" "(4096 :: nat) \<le> 2 ^ 27" by simp_all
  note t = optlrc_pool_round_trip [OF ref_lib.jerasure_lib_axioms pool_example(3) u(1) pool_example(1,2,4-7) u(2,3) fac pool_example(9,9),
      where ver = "''12.0.2''" and dir = "''lib''", unfolded pool_example(8), folded pool_plugins_def]
  from t obtain w o' s reg1 reg2 reg3 where w: "0 < w" "w < 2 ^ 31" "opt_n o' = int 9" "opt_r o' = int 2" and r:
      "prepare_pool_size pool_plugins ''12.0.2'' pool_monitor TYPE_ERASURE ''lrc'' registry_new = Some (0, Some (9, 4 + 1), reg1)"
      "prepare_pool_stripe_width pool_plugins ''12.0.2'' pool_monitor TYPE_ERASURE ''lrc'' 0 reg1 = Some (0, w, reg2)"
      "build_ec_backend pool_plugins ''12.0.2'' ''lib'' pool_profile w registry_new = Some (optlrc_codec ref_jerasure o', s, reg3)"
    and all: "\<forall>h obj A. bl_ok h obj \<and> 0 < bl_length obj \<and> bl_length obj < 2 ^ 32 \<and> w dvd bl_length obj \<and>
        A \<subseteq> {0..<int 9} \<and> one_lost_per_group o' A \<longrightarrow>
      (\<exists>h1 M h2 out h3 T. ecutil_encode s (optlrc_codec ref_jerasure o') obj {0..<int 9} [] h = Some (h1, 0, M) \<and>
        ecutil_decode_concat s (optlrc_codec ref_jerasure o') (survivors A M) [] h1 = Some (h2, 0, out) \<and> bl_bytes h2 out = bl_bytes h obj \<and>
        ecutil_decode s (optlrc_codec ref_jerasure o') (survivors A M)
          (map (\<lambda>c. (c, Some [])) (sorted_list_of_set ({0..<int 9} - A))) h1 = Some (h3, 0, T) \<and>
        (\<forall>c\<in>{0..<int 9} - A. \<exists>bl. mget T c = Some (Some bl) \<and> bl_bytes h3 bl = content h1 M c))"
    by (elim exE conjE) (rule that)
  have nine: "{0..<9 :: int} = {0, 1, 2, 3, 4, 5, 6, 7, 8}" by auto
  have "one_lost_per_group o' {1, 2, 4, 5, 7, 8}" using w(3,4) by (auto simp: one_lost_per_group_def nine)
  moreover note po = pool_object_ok [OF w(1)]
  ultimately obtain h1 M h2 out where
      "ecutil_encode s (optlrc_codec ref_jerasure o') (snd (pool_object w)) {0..<int 9} [] (fst (pool_object w)) = Some (h1, 0, M)"
      "ecutil_decode_concat s (optlrc_codec ref_jerasure o') (survivors {1, 2, 4, 5, 7, 8} M) [] h1 = Some (h2, 0, out)"
      "bl_bytes h2 out = replicate (2 * w) 7"
    using all [rule_format, of "fst (pool_object w)" "snd (pool_object w)" "{1, 2, 4, 5, 7, 8}"] w(1,2) by auto
  with r show ?thesis by auto
qed

end
