(* ===== verification/Crc32c.thy ===== *)
theory Crc32c
  imports EC_Prelude Crc_Tables
begin

text \<open>
  CRC-32C: \<open>src/src/common/sctp_crc32.c\<close>, \<open>crc32c_intel_baseline.c\<close>, \<open>crc32c_intel_fast.c\<close>, \<open>crc32c.cc\<close> and
  \<open>src/src/include/crc32c.h\<close>. The reference is the division by the polynomial, one bit at a time; the
  implementations, by one table, by eight tables over eight bytes at a time, and by
  jumps of powers of two over zeros, are shown to agree with it. The machine is little endian.
\<close>

section \<open>The reference\<close>

text \<open>Division by \<open>0x1EDC6F41\<close>, with reflected bits: one bit, one byte, a sequence of bytes.\<close>

definition crc_step :: "crc \<Rightarrow> crc" where
  "crc_step c = (if bit c 0 then drop_bit 1 c XOR 0x82F63B78 else drop_bit 1 c)"

definition crc_byte :: "crc \<Rightarrow> byte \<Rightarrow> crc" where
  "crc_byte c b = (crc_step ^^ 8) (c XOR ucast b)"

definition crc32c :: "crc \<Rightarrow> byte list \<Rightarrow> crc" where
  "crc32c c bs = foldl crc_byte c bs"

section \<open>The implementations\<close>

text \<open>A pointer to data: null, or an address and the bytes there.\<close>

datatype crc_data = Null | At nat "byte list"

definition sctp_byte :: "crc \<Rightarrow> byte \<Rightarrow> crc" where
  "sctp_byte crc b = sctp_crc_tableil8_o32 ! unat ((crc XOR ucast b) AND 0xFF) XOR drop_bit 8 crc"

definition sctp_zero_byte :: "crc \<Rightarrow> crc" where
  "sctp_zero_byte crc = sctp_crc_tableil8_o32 ! unat (crc AND 0xFF) XOR drop_bit 8 crc"

text \<open>\<open>*(uint32_t *) p_buf\<close>\<close>

definition le32 :: "byte \<Rightarrow> byte \<Rightarrow> byte \<Rightarrow> byte \<Rightarrow> crc" where
  "le32 b0 b1 b2 b3 = ucast b0 OR push_bit 8 (ucast b1) OR push_bit 16 (ucast b2) OR push_bit 24 (ucast b3)"

definition sctp_terms :: "crc \<Rightarrow> crc list \<Rightarrow> crc list \<Rightarrow> crc list \<Rightarrow> crc list \<Rightarrow> crc" where
  "sctp_terms w t0 t1 t2 t3 =
     (let term1 = t0 ! unat (w AND 0xFF) XOR t1 ! unat (drop_bit 8 w AND 0xFF); term2 = drop_bit 16 w
      in term1 XOR t2 ! unat (term2 AND 0xFF) XOR t3 ! unat (drop_bit 8 term2 AND 0xFF))"

fun sctp_words :: "crc \<Rightarrow> byte list \<Rightarrow> crc" where
  "sctp_words crc (b0 # b1 # b2 # b3 # b4 # b5 # b6 # b7 # bs) =
     (let crc = crc XOR le32 b0 b1 b2 b3;
          crc = sctp_terms crc sctp_crc_tableil8_o88 sctp_crc_tableil8_o80 sctp_crc_tableil8_o72 sctp_crc_tableil8_o64;
          crc = crc XOR sctp_terms (le32 b4 b5 b6 b7) sctp_crc_tableil8_o56 sctp_crc_tableil8_o48 sctp_crc_tableil8_o40 sctp_crc_tableil8_o32
      in sctp_words crc bs)"
| "sctp_words crc bs = crc"

definition sctp_crc32c_sb8_64_bit :: "crc \<Rightarrow> byte list \<Rightarrow> nat \<Rightarrow> nat \<Rightarrow> crc" where
  "sctp_crc32c_sb8_64_bit crc buf len offset =
     (let init_bytes = min (u32_sub 4 offset mod 4) len;
          running_length = (len - init_bytes) div 8 * 8;
          end_bytes = len - init_bytes - running_length;
          crc = foldl sctp_byte crc (take init_bytes buf);
          crc = sctp_words crc (take running_length (drop init_bytes buf))
      in foldl sctp_byte crc (take end_bytes (drop (init_bytes + running_length) buf)))"

definition sctp_zero_word :: "crc \<Rightarrow> crc" where
  "sctp_zero_word crc =
     (let crc = sctp_terms crc sctp_crc_tableil8_o88 sctp_crc_tableil8_o80 sctp_crc_tableil8_o72 sctp_crc_tableil8_o64;
          term1 = sctp_crc_tableil8_o56 ! 0 XOR sctp_crc_tableil8_o48 ! 0;
          term2 = 0 :: crc
      in crc XOR term1 XOR sctp_crc_tableil8_o40 ! unat (term2 AND 0xFF) XOR sctp_crc_tableil8_o32 ! unat (drop_bit 8 term2 AND 0xFF))"

definition sctp_crc32c_sb8_64_bit_zero :: "crc \<Rightarrow> nat \<Rightarrow> nat \<Rightarrow> crc" where
  "sctp_crc32c_sb8_64_bit_zero crc len offset =
     (let init_bytes = min (u32_sub 4 offset mod 4) len;
          running_length = (len - init_bytes) div 8 * 8;
          end_bytes = len - init_bytes - running_length;
          crc = (sctp_zero_byte ^^ init_bytes) crc;
          crc = (sctp_zero_word ^^ (running_length div 8)) crc
      in (sctp_zero_byte ^^ end_bytes) crc)"

definition update_crc32 :: "crc \<Rightarrow> crc_data \<Rightarrow> nat \<Rightarrow> crc option" where
  "update_crc32 crc buffer len =
     (if len = 0 then Some crc
      else case buffer of
        At addr bytes \<Rightarrow> do {
          assert_that (len \<le> length bytes);
          Some (sctp_crc32c_sb8_64_bit crc bytes len (addr mod 4)) }
      | Null \<Rightarrow> Some (sctp_crc32c_sb8_64_bit_zero crc len 0))"

definition ceph_crc32c_sctp :: "crc \<Rightarrow> crc_data \<Rightarrow> nat \<Rightarrow> crc option" where
  "ceph_crc32c_sctp crc data len = update_crc32 crc data len"

subsection \<open>One table\<close>

definition baseline_byte :: "crc \<Rightarrow> byte \<Rightarrow> crc" where
  "baseline_byte crc b = drop_bit 8 crc XOR crc32_table_iscsi_base ! unat ((crc AND 0xFF) XOR ucast b)"

definition baseline_zero_byte :: "crc \<Rightarrow> crc" where
  "baseline_zero_byte crc = drop_bit 8 crc XOR crc32_table_iscsi_base ! unat (crc AND 0xFF)"

definition ceph_crc32c_intel_baseline :: "crc \<Rightarrow> crc_data \<Rightarrow> nat \<Rightarrow> crc option" where
  "ceph_crc32c_intel_baseline crc buffer len =
     (case buffer of
        At addr bytes \<Rightarrow> do {
          assert_that (len \<le> length bytes);
          Some (foldl baseline_byte crc (take len bytes)) }
      | Null \<Rightarrow> Some ((baseline_zero_byte ^^ len) crc))"

text \<open>The two assembler routines, given the bytes they are pointed to, are parameters.\<close>

record iscsi_asm =
  crc32_iscsi_00 :: "byte list \<Rightarrow> nat \<Rightarrow> crc \<Rightarrow> crc"
  crc32_iscsi_zero_00 :: "nat \<Rightarrow> crc \<Rightarrow> crc"

definition ceph_crc32c_intel_fast :: "iscsi_asm \<Rightarrow> crc \<Rightarrow> crc_data \<Rightarrow> nat \<Rightarrow> crc option" where
  "ceph_crc32c_intel_fast asm crc buffer len =
     (case buffer of
        Null \<Rightarrow> Some (crc32_iscsi_zero_00 asm len crc)
      | At addr bytes \<Rightarrow>
          if len < 16 then ceph_crc32c_intel_baseline crc buffer len
          else do {
            assert_that (len \<le> length bytes);
            let left = (addr + len) mod 8;
            let len = len - left;
            let v = crc32_iscsi_00 asm bytes len crc;
            if left \<noteq> 0 then ceph_crc32c_intel_baseline v (At (addr + len) (drop len bytes)) left else Some v })"

subsection \<open>Zeros by jumps\<close>

text \<open>The inner loop over the bits of \<open>crc\<close>; \<open>mask\<close> is all ones or zero.\<close>

fun turbo_jump :: "crc \<Rightarrow> crc list \<Rightarrow> crc \<Rightarrow> crc option" where
  "turbo_jump crc [] crc1 = (if crc = 0 then Some crc1 else None)"
| "turbo_jump crc (x # ptr) crc1 =
     (if crc = 0 then Some crc1
      else turbo_jump (drop_bit 1 crc) ptr (crc1 XOR (NOT ((crc AND 1) - 1) AND x)))"

fun zeros_loop :: "nat \<Rightarrow> nat \<Rightarrow> crc \<Rightarrow> crc option" where
  "zeros_loop len rng crc =
     (if len = 0 then Some crc
      else if len mod 2 = 1 then do {
        assert_that (rng < 32);
        crc \<leftarrow> turbo_jump crc (crc_turbo_table ! rng) 0;
        zeros_loop (len div 2) (rng + 1) crc }
      else zeros_loop (len div 2) (rng + 1) crc)"

declare zeros_loop.simps [simp del]

text \<open>\<open>F\<close> is \<open>ceph_crc32c_func\<close>, the implementation chosen for the machine.\<close>

definition ceph_crc32c_zeros :: "(crc \<Rightarrow> crc_data \<Rightarrow> nat \<Rightarrow> crc option) \<Rightarrow> crc \<Rightarrow> nat \<Rightarrow> crc option" where
  "ceph_crc32c_zeros F crc len = do {
     let remainder = len mod 16;
     crc \<leftarrow> zeros_loop (len div 16) 4 crc;
     if remainder > 0 then F crc Null remainder else Some crc }"

definition ceph_crc32c :: "(crc \<Rightarrow> crc_data \<Rightarrow> nat \<Rightarrow> crc option) \<Rightarrow> crc \<Rightarrow> crc_data \<Rightarrow> nat \<Rightarrow> crc option" where
  "ceph_crc32c F crc data len =
     (if data = Null \<and> len > 16 then ceph_crc32c_zeros F crc len else F crc data len)"

definition ceph_choose_crc32 :: "bool \<Rightarrow> iscsi_asm option \<Rightarrow> crc \<Rightarrow> crc_data \<Rightarrow> nat \<Rightarrow> crc option" where
  "ceph_choose_crc32 sse42 asm =
     (case asm of Some a \<Rightarrow> if sse42 then ceph_crc32c_intel_fast a else ceph_crc32c_sctp | None \<Rightarrow> ceph_crc32c_sctp)"

text \<open>How \<open>crc_turbo_table\<close> was obtained.\<close>

definition turbo_row :: "crc list \<Rightarrow> crc list" where
  "turbo_row prev = map (\<lambda>crc_x. fold (\<lambda>b crc_y. if bit crc_x b then crc_y XOR prev ! b else crc_y) [0..<32] 0) prev"

definition create_turbo_table :: "crc list list option" where
  "create_turbo_table = do {
     row \<leftarrow> those (map (\<lambda>b. ceph_crc32c_sctp (push_bit b 1) Null 1) [0..<32]);
     Some (map (\<lambda>rng. (turbo_row ^^ rng) row) [0..<32]) }"

section \<open>Linearity\<close>

definition xor_linear :: "(crc \<Rightarrow> crc) \<Rightarrow> bool" where
  "xor_linear f \<longleftrightarrow> (\<forall>a b. f (a XOR b) = f a XOR f b)"

lemma xor_linear_zero: "xor_linear f \<Longrightarrow> f 0 = 0"
  unfolding xor_linear_def by (metis xor_self_eq)

lemma crc_step_linear: "crc_step (a XOR b) = crc_step a XOR crc_step b"
  by (auto simp: crc_step_def bit_xor_iff ac_simps)

lemma crc_steps_linear: "(crc_step ^^ n) (a XOR b) = (crc_step ^^ n) a XOR (crc_step ^^ n) b"
  by (induction n arbitrary: a b) (simp_all add: crc_step_linear)

lemma crc_steps_xor_linear: "xor_linear (crc_step ^^ n)"
  by (simp add: xor_linear_def crc_steps_linear)

lemma crc_steps_zero [simp]: "(crc_step ^^ n) 0 = 0"
  by (rule xor_linear_zero [OF crc_steps_xor_linear])

lemma crc_steps_drop: "take_bit n c = 0 \<Longrightarrow> (crc_step ^^ n) c = drop_bit n c"
proof (induction n arbitrary: c)
  case (Suc n)
  have b: "\<not> bit c i" if "i < Suc n" for i
    using Suc.prems that by (metis bit_take_bit_iff bit_0_eq bot_apply bot_bool_def)
  then have "take_bit n (drop_bit 1 c) = 0" by (intro bit_eqI) (simp add: bit_take_bit_iff bit_drop_bit_eq)
  moreover have "crc_step c = drop_bit 1 c" using b [of 0] by (simp add: crc_step_def)
  ultimately show ?case using Suc.IH [of "drop_bit 1 c"] by (simp add: funpow_swap1)
qed simp

text \<open>The values of a linear function on small numbers, from those on powers of two.\<close>

fun lin :: "crc list \<Rightarrow> nat \<Rightarrow> crc" where
  "lin [] i = 0"
| "lin (b # bs) i = (if odd i then b else 0) XOR lin bs (i div 2)"

fun span :: "crc list \<Rightarrow> crc list" where
  "span [] = [0]"
| "span (b # bs) = concat (map (\<lambda>x. [x, b XOR x]) (span bs))"

lemma length_span: "length (span bs) = 2 ^ length bs"
proof (induction bs)
  case (Cons b bs)
  have "length (concat (map (\<lambda>x. [x, b XOR x]) xs)) = 2 * length xs" for xs by (induction xs) auto
  with Cons show ?case by simp
qed simp

lemma span_nth: "i < 2 ^ length bs \<Longrightarrow> span bs ! i = lin bs i"
proof (induction bs arbitrary: i)
  case (Cons b bs)
  have "concat (map (\<lambda>x. [x, b XOR x]) xs) ! i = (if odd i then b else 0) XOR xs ! (i div 2)" if "i < 2 * length xs" for xs
    using that
  proof (induction xs arbitrary: i)
    case (Cons x xs)
    show ?case
    proof (cases "i < 2")
      case False
      then obtain j where "i = Suc (Suc j)" by (metis add_2_eq_Suc le_Suc_ex not_less)
      with Cons show ?thesis by simp
    qed (auto simp: less_2_cases_iff)
  qed simp
  with Cons show ?case by (simp add: length_span)
qed simp

lemma linear_lin:
  assumes "xor_linear f" "i < 2 ^ n"
  shows "f (of_nat i) = lin (map (\<lambda>j. f (push_bit j 1)) [0..<n]) i"
  using assms
proof (induction n arbitrary: f i)
  case 0
  then show ?case by (simp add: xor_linear_zero)
next
  case (Suc n)
  let ?g = "\<lambda>c. f (push_bit 1 c)"
  have g: "xor_linear ?g" using Suc.prems(1) unfolding xor_linear_def by (simp only: push_bit_xor simp_thms)
  have "(of_nat i :: crc) = (if odd i then 1 else 0) XOR push_bit 1 (of_nat (i div 2))"
  proof (rule bit_eqI)
    fix m
    assume "possible_bit TYPE(crc) m"
    then show "bit (of_nat i :: crc) m = bit ((if odd i then 1 else 0) XOR push_bit 1 (of_nat (i div 2) :: crc)) m"
      by (cases m) (simp_all add: bit_xor_iff bit_push_bit_iff bit_of_nat_iff bit_1_iff bit_0 even_xor_iff flip: bit_Suc del: push_bit_Suc)
  qed
  then have "f (of_nat i) = f (if odd i then 1 else 0) XOR ?g (of_nat (i div 2))"
    using Suc.prems(1) unfolding xor_linear_def by metis
  also have "\<dots> = (if odd i then f 1 else 0) XOR lin (map (\<lambda>j. ?g (push_bit j 1)) [0..<n]) (i div 2)"
    using Suc.IH [OF g, of "i div 2"] Suc.prems(2) xor_linear_zero [OF Suc.prems(1)] by auto
  finally show ?case by (simp add: upt_conv_Cons map_Suc_upt [symmetric] comp_def mult.commute del: upt_Suc)
qed

section \<open>The tables\<close>

lemma table_lookup:
  assumes "T = span (map (\<lambda>j. (crc_step ^^ n) (push_bit j 1)) [0..<8])"
  shows "T ! unat (w AND 0xFF) = (crc_step ^^ n) (w AND 0xFF)"
proof -
  have "unat (w AND 0xFF) \<le> unat (0xFF :: crc)" by (rule word_and_le1 [THEN word_le_nat_alt [THEN iffD1]])
  then have i: "unat (w AND 0xFF) < 2 ^ 8" by simp
  then have "T ! unat (w AND 0xFF) = (crc_step ^^ n) (of_nat (unat (w AND 0xFF)))"
    using linear_lin [OF crc_steps_xor_linear i, of n] span_nth [of "unat (w AND 0xFF)"] by (simp add: assms)
  then show ?thesis by simp
qed

text \<open>The entries at the powers of two, table by table: each is eight steps from the one before.\<close>

definition basis :: "nat \<Rightarrow> crc list" where
  "basis n = map (\<lambda>j. (crc_step ^^ n) (push_bit j 1)) [0..<8]"

lemma basis_add: "basis (8 + n) = map (crc_step ^^ 8) (basis n)"
  by (simp add: basis_def funpow_add)

lemma steps8: "(crc_step ^^ 8) c =
    crc_step (crc_step (crc_step (crc_step (crc_step (crc_step (crc_step (crc_step c)))))))"
  by (simp add: numeral_eq_Suc)

lemma basis0: "basis 0 = [1, 2, 4, 8, 16, 32, 64, 128]"
  by (simp add: basis_def upt_rec)

lemma basis8: "basis 8 = [0xF26B8303, 0xE13B70F7, 0xC79A971F, 0x8AD958CF, 0x105EC76F, 0x20BD8EDE, 0x417B1DBC, 0x82F63B78]"
  using basis_add [of 0] by (simp add: basis0 steps8 crc_step_def)

lemma basis16: "basis 16 = [0x13A29877, 0x274530EE, 0x4E8A61DC, 0x9D14C3B8, 0x3FC5F181, 0x7F8BE302, 0xFF17C604, 0xFBC3FAF9]"
  using basis_add [of 8] by (simp add: basis8 steps8 crc_step_def)

lemma basis24: "basis 24 = [0xA541927E, 0x4F6F520D, 0x9EDEA41A, 0x38513EC5, 0x70A27D8A, 0xE144FB14, 0xC76580D9, 0x8B277743]"
  using basis_add [of 16] by (simp add: basis16 steps8 crc_step_def)

lemma basis32: "basis 32 = [0xDD45AAB8, 0xBF672381, 0x7B2231F3, 0xF64463E6, 0xE964B13D, 0xD725148B, 0xABA65FE7, 0x52A0C93F]"
  using basis_add [of 24] by (simp add: basis24 steps8 crc_step_def)

lemma basis40: "basis 40 = [0x38116FAC, 0x7022DF58, 0xE045BEB0, 0xC5670B91, 0x8F2261D3, 0x1BA8B557, 0x37516AAE, 0x6EA2D55C]"
  using basis_add [of 32] by (simp add: basis32 steps8 crc_step_def)

lemma basis48: "basis 48 = [0xEF306B19, 0xDB8CA0C3, 0xB2F53777, 0x6006181F, 0xC00C303E, 0x85F4168D, 0x0E045BEB, 0x1C08B7D6]"
  using basis_add [of 40] by (simp add: basis40 steps8 crc_step_def)

lemma basis56: "basis 56 = [0x68032CC8, 0xD0065990, 0xA5E0C5D1, 0x4E2DFD53, 0x9C5BFAA6, 0x3D5B83BD, 0x7AB7077A, 0xF56E0EF4]"
  using basis_add [of 48] by (simp add: basis48 steps8 crc_step_def)

lemma basis64: "basis 64 = [0x493C7D27, 0x9278FA4E, 0x211D826D, 0x423B04DA, 0x847609B4, 0x0D006599, 0x1A00CB32, 0x34019664]"
  using basis_add [of 56] by (simp add: basis56 steps8 crc_step_def)

lemma o32_span: "sctp_crc_tableil8_o32 = span (basis 8)"
  unfolding sctp_crc_tableil8_o32_def basis8 by simp

lemma o40_span: "sctp_crc_tableil8_o40 = span (basis 16)"
  unfolding sctp_crc_tableil8_o40_def basis16 by simp

lemma o48_span: "sctp_crc_tableil8_o48 = span (basis 24)"
  unfolding sctp_crc_tableil8_o48_def basis24 by simp

lemma o56_span: "sctp_crc_tableil8_o56 = span (basis 32)"
  unfolding sctp_crc_tableil8_o56_def basis32 by simp

lemma o64_span: "sctp_crc_tableil8_o64 = span (basis 40)"
  unfolding sctp_crc_tableil8_o64_def basis40 by simp

lemma o72_span: "sctp_crc_tableil8_o72 = span (basis 48)"
  unfolding sctp_crc_tableil8_o72_def basis48 by simp

lemma o80_span: "sctp_crc_tableil8_o80 = span (basis 56)"
  unfolding sctp_crc_tableil8_o80_def basis56 by simp

lemma o88_span: "sctp_crc_tableil8_o88 = span (basis 64)"
  unfolding sctp_crc_tableil8_o88_def basis64 by simp

lemma base_span: "crc32_table_iscsi_base = span (basis 8)"
  unfolding crc32_table_iscsi_base_def basis8 by simp

lemmas tables =
  table_lookup [OF o32_span [unfolded basis_def]]
  table_lookup [OF o40_span [unfolded basis_def]]
  table_lookup [OF o48_span [unfolded basis_def]]
  table_lookup [OF o56_span [unfolded basis_def]]
  table_lookup [OF o64_span [unfolded basis_def]]
  table_lookup [OF o72_span [unfolded basis_def]]
  table_lookup [OF o80_span [unfolded basis_def]]
  table_lookup [OF o88_span [unfolded basis_def]]
  table_lookup [OF base_span [unfolded basis_def]]

section \<open>Bytes and words\<close>

lemma mask8: "(0xFF :: crc) = mask 8"
  by (simp add: mask_numeral)

lemma byte_AND: "ucast b AND 0xFF = (ucast b :: crc)" for b :: byte
  unfolding mask8 by (rule bit_eqI) (auto simp: bit_and_iff bit_mask_iff bit_ucast_iff dest: bit_imp_le_length)

lemma crc_split: "c = (c AND 0xFF) XOR push_bit 8 (drop_bit 8 c)" for c :: crc
  unfolding mask8 by (rule bit_eqI) (auto simp: bit_and_iff bit_mask_iff bit_xor_iff bit_push_bit_iff bit_drop_bit_eq)

lemma crc_steps_push:
  assumes "drop_bit k (push_bit k x) = x"
  shows "(crc_step ^^ k) (push_bit k x) = x"
  using crc_steps_drop [of k "push_bit k x"] assms by (simp add: take_bit_push_bit)

lemma drop_push_low: "k \<le> 24 \<Longrightarrow> drop_bit k (push_bit k (w AND 0xFF)) = w AND 0xFF" for w :: crc
  unfolding mask8 by (rule bit_eqI) (auto simp: bit_and_iff bit_mask_iff bit_push_bit_iff bit_drop_bit_eq)

lemma drop_push_drop: "drop_bit k (push_bit k (drop_bit k w)) = drop_bit k w" for w :: crc
  by (rule bit_eqI) (auto simp: bit_push_bit_iff bit_drop_bit_eq dest: bit_imp_le_length)

lemma crc_steps_low: "k \<le> 24 \<Longrightarrow> N = n + k \<Longrightarrow> (crc_step ^^ N) (push_bit k (w AND 0xFF)) = (crc_step ^^ n) (w AND 0xFF)"
  by (simp only: funpow_add comp_apply crc_steps_push [OF drop_push_low])

lemma crc_steps8: "(crc_step ^^ 8) c = (crc_step ^^ 8) (c AND 0xFF) XOR drop_bit 8 c"
  by (subst crc_split) (simp add: crc_steps_linear crc_steps_push drop_push_drop)

lemma sctp_byte_eq: "sctp_byte = crc_byte"
proof (intro ext)
  fix crc :: crc and b :: byte
  have "drop_bit 8 (ucast b :: crc) = 0" by (rule bit_eqI) (auto simp: bit_drop_bit_eq bit_ucast_iff dest: bit_imp_le_length)
  then show "sctp_byte crc b = crc_byte crc b"
    using crc_steps8 [of "crc XOR ucast b"] by (simp add: sctp_byte_def crc_byte_def tables)
qed

lemma baseline_byte_eq: "baseline_byte = crc_byte"
proof (intro ext)
  fix crc :: crc and b :: byte
  have "(crc AND 0xFF) XOR ucast b = (crc XOR ucast b) AND 0xFF"
    by (simp add: bit.conj_xor_distrib2 byte_AND)
  then show "baseline_byte crc b = crc_byte crc b"
    using fun_cong [OF fun_cong [OF sctp_byte_eq], of crc b]
    by (simp add: baseline_byte_def sctp_byte_def tables xor.commute)
qed

lemma zero_byte_eq: "sctp_zero_byte = (\<lambda>c. crc_byte c 0)" "baseline_zero_byte = (\<lambda>c. crc_byte c 0)"
  using fun_cong [OF fun_cong [OF sctp_byte_eq], of _ 0] fun_cong [OF fun_cong [OF baseline_byte_eq], of _ 0]
  by (auto simp: fun_eq_iff sctp_zero_byte_def sctp_byte_def baseline_zero_byte_def baseline_byte_def)

lemma byte_positions:
  assumes "possible_bit TYPE(crc) i"
  obtains "i < 8" | "8 \<le> i" "i < 16" | "16 \<le> i" "i < 24" | "24 \<le> i" "i < 32"
  using assms by fastforce

lemma sctp_terms_steps:
  assumes "\<And>w. t0 ! unat (w AND 0xFF) = (crc_step ^^ (n + 24)) (w AND 0xFF)" "\<And>w. t1 ! unat (w AND 0xFF) = (crc_step ^^ (n + 16)) (w AND 0xFF)"
    "\<And>w. t2 ! unat (w AND 0xFF) = (crc_step ^^ (n + 8)) (w AND 0xFF)" "\<And>w. t3 ! unat (w AND 0xFF) = (crc_step ^^ n) (w AND 0xFF)"
  shows "sctp_terms w t0 t1 t2 t3 = (crc_step ^^ (n + 24)) w"
proof -
  let ?b = "\<lambda>i. drop_bit i w AND 0xFF"
  have "w = ?b 0 XOR push_bit 8 (?b 8) XOR push_bit 16 (?b 16) XOR push_bit 24 (?b 24)"
    unfolding mask8
  proof (rule bit_eqI)
    fix i
    assume i: "possible_bit TYPE(crc) i"
    show "bit w i = bit ((drop_bit 0 w AND mask 8) XOR push_bit 8 (drop_bit 8 w AND mask 8) XOR
        push_bit 16 (drop_bit 16 w AND mask 8) XOR push_bit 24 (drop_bit 24 w AND mask 8)) i"
      using byte_positions [OF i] by cases (simp_all add: bit_and_iff bit_mask_iff bit_xor_iff bit_push_bit_iff bit_drop_bit_eq less_diff_conv2)
  qed
  then have "(crc_step ^^ (n + 24)) w = (crc_step ^^ (n + 24)) (?b 0) XOR (crc_step ^^ (n + 24)) (push_bit 8 (?b 8)) XOR
      (crc_step ^^ (n + 24)) (push_bit 16 (?b 16)) XOR (crc_step ^^ (n + 24)) (push_bit 24 (?b 24))"
    by (metis crc_steps_linear)
  also have "\<dots> = (crc_step ^^ (n + 24)) (?b 0) XOR (crc_step ^^ (n + 16)) (?b 8) XOR (crc_step ^^ (n + 8)) (?b 16) XOR (crc_step ^^ n) (?b 24)"
    by (rule arg_cong2 [of _ _ _ _ "(XOR)"] refl crc_steps_low | simp)+
  finally show ?thesis using assms by (simp add: sctp_terms_def Let_def ac_simps)
qed

lemma le32_xor: "le32 b0 b1 b2 b3 =
    (ucast b0 AND 0xFF) XOR push_bit 8 (ucast b1 AND 0xFF) XOR push_bit 16 (ucast b2 AND 0xFF) XOR push_bit 24 (ucast b3 AND 0xFF)"
  unfolding le32_def byte_AND
proof (rule bit_eqI)
  fix i
  assume i: "possible_bit TYPE(crc) i"
  have hi: "\<not> bit b j" if "8 \<le> j" for b :: byte and j using that bit_imp_le_length [of b j] by auto
  from i show "bit (ucast b0 OR push_bit 8 (ucast b1) OR push_bit 16 (ucast b2) OR push_bit 24 (ucast b3) :: crc) i =
      bit (ucast b0 XOR push_bit 8 (ucast b1) XOR push_bit 16 (ucast b2) XOR push_bit 24 (ucast b3) :: crc) i"
    by (cases rule: byte_positions) (simp_all add: hi bit_or_iff bit_xor_iff bit_push_bit_iff bit_ucast_iff le_diff_conv2)
qed

lemma crc_byte_steps: "crc_byte c b = (crc_step ^^ 8) c XOR (crc_step ^^ 8) (ucast b AND 0xFF)"
  by (simp only: crc_byte_def crc_steps_linear byte_AND)

lemma crc32c_four: "crc32c c [b0, b1, b2, b3] = (crc_step ^^ 32) (c XOR le32 b0 b1 b2 b3)"
proof -
  have add: "(crc_step ^^ m) ((crc_step ^^ n) x) = (crc_step ^^ (m + n)) x" for m n x by (simp add: funpow_add)
  have "crc32c c [b0, b1, b2, b3] = (crc_step ^^ 32) c XOR (crc_step ^^ 32) (ucast b0 AND 0xFF) XOR
      (crc_step ^^ 24) (ucast b1 AND 0xFF) XOR (crc_step ^^ 16) (ucast b2 AND 0xFF) XOR (crc_step ^^ 8) (ucast b3 AND 0xFF)"
    unfolding crc32c_def foldl.simps crc_byte_steps crc_steps_linear add by (simp add: xor.assoc)
  also have "\<dots> = (crc_step ^^ 32) c XOR (crc_step ^^ 32) (ucast b0 AND 0xFF) XOR (crc_step ^^ 32) (push_bit 8 (ucast b1 AND 0xFF)) XOR
      (crc_step ^^ 32) (push_bit 16 (ucast b2 AND 0xFF)) XOR (crc_step ^^ 32) (push_bit 24 (ucast b3 AND 0xFF))"
    by (rule arg_cong2 [of _ _ _ _ "(XOR)"] refl crc_steps_low [symmetric] | simp)+
  finally show ?thesis unfolding le32_xor crc_steps_linear by (simp only: xor.assoc)
qed

lemma crc32c_append: "crc32c c (xs @ ys) = crc32c (crc32c c xs) ys"
  by (simp add: crc32c_def)

lemma crc32c_eight:
  "crc32c c [b0, b1, b2, b3, b4, b5, b6, b7] = (crc_step ^^ 64) (c XOR le32 b0 b1 b2 b3) XOR (crc_step ^^ 32) (le32 b4 b5 b6 b7)"
proof -
  have "crc32c c [b0, b1, b2, b3, b4, b5, b6, b7] = crc32c (crc32c c [b0, b1, b2, b3]) [b4, b5, b6, b7]"
    using crc32c_append [of c "[b0, b1, b2, b3]" "[b4, b5, b6, b7]"] by simp
  also have "\<dots> = (crc_step ^^ 32) ((crc_step ^^ 32) (c XOR le32 b0 b1 b2 b3)) XOR (crc_step ^^ 32) (le32 b4 b5 b6 b7)"
    unfolding crc32c_four crc_steps_linear ..
  also have "(crc_step ^^ 32) ((crc_step ^^ 32) x) = (crc_step ^^ 64) x" for x
    using funpow_add [of 32 32 crc_step] by (simp add: fun_eq_iff)
  finally show ?thesis .
qed

lemmas high_terms = sctp_terms_steps [of sctp_crc_tableil8_o88 40 sctp_crc_tableil8_o80 sctp_crc_tableil8_o72 sctp_crc_tableil8_o64,
    simplified, OF tables(8,7,6,5)]
lemmas low_terms = sctp_terms_steps [of sctp_crc_tableil8_o56 8 sctp_crc_tableil8_o48 sctp_crc_tableil8_o40 sctp_crc_tableil8_o32,
    simplified, OF tables(4,3,2,1)]

lemma sctp_words_eq: "length bs mod 8 = 0 \<Longrightarrow> sctp_words c bs = crc32c c bs"
proof (induction c bs rule: sctp_words.induct)
  case (1 crc b0 b1 b2 b3 b4 b5 b6 b7 bs)
  have "crc32c crc (b0 # b1 # b2 # b3 # b4 # b5 # b6 # b7 # bs) = crc32c (crc32c crc [b0, b1, b2, b3, b4, b5, b6, b7]) bs"
    using crc32c_append [of crc "[b0, b1, b2, b3, b4, b5, b6, b7]" bs] by simp
  moreover have "length (b0 # b1 # b2 # b3 # b4 # b5 # b6 # b7 # bs) = length bs + 8" by simp
  then have "length bs mod 8 = 0" using 1(2) by (simp only: mod_add_self2)
  ultimately show ?case using 1(1) by (simp add: Let_def high_terms low_terms crc32c_eight)
qed (simp_all add: crc32c_def)

section \<open>The implementations agree with the reference\<close>

lemma split_take: "take a xs @ take b (drop a xs) @ take c (drop (a + b) xs) = take (a + b + c) xs"
  by (simp add: take_add)

lemma init_words_end:
  fixes len :: nat
  assumes "i \<le> len"
  shows "i + (len - i) div 8 * 8 + (len - i - (len - i) div 8 * 8) = len"
  using assms div_times_less_eq_dividend [of "len - i" 8] by simp

lemma sctp_sb8:
  assumes "len \<le> length buf"
  shows "sctp_crc32c_sb8_64_bit c buf len offset = crc32c c (take len buf)"
proof -
  define i where "i = min (u32_sub 4 offset mod 4) len"
  define r where "r = (len - i) div 8 * 8"
  have i: "i \<le> len" by (simp add: i_def)
  have e: "i + r + (len - i - r) = len" unfolding r_def by (rule init_words_end [OF i])
  have "length (take r (drop i buf)) = r" using e assms by auto
  then have w: "sctp_words d (take r (drop i buf)) = crc32c d (take r (drop i buf))" for d
    by (intro sctp_words_eq) (simp add: r_def)
  have "sctp_crc32c_sb8_64_bit c buf len offset = crc32c (crc32c (crc32c c (take i buf)) (take r (drop i buf))) (take (len - i - r) (drop (i + r) buf))"
    unfolding sctp_crc32c_sb8_64_bit_def Let_def i_def [symmetric] r_def [symmetric] w sctp_byte_eq by (simp add: crc32c_def)
  also have "\<dots> = crc32c c (take i buf @ take r (drop i buf) @ take (len - i - r) (drop (i + r) buf))"
    by (simp add: crc32c_append)
  finally show ?thesis unfolding split_take e .
qed

lemma crc32c_zeros: "crc32c c (replicate n 0) = (crc_step ^^ (8 * n)) c"
proof (induction n arbitrary: c)
  case (Suc n)
  have "crc32c c (replicate (Suc n) 0) = crc32c (crc_byte c 0) (replicate n 0)" by (simp add: crc32c_def)
  also have "\<dots> = (crc_step ^^ (8 * n + 8)) c" unfolding Suc by (simp add: crc_byte_def funpow_add)
  finally show ?case by (simp add: add.commute)
qed (simp add: crc32c_def)

lemma zero_bytes: "((\<lambda>c. crc_byte c 0) ^^ n) c = (crc_step ^^ (8 * n)) c"
  by (induction n) (simp_all add: crc_byte_def funpow_add)

lemma sctp_zero_word_eq: "sctp_zero_word = crc_step ^^ 64"
proof (rule ext)
  fix c
  have "sctp_crc_tableil8_o56 ! 0 = 0" "sctp_crc_tableil8_o48 ! 0 = 0" "sctp_crc_tableil8_o40 ! 0 = 0" "sctp_crc_tableil8_o32 ! 0 = 0"
    using tables(1-4) [of 0] by simp_all
  then show "sctp_zero_word c = (crc_step ^^ 64) c" by (simp add: sctp_zero_word_def Let_def high_terms)
qed

lemma sctp_sb8_zero: "sctp_crc32c_sb8_64_bit_zero c len offset = crc32c c (replicate len 0)"
proof -
  define i where "i = min (u32_sub 4 offset mod 4) len"
  define r where "r = (len - i) div 8 * 8"
  have i: "i \<le> len" by (simp add: i_def)
  have e: "i + r + (len - i - r) = len" unfolding r_def by (rule init_words_end [OF i])
  have "((crc_step ^^ 64) ^^ (r div 8)) d = (crc_step ^^ (8 * r)) d" for d
    by (simp add: funpow_mult r_def)
  then have "sctp_crc32c_sb8_64_bit_zero c len offset = (crc_step ^^ (8 * (len - i - r))) ((crc_step ^^ (8 * r)) ((crc_step ^^ (8 * i)) c))"
    unfolding sctp_crc32c_sb8_64_bit_zero_def Let_def i_def [symmetric] r_def [symmetric] zero_byte_eq zero_bytes sctp_zero_word_eq by simp
  also have "\<dots> = (crc_step ^^ (8 * (len - i - r) + (8 * r + 8 * i))) c" by (simp add: funpow_add)
  also have "8 * (len - i - r) + (8 * r + 8 * i) = 8 * len" using e by simp
  finally show ?thesis by (simp add: crc32c_zeros)
qed

text \<open>The bytes a pointer stands for; a null pointer stands for zeros.\<close>

fun data_bytes :: "crc_data \<Rightarrow> nat \<Rightarrow> byte list" where
  "data_bytes Null len = replicate len 0"
| "data_bytes (At addr bytes) len = take len bytes"

definition readable :: "crc_data \<Rightarrow> nat \<Rightarrow> bool" where
  "readable data len \<longleftrightarrow> length (data_bytes data len) = len"

lemma sctp_correct: "readable data len \<Longrightarrow> ceph_crc32c_sctp c data len = Some (crc32c c (data_bytes data len))"
  by (cases data) (auto simp: ceph_crc32c_sctp_def update_crc32_def sctp_sb8 sctp_sb8_zero crc32c_def readable_def)

lemma baseline_correct: "readable data len \<Longrightarrow> ceph_crc32c_intel_baseline c data len = Some (crc32c c (data_bytes data len))"
  by (cases data) (auto simp: ceph_crc32c_intel_baseline_def baseline_byte_eq zero_byte_eq zero_bytes crc32c_zeros crc32c_def [symmetric] readable_def)

text \<open>What the assembler routines are documented to compute.\<close>

locale iscsi_crc =
  fixes asm :: iscsi_asm
  assumes iscsi_00: "len \<le> length bytes \<Longrightarrow> crc32_iscsi_00 asm bytes len c = crc32c c (take len bytes)"
    and iscsi_zero_00: "crc32_iscsi_zero_00 asm len c = crc32c c (replicate len 0)"
begin

lemma fast_correct:
  assumes "readable data len"
  shows "ceph_crc32c_intel_fast asm c data len = Some (crc32c c (data_bytes data len))"
proof (cases data)
  case Null
  then show ?thesis by (simp add: ceph_crc32c_intel_fast_def iscsi_zero_00)
next
  case (At addr bytes)
  then have len: "len \<le> length bytes" using assms by (simp add: readable_def)
  show ?thesis
  proof (cases "len < 16")
    case True
    then show ?thesis using At baseline_correct [OF assms] by (simp add: ceph_crc32c_intel_fast_def)
  next
    case False
    define l where "l = (addr + len) mod 8"
    have "l < 8" by (simp add: l_def)
    then have l: "l \<le> len" "len - l \<le> length bytes" "readable (At (addr + (len - l)) (drop (len - l) bytes)) l"
      using False len by (auto simp: readable_def)
    have "crc32c (crc32c c (take (len - l) bytes)) (take l (drop (len - l) bytes)) = crc32c c (take len bytes)"
      using l(1) take_add [of "len - l" l bytes] by (simp flip: crc32c_append)
    moreover have "crc32c c (take (len - l) bytes) = crc32c c (take len bytes)" if "l = 0" using that by simp
    ultimately show ?thesis
      using At False len l iscsi_00 [OF l(2)] iscsi_00 [OF len] baseline_correct [OF l(3)]
      by (simp add: ceph_crc32c_intel_fast_def l_def [symmetric] Let_def)
  qed
qed

end

definition ref_iscsi :: iscsi_asm where
  "ref_iscsi = \<lparr>crc32_iscsi_00 = (\<lambda>bytes len c. crc32c c (take len bytes)), crc32_iscsi_zero_00 = (\<lambda>len c. crc32c c (replicate len 0))\<rparr>"

interpretation ref_crc: iscsi_crc ref_iscsi
  by unfold_locales (simp_all add: ref_iscsi_def)

section \<open>Jumps over zeros\<close>

lemma even_unat_crc: "even (unat c) \<longleftrightarrow> even c" for c :: crc
  unfolding even_iff_mod_2_eq_zero using unat_eq_0 [of "c mod 2"] by (simp only: unat_mod) simp

lemma turbo_jump_lin:
  "unat c < 2 ^ length row \<Longrightarrow> turbo_jump c row acc = Some (acc XOR lin row (unat c))"
proof (induction row arbitrary: c acc)
  case Nil
  then show ?case by (simp add: unat_eq_0)
next
  case (Cons x row)
  have d: "unat (c div 2) = unat c div 2" by (simp add: unat_div)
  have "(c AND 1) = (if odd (unat c) then 1 else 0)" by (simp add: and_one_eq even_unat_crc odd_iff_mod_2_eq_one)
  then have m: "NOT ((c AND 1) - 1) AND x = (if odd (unat c) then x else 0)" by simp
  show ?case
  proof (cases "c = 0")
    case True
    have "lin ys 0 = 0" for ys by (induction ys) simp_all
    with True show ?thesis by simp
  next
    case False
    have "unat (c div 2) < 2 ^ length row" using Cons.prems by (simp add: d)
    from Cons.IH [OF this, of "acc XOR (if odd (unat c) then x else 0)"] False show ?thesis
      by (simp add: m d xor.assoc drop_bit_Suc)
  qed
qed

text \<open>In a row every entry is one step from the next, so that the last determines it; the
  last entry of the next row is what the jump makes of the last entry.\<close>

fun chained :: "crc list \<Rightarrow> bool" where
  "chained (x # y # row) \<longleftrightarrow> crc_step y = x \<and> chained (y # row)"
| "chained row \<longleftrightarrow> True"

fun squares :: "crc list list \<Rightarrow> bool" where
  "squares (row # row' # rows) \<longleftrightarrow> lin row (unat (last row)) = last row' \<and> squares (row' # rows)"
| "squares rows \<longleftrightarrow> True"

lemma turbo_chained: "list_all (\<lambda>row. length row = 32 \<and> chained row) crc_turbo_table"
  unfolding crc_turbo_table_def by (simp add: crc_step_def)

lemma turbo_squares: "squares crc_turbo_table"
  unfolding crc_turbo_table_def by simp

lemma turbo_first: "last (crc_turbo_table ! 0) = (crc_step ^^ 8) 0x80000000" "length crc_turbo_table = 32"
  unfolding crc_turbo_table_def by (simp_all add: crc_step_def steps8)

lemma chained_nth:
  "chained row \<Longrightarrow> b < length row \<Longrightarrow> row ! b = (crc_step ^^ (length row - 1 - b)) (last row)"
proof (induction row arbitrary: b rule: chained.induct)
  case (1 x y row)
  show ?case
  proof (cases b)
    case 0
    with 1 show ?thesis using "1.IH" [of 0] by simp
  next
    case (Suc b')
    with 1 show ?thesis using "1.IH" [of b'] by simp
  qed
qed (auto simp: less_Suc_eq)

lemma squares_nth: "squares rows \<Longrightarrow> Suc r < length rows \<Longrightarrow> lin (rows ! r) (unat (last (rows ! r))) = last (rows ! Suc r)"
proof (induction rows arbitrary: r rule: squares.induct)
  case (1 row row' rows)
  then show ?case by (cases r) simp_all
qed auto

lemma steps_add: "(crc_step ^^ m) ((crc_step ^^ n) x) = (crc_step ^^ (m + n)) x"
  by (simp add: funpow_add)

lemma unat_crc: "unat c < 2 ^ 32" for c :: crc
proof -
  have "unat c < 2 ^ LENGTH(32)" by (rule unsigned_less)
  then show ?thesis by simp
qed

lemma top_bit: "b < 32 \<Longrightarrow> (crc_step ^^ (31 - b)) 0x80000000 = push_bit b 1"
proof -
  assume b: "b < 32"
  have "(0x80000000 :: crc) = push_bit 31 1" by simp
  also have "31 = 31 - b + b" using b by simp
  also have "push_bit (31 - b + b) 1 = push_bit (31 - b) (push_bit b (1 :: crc))" by (rule push_bit_push_bit [symmetric])
  finally have "(0x80000000 :: crc) = push_bit (31 - b) (push_bit b 1)" .
  moreover have "drop_bit (31 - b) (push_bit (31 - b) (push_bit b 1)) = (push_bit b 1 :: crc)"
    using b by (intro bit_eqI) (auto simp: bit_drop_bit_eq bit_push_bit_iff bit_exp_iff)
  ultimately show ?thesis using crc_steps_push by metis
qed

lemma chained_row:
  assumes "length row = 32" "chained row" "last row = (crc_step ^^ N) 0x80000000"
  shows "row = map (\<lambda>b. (crc_step ^^ N) (push_bit b 1)) [0..<32]"
proof -
  have "row ! b = (crc_step ^^ N) (push_bit b 1)" if "b < 32" for b
  proof -
    have "row ! b = (crc_step ^^ (31 - b)) ((crc_step ^^ N) 0x80000000)" using chained_nth [OF assms(2), of b] assms(1,3) that by simp
    also have "\<dots> = (crc_step ^^ N) ((crc_step ^^ (31 - b)) 0x80000000)" by (simp only: steps_add add.commute)
    finally show ?thesis by (simp only: top_bit [OF that])
  qed
  then show ?thesis using assms(1) by (intro nth_equalityI) simp_all
qed

lemma chained_lin:
  assumes "length row = 32" "chained row" "last row = (crc_step ^^ N) 0x80000000"
  shows "lin row (unat c) = (crc_step ^^ N) c"
proof -
  have "row = map (\<lambda>b. (crc_step ^^ N) (push_bit b 1)) [0..<32]" by (rule chained_row [OF assms])
  then show ?thesis using linear_lin [OF crc_steps_xor_linear [of N] unat_crc [of c]] by simp
qed

lemma turbo_row_end: "r < 32 \<Longrightarrow> last (crc_turbo_table ! r) = (crc_step ^^ (8 * 2 ^ r)) 0x80000000"
proof (induction r)
  case (Suc r)
  let ?row = "crc_turbo_table ! r"
  have "length ?row = 32" "chained ?row" using turbo_chained turbo_first(2) Suc.prems by (simp_all add: list_all_length)
  then have "last (crc_turbo_table ! Suc r) = (crc_step ^^ (8 * 2 ^ r)) ((crc_step ^^ (8 * 2 ^ r)) 0x80000000)"
    using chained_lin [of ?row "8 * 2 ^ r"] Suc squares_nth [OF turbo_squares, of r] turbo_first(2) by simp
  also have "\<dots> = (crc_step ^^ (8 * 2 ^ r + 8 * 2 ^ r)) 0x80000000" by (rule steps_add)
  finally show ?case by (simp only: power_Suc mult_2 distrib_left)
qed (simp add: turbo_first)

lemma turbo_jump_zeros:
  assumes "r < 32"
  shows "turbo_jump c (crc_turbo_table ! r) 0 = Some ((crc_step ^^ (8 * 2 ^ r)) c)"
proof -
  let ?row = "crc_turbo_table ! r"
  have l: "length ?row = 32" "chained ?row" using turbo_chained turbo_first(2) assms by (simp_all add: list_all_length)
  then show ?thesis using turbo_jump_lin [of c ?row 0] chained_lin [OF l turbo_row_end [OF assms]] unat_crc [of c] by simp
qed

lemma zeros_loop_correct:
  "len < 2 ^ (32 - r) \<Longrightarrow> zeros_loop len r c = Some ((crc_step ^^ (8 * 2 ^ r * len)) c)"
proof (induction len r c rule: zeros_loop.induct)
  case (1 len r c)
  show ?case
  proof (cases "len = 0")
    case False
    then have r: "r < 32" using "1.prems" by (cases "r < 32") simp_all
    then have "32 - r = Suc (32 - Suc r)" by simp
    then have d: "len div 2 < 2 ^ (32 - (r + 1))" using "1.prems" by simp
    have step: "(crc_step ^^ (8 * 2 ^ (r + 1) * (len div 2))) ((crc_step ^^ (8 * 2 ^ r * (len mod 2))) c) = (crc_step ^^ (8 * 2 ^ r * len)) c"
    proof -
      have "8 * 2 ^ (r + 1) * (len div 2) + 8 * 2 ^ r * (len mod 2) = 8 * 2 ^ r * (2 * (len div 2) + len mod 2)"
        by (simp only: distrib_left Suc_eq_plus1 [symmetric] power_Suc mult_ac)
      also have "2 * (len div 2) + len mod 2 = len" by simp
      finally show ?thesis by (simp only: steps_add)
    qed
    show ?thesis
    proof (cases "len mod 2 = 1")
      case True
      then show ?thesis
        using "1.IH"(1) [OF False True _ turbo_jump_zeros [OF r] d] r False step
        by (subst zeros_loop.simps) (simp add: turbo_jump_zeros)
    next
      case even: False
      then show ?thesis using "1.IH"(2) [OF False even d] False step by (subst zeros_loop.simps) simp
    qed
  qed (simp add: zeros_loop.simps)
qed

lemma crc32c_correct:
  assumes F: "\<And>c data len. readable data len \<Longrightarrow> len < 2 ^ 32 \<Longrightarrow> F c data len = Some (crc32c c (data_bytes data len))"
    and d: "readable data len" "len < 2 ^ 32"
  shows "ceph_crc32c F c data len = Some (crc32c c (data_bytes data len))"
proof (cases "data = Null \<and> len > 16")
  case True
  have "len div 16 < 2 ^ (32 - 4)" using d(2) by simp
  from zeros_loop_correct [OF this, of c] have z: "zeros_loop (len div 16) 4 c = Some ((crc_step ^^ (8 * (len div 16 * 16))) c)"
    by (simp add: mult.commute)
  have "readable Null (len mod 16)" "len mod 16 < 2 ^ 32" by (simp_all add: readable_def)
  note r = F [OF this]
  have e: "(crc_step ^^ (8 * (len mod 16))) ((crc_step ^^ (8 * (len div 16 * 16))) c) = (crc_step ^^ (8 * len)) c"
    unfolding steps_add distrib_left [symmetric] by simp
  have "ceph_crc32c_zeros F c len = Some (crc32c c (replicate len 0))"
    unfolding ceph_crc32c_zeros_def Let_def z using r e by (cases "len mod 16 = 0") (simp_all add: crc32c_zeros)
  with True show ?thesis by (simp add: ceph_crc32c_def)
next
  case False
  then show ?thesis using F [OF d] by (auto simp: ceph_crc32c_def)
qed

section \<open>How the table of jumps was made\<close>

lemma fold_bits_lin:
  "fold (\<lambda>b y. if bit x b then y XOR prev ! b else y) [0..<length prev] acc = acc XOR lin prev (unat x)" for x :: crc
proof (induction prev arbitrary: x acc)
  case (Cons p prev)
  have "fold (\<lambda>b y. if bit x b then y XOR (p # prev) ! b else y) [0..<length (p # prev)] acc =
      fold (\<lambda>b y. if bit (x div 2) b then y XOR prev ! b else y) [0..<length prev] (if bit x 0 then acc XOR p else acc)"
    by (simp add: upt_conv_Cons map_Suc_upt [symmetric] fold_map comp_def bit_Suc del: upt_Suc cong: if_cong)
  also have "\<dots> = acc XOR lin (p # prev) (unat x)"
    by (simp add: Cons unat_div bit_0 even_unat_crc xor.assoc)
  finally show ?case .
qed simp

lemma turbo_row_nth:
  assumes "r < 32"
  shows "crc_turbo_table ! r = map (\<lambda>b. (crc_step ^^ (8 * 2 ^ r)) (push_bit b 1)) [0..<32]"
proof -
  have "length (crc_turbo_table ! r) = 32" "chained (crc_turbo_table ! r)"
    using turbo_chained turbo_first(2) assms by (simp_all add: list_all_length)
  then show ?thesis using chained_row turbo_row_end [OF assms] by blast
qed

lemma turbo_row_square:
  assumes "r + 1 < 32"
  shows "turbo_row (crc_turbo_table ! r) = crc_turbo_table ! (r + 1)"
proof -
  let ?f = "crc_step ^^ (8 * 2 ^ r)"
  have row: "length (crc_turbo_table ! r) = 32" "chained (crc_turbo_table ! r)" "r < 32"
    using turbo_chained turbo_first(2) assms by (simp_all add: list_all_length)
  have e: "fold (\<lambda>b y. if bit x b then y XOR crc_turbo_table ! r ! b else y) [0..<32] 0 = ?f x" for x
    using fold_bits_lin [of x "crc_turbo_table ! r" 0] chained_lin [OF row(1,2) turbo_row_end [OF row(3)]] row(1) by simp
  have "turbo_row (crc_turbo_table ! r) = map ?f (crc_turbo_table ! r)" unfolding turbo_row_def e ..
  also have "\<dots> = map (\<lambda>b. (crc_step ^^ (8 * 2 ^ (r + 1))) (push_bit b 1)) [0..<32]"
    using turbo_row_nth [OF row(3)] by (simp only: map_map comp_def steps_add mult_2 power_Suc Suc_eq_plus1 [symmetric] distrib_left)
  finally show ?thesis using turbo_row_nth [OF assms] by simp
qed

section \<open>Properties\<close>

text \<open>C7: every implementation of \<open>crc32c\<close> computes the remainder of the division by the polynomial. On
  a machine with or without the assembler routines, for data at any address and for a null
  pointer, which stands for zeros, \<open>ceph_crc32c\<close> agrees with the division bit by bit; the eight
  tables, the single table and the jumps of powers of two over zeros are
  equivalent to it.\<close>

theorem ceph_crc32c_reference:
  assumes "\<And>a. asm = Some a \<Longrightarrow> iscsi_crc a" "readable data len" "len < 2 ^ 32"
  shows "ceph_crc32c (ceph_choose_crc32 sse42 asm) c data len = Some (crc32c c (data_bytes data len))"
proof (rule crc32c_correct)
  fix c data len
  assume "readable data len"
  then show "ceph_choose_crc32 sse42 asm c data len = Some (crc32c c (data_bytes data len))"
    using sctp_correct iscsi_crc.fast_correct [OF assms(1)] by (simp add: ceph_choose_crc32_def split: option.split)
qed (use assms in simp_all)

theorem ceph_crc32c_reference_witness:
  "ceph_crc32c (ceph_choose_crc32 True (Some ref_iscsi)) 7 Null 1000 = Some (crc32c 7 (replicate 1000 0)) \<and>
   ceph_crc32c (ceph_choose_crc32 False None) 7 (At 65 [1, 2, 3, 4, 5, 6, 7, 8, 9, 10, 11, 12]) 12 =
     Some (crc32c 7 [1, 2, 3, 4, 5, 6, 7, 8, 9, 10, 11, 12])"
  using ceph_crc32c_reference [of "Some ref_iscsi" Null 1000 True 7] ref_crc.iscsi_crc_axioms
    ceph_crc32c_reference [of None "At 65 [1, 2, 3, 4, 5, 6, 7, 8, 9, 10, 11, 12]" 12 False 7]
  by (simp add: readable_def)

text \<open>C25: the table of jumps in the source is the one \<open>create_turbo_table\<close> computes, as its comment says.\<close>

theorem turbo_table_created: "create_turbo_table = Some crc_turbo_table"
proof -
  have "ceph_crc32c_sctp c Null 1 = Some ((crc_step ^^ 8) c)" for c
    using sctp_correct [of Null 1 c] by (simp add: readable_def crc32c_zeros [of c 1, simplified])
  then have "those (map (\<lambda>b. ceph_crc32c_sctp (push_bit b 1) Null 1) [0..<32]) = Some (crc_turbo_table ! 0)"
    using those_Some [of "[0..<32]" "\<lambda>b. ceph_crc32c_sctp (push_bit b 1) Null 1" "\<lambda>b. (crc_step ^^ 8) (push_bit b 1)"] turbo_row_nth [of 0]
    by (simp del: upt_Suc)
  moreover have "(turbo_row ^^ r) (crc_turbo_table ! 0) = crc_turbo_table ! r" if "r < 32" for r
    using that turbo_row_square by (induction r) simp_all
  then have "map (\<lambda>r. (turbo_row ^^ r) (crc_turbo_table ! 0)) [0..<32] = crc_turbo_table"
    using turbo_first(2) by (intro nth_equalityI) simp_all
  ultimately show ?thesis by (simp add: create_turbo_table_def)
qed

end
