(* ===== verification/Hash_Info.thy ===== *)
theory Hash_Info
  imports EC_Util Crc32c
begin

text \<open>
  Checksums of shards: the checksum of a buffer list with the cache each raw buffer keeps
  (\<open>buffer::list::crc32c\<close> of \<open>src/src/common/buffer.cc\<close>), the record of the checksums of all shards of an
  object (\<open>ECUtil::HashInfo\<close> of \<open>src/src/osd/ECUtil.h\<close> and \<open>ECUtil.cc\<close>), and its encoding
  (\<open>src/src/include/encoding.h\<close>, \<open>denc.h\<close>) as a sequence of bytes. Counters of cache hits are left out.
\<close>

section \<open>The checksum of a buffer list\<close>

text \<open>\<open>crc_map\<close> of each raw buffer: for a range of it, the initial value and the result.\<close>

type_synonym crc_maps = "nat \<Rightarrow> nat \<times> nat \<Rightarrow> (crc \<times> crc) option"

definition get_crc :: "crc_maps \<Rightarrow> nat \<Rightarrow> nat \<times> nat \<Rightarrow> (crc \<times> crc) option" where
  "get_crc m r fromto = m r fromto"

definition set_crc :: "nat \<Rightarrow> nat \<times> nat \<Rightarrow> crc \<times> crc \<Rightarrow> crc_maps \<Rightarrow> crc_maps" where
  "set_crc r fromto crc m = m(r := (m r)(fromto \<mapsto> crc))"

definition invalidate_crc :: "nat \<Rightarrow> crc_maps \<Rightarrow> crc_maps" where
  "invalidate_crc r m = m(r := (\<lambda>_. None))"

definition list_invalidate_crc :: "bufferlist \<Rightarrow> crc_maps \<Rightarrow> crc_maps" where
  "list_invalidate_crc bl m = fold (\<lambda>p. invalidate_crc (p_raw p)) bl m"

type_synonym crc_func = "crc \<Rightarrow> crc_data \<Rightarrow> nat \<Rightarrow> crc option"

definition ptr_crc32c :: "crc_func \<Rightarrow> heap \<Rightarrow> bptr \<Rightarrow> crc \<times> crc_maps \<Rightarrow> (crc \<times> crc_maps) option" where
  "ptr_crc32c F h p st =
     (case st of (crc, m) \<Rightarrow>
        if p_len p = 0 then Some (crc, m)
        else let ofs = (p_off p, p_off p + p_len p) in
          (case get_crc m (p_raw p) ofs of
            Some ccrc \<Rightarrow>
              if fst ccrc = crc then Some (snd ccrc, m)
              else do {
                adjustment \<leftarrow> ceph_crc32c F (fst ccrc XOR crc) Null (p_len p);
                Some (snd ccrc XOR adjustment, m) }
          | None \<Rightarrow> do {
              new \<leftarrow> ceph_crc32c F crc (At (raw_addr (raws h ! p_raw p) + p_off p) (ptr_bytes h p)) (p_len p);
              Some (new, set_crc (p_raw p) ofs (crc, new) m) }))"

definition list_crc32c :: "crc_func \<Rightarrow> heap \<Rightarrow> bufferlist \<Rightarrow> crc \<Rightarrow> crc_maps \<Rightarrow> (crc \<times> crc_maps) option" where
  "list_crc32c F h bl crc m = ofold (ptr_crc32c F h) bl (crc, m)"

section \<open>\<open>HashInfo\<close>\<close>

record hash_info =
  total_chunk_size :: nat
  cumulative_shard_hashes :: "crc list"
  projected_total_chunk_size :: nat

definition hash_info_new :: "nat \<Rightarrow> hash_info" where
  "hash_info_new num_chunks =
     \<lparr>total_chunk_size = 0, cumulative_shard_hashes = replicate num_chunks (- 1), projected_total_chunk_size = 0\<rparr>"

definition has_chunk_hash :: "hash_info \<Rightarrow> bool" where
  "has_chunk_hash hi \<longleftrightarrow> cumulative_shard_hashes hi \<noteq> []"

definition append_hash ::
    "crc_func \<Rightarrow> heap \<Rightarrow> nat \<Rightarrow> int \<times> bufferlist \<Rightarrow> crc list \<times> crc_maps \<Rightarrow> (crc list \<times> crc_maps) option" where
  "append_hash F h size_to_append e st =
     (case st of (hashes, m) \<Rightarrow> do {
        assert_that (size_to_append = bl_length (snd e));
        assert_that (u32_of_int (fst e) < length hashes);
        (new_hash, m) \<leftarrow> list_crc32c F h (snd e) (hashes ! nat (fst e)) m;
        Some (hashes[nat (fst e) := new_hash], m) })"

definition hash_info_append ::
    "crc_func \<Rightarrow> heap \<Rightarrow> nat \<Rightarrow> chunks \<Rightarrow> hash_info \<times> crc_maps \<Rightarrow> (hash_info \<times> crc_maps) option" where
  "hash_info_append F h old_size to_append st =
     (case st of (hi, m) \<Rightarrow> do {
        assert_that (old_size = total_chunk_size hi);
        assert_that (to_append \<noteq> []);
        let size_to_append = bl_length (snd (hd to_append));
        (hashes, m) \<leftarrow>
          (if has_chunk_hash hi then do {
             assert_that (length to_append = length (cumulative_shard_hashes hi));
             ofold (append_hash F h size_to_append) to_append (cumulative_shard_hashes hi, m) }
           else Some (cumulative_shard_hashes hi, m));
        Some (hi\<lparr>total_chunk_size := u64 (total_chunk_size hi + size_to_append), cumulative_shard_hashes := hashes\<rparr>, m) })"

definition hash_info_clear :: "hash_info \<Rightarrow> hash_info" where
  "hash_info_clear hi = hi\<lparr>total_chunk_size := 0,
     cumulative_shard_hashes := replicate (length (cumulative_shard_hashes hi)) (- 1)\<rparr>"

definition get_chunk_hash :: "hash_info \<Rightarrow> int \<Rightarrow> crc option" where
  "get_chunk_hash hi shard = do {
     assert_that (u32_of_int shard < length (cumulative_shard_hashes hi));
     Some (cumulative_shard_hashes hi ! nat shard) }"

definition get_total_logical_size :: "hash_info \<Rightarrow> stripe_info \<Rightarrow> nat option" where
  "get_total_logical_size hi s = do {
     assert_that (chunk_size s \<noteq> 0);
     Some (u64 (total_chunk_size hi * (stripe_width s div chunk_size s))) }"

definition get_projected_total_logical_size :: "hash_info \<Rightarrow> stripe_info \<Rightarrow> nat option" where
  "get_projected_total_logical_size hi s = do {
     assert_that (chunk_size s \<noteq> 0);
     Some (u64 (projected_total_chunk_size hi * (stripe_width s div chunk_size s))) }"

definition set_projected_total_logical_size :: "hash_info \<Rightarrow> stripe_info \<Rightarrow> nat \<Rightarrow> hash_info option" where
  "set_projected_total_logical_size hi s logical_size = do {
     aligned \<leftarrow> logical_offset_is_stripe_aligned s logical_size;
     assert_that aligned;
     size \<leftarrow> aligned_logical_offset_to_chunk_offset s logical_size;
     Some (hi\<lparr>projected_total_chunk_size := size\<rparr>) }"

definition set_total_chunk_size_clear_hash :: "hash_info \<Rightarrow> nat \<Rightarrow> hash_info" where
  "set_total_chunk_size_clear_hash hi new_chunk_size =
     hi\<lparr>cumulative_shard_hashes := [], total_chunk_size := new_chunk_size\<rparr>"

definition update_to :: "hash_info \<Rightarrow> hash_info \<Rightarrow> hash_info" where
  "update_to hi rhs = rhs\<lparr>projected_total_chunk_size := projected_total_chunk_size hi\<rparr>"

definition is_hinfo_key_string :: "string \<Rightarrow> bool" where
  "is_hinfo_key_string key \<longleftrightarrow> key = ''hinfo_key''"

section \<open>Encoding\<close>

text \<open>Integers are written with the low byte first.\<close>

definition encode_le :: "nat \<Rightarrow> nat \<Rightarrow> byte list" where
  "encode_le n v = map (\<lambda>i. word_of_nat (v div 256 ^ i)) [0..<n]"

datatype decode_error = EndOfBuffer | OldVersion | PastEnd

text \<open>A decoder consumes the bytes from the position of the iterator on.\<close>

type_synonym 'a decoder = "byte list \<Rightarrow> decode_error + ('a \<times> byte list)"

definition le_value :: "byte list \<Rightarrow> nat" where
  "le_value bs = foldr (\<lambda>b v. unat b + 256 * v) bs 0"

definition decode_le :: "nat \<Rightarrow> nat decoder" where
  "decode_le n bs = (if length bs < n then Inl EndOfBuffer else Inr (le_value (take n bs), drop n bs))"

fun decode_nohead :: "nat \<Rightarrow> nat list decoder" where
  "decode_nohead 0 bs = Inr ([], bs)"
| "decode_nohead (Suc num) bs =
     (case decode_le 4 bs of
        Inl e \<Rightarrow> Inl e
      | Inr (t, bs) \<Rightarrow> (case decode_nohead num bs of Inl e \<Rightarrow> Inl e | Inr (ts, bs) \<Rightarrow> Inr (t # ts, bs)))"

definition encode_u32s :: "crc list \<Rightarrow> byte list" where
  "encode_u32s v = encode_le 4 (length v) @ concat (map (\<lambda>x. encode_le 4 (unat x)) v)"

definition decode_u32s :: "crc list decoder" where
  "decode_u32s bs =
     (case decode_le 4 bs of
        Inl e \<Rightarrow> Inl e
      | Inr (num, bs) \<Rightarrow>
          (case decode_nohead num bs of Inl e \<Rightarrow> Inl e | Inr (ts, bs) \<Rightarrow> Inr (map word_of_nat ts, bs)))"

text \<open>\<open>ENCODE_START\<close> and \<open>ENCODE_FINISH\<close> around a body.\<close>

definition encode_struct :: "nat \<Rightarrow> nat \<Rightarrow> byte list \<Rightarrow> byte list" where
  "encode_struct v struct_compat body = encode_le 1 v @ encode_le 1 struct_compat @ encode_le 4 (length body) @ body"

text \<open>\<open>DECODE_START\<close> and \<open>DECODE_FINISH\<close> around a decoder. What is left of the structure is skipped; a
  decoder that has gone past its end has read what does not belong to it.\<close>

definition decode_struct :: "nat \<Rightarrow> 'a decoder \<Rightarrow> 'a decoder" where
  "decode_struct v body bs =
     (case decode_le 1 bs of Inl e \<Rightarrow> Inl e | Inr (struct_v, bs) \<Rightarrow>
     (case decode_le 1 bs of Inl e \<Rightarrow> Inl e | Inr (struct_compat, bs) \<Rightarrow>
        if v < struct_compat then Inl OldVersion
        else (case decode_le 4 bs of Inl e \<Rightarrow> Inl e | Inr (struct_len, bs) \<Rightarrow>
          if length bs < struct_len then Inl PastEnd
          else (case body bs of Inl e \<Rightarrow> Inl e | Inr (x, rest) \<Rightarrow>
            if length rest < length bs - struct_len then Inl PastEnd
            else Inr (x, drop (length rest - (length bs - struct_len)) rest)))))"

definition hash_info_encode :: "hash_info \<Rightarrow> byte list" where
  "hash_info_encode hi = encode_struct 1 1 (encode_le 8 (total_chunk_size hi) @ encode_u32s (cumulative_shard_hashes hi))"

definition hash_info_decode :: "hash_info decoder" where
  "hash_info_decode = decode_struct 1 (\<lambda>bs.
     case decode_le 8 bs of Inl e \<Rightarrow> Inl e | Inr (len, bs) \<Rightarrow>
     (case decode_u32s bs of Inl e \<Rightarrow> Inl e | Inr (hashes, bs) \<Rightarrow>
        Inr (\<lparr>total_chunk_size = len, cumulative_shard_hashes = hashes, projected_total_chunk_size = len\<rparr>, bs)))"

section \<open>The cache gives what a computation would give\<close>

lemma crc32c_linear: "crc32c c bs = (crc_step ^^ (8 * length bs)) c XOR crc32c 0 bs"
proof (induction bs arbitrary: c)
  case (Cons b bs)
  have "crc32c c (b # bs) = (crc_step ^^ (8 * length bs)) (crc_byte c b) XOR crc32c 0 bs"
    using Cons [of "crc_byte c b"] by (simp add: crc32c_def)
  moreover have "crc32c 0 (b # bs) = (crc_step ^^ (8 * length bs)) (crc_byte 0 b) XOR crc32c 0 bs"
    using Cons [of "crc_byte 0 b"] by (simp add: crc32c_def)
  moreover have "crc_byte c b = (crc_step ^^ 8) c XOR crc_byte 0 b" by (simp add: crc_byte_def crc_steps_linear)
  ultimately have "crc32c c (b # bs) = (crc_step ^^ (8 * length bs)) ((crc_step ^^ 8) c) XOR crc32c 0 (b # bs)"
    by (simp add: crc_steps_linear xor.assoc)
  moreover have "8 * length (b # bs) = 8 * length bs + 8" by simp
  ultimately show ?case by (simp only: steps_add)
qed (simp add: crc32c_def)

lemma crc32c_adjust: "crc32c c' bs = crc32c c bs XOR crc32c (c XOR c') (replicate (length bs) 0)"
proof -
  have "crc32c (c XOR c') (replicate (length bs) 0) = (crc_step ^^ (8 * length bs)) c XOR (crc_step ^^ (8 * length bs)) c'"
    by (simp add: crc32c_zeros crc_steps_linear)
  then show ?thesis using crc32c_linear [of c bs] crc32c_linear [of c' bs]
    by (simp add: ac_simps)
qed

text \<open>The chosen implementation computes the checksum.\<close>

definition crc_func_ok :: "crc_func \<Rightarrow> bool" where
  "crc_func_ok F \<longleftrightarrow> (\<forall>c data len. readable data len \<longrightarrow> len < 2 ^ 32 \<longrightarrow> F c data len = Some (crc32c c (data_bytes data len)))"

lemma crc_func_ok_sctp: "crc_func_ok ceph_crc32c_sctp"
  by (simp add: crc_func_ok_def sctp_correct)

lemma crc_func_ok_choose: "(\<And>a. asm = Some a \<Longrightarrow> iscsi_crc a) \<Longrightarrow> crc_func_ok (ceph_choose_crc32 sse42 asm)"
  using sctp_correct iscsi_crc.fast_correct by (auto simp: crc_func_ok_def ceph_choose_crc32_def split: option.split)

lemma crc_func_ok_crc32c:
  "crc_func_ok F \<Longrightarrow> readable data len \<Longrightarrow> len < 2 ^ 32 \<Longrightarrow> ceph_crc32c F c data len = Some (crc32c c (data_bytes data len))"
  by (rule crc32c_correct) (auto simp: crc_func_ok_def)

text \<open>Every cached value is the checksum of the range it is kept for.\<close>

definition range_bytes :: "heap \<Rightarrow> nat \<Rightarrow> nat \<times> nat \<Rightarrow> byte list" where
  "range_bytes h r fromto = take (snd fromto - fst fromto) (drop (fst fromto) (raw_data (raws h ! r)))"

definition crc_cached :: "heap \<Rightarrow> crc_maps \<Rightarrow> bool" where
  "crc_cached h m \<longleftrightarrow> (\<forall>r fromto ccrc. m r fromto = Some ccrc \<longrightarrow>
     r < length (raws h) \<and> snd ccrc = crc32c (fst ccrc) (range_bytes h r fromto))"

lemma crc_cached_empty: "crc_cached h (\<lambda>_ _. None)"
  by (simp add: crc_cached_def)

lemma ptr_range_bytes: "range_bytes h (p_raw p) (p_off p, p_off p + p_len p) = ptr_bytes h p"
  by (simp add: range_bytes_def ptr_bytes_def)

lemma ptr_crc32c_correct:
  assumes "crc_func_ok F" "crc_cached h m" "ptr_ok h p" "p_len p < 2 ^ 32"
  shows "\<exists>m'. ptr_crc32c F h p (c, m) = Some (crc32c c (ptr_bytes h p), m') \<and> crc_cached h m'"
proof -
  let ?ofs = "(p_off p, p_off p + p_len p)" and ?bs = "ptr_bytes h p"
  have len: "length ?bs = p_len p" using assms(3) by (simp add: length_ptr_bytes)
  have p: "0 < p_len p" "p_raw p < length (raws h)" using assms(3) by (auto simp: ptr_ok_def)
  show ?thesis
  proof (cases "m (p_raw p) ?ofs")
    case None
    have "readable (At a ?bs) (p_len p)" for a using len by (simp add: readable_def)
    then have "ceph_crc32c F c (At a ?bs) (p_len p) = Some (crc32c c ?bs)" for a
      using crc_func_ok_crc32c [OF assms(1) _ assms(4)] len by simp
    moreover have "crc_cached h (set_crc (p_raw p) ?ofs (c, crc32c c ?bs) m)"
      using assms(2) p(2) by (auto simp: crc_cached_def set_crc_def ptr_range_bytes split: if_splits)
    ultimately show ?thesis using None p(1) by (simp add: ptr_crc32c_def Let_def get_crc_def)
  next
    case (Some ccrc)
    then have "snd ccrc = crc32c (fst ccrc) ?bs" using assms(2) ptr_range_bytes [of h p] unfolding crc_cached_def by metis
    moreover have "ceph_crc32c F (fst ccrc XOR c) Null (p_len p) = Some (crc32c (fst ccrc XOR c) (replicate (p_len p) 0))"
      using crc_func_ok_crc32c [OF assms(1) _ assms(4), of Null] by (simp add: readable_def)
    moreover have "crc32c (fst ccrc) ?bs XOR crc32c (fst ccrc XOR c) (replicate (p_len p) 0) = crc32c c ?bs"
      using crc32c_adjust [of c ?bs "fst ccrc"] len by argo
    ultimately show ?thesis using Some p(1) assms(2) by (auto simp: ptr_crc32c_def Let_def get_crc_def)
  qed
qed

lemma list_crc32c_spec:
  assumes "crc_func_ok F" "crc_cached h m" "bl_ok h bl" "bl_length bl < 2 ^ 32"
  shows "\<exists>m'. list_crc32c F h bl c m = Some (crc32c c (bl_bytes h bl), m') \<and> crc_cached h m'"
  using assms(2-)
proof (induction bl arbitrary: c m)
  case Nil
  then show ?case by (simp add: list_crc32c_def bl_bytes_def crc32c_def)
next
  case (Cons p bl)
  have "ptr_ok h p" "p_len p < 2 ^ 32" "bl_ok h bl" "bl_length bl < 2 ^ 32" using Cons.prems by (auto simp: bl_ok_def)
  then obtain m1 m2 where "ptr_crc32c F h p (c, m) = Some (crc32c c (ptr_bytes h p), m1)"
      "list_crc32c F h bl (crc32c c (ptr_bytes h p)) m1 = Some (crc32c (crc32c c (ptr_bytes h p)) (bl_bytes h bl), m2)" "crc_cached h m2"
    using ptr_crc32c_correct [OF assms(1) Cons.prems(1)] Cons.IH by meson
  then show ?case by (simp add: list_crc32c_def bl_bytes_def crc32c_append)
qed

text \<open>New buffers leave the cache as it is; after the buffers of a list are written to, dropping what was
  cached for them is enough.\<close>

lemma crc_cached_frame: "frame {} h h' \<Longrightarrow> crc_cached h m \<Longrightarrow> crc_cached h' m"
  by (force simp: crc_cached_def frame_def range_bytes_def)

lemma list_invalidate_crc_apply: "list_invalidate_crc bl m r = (if r \<in> bl_raws bl then (\<lambda>_. None) else m r)"
  by (induction bl arbitrary: m) (auto simp: list_invalidate_crc_def invalidate_crc_def bl_raws_def)

lemma crc_cached_invalidate: "frame (bl_raws bl) h h' \<Longrightarrow> crc_cached h m \<Longrightarrow> crc_cached h' (list_invalidate_crc bl m)"
  by (force simp: crc_cached_def frame_def range_bytes_def list_invalidate_crc_apply split: if_splits)

section \<open>What a checksum detects\<close>

lemma crc_xor_cancel:
  assumes "a XOR x = b XOR (x :: crc)"
  shows "a = b"
proof -
  have "(a XOR x) XOR x = (b XOR x) XOR x" by (simp only: assms)
  then show ?thesis by (simp add: xor.assoc)
qed

lemma crc_step_inj: "crc_step a = crc_step b \<Longrightarrow> a = b"
proof -
  have ker: "c = 0" if "crc_step c = 0" for c
  proof -
    have "\<not> bit (drop_bit 1 c) 31" using bit_imp_le_length [of c 32] by (auto simp: bit_drop_bit_eq)
    moreover have "bit (crc_step c) 31 \<longleftrightarrow> bit (drop_bit 1 c) 31 \<noteq> bit c 0" by (simp add: crc_step_def bit_xor_iff)
    ultimately have "\<not> bit c 0" using that by simp
    with that have "drop_bit 1 c = 0" by (simp add: crc_step_def)
    then have "\<not> bit c (Suc n)" for n using bit_drop_bit_eq [of 1 c] by (simp add: fun_eq_iff)
    with \<open>\<not> bit c 0\<close> show ?thesis by (intro bit_eqI) (metis bit_0_eq bot_apply bot_bool_def not0_implies_Suc)
  qed
  assume "crc_step a = crc_step b"
  then have "crc_step (a XOR b) = 0" by (simp add: crc_step_linear)
  from ker [OF this] show "a = b" using crc_xor_cancel [of a b b] by simp
qed

lemma crc_steps_inj: "(crc_step ^^ n) a = (crc_step ^^ n) b \<Longrightarrow> a = b"
  by (induction n) (auto dest: crc_step_inj)

lemma crc32c_state_inj: "crc32c a bs = crc32c b bs \<Longrightarrow> a = b"
  using crc32c_linear [of a bs] crc32c_linear [of b bs] by (metis crc_xor_cancel crc_steps_inj)

lemma bit_le32:
  assumes "i < 8"
  shows "bit (le32 a b c d) i = bit a i" "bit (le32 a b c d) (8 + i) = bit b i"
    "bit (le32 a b c d) (16 + i) = bit c i" "bit (le32 a b c d) (24 + i) = bit d i"
proof -
  have high: "\<not> bit x (n + i)" if "8 \<le> n" for x :: byte and n using that bit_imp_le_length [of x "n + i"] by auto
  show "bit (le32 a b c d) i = bit a i" "bit (le32 a b c d) (8 + i) = bit b i"
    "bit (le32 a b c d) (16 + i) = bit c i" "bit (le32 a b c d) (24 + i) = bit d i"
    using assms by (simp_all add: le32_def bit_or_iff bit_push_bit_iff bit_ucast_iff high)
qed

lemma len8: "i < LENGTH(8) \<Longrightarrow> i < (8 :: nat)"
  by simp

lemma le32_inj: "le32 a b c d = le32 a' b' c' d' \<Longrightarrow> [a, b, c, d] = [a', b', c', d']"
proof -
  assume eq: "le32 a b c d = le32 a' b' c' d'"
  have "a = a'" "b = b'" "c = c'" "d = d'"
    by (rule bit_word_eqI; use bit_le32 eq in \<open>metis len8\<close>)+
  then show ?thesis by simp
qed

text \<open>A change within four adjacent bytes.\<close>

lemma crc32c_four_inj:
  assumes "crc32c c xs = crc32c c ys" "length xs = 4" "length ys = 4"
  shows "xs = ys"
proof -
  obtain a b d e a' b' d' e' where xs: "xs = [a, b, d, e]" and ys: "ys = [a', b', d', e']"
    using assms(2,3) by (auto simp: numeral_eq_Suc length_Suc_conv)
  with assms(1) have "c XOR le32 a b d e = c XOR le32 a' b' d' e'" by (simp only: crc32c_four) (rule crc_steps_inj)
  then have "c XOR (c XOR le32 a b d e) = c XOR (c XOR le32 a' b' d' e')" by simp
  then show ?thesis using le32_inj xs ys by (simp add: xor.assoc [symmetric])
qed

lemma crc32c_burst:
  assumes "length xs = length ys" "length xs \<le> 4" "xs \<noteq> ys"
  shows "crc32c c (pre @ xs @ post) \<noteq> crc32c c (pre @ ys @ post)"
proof
  let ?pad = "replicate (4 - length xs) 0 :: byte list" and ?c = "crc32c c pre"
  assume "crc32c c (pre @ xs @ post) = crc32c c (pre @ ys @ post)"
  then have "crc32c ?c xs = crc32c ?c ys" by (simp add: crc32c_append) (rule crc32c_state_inj)
  then have "crc32c ?c (xs @ ?pad) = crc32c ?c (ys @ ?pad)" by (simp add: crc32c_append)
  from crc32c_four_inj [OF this] show False using assms by simp
qed

section \<open>The record holds the checksums of the shards\<close>

lemma holds_entry:
  assumes "holds h M A bs val" "e \<in> set M"
  shows "fst e \<in> A \<and> bl_ok h (snd e) \<and> bl_length (snd e) = bs"
proof -
  have "mget M (fst e) = Some (snd e)" "fst e \<in> A" using assms by (auto simp: holds_def mget_in_set mkeys_def)
  moreover from this assms(1) have "bl_ok h (mref [] M (fst e)) \<and> bl_length (mref [] M (fst e)) = bs" by (auto simp: holds_def)
  ultimately show ?thesis by (simp add: mref_def)
qed

lemma append_hash_fold:
  assumes "crc_func_ok F" "crc_cached h m" "sz < 2 ^ 32" "length hs < 2 ^ 31" "distinct (map fst M)"
    "\<forall>e\<in>set M. fst e \<in> int ` {..<length hs} \<and> bl_ok h (snd e) \<and> bl_length (snd e) = sz"
  shows "\<exists>hs' m'. ofold (append_hash F h sz) M (hs, m) = Some (hs', m') \<and> crc_cached h m' \<and> length hs' = length hs \<and>
    (\<forall>c<length hs. hs' ! c = (case map_of M (int c) of None \<Rightarrow> hs ! c | Some bl \<Rightarrow> crc32c (hs ! c) (bl_bytes h bl)))"
  using assms
proof (induction M arbitrary: hs m)
  case (Cons e M)
  obtain i where i: "fst e = int i" "i < length hs" "bl_ok h (snd e)" "bl_length (snd e) = sz" using Cons.prems(6) by auto
  obtain m1 where m1: "list_crc32c F h (snd e) (hs ! i) m = Some (crc32c (hs ! i) (bl_bytes h (snd e)), m1)" "crc_cached h m1"
    using list_crc32c_spec [OF Cons.prems(1,2) i(3)] i(4) Cons.prems(3) by blast
  let ?hs = "hs[i := crc32c (hs ! i) (bl_bytes h (snd e))]"
  have "u32_of_int (fst e) = i" using i(1,2) Cons.prems(4) by (simp add: u32_of_int_def)
  then have a: "append_hash F h sz e (hs, m) = Some (?hs, m1)" using i m1(1) by (simp add: append_hash_def)
  obtain hs' m' where r: "ofold (append_hash F h sz) M (?hs, m1) = Some (hs', m')" "crc_cached h m'" "length hs' = length hs"
      "\<forall>c<length hs. hs' ! c = (case map_of M (int c) of None \<Rightarrow> ?hs ! c | Some bl \<Rightarrow> crc32c (?hs ! c) (bl_bytes h bl))"
    using Cons.IH [OF Cons.prems(1) m1(2) Cons.prems(3), of ?hs] Cons.prems(4-6) by auto
  have none: "map_of M (int i) = None" using Cons.prems(5) i(1) by (simp add: map_of_eq_None_iff)
  have "hs' ! c = (case map_of (e # M) (int c) of None \<Rightarrow> hs ! c | Some bl \<Rightarrow> crc32c (hs ! c) (bl_bytes h bl))"
    if "c < length hs" for c
    using r(4) that none i(1) by (cases e) (auto split: option.splits)
  with a r(1-3) show ?case by auto
qed simp

text \<open>\<open>S c\<close> is what has been appended to shard \<open>c\<close> so far.\<close>

definition hash_tracks :: "hash_info \<Rightarrow> nat \<Rightarrow> (nat \<Rightarrow> byte list) \<Rightarrow> bool" where
  "hash_tracks hi N S \<longleftrightarrow> length (cumulative_shard_hashes hi) = N \<and>
     (\<forall>c<N. cumulative_shard_hashes hi ! c = crc32c (- 1) (S c) \<and> length (S c) = total_chunk_size hi)"

lemma hash_tracks_new: "hash_tracks (hash_info_new N) N (\<lambda>_. [])"
  by (simp add: hash_tracks_def hash_info_new_def crc32c_def)

lemma hash_tracks_clear: "hash_tracks hi N S \<Longrightarrow> hash_tracks (hash_info_clear hi) N (\<lambda>_. [])"
  by (simp add: hash_tracks_def hash_info_clear_def crc32c_def)

lemma hash_info_append_spec:
  assumes F: "crc_func_ok F" and m: "crc_cached h m" and hi: "hash_tracks hi N S" "0 < N" "N < 2 ^ 31"
    and M: "holds h M (int ` {..<N}) sz val" "sz < 2 ^ 32" "total_chunk_size hi + sz < 2 ^ 64"
  shows "\<exists>hi' m'. hash_info_append F h (total_chunk_size hi) M (hi, m) = Some (hi', m') \<and> crc_cached h m' \<and>
    hash_tracks hi' N (\<lambda>c. S c @ val (int c)) \<and> total_chunk_size hi' = total_chunk_size hi + sz \<and>
    projected_total_chunk_size hi' = projected_total_chunk_size hi"
proof -
  let ?hs = "cumulative_shard_hashes hi"
  have n: "length ?hs = N" using hi(1) by (simp add: hash_tracks_def)
  have ok: "mok M" "set (mkeys M) = int ` {..<N}" using M(1) by (auto simp: holds_def)
  note e = holds_entry [OF M(1)]
  have dist: "distinct (map fst M)" using mok_distinct [OF ok(1)] by (simp add: mkeys_def)
  have "length M = card (set (map fst M))" using distinct_card [OF dist] by simp
  then have len: "length M = N" using ok(2) by (simp add: mkeys_def card_image)
  have ne: "M \<noteq> []" "bl_length (snd (hd M)) = sz" using len hi(2) e [of "hd M"] by auto
  obtain hs' m' where f: "ofold (append_hash F h sz) M (?hs, m) = Some (hs', m')" "crc_cached h m'" "length hs' = N"
      "\<forall>c<N. hs' ! c = (case map_of M (int c) of None \<Rightarrow> ?hs ! c | Some bl \<Rightarrow> crc32c (?hs ! c) (bl_bytes h bl))"
    using append_hash_fold [OF F m M(2), of ?hs M] n hi(3) dist e by auto
  have "hs' ! c = crc32c (- 1) (S c @ val (int c)) \<and> length (val (int c)) = sz" if c: "c < N" for c
  proof -
    have "int c \<in> set (mkeys M)" using c ok(2) by simp
    then obtain bl where bl: "mget M (int c) = Some bl" using mkeys_mget [of "int c" M] by auto
    have "bl_ok h (mref [] M (int c)) \<and> bl_length (mref [] M (int c)) = sz \<and> content h M (int c) = val (int c)"
      using M(1) c by (auto simp: holds_def)
    then have "bl_ok h bl" "bl_length bl = sz" "bl_bytes h bl = val (int c)" using bl by (simp_all add: content_def mref_def)
    moreover from this have "length (val (int c)) = sz" using length_bl_bytes [of h bl] by simp
    ultimately show ?thesis using f(4) c bl hi(1) by (auto simp: mget_def hash_tracks_def crc32c_append)
  qed
  then have "hash_tracks (hi\<lparr>total_chunk_size := total_chunk_size hi + sz, cumulative_shard_hashes := hs'\<rparr>) N (\<lambda>c. S c @ val (int c))"
    using f(3) hi(1) by (auto simp: hash_tracks_def)
  moreover have "has_chunk_hash hi" using n hi(2) by (auto simp: has_chunk_hash_def)
  ultimately show ?thesis using f(1,2) ne len n M(3) by (auto simp: hash_info_append_def Let_def u64_def)
qed

section \<open>Encoding and decoding\<close>

lemma length_encode_le [simp]: "length (encode_le n v) = n"
  by (simp add: encode_le_def)

lemma encode_le_Suc: "encode_le (Suc n) v = word_of_nat v # encode_le n (v div 256)"
  by (simp add: encode_le_def upt_conv_Cons map_Suc_upt [symmetric] comp_def div_mult2_eq del: upt_Suc)

lemma le_value_encode: "le_value (encode_le n v) = v mod 256 ^ n"
proof (induction n arbitrary: v)
  case (Suc n)
  have "le_value (encode_le (Suc n) v) = v mod 256 + 256 * (v div 256 mod 256 ^ n)"
    using Suc [of "v div 256"] by (simp add: encode_le_Suc le_value_def unat_of_nat)
  then show ?case by (simp add: mod_mult2_eq)
qed (simp add: encode_le_def le_value_def)

lemma decode_le_encode [simp]: "decode_le n (encode_le n v @ rest) = Inr (v mod 256 ^ n, rest)"
  by (simp add: decode_le_def le_value_encode)

lemma decode_nohead_encode:
  "decode_nohead (length v) (concat (map (\<lambda>x. encode_le 4 (unat x)) v) @ rest) = Inr (map unat v, rest)" for v :: "crc list"
proof (induction v)
  case (Cons x v)
  have "unat x mod 256 ^ 4 = unat x" using unat_crc [of x] by simp
  with Cons show ?case by simp
qed simp

lemma decode_u32s_encode: "length v < 2 ^ 32 \<Longrightarrow> decode_u32s (encode_u32s v @ rest) = Inr (v, rest)"
  by (simp add: decode_u32s_def encode_u32s_def decode_nohead_encode comp_def)

lemma length_encode_u32s: "length (encode_u32s v) = 4 + 4 * length v"
  by (simp add: encode_u32s_def length_concat comp_def sum_list_triv)

lemma decode_struct_encode:
  assumes "body (bs @ rest) = Inr (x, bs' @ rest)" "length bs < 2 ^ 32" "length bs' \<le> length bs" "struct_compat \<le> v" "v < 256"
  shows "decode_struct v body (encode_struct v' struct_compat bs @ rest) = Inr (x, rest)"
  using assms by (simp add: decode_struct_def encode_struct_def)

lemma hash_info_decode_encode:
  assumes "total_chunk_size hi < 2 ^ 64" "12 + 4 * length (cumulative_shard_hashes hi) + length extra < 2 ^ 32"
  shows "hash_info_decode (encode_struct v 1 (encode_le 8 (total_chunk_size hi) @ encode_u32s (cumulative_shard_hashes hi) @ extra) @ rest) =
      Inr (hi\<lparr>projected_total_chunk_size := total_chunk_size hi\<rparr>, rest)"
  unfolding hash_info_decode_def
  by (rule decode_struct_encode [where bs' = extra]) (use assms in \<open>simp_all add: decode_u32s_encode length_encode_u32s\<close>)

lemma hash_info_decode_encoded:
  assumes "total_chunk_size hi < 2 ^ 64" "12 + 4 * length (cumulative_shard_hashes hi) < 2 ^ 32"
  shows "hash_info_decode (hash_info_encode hi @ rest) = Inr (hi\<lparr>projected_total_chunk_size := total_chunk_size hi\<rparr>, rest)"
  using hash_info_decode_encode [of hi "[]" 1 rest] assms by (simp add: hash_info_encode_def)

section \<open>Properties\<close>

text \<open>C14: the record of checksums is read back as it was written, and a reader skips what a later
  version has added at the end of the structure: \<open>extra\<close>, with any version \<open>v\<close> that still declares itself
  compatible with version 1. The projected size is not stored; it becomes the size.\<close>

theorem hash_info_round_trip:
  assumes "total_chunk_size hi < 2 ^ 64" "12 + 4 * length (cumulative_shard_hashes hi) + length extra < 2 ^ 32"
  shows "hash_info_decode (encode_struct v 1 (encode_le 8 (total_chunk_size hi) @ encode_u32s (cumulative_shard_hashes hi) @ extra) @ rest) =
      Inr (hi\<lparr>projected_total_chunk_size := total_chunk_size hi\<rparr>, rest) \<and>
    hash_info_decode (hash_info_encode hi @ rest) = Inr (hi\<lparr>projected_total_chunk_size := total_chunk_size hi\<rparr>, rest)"
  using hash_info_decode_encode [OF assms] hash_info_decode_encoded [OF assms(1)] assms(2) by simp

theorem hash_info_round_trip_witness:
  "hash_info_decode (hash_info_encode \<lparr>total_chunk_size = 4096, cumulative_shard_hashes = [7, - 1], projected_total_chunk_size = 0\<rparr> @ [1]) =
    Inr (\<lparr>total_chunk_size = 4096, cumulative_shard_hashes = [7, - 1], projected_total_chunk_size = 4096\<rparr>, [1])"
  using hash_info_round_trip [of "\<lparr>total_chunk_size = 4096, cumulative_shard_hashes = [7, - 1], projected_total_chunk_size = 0\<rparr>" "[]" 1 "[1]"]
  by simp

text \<open>C15: what is cut short is refused, wherever it is cut, as is a structure that says
  version 1 cannot read it.\<close>

theorem hash_info_decode_refuses:
  assumes "i < length (hash_info_encode hi)" "12 + 4 * length (cumulative_shard_hashes hi) < 2 ^ 32" "1 < c" "c < 256"
  shows "hash_info_decode (take i (hash_info_encode hi)) = Inl (if i < 6 then EndOfBuffer else PastEnd) \<and>
    hash_info_decode (encode_struct v c body @ rest) = Inl OldVersion"
proof
  define B where "B = encode_le 8 (total_chunk_size hi) @ encode_u32s (cumulative_shard_hashes hi)"
  have len: "length B < 2 ^ 32" using assms(2) by (simp add: B_def length_encode_u32s)
  have cut: "take i (hash_info_encode hi) = take i (encode_le 1 1) @ take (i - 1) (encode_le 1 1) @ take (i - 2) (encode_le 4 (length B)) @ take (i - 6) B"
    by (simp only: hash_info_encode_def B_def [symmetric] encode_struct_def take_append length_encode_le diff_diff_left) (simp add: numeral_2_eq_2)
  consider "i = 0" | "i = 1" | "2 \<le> i" "i < 6" | "6 \<le> i" by linarith
  then show "hash_info_decode (take i (hash_info_encode hi)) = Inl (if i < 6 then EndOfBuffer else PastEnd)"
  proof cases
    case 1
    then show ?thesis by (simp add: hash_info_decode_def decode_struct_def decode_le_def)
  next
    case 2
    then show ?thesis unfolding cut hash_info_decode_def decode_struct_def by (simp add: decode_le_def)
  next
    case 3
    then have "decode_le 4 (take (i - 2) (encode_le 4 (length B)) @ take (i - 6) B) = Inl EndOfBuffer"
      by (simp add: decode_le_def)
    with 3 show ?thesis unfolding cut hash_info_decode_def decode_struct_def by simp
  next
    case 4
    have "i - 6 < length B"
      using assms(1) 4 by (simp add: hash_info_encode_def B_def [symmetric] encode_struct_def)
    with 4 len show ?thesis unfolding cut hash_info_decode_def decode_struct_def by simp
  qed
  show "hash_info_decode (encode_struct v c body @ rest) = Inl OldVersion"
    using assms(3,4) by (simp add: hash_info_decode_def decode_struct_def encode_struct_def)
qed

theorem hash_info_decode_refuses_witness:
  "hash_info_decode (take 9 (hash_info_encode (hash_info_new 2))) = Inl PastEnd \<and>
   hash_info_decode (encode_struct 2 2 [0] @ []) = Inl OldVersion"
  using hash_info_decode_refuses [of 9 "hash_info_new 2" 2 2 "[0]" "[]"]
  by (simp add: hash_info_encode_def encode_struct_def length_encode_u32s hash_info_new_def)

text \<open>C8: the checksum of a buffer list is that of its bytes, whatever is cached for its buffers and
  whatever initial values it was cached for, and every value left in the cache is right. It stays so
  when the buffers of a list are overwritten and their cached values dropped.\<close>

theorem list_crc32c_correct:
  assumes "\<And>a. asm = Some a \<Longrightarrow> iscsi_crc a" "crc_cached h m" "bl_ok h bl" "bl_length bl < 2 ^ 32"
  shows "\<exists>m'. list_crc32c (ceph_choose_crc32 sse42 asm) h bl c m = Some (crc32c c (bl_bytes h bl), m') \<and> crc_cached h m' \<and>
    (\<forall>h' bl'. frame (bl_raws bl') h h' \<longrightarrow> crc_cached h' (list_invalidate_crc bl' m'))"
proof -
  obtain m' where "list_crc32c (ceph_choose_crc32 sse42 asm) h bl c m = Some (crc32c c (bl_bytes h bl), m')" "crc_cached h m'"
    using list_crc32c_spec [OF crc_func_ok_choose assms(2-4)] assms(1) by blast
  then show ?thesis using crc_cached_invalidate by blast
qed

text \<open>Two bytes whose checksum is cached for the initial value 0 and asked for with - 1.\<close>

theorem list_crc32c_correct_witness:
  "\<exists>m'. list_crc32c (ceph_choose_crc32 False None) \<lparr>raws = [\<lparr>raw_addr = 0, raw_data = [1, 2]\<rparr>], place = (\<lambda>_. 1), junk = (\<lambda>_ _. 1)\<rparr>
      [\<lparr>p_raw = 0, p_off = 0, p_len = 2\<rparr>] (- 1) (set_crc 0 (0, 2) (0, crc32c 0 [1, 2]) (\<lambda>_ _. None)) = Some (crc32c (- 1) [1, 2], m')"
proof -
  let ?h = "\<lparr>raws = [\<lparr>raw_addr = 0, raw_data = [1, 2]\<rparr>], place = (\<lambda>_. 1), junk = (\<lambda>_ _. 1)\<rparr>"
    and ?bl = "[\<lparr>p_raw = 0, p_off = 0, p_len = 2\<rparr>]"
  have ok: "bl_ok ?h ?bl" "bl_length ?bl < 2 ^ 32" "bl_bytes ?h ?bl = [1, 2]"
    by (simp_all add: buf_simps ptr_ok_def ptr_bytes_def)
  have "crc_cached ?h (set_crc 0 (0, 2) (0, crc32c 0 [1, 2]) (\<lambda>_ _. None))"
    by (auto simp: crc_cached_def set_crc_def range_bytes_def split: if_splits)
  from list_crc32c_correct [OF _ this ok(1,2), of None False "- 1"] ok(3) show ?thesis by auto
qed

end
