(* ===== verification/Interval_Map.thy ===== *)
theory Interval_Map
  imports EC_Util
begin

text \<open>
  Maps from intervals to values (\<open>src/src/common/interval_map.h\<close>) and their instance for the extents of an
  object (\<open>bl_split_merge\<close> of \<open>src/src/osd/ExtentCache.h\<close>): a \<open>std::map\<close> from the offset of an extent to its
  length and its value. Iterators are positions in the sequence of entries. What an extent map
  means is a partial function from offsets to bytes, which every operation changes as expected.
\<close>

section \<open>The code\<close>

definition u64_sub :: "nat \<Rightarrow> nat \<Rightarrow> nat" where
  "u64_sub a b = u64 (a + 2 ^ 64 - b)"

text \<open>The template parameter \<open>S\<close>.\<close>

record 'v split_merge =
  sm_split :: "nat \<Rightarrow> nat \<Rightarrow> 'v \<Rightarrow> 'v option"
  sm_can_merge :: "'v \<Rightarrow> 'v \<Rightarrow> bool"
  sm_merge :: "'v \<Rightarrow> 'v \<Rightarrow> 'v"
  sm_length :: "'v \<Rightarrow> nat"

type_synonym 'v interval_map = "(nat, nat \<times> 'v) omap"

text \<open>\<open>std::map::insert\<close>: nothing changes if the key is there; the position of the key and whether the entry is new.\<close>

definition map_insert :: "nat \<times> 'a \<Rightarrow> (nat, 'a) omap \<Rightarrow> (nat, 'a) omap \<times> nat \<times> bool" where
  "map_insert e m =
     (let p = length (takeWhile (\<lambda>f. fst f < fst e) m) in
      if p < length m \<and> fst (m ! p) = fst e then (m, p, False)
      else (take p m @ e # drop p m, p, True))"

definition map_erase :: "nat \<Rightarrow> nat \<Rightarrow> (nat, 'a) omap \<Rightarrow> (nat, 'a) omap" where
  "map_erase i j m = take i m @ drop j m"

definition get_range :: "'v interval_map \<Rightarrow> nat \<Rightarrow> nat \<Rightarrow> nat \<times> nat" where
  "get_range m off len =
     (let i = length (takeWhile (\<lambda>e. fst e \<le> off) m);
          i = (if i \<noteq> 0 then i - 1 else i);
          i = (if i < length m \<and> u64 (fst (m ! i) + fst (snd (m ! i))) \<le> off then i + 1 else i)
      in (i, length (takeWhile (\<lambda>e. fst e < u64 (off + len)) m)))"

text \<open>A loop from one iterator to another leaves the map if they are out of order.\<close>

definition range_entries :: "'v interval_map \<Rightarrow> nat \<times> nat \<Rightarrow> (nat \<times> nat \<times> 'v) list option" where
  "range_entries m ij = do { assert_that (fst ij \<le> snd ij); Some (take (snd ij - fst ij) (drop (fst ij) m)) }"

definition merge_at :: "'v split_merge \<Rightarrow> nat \<Rightarrow> 'v interval_map \<Rightarrow> ('v interval_map \<times> nat) option" where
  "merge_at S i m =
     (let (o1, l1, v1) = m ! i; (o2, l2, v2) = m ! (i + 1) in
      case map_insert (o1, u64_sub (u64 (o2 + l2)) o1, sm_merge S v1 v2) (map_erase i (i + 2) m) of
        (m, p, new) \<Rightarrow> do { assert_that new; Some (m, p) })"

definition mergeable :: "'v split_merge \<Rightarrow> nat \<Rightarrow> 'v interval_map \<Rightarrow> bool" where
  "mergeable S i m \<longleftrightarrow> u64 (fst (m ! i) + fst (snd (m ! i))) = fst (m ! (i + 1)) \<and>
     sm_can_merge S (snd (snd (m ! i))) (snd (snd (m ! (i + 1))))"

definition try_merge :: "'v split_merge \<Rightarrow> nat \<Rightarrow> 'v interval_map \<Rightarrow> 'v interval_map option" where
  "try_merge S i m = do {
     (m, i) \<leftarrow> (if i \<noteq> 0 \<and> mergeable S (i - 1) m then merge_at S (i - 1) m else Some (m, i));
     (m, i) \<leftarrow> (if i + 1 < length m \<and> mergeable S i m then merge_at S i m else Some (m, i));
     Some m }"

definition cut_entry ::
    "'v split_merge \<Rightarrow> nat \<Rightarrow> nat \<Rightarrow> nat \<times> nat \<times> 'v \<Rightarrow> (nat \<times> nat \<times> 'v) list \<Rightarrow> (nat \<times> nat \<times> 'v) list option" where
  "cut_entry S off len e to_insert =
     (case e of (i, l, v) \<Rightarrow> do {
        to_insert \<leftarrow> (if i < off then do { p \<leftarrow> sm_split S 0 (off - i) v; Some (to_insert @ [(i, off - i, p)]) }
                      else Some to_insert);
        (if u64 (off + len) < u64 (i + l) then do {
           let nlen = u64 (i + l) - u64 (off + len);
           p \<leftarrow> sm_split S (u64_sub l nlen) nlen v;
           Some (to_insert @ [(u64 (off + len), nlen, p)]) }
         else Some to_insert) })"

definition im_erase :: "'v split_merge \<Rightarrow> nat \<Rightarrow> nat \<Rightarrow> 'v interval_map \<Rightarrow> 'v interval_map option" where
  "im_erase S off len m =
     (if len = 0 then Some m
      else do {
        let range = get_range m off len;
        es \<leftarrow> range_entries m range;
        to_insert \<leftarrow> ofold (cut_entry S off len) es [];
        Some (fold (\<lambda>e m. fst (map_insert e m)) to_insert (map_erase (fst range) (snd range) m)) })"

definition im_insert :: "'v split_merge \<Rightarrow> nat \<Rightarrow> nat \<Rightarrow> 'v \<Rightarrow> 'v interval_map \<Rightarrow> 'v interval_map option" where
  "im_insert S off len v m = do {
     assert_that (0 < len);
     assert_that (len = sm_length S v);
     m \<leftarrow> im_erase S off len m;
     (case map_insert (off, len, v) m of (m, p, new) \<Rightarrow> do {
        assert_that new;
        try_merge S p m }) }"

definition im_insert_map :: "'v split_merge \<Rightarrow> 'v interval_map \<Rightarrow> 'v interval_map \<Rightarrow> 'v interval_map option" where
  "im_insert_map S other m = ofold (\<lambda>(off, len, v). im_insert S off len v) other m"

definition intersect_entry ::
    "'v split_merge \<Rightarrow> nat \<Rightarrow> nat \<Rightarrow> nat \<times> nat \<times> 'v \<Rightarrow> 'v interval_map \<Rightarrow> 'v interval_map option" where
  "intersect_entry S off len e ret =
     (case e of (i, l, v) \<Rightarrow> do {
        (i, l, v) \<leftarrow> (if i < off then do { let l = u64_sub l (off - i); v \<leftarrow> sm_split S (off - i) l v; Some (off, l, v) }
                    else Some (i, l, v));
        (i, l, v) \<leftarrow> (if u64 (off + len) < u64 (i + l) then do {
                      let l = u64_sub l (u64 (i + l) - u64 (off + len)); v \<leftarrow> sm_split S 0 l v; Some (i, l, v) }
                    else Some (i, l, v));
        im_insert S i l v ret })"

definition im_intersect :: "'v split_merge \<Rightarrow> nat \<Rightarrow> nat \<Rightarrow> 'v interval_map \<Rightarrow> 'v interval_map option" where
  "im_intersect S off len m = do {
     es \<leftarrow> range_entries m (get_range m off len);
     ofold (intersect_entry S off len) es [] }"

text \<open>\<open>bl_split_merge\<close>\<close>

definition bl_split_merge :: "bufferlist split_merge" where
  "bl_split_merge =
     \<lparr>sm_split = (\<lambda>offset length bl. substr_of bl (u32 offset) (u32 length)),
      sm_can_merge = (\<lambda>left right. True),
      sm_merge = (\<lambda>left right. fst (claim_append left right)),
      sm_length = bl_length\<rparr>"

section \<open>Positions in a sorted sequence\<close>

lemma sorted_take_drop: "mok m \<Longrightarrow> mok (map_erase i j m)" if "i \<le> j"
proof -
  assume "mok m"
  then have "sorted_wrt (<) (map fst (take i m) @ map fst (drop i m))" by (metis append_take_drop_id map_append mok_def)
  moreover have "set (drop j m) \<subseteq> set (drop i m)" using that by (simp add: set_drop_subset_set_drop)
  moreover have "sorted_wrt (<) (map fst (drop j m))" using \<open>mok m\<close> by (metis drop_map mok_def sorted_wrt_drop)
  ultimately show ?thesis by (auto simp: mok_def map_erase_def sorted_wrt_append)
qed

lemma map_insert_new:
  assumes "mok m" "k \<notin> fst ` set m"
  shows "\<exists>m' p. map_insert (k, v) m = (m', p, True) \<and> mok m' \<and> set m' = insert (k, v) (set m) \<and> p < length m' \<and> m' ! p = (k, v)"
proof -
  define p where "p = length (takeWhile (\<lambda>f. fst f < k) m)"
  have le: "p \<le> length m" by (simp add: p_def length_takeWhile_le)
  have t: "take p m = takeWhile (\<lambda>f. fst f < k) m" unfolding p_def by (rule takeWhile_eq_take [symmetric])
  have d: "drop p m = dropWhile (\<lambda>f. fst f < k) m" unfolding p_def by (rule dropWhile_eq_drop [symmetric])
  have "fst (m ! p) \<noteq> k" if "p < length m" using assms(2) nth_mem [OF that] by (metis image_eqI)
  then have e: "map_insert (k, v) m = (take p m @ (k, v) # drop p m, p, True)" by (auto simp: map_insert_def p_def Let_def)
  have s: "sorted_wrt (<) (map fst (take p m) @ map fst (drop p m))" using assms(1) by (metis append_take_drop_id map_append mok_def)
  have a: "\<forall>x\<in>set (take p m). fst x < k" unfolding t by (auto dest: set_takeWhileD)
  have b: "\<forall>x\<in>set (drop p m). k < fst x"
  proof (cases "drop p m")
    case (Cons x xs)
    then have "\<not> fst x < k" using d hd_dropWhile [of "\<lambda>f. fst f < k" m] by simp
    moreover have "x \<in> set m" using Cons by (metis in_set_dropD list.set_intros(1))
    ultimately have "k < fst x" using assms(2) by (metis image_eqI linorder_neqE_nat)
    then show ?thesis using s Cons by (auto simp: sorted_wrt_append)
  qed simp
  have "mok (take p m @ (k, v) # drop p m)" using s a b by (auto simp: mok_def sorted_wrt_append)
  moreover have "set (take p m @ (k, v) # drop p m) = insert (k, v) (set m)" using set_append [of "take p m" "drop p m"] by auto
  ultimately show ?thesis using e le by (auto simp: nth_append)
qed

lemma map_insert_old: "mok m \<Longrightarrow> k \<in> fst ` set m \<Longrightarrow> \<exists>p. map_insert (k, v) m = (m, p, False)"
proof -
  assume m: "mok m" "k \<in> fst ` set m"
  let ?P = "\<lambda>f :: nat \<times> 'a. fst f < k"
  obtain x where x: "x \<in> set m" "fst x = k" using m(2) by auto
  then have ne: "dropWhile ?P m \<noteq> []" by auto
  then obtain y ys where y: "dropWhile ?P m = y # ys" by (meson neq_Nil_conv)
  have "length m = length (takeWhile ?P m) + length (dropWhile ?P m)" by (metis length_append takeWhile_dropWhile_id)
  then have lt: "length (takeWhile ?P m) < length m" using ne by simp
  have nth: "m ! length (takeWhile ?P m) = y" using y lt by (metis hd_drop_conv_nth dropWhile_eq_drop list.sel(1))
  have "\<not> fst y < k" using y hd_dropWhile [OF ne] by simp
  moreover have "x \<in> set (y # ys)" using x set_takeWhileD [of x ?P m] y by (metis Un_iff less_irrefl set_append takeWhile_dropWhile_id)
  moreover have "sorted_wrt (<) (map fst (y # ys))" using m(1) y by (metis dropWhile_eq_drop drop_map mok_def sorted_wrt_drop)
  ultimately have "fst y = k" using x(2) by auto
  then show ?thesis using lt nth by (auto simp: map_insert_def Let_def)
qed

lemma fold_map_insert:
  assumes "mok m" "\<forall>p\<in>set ps \<union> set m. \<forall>q\<in>set ps \<union> set m. fst p = fst q \<longrightarrow> p = q"
  shows "mok (fold (\<lambda>e m. fst (map_insert e m)) ps m) \<and> set (fold (\<lambda>e m. fst (map_insert e m)) ps m) = set ps \<union> set m"
  using assms
proof (induction ps arbitrary: m)
  case (Cons e ps)
  let ?m = "fst (map_insert e m)"
  have m: "mok ?m \<and> set ?m = insert e (set m)"
  proof (cases "fst e \<in> fst ` set m")
    case True
    then obtain f where "f \<in> set m" "fst e = fst f" by blast
    then have "e \<in> set m" using Cons.prems(2) by (metis UnI1 UnI2 list.set_intros(1))
    moreover have "?m = m" using map_insert_old [OF Cons.prems(1) True, of "snd e"] by fastforce
    ultimately show ?thesis using Cons.prems(1) by (simp add: insert_absorb)
  next
    case False
    obtain m' p where "map_insert e m = (m', p, True)" "mok m'" "set m' = insert e (set m)"
      using map_insert_new [OF Cons.prems(1) False, of "snd e"] unfolding prod.collapse by blast
    then show ?thesis by simp
  qed
  then have "set ps \<union> set ?m = set (e # ps) \<union> set m" by simp
  with Cons.IH [of ?m] Cons.prems(2) m show ?case by simp
qed simp

lemma set_erase_two:
  assumes "distinct m" "i + 1 < length m"
  shows "set (map_erase i (i + 2) m) = set m - {m ! i, m ! (i + 1)}"
proof -
  have m: "m = take i m @ m ! i # m ! (i + 1) # drop (i + 2) m"
    using assms(2) by (metis Cons_nth_drop_Suc Suc_eq_plus1 add_2_eq_Suc' append_take_drop_id add_lessD1)
  have "distinct (take i m @ m ! i # m ! (i + 1) # drop (i + 2) m)" using assms(1) m by metis
  moreover have "set m = set (take i m @ m ! i # m ! (i + 1) # drop (i + 2) m)" using m by metis
  ultimately show ?thesis by (auto simp: map_erase_def)
qed

section \<open>What an interval map means\<close>

abbreviation iend :: "nat \<times> nat \<times> 'v \<Rightarrow> nat" where
  "iend e \<equiv> fst e + fst (snd e)"

definition extent_at :: "('v \<Rightarrow> 'b list) \<Rightarrow> 'v interval_map \<Rightarrow> nat \<Rightarrow> 'b option" where
  "extent_at bytes m x =
     (case find (\<lambda>e. fst e \<le> x \<and> x < iend e) m of None \<Rightarrow> None | Some e \<Rightarrow> Some (bytes (snd (snd e)) ! (x - fst e)))"

text \<open>Extents are not empty and do not overlap; they lie in a window of less than 4 GiB, so
  that merged extents are no longer than a buffer list can be.\<close>

definition apart :: "(nat \<times> nat \<times> 'v) set \<Rightarrow> bool" where
  "apart E \<longleftrightarrow> (\<forall>e\<in>E. \<forall>f\<in>E. e = f \<or> iend e \<le> fst f \<or> iend f \<le> fst e)"

definition fine :: "('v \<Rightarrow> 'b list) \<Rightarrow> ('v \<Rightarrow> bool) \<Rightarrow> nat \<Rightarrow> nat \<times> nat \<times> 'v \<Rightarrow> bool" where
  "fine bytes good base e \<longleftrightarrow> 0 < fst (snd e) \<and> good (snd (snd e)) \<and> length (bytes (snd (snd e))) = fst (snd e) \<and>
     base \<le> fst e \<and> iend e < base + 2 ^ 32"

definition im_ok :: "('v \<Rightarrow> 'b list) \<Rightarrow> ('v \<Rightarrow> bool) \<Rightarrow> nat \<Rightarrow> 'v interval_map \<Rightarrow> bool" where
  "im_ok bytes good base m \<longleftrightarrow> base + 2 ^ 32 \<le> 2 ^ 64 \<and> mok m \<and> (\<forall>e\<in>set m. fine bytes good base e) \<and> apart (set m)"

lemma apart_key: "apart E \<Longrightarrow> \<forall>e\<in>E. 0 < fst (snd e) \<Longrightarrow> e \<in> E \<Longrightarrow> f \<in> E \<Longrightarrow> fst e = fst f \<Longrightarrow> e = f"
  unfolding apart_def by fastforce

lemma apart_mono: "apart E \<Longrightarrow> F \<subseteq> E \<Longrightarrow> apart F"
  unfolding apart_def by blast

lemma extent_at_iff:
  assumes "apart (set m)"
  shows "extent_at bytes m x = Some b \<longleftrightarrow> (\<exists>e\<in>set m. fst e \<le> x \<and> x < iend e \<and> b = bytes (snd (snd e)) ! (x - fst e))"
proof (cases "find (\<lambda>e. fst e \<le> x \<and> x < iend e) m")
  case None
  then have "\<not> (\<exists>e\<in>set m. fst e \<le> x \<and> x < iend e)" unfolding find_None_iff by blast
  with None show ?thesis by (auto simp: extent_at_def)
next
  case (Some e)
  then have e: "e \<in> set m" "fst e \<le> x" "x < iend e" unfolding find_Some_iff using nth_mem by blast+
  have u: "f = e" if "f \<in> set m" "fst f \<le> x" "x < iend f" for f
  proof -
    have "f = e \<or> iend f \<le> fst e \<or> iend e \<le> fst f" using assms e(1) that(1) unfolding apart_def by blast
    then show ?thesis using e that by linarith
  qed
  have "extent_at bytes m x = Some (bytes (snd (snd e)) ! (x - fst e))" using Some by (simp add: extent_at_def)
  then show ?thesis using e u by (metis option.inject)
qed

lemma extent_eqI: "(\<And>x b. f x = Some b \<longleftrightarrow> g x = Some b) \<Longrightarrow> f = g"
  by (rule ext) (metis option.exhaust)

lemma u64_small: "n < 2 ^ 64 \<Longrightarrow> u64 n = n"
  by (simp add: u64_def)

lemma u64_sub_small: "b \<le> a \<Longrightarrow> a < 2 ^ 64 \<Longrightarrow> u64_sub a b = a - b"
proof -
  assume "b \<le> a" "a < 2 ^ 64"
  moreover from this have "a + 2 ^ 64 - b = a - b + 2 ^ 64" by linarith
  ultimately show ?thesis by (simp only: u64_sub_def u64_def mod_add_self2) simp
qed

lemma im_ok_u64:
  assumes "im_ok bytes good base m" "e \<in> set m"
  shows "u64 (iend e) = iend e" "iend e < 2 ^ 64"
  using assms by (auto simp: im_ok_def fine_def intro!: u64_small)

lemma im_ok_sorted:
  assumes "im_ok bytes good base (xs @ e # ys)" "f \<in> set ys"
  shows "iend e \<le> fst f"
proof -
  have "fst e < fst f" "e \<in> set (xs @ e # ys)" "f \<in> set (xs @ e # ys)"
    using assms by (auto simp: im_ok_def mok_def sorted_wrt_append)
  moreover from this have "e = f \<or> iend e \<le> fst f \<or> iend f \<le> fst e" using assms(1) unfolding im_ok_def apart_def by blast
  ultimately show ?thesis by auto
qed

lemma get_range_ok:
  assumes ok: "im_ok bytes good base m" and len: "0 < len" "off + len < 2 ^ 64"
  shows "\<exists>A B C. m = A @ B @ C \<and> get_range m off len = (length A, length A + length B) \<and> (\<forall>e\<in>set A. iend e \<le> off) \<and>
    (\<forall>e\<in>set B. fst e < off + len \<and> off < iend e) \<and> (\<forall>e\<in>set C. off + len \<le> fst e)"
proof -
  obtain A R where m: "m = A @ R" and a: "\<forall>e\<in>set A. iend e \<le> off" and r0: "R \<noteq> [] \<Longrightarrow> off < iend (hd R)"
    by (rule that [of "takeWhile (\<lambda>e. iend e \<le> off) m" "dropWhile (\<lambda>e. iend e \<le> off) m"])
      (use hd_dropWhile [of "\<lambda>e. iend e \<le> off" m] in \<open>auto dest: set_takeWhileD simp: linorder_not_le\<close>)
  obtain B C where R: "R = B @ C" and B: "B = takeWhile (\<lambda>e. fst e < off + len) R" and c0: "C \<noteq> [] \<Longrightarrow> off + len \<le> fst (hd C)"
    by (rule that [of "takeWhile (\<lambda>e. fst e < off + len) R" "dropWhile (\<lambda>e. fst e < off + len) R"])
      (use hd_dropWhile [of "\<lambda>e. fst e < off + len" R] in \<open>auto simp: linorder_not_less\<close>)
  have pos: "\<forall>e\<in>set m. 0 < fst (snd e)" using ok by (auto simp: im_ok_def fine_def)
  have later: "off < fst f" if "R = e # R'" "f \<in> set R'" for e f R'
    using im_ok_sorted [of bytes good base A e R' f] ok m that r0 by auto
  have r: "off < iend e" if "e \<in> set R" for e
    using that r0 by (cases R) (auto dest: later)
  have c: "off + len \<le> fst e" if "e \<in> set C" for e
  proof (cases C)
    case (Cons x xs)
    have "x = e \<or> fst x < fst e" using ok m R Cons that by (auto simp: im_ok_def mok_def sorted_wrt_append)
    then show ?thesis using c0 Cons by auto
  qed (use that in simp)
  have below: "fst e \<le> off" "fst e < off + len" if "e \<in> set A" for e using a that len(1) by fastforce+
  have "takeWhile (\<lambda>e. fst e < off + len) m = A @ B" using below(2) unfolding B m by (intro takeWhile_append2) auto
  then have hi: "length (takeWhile (\<lambda>e. fst e < u64 (off + len)) m) = length A + length B" using len(2) by (simp add: u64_small)
  have lo: "fst (get_range m off len) = length A"
  proof (cases "R \<noteq> [] \<and> fst (hd R) \<le> off")
    case True
    then obtain e R' where e: "R = e # R'" "fst e \<le> off" by (cases R) auto
    have "takeWhile (\<lambda>e. fst e \<le> off) R' = []" using later [OF e(1), of "hd R'"] by (cases R') auto
    then have "takeWhile (\<lambda>e. fst e \<le> off) R = [e]" using e by simp
    moreover have "takeWhile (\<lambda>e. fst e \<le> off) (A @ R) = A @ takeWhile (\<lambda>e. fst e \<le> off) R" by (intro takeWhile_append2) (rule below(1))
    ultimately have "length (takeWhile (\<lambda>e. fst e \<le> off) m) = length A + 1" using m by simp
    moreover have "m ! length A = e" "e \<in> set m" using e(1) m by auto
    moreover have "\<not> u64 (iend e) \<le> off" using r [of e] e(1) im_ok_u64(1) [OF ok] m by simp
    ultimately show ?thesis by (simp add: get_range_def Let_def)
  next
    case False
    then have "takeWhile (\<lambda>e. fst e \<le> off) R = []" by (cases R) auto
    moreover have "takeWhile (\<lambda>e. fst e \<le> off) (A @ R) = A @ takeWhile (\<lambda>e. fst e \<le> off) R" by (intro takeWhile_append2) (rule below(1))
    ultimately have i: "length (takeWhile (\<lambda>e. fst e \<le> off) m) = length A" using m by simp
    show ?thesis
    proof (cases "A = []")
      case True
      then have "\<not> u64 (iend (m ! 0)) \<le> off" if "0 < length m"
        using that m r [of "m ! 0"] im_ok_u64(1) [OF ok, of "m ! 0"] by simp
      then show ?thesis using i True by (cases "m = []") (simp_all add: get_range_def Let_def)
    next
      case False
      then have l: "m ! (length A - 1) = last A" "length A - 1 < length m" "last A \<in> set A"
        unfolding m by (simp_all add: nth_append last_conv_nth) (cases A, simp_all)
      then have "u64 (iend (last A)) \<le> off" using a im_ok_u64(1) [OF ok, of "last A"] m by simp
      then show ?thesis using i False l(1,2) by (simp add: get_range_def Let_def)
    qed
  qed
  have "get_range m off len = (length A, length A + length B)" using lo hi by (simp add: get_range_def Let_def prod_eq_iff)
  moreover have "fst e < off + len" if "e \<in> set B" for e using that unfolding B by (rule set_takeWhileD [THEN conjunct2])
  moreover have "off < iend e" if "e \<in> set B" for e using that r [of e] R by simp
  moreover have "m = A @ B @ C" using m R by simp
  ultimately show ?thesis using a c by blast
qed

section \<open>The operations\<close>

text \<open>What the template asks of \<open>S\<close>: values are sequences that can be cut and joined.\<close>

locale split_merger =
  fixes S :: "'v split_merge" and bytes :: "'v \<Rightarrow> 'b list" and good :: "'v \<Rightarrow> bool"
  assumes length_law: "good v \<Longrightarrow> sm_length S v = length (bytes v)"
    and split_law: "good v \<Longrightarrow> off + n \<le> length (bytes v) \<Longrightarrow>
      \<exists>v'. sm_split S off n v = Some v' \<and> good v' \<and> bytes v' = take n (drop off (bytes v))"
    and merge_law: "good a \<Longrightarrow> good b \<Longrightarrow> length (bytes a) + length (bytes b) < 2 ^ 32 \<Longrightarrow>
      good (sm_merge S a b) \<and> bytes (sm_merge S a b) = bytes a @ bytes b"
begin

text \<open>What is left of an entry outside a range.\<close>

definition cuts :: "nat \<Rightarrow> nat \<Rightarrow> nat \<times> nat \<times> 'v \<Rightarrow> (nat \<times> nat \<times> 'v) list" where
  "cuts off len e =
     (if fst e < off then [(fst e, off - fst e, the (sm_split S 0 (off - fst e) (snd (snd e))))] else []) @
     (if off + len < iend e
      then [(off + len, iend e - (off + len), the (sm_split S (off + len - fst e) (iend e - (off + len)) (snd (snd e))))] else [])"

text \<open>\<open>q\<close> is a part of \<open>e\<close>, with the same bytes.\<close>

definition part :: "nat \<times> nat \<times> 'v \<Rightarrow> nat \<times> nat \<times> 'v \<Rightarrow> bool" where
  "part q e \<longleftrightarrow> fst e \<le> fst q \<and> iend q \<le> iend e \<and>
     (\<forall>x. fst q \<le> x \<longrightarrow> x < iend q \<longrightarrow> bytes (snd (snd q)) ! (x - fst q) = bytes (snd (snd e)) ! (x - fst e))"

lemma split_part:
  assumes "fine bytes good base e" "fst e \<le> a" "a < b" "b \<le> iend e"
  shows "\<exists>v. sm_split S (a - fst e) (b - a) (snd (snd e)) = Some v \<and> fine bytes good base (a, b - a, v) \<and> part (a, b - a, v) e"
proof -
  have "a - fst e + (b - a) \<le> length (bytes (snd (snd e)))" using assms by (auto simp: fine_def)
  then obtain v where v: "sm_split S (a - fst e) (b - a) (snd (snd e)) = Some v" "good v"
      "bytes v = take (b - a) (drop (a - fst e) (bytes (snd (snd e))))"
    using split_law [of "snd (snd e)" "a - fst e" "b - a"] assms(1) unfolding fine_def by blast
  have "bytes v ! (x - a) = bytes (snd (snd e)) ! (x - fst e)" if "a \<le> x" "x < b" for x
    using v(3) that assms by (auto simp: fine_def)
  with v assms show ?thesis by (auto simp: fine_def part_def)
qed

lemma cut_entry_ok:
  assumes e: "fine bytes good base e" "fst e < off + len" "off < iend e" and b: "base + 2 ^ 32 \<le> 2 ^ 64" "off + len < 2 ^ 64"
  shows "cut_entry S off len e acc = Some (acc @ cuts off len e)"
    "q \<in> set (cuts off len e) \<Longrightarrow> fine bytes good base q \<and> part q e \<and> (iend q \<le> off \<or> off + len \<le> fst q)"
proof -
  obtain i l v where ilv: "e = (i, l, v)" by (cases e)
  have small: "u64 (i + l) = i + l" "u64 (off + len) = off + len" using e b ilv by (auto simp: fine_def intro!: u64_small)
  have l: "\<exists>w. sm_split S 0 (off - i) v = Some w \<and> fine bytes good base (i, off - i, w) \<and> part (i, off - i, w) e" if "i < off"
    using split_part [OF e(1), of i off] e ilv that by simp
  have nlen: "u64_sub l (i + l - (off + len)) = off + len - i" if "off + len < i + l"
    using that e ilv b u64_sub_small [of "i + l - (off + len)" l] by (auto simp: fine_def)
  have r: "\<exists>w. sm_split S (off + len - i) (i + l - (off + len)) v = Some w \<and> fine bytes good base (off + len, i + l - (off + len), w) \<and>
      part (off + len, i + l - (off + len), w) e" if "off + len < i + l"
    using split_part [OF e(1), of "off + len" "i + l"] e ilv that by simp
  show "cut_entry S off len e acc = Some (acc @ cuts off len e)"
    using l r by (cases "i < off"; cases "off + len < i + l") (auto simp: cut_entry_def cuts_def ilv small nlen Let_def)
  assume "q \<in> set (cuts off len e)"
  then show "fine bytes good base q \<and> part q e \<and> (iend q \<le> off \<or> off + len \<le> fst q)"
    using l r by (auto simp: cuts_def ilv split: if_splits)
qed

lemma cuts_cover:
  assumes "fst e \<le> x" "x < iend e" "x < off \<or> off + len \<le> x"
  shows "\<exists>q\<in>set (cuts off len e). fst q \<le> x \<and> x < iend q"
  using assms by (auto simp: cuts_def)

lemma cuts_apart: "q \<in> set (cuts off len e) \<Longrightarrow> q' \<in> set (cuts off len e) \<Longrightarrow> q = q' \<or> iend q \<le> fst q' \<or> iend q' \<le> fst q"
  by (auto simp: cuts_def split: if_splits)

text \<open>A map made of parts of the entries of another, which together cover the offsets in \<open>P\<close>.\<close>

lemma extent_at_parts:
  assumes ap: "apart (set m)" "apart (set m')"
    and down: "\<And>q. q \<in> set m' \<Longrightarrow> \<exists>e\<in>set m. part q e \<and> (\<forall>x. fst q \<le> x \<longrightarrow> x < iend q \<longrightarrow> P x)"
    and up: "\<And>e x. e \<in> set m \<Longrightarrow> fst e \<le> x \<Longrightarrow> x < iend e \<Longrightarrow> P x \<Longrightarrow> \<exists>q\<in>set m'. fst q \<le> x \<and> x < iend q \<and> part q e"
  shows "extent_at bytes m' = (\<lambda>x. if P x then extent_at bytes m x else None)"
proof (rule extent_eqI)
  fix x y
  show "extent_at bytes m' x = Some y \<longleftrightarrow> (if P x then extent_at bytes m x else None) = Some y"
  proof
    assume "extent_at bytes m' x = Some y"
    then obtain q where q: "q \<in> set m'" "fst q \<le> x" "x < iend q" "y = bytes (snd (snd q)) ! (x - fst q)"
      using extent_at_iff [OF ap(2)] by metis
    obtain e where e: "e \<in> set m" "part q e" "P x" using down [OF q(1)] q(2,3) by blast
    then have "extent_at bytes m x = Some y"
      unfolding extent_at_iff [OF ap(1)] using q unfolding part_def by (intro bexI [of _ e]) auto
    then show "(if P x then extent_at bytes m x else None) = Some y" using e(3) by simp
  next
    assume "(if P x then extent_at bytes m x else None) = Some y"
    then have "P x" "extent_at bytes m x = Some y" by (auto split: if_splits)
    moreover from this obtain e where e: "e \<in> set m" "fst e \<le> x" "x < iend e" "y = bytes (snd (snd e)) ! (x - fst e)"
      using extent_at_iff [OF ap(1)] by metis
    ultimately obtain q where "q \<in> set m'" "fst q \<le> x" "x < iend q" "part q e" using up by blast
    then show "extent_at bytes m' x = Some y" unfolding extent_at_iff [OF ap(2)] e(4) part_def by metis
  qed
qed

text \<open>What is left of the entries in \<open>B\<close>, with the entries before and after them.\<close>

lemma erase_parts:
  assumes fine: "\<forall>e\<in>set (A @ B @ C). fine bytes good base e" and ap: "apart (set (A @ B @ C))"
    and b: "base + 2 ^ 32 \<le> 2 ^ 64" "off + len < 2 ^ 64" and A: "\<forall>e\<in>set A. iend e \<le> off"
    and B: "\<forall>e\<in>set B. fst e < off + len \<and> off < iend e" and C: "\<forall>e\<in>set C. off + len \<le> fst e"
  defines "E \<equiv> set (concat (map (cuts off len) B)) \<union> set (A @ C)"
  shows "q \<in> E \<Longrightarrow> \<exists>e\<in>set (A @ B @ C). fine bytes good base q \<and> part q e \<and> (iend q \<le> off \<or> off + len \<le> fst q) \<and>
      (q = e \<and> e \<notin> set B \<or> e \<in> set B \<and> q \<in> set (cuts off len e))"
    and "apart E"
proof -
  show parent: "\<exists>e\<in>set (A @ B @ C). fine bytes good base q \<and> part q e \<and> (iend q \<le> off \<or> off + len \<le> fst q) \<and>
      (q = e \<and> e \<notin> set B \<or> e \<in> set B \<and> q \<in> set (cuts off len e))" if q: "q \<in> E" for q
  proof (cases "q \<in> set (A @ C)")
    case True
    moreover from this have "q \<notin> set B" using A B C by force
    moreover have "part q q" by (simp add: part_def)
    ultimately show ?thesis using fine A C by auto
  next
    case False
    then obtain e where e: "e \<in> set B" "q \<in> set (cuts off len e)" using q unfolding E_def by auto
    moreover have "fine bytes good base e" using fine e(1) by simp
    then have "fine bytes good base q \<and> part q e \<and> (iend q \<le> off \<or> off + len \<le> fst q)"
      by (rule cut_entry_ok(2)) (use B b e in simp_all)
    moreover have "e \<in> set (A @ B @ C)" using e(1) by simp
    ultimately show ?thesis by blast
  qed
  show "apart E"
    unfolding apart_def
  proof (intro ballI)
    fix q q' assume "q \<in> E" "q' \<in> E"
    then obtain e e' where e: "e \<in> set (A @ B @ C)" "part q e" "q = e \<and> e \<notin> set B \<or> e \<in> set B \<and> q \<in> set (cuts off len e)"
      and e': "e' \<in> set (A @ B @ C)" "part q' e'" "q' = e' \<and> e' \<notin> set B \<or> e' \<in> set B \<and> q' \<in> set (cuts off len e')"
      using parent by meson
    show "q = q' \<or> iend q \<le> fst q' \<or> iend q' \<le> fst q"
    proof (cases "e = e'")
      case True
      then show ?thesis using e(3) e'(3) cuts_apart by blast
    next
      case False
      then have "iend e \<le> fst e' \<or> iend e' \<le> fst e" using ap e(1) e'(1) unfolding apart_def by blast
      then show ?thesis using e(2) e'(2) unfolding part_def by linarith
    qed
  qed
qed

lemma im_erase_ok:
  assumes ok: "im_ok bytes good base m" and len: "0 < len" "off + len < 2 ^ 64"
  shows "\<exists>m'. im_erase S off len m = Some m' \<and> im_ok bytes good base m' \<and>
    extent_at bytes m' = (\<lambda>x. if x < off \<or> off + len \<le> x then extent_at bytes m x else None) \<and>
    (\<forall>e\<in>set m'. iend e \<le> off \<or> off + len \<le> fst e)"
proof -
  obtain A B C where m: "m = A @ B @ C" "get_range m off len = (length A, length A + length B)" and A: "\<forall>e\<in>set A. iend e \<le> off"
      and B: "\<forall>e\<in>set B. fst e < off + len \<and> off < iend e" and C: "\<forall>e\<in>set C. off + len \<le> fst e"
    using get_range_ok [OF ok len] by blast
  have fine: "\<forall>e\<in>set m. fine bytes good base e" and b: "base + 2 ^ 32 \<le> 2 ^ 64" and ap: "apart (set m)" and mok: "mok m"
    using ok by (auto simp: im_ok_def)
  have cut: "cut_entry S off len e acc = Some (acc @ cuts off len e)" if "e \<in> set B" for e acc
    using cut_entry_ok(1) [OF _ _ _ b len(2)] fine B m(1) that by simp
  have "ofold (cut_entry S off len) xs acc = Some (acc @ concat (map (cuts off len) xs))" if "set xs \<subseteq> set B" for xs acc
    using that by (induction xs arbitrary: acc) (auto simp: cut)
  then have f: "ofold (cut_entry S off len) B [] = Some (concat (map (cuts off len) B))" by simp
  let ?ps = "concat (map (cuts off len) B)" and ?keep = "A @ C"
  note parts = erase_parts [OF fine [unfolded m(1)] ap [unfolded m(1)] b len(2) A B C, folded m(1)]
  have "\<forall>q\<in>set ?ps \<union> set ?keep. 0 < fst (snd q)" using parts(1) unfolding fine_def by blast
  then have key: "\<forall>p\<in>set ?ps \<union> set ?keep. \<forall>q\<in>set ?ps \<union> set ?keep. fst p = fst q \<longrightarrow> p = q"
    using apart_key [OF parts(2)] by blast
  have "mok ?keep" using sorted_take_drop [of "length A" "length A + length B" m] mok m(1) by (simp add: map_erase_def)
  from fold_map_insert [OF this key] obtain m' where m': "m' = fold (\<lambda>e m. fst (map_insert e m)) ?ps ?keep" "mok m'"
      "set m' = set ?ps \<union> set ?keep" by blast
  then have e: "im_erase S off len m = Some m'"
    using len(1) m f by (simp add: im_erase_def Let_def range_entries_def map_erase_def)
  have out: "iend q \<le> off \<or> off + len \<le> fst q" if "q \<in> set m'" for q using parts(1) [of q] that m'(3) by blast
  have ok': "im_ok bytes good base m'" using b m'(2,3) parts unfolding im_ok_def by metis
  have "extent_at bytes m' = (\<lambda>x. if x < off \<or> off + len \<le> x then extent_at bytes m x else None)"
  proof (rule extent_at_parts [OF ap])
    show "apart (set m')" using parts(2) m'(3) by simp
    show "\<exists>e\<in>set m. part q e \<and> (\<forall>x. fst q \<le> x \<longrightarrow> x < iend q \<longrightarrow> x < off \<or> off + len \<le> x)" if q: "q \<in> set m'" for q
      using parts(1) [of q] out [OF q] q m'(3) by fastforce
    fix e x assume e: "e \<in> set m" "fst e \<le> x" "x < iend e" "x < off \<or> off + len \<le> x"
    show "\<exists>q\<in>set m'. fst q \<le> x \<and> x < iend q \<and> part q e"
    proof (cases "e \<in> set B")
      case True
      obtain q where "q \<in> set (cuts off len e)" "fst q \<le> x" "x < iend q" using cuts_cover [OF e(2-4)] by blast
      moreover from this True have "part q e" using cut_entry_ok(2) [OF _ _ _ b len(2)] fine B e(1) by blast
      ultimately show ?thesis using True m'(3) by auto
    qed (use e m(1) m'(3) in \<open>auto simp: part_def\<close>)
  qed
  then show ?thesis using e ok' out by blast
qed

lemma part_refl: "part e e"
  by (simp add: part_def)

lemma merge_parts:
  assumes e: "fine bytes good base (o1, l1, v1)" "fine bytes good base (o1 + l1, l2, v2)"
  shows "fine bytes good base (o1, l1 + l2, sm_merge S v1 v2)"
    "part (o1, l1, v1) (o1, l1 + l2, sm_merge S v1 v2)" "part (o1 + l1, l2, v2) (o1, l1 + l2, sm_merge S v1 v2)"
proof -
  have "good (sm_merge S v1 v2)" "bytes (sm_merge S v1 v2) = bytes v1 @ bytes v2"
    using merge_law [of v1 v2] e by (auto simp: fine_def)
  with e show "fine bytes good base (o1, l1 + l2, sm_merge S v1 v2)"
    "part (o1, l1, v1) (o1, l1 + l2, sm_merge S v1 v2)" "part (o1 + l1, l2, v2) (o1, l1 + l2, sm_merge S v1 v2)"
    by (auto simp: fine_def part_def nth_append)
qed

lemma apart_merge:
  assumes "apart E" "(o1, l1, v1) \<in> E" "(o1 + l1, l2, v2) \<in> E" "\<forall>e\<in>E. 0 < fst (snd e)"
  shows "apart (insert (o1, l1 + l2, v) (E - {(o1, l1, v1), (o1 + l1, l2, v2)}))"
proof -
  have new: "iend f \<le> o1 \<or> o1 + (l1 + l2) \<le> fst f" if "f \<in> E" "f \<noteq> (o1, l1, v1)" "f \<noteq> (o1 + l1, l2, v2)" for f
  proof -
    have "f = e \<or> iend f \<le> fst e \<or> iend e \<le> fst f" if "e \<in> E" for e
      using assms(1) \<open>f \<in> E\<close> that unfolding apart_def by blast
    from this [OF assms(2)] this [OF assms(3)] that(2,3)
    have "iend f \<le> o1 \<or> o1 + l1 \<le> fst f" "iend f \<le> o1 + l1 \<or> o1 + l1 + l2 \<le> fst f" by simp_all
    moreover have "0 < fst (snd f)" using assms(4) that(1) by blast
    ultimately show ?thesis by linarith
  qed
  let ?M = "(o1, l1 + l2, v)" and ?E = "E - {(o1, l1, v1), (o1 + l1, l2, v2)}"
  have M: "iend f \<le> fst ?M \<or> iend ?M \<le> fst f" if "f \<in> ?E" for f
  proof -
    have "f \<in> E" "f \<noteq> (o1, l1, v1)" "f \<noteq> (o1 + l1, l2, v2)" using that by blast+
    from new [OF this] show ?thesis unfolding fst_conv snd_conv by blast
  qed
  have "e = f \<or> iend e \<le> fst f \<or> iend f \<le> fst e" if "e \<in> ?E" "f \<in> ?E" for e f
    using assms(1) that unfolding apart_def by blast
  with M show ?thesis unfolding apart_def Ball_def insert_iff by metis
qed

lemma merge_at_ok:
  assumes ok: "im_ok bytes good base m" and i: "i + 1 < length m" "iend (m ! i) = fst (m ! (i + 1))"
  shows "\<exists>m' p. merge_at S i m = Some (m', p) \<and> im_ok bytes good base m' \<and> extent_at bytes m' = extent_at bytes m \<and> p < length m'"
proof -
  obtain o1 l1 v1 l2 v2 where e: "m ! i = (o1, l1, v1)" "m ! (i + 1) = (o1 + l1, l2, v2)"
    using i(2) by (metis prod.collapse)
  have mem: "(o1, l1, v1) \<in> set m" "(o1 + l1, l2, v2) \<in> set m" using e i(1) nth_mem [of i m] nth_mem [of "i + 1" m] by auto
  have fine: "\<forall>e\<in>set m. fine bytes good base e" and ap: "apart (set m)" and mok: "mok m" and b: "base + 2 ^ 32 \<le> 2 ^ 64"
    using ok by (auto simp: im_ok_def)
  then have pos: "\<forall>e\<in>set m. 0 < fst (snd e)" unfolding fine_def by blast
  note M = merge_parts [OF fine [THEN bspec, OF mem(1)] fine [THEN bspec, OF mem(2)]]
  let ?M = "(o1, l1 + l2, sm_merge S v1 v2)" and ?E = "set m - {(o1, l1, v1), (o1 + l1, l2, v2)}"
  have E: "set (map_erase i (i + 2) m) = ?E"
    using set_erase_two [OF _ i(1)] mok_distinct [OF mok] e by (simp add: mkeys_def distinct_map)
  have "fst f \<noteq> o1" if "f \<in> ?E" for f using apart_key [OF ap pos _ mem(1), of f] that by (metis DiffE fst_conv insertCI)
  then have "o1 \<notin> fst ` set (map_erase i (i + 2) m)" unfolding E by blast
  from map_insert_new [OF sorted_take_drop [OF le_add1 mok] this, of "(l1 + l2, sm_merge S v1 v2)"] obtain m' p where
      m': "map_insert (o1, l1 + l2, sm_merge S v1 v2) (map_erase i (i + 2) m) = (m', p, True)" "mok m'" "set m' = insert ?M ?E" "p < length m'"
    unfolding E by (elim exE conjE) auto
  have "u64_sub (u64 (o1 + l1 + l2)) o1 = l1 + l2"
    using im_ok_u64 [OF ok mem(2)] u64_sub_small [of o1 "o1 + l1 + l2"] by simp
  then have "merge_at S i m = Some (m', p)" using m'(1) e by (simp add: merge_at_def)
  moreover have ap': "apart (set m')" unfolding m'(3) by (rule apart_merge [OF ap mem pos])
  then have "im_ok bytes good base m'" using m'(2,3) M(1) fine b by (simp add: im_ok_def)
  moreover have "extent_at bytes m = (\<lambda>x. if True then extent_at bytes m' x else None)"
  proof (rule extent_at_parts [OF ap' ap])
    show "\<exists>f\<in>set m'. part q f \<and> (\<forall>x. fst q \<le> x \<longrightarrow> x < iend q \<longrightarrow> True)" if "q \<in> set m" for q
      using that M(2,3) part_refl [of q] unfolding m'(3) by blast
    fix f x assume f: "f \<in> set m'" "fst f \<le> x" "x < iend f"
    show "\<exists>q\<in>set m. fst q \<le> x \<and> x < iend q \<and> part q f"
    proof (cases "f = ?M")
      case True
      then show ?thesis using f mem M(2,3)
        by (cases "x < o1 + l1", intro bexI [of _ "(o1, l1, v1)"], simp_all, intro bexI [of _ "(o1 + l1, l2, v2)"], simp_all)
    qed (use f m'(3) part_refl in blast)
  qed
  ultimately show ?thesis using m'(4) by auto
qed

lemma mergeable_end: "im_ok bytes good base m \<Longrightarrow> i < length m \<Longrightarrow> mergeable S i m \<Longrightarrow> iend (m ! i) = fst (m ! (i + 1))"
  using im_ok_u64(1) [of bytes good base m "m ! i"] by (simp add: mergeable_def)

lemma try_merge_ok:
  assumes ok: "im_ok bytes good base m" and i: "i < length m"
  shows "\<exists>m'. try_merge S i m = Some m' \<and> im_ok bytes good base m' \<and> extent_at bytes m' = extent_at bytes m"
proof -
  have "\<exists>m1 i1. (if i \<noteq> 0 \<and> mergeable S (i - 1) m then merge_at S (i - 1) m else Some (m, i)) = Some (m1, i1) \<and>
      im_ok bytes good base m1 \<and> extent_at bytes m1 = extent_at bytes m \<and> i1 < length m1"
    using merge_at_ok [OF ok, of "i - 1"] mergeable_end [OF ok, of "i - 1"] ok i by auto
  then obtain m1 i1 where 1: "(if i \<noteq> 0 \<and> mergeable S (i - 1) m then merge_at S (i - 1) m else Some (m, i)) = Some (m1, i1)"
      "im_ok bytes good base m1" "extent_at bytes m1 = extent_at bytes m" "i1 < length m1" by blast
  have "\<exists>m2 i2. (if i1 + 1 < length m1 \<and> mergeable S i1 m1 then merge_at S i1 m1 else Some (m1, i1)) = Some (m2, i2) \<and>
      im_ok bytes good base m2 \<and> extent_at bytes m2 = extent_at bytes m1"
    using merge_at_ok [OF 1(2), of i1] mergeable_end [OF 1(2), of i1] 1(2,4) by auto
  then show ?thesis using 1 by (auto simp: try_merge_def)
qed

lemma im_insert_ok:
  assumes ok: "im_ok bytes good base m" and v: "fine bytes good base (off, len, v)"
  shows "\<exists>m'. im_insert S off len v m = Some m' \<and> im_ok bytes good base m' \<and>
    extent_at bytes m' = (\<lambda>x. if off \<le> x \<and> x < off + len then Some (bytes v ! (x - off)) else extent_at bytes m x)"
proof -
  have len: "0 < len" "off + len < 2 ^ 64" "len = sm_length S v" using ok v length_law by (auto simp: fine_def im_ok_def)
  obtain m1 where m1: "im_erase S off len m = Some m1" "im_ok bytes good base m1"
      "extent_at bytes m1 = (\<lambda>x. if x < off \<or> off + len \<le> x then extent_at bytes m x else None)"
      "\<forall>e\<in>set m1. iend e \<le> off \<or> off + len \<le> fst e"
    using im_erase_ok [OF ok len(1,2)] by blast
  have p1: "mok m1" "\<forall>e\<in>set m1. fine bytes good base e" "apart (set m1)" using m1(2) by (auto simp: im_ok_def)
  have "fst e \<noteq> off" if "e \<in> set m1" for e using m1(4) p1(2) that len(1) by (force simp: fine_def)
  then have "off \<notin> fst ` set m1" by blast
  from map_insert_new [OF p1(1) this] obtain m2 p where m2: "map_insert (off, len, v) m1 = (m2, p, True)" "mok m2"
      "set m2 = insert (off, len, v) (set m1)" "p < length m2" by blast
  have ap2: "apart (set m2)" using p1(3) m1(4) unfolding m2(3) apart_def by auto
  then have ok2: "im_ok bytes good base m2" using m2(2,3) v ok p1(2) by (simp add: im_ok_def)
  have "extent_at bytes m2 = (\<lambda>x. if off \<le> x \<and> x < off + len then Some (bytes v ! (x - off)) else extent_at bytes m x)"
  proof (rule extent_eqI)
    fix x y
    have "extent_at bytes m2 x = Some y \<longleftrightarrow> off \<le> x \<and> x < off + len \<and> y = bytes v ! (x - off) \<or> extent_at bytes m1 x = Some y"
      unfolding extent_at_iff [OF ap2] extent_at_iff [OF p1(3)] m2(3) by auto
    then show "extent_at bytes m2 x = Some y \<longleftrightarrow>
        (if off \<le> x \<and> x < off + len then Some (bytes v ! (x - off)) else extent_at bytes m x) = Some y"
      unfolding m1(3) by auto
  qed
  with try_merge_ok [OF ok2 m2(4)] show ?thesis using len m1(1) m2(1) by (auto simp: im_insert_def)
qed

lemma part_trans:
  assumes "part p q" "part q e"
  shows "part p e"
proof -
  have le: "fst e \<le> fst q" "fst q \<le> fst p" "iend p \<le> iend q" "iend q \<le> iend e" using assms by (simp_all add: part_def)
  have "bytes (snd (snd p)) ! (x - fst p) = bytes (snd (snd e)) ! (x - fst e)" if "fst p \<le> x" "x < iend p" for x
  proof -
    have "fst q \<le> x" "x < iend q" using le that by linarith+
    then show ?thesis using assms that unfolding part_def by metis
  qed
  with le show ?thesis by (simp add: part_def)
qed

lemma intersect_entry_ok:
  assumes e: "fine bytes good base e" "fst e < off + len" "off < iend e" and b: "base + 2 ^ 32 \<le> 2 ^ 64" "0 < len" "off + len < 2 ^ 64"
  shows "\<exists>w. intersect_entry S off len e ret =
      im_insert S (max (fst e) off) (min (iend e) (off + len) - max (fst e) off) w ret \<and>
    fine bytes good base (max (fst e) off, min (iend e) (off + len) - max (fst e) off, w) \<and>
    part (max (fst e) off, min (iend e) (off + len) - max (fst e) off, w) e"
proof -
  obtain i l v where ilv: "e = (i, l, v)" by (cases e)
  have fin: "i + l < 2 ^ 64" using e(1) b(1) ilv by (auto simp: fine_def)
  have 1: "\<exists>v1. (if i < off then do { let l = u64_sub l (off - i); v \<leftarrow> sm_split S (off - i) l v; Some (off, l, v) } else Some (i, l, v)) =
      Some (max i off, i + l - max i off, v1) \<and> fine bytes good base (max i off, i + l - max i off, v1) \<and> part (max i off, i + l - max i off, v1) e"
  proof (cases "i < off")
    case True
    have "u64_sub l (off - i) = i + l - off" using True e(3) fin ilv u64_sub_small [of "off - i" l] by simp
    moreover obtain w where "sm_split S (off - i) (i + l - off) v = Some w" "fine bytes good base (off, i + l - off, w)" "part (off, i + l - off, w) e"
      using split_part [OF e(1), of off "i + l"] True e ilv by auto
    ultimately show ?thesis using True by (simp add: Let_def max_def)
  next
    case False
    then show ?thesis using e(1) ilv part_refl by (simp add: max_def)
  qed
  obtain v1 where v1: "(if i < off then do { let l = u64_sub l (off - i); v \<leftarrow> sm_split S (off - i) l v; Some (off, l, v) } else Some (i, l, v)) =
      Some (max i off, i + l - max i off, v1)" "fine bytes good base (max i off, i + l - max i off, v1)" "part (max i off, i + l - max i off, v1) e"
    using 1 by blast
  let ?a = "max i off" and ?b = "min (i + l) (off + len)"
  have ab: "?a < ?b" "?a + (i + l - ?a) = i + l" "u64 (off + len) = off + len" "u64 (i + l) = i + l" using e ilv b fin by (auto simp: u64_small fine_def)
  have 2: "\<exists>w. (if u64 (off + len) < u64 (?a + (i + l - ?a)) then do {
        let l = u64_sub (i + l - ?a) (u64 (?a + (i + l - ?a)) - u64 (off + len)); v \<leftarrow> sm_split S 0 l v1; Some (?a, l, v) } else Some (?a, i + l - ?a, v1)) =
      Some (?a, ?b - ?a, w) \<and> fine bytes good base (?a, ?b - ?a, w) \<and> part (?a, ?b - ?a, w) e"
  proof (cases "off + len < i + l")
    case True
    have "u64_sub (i + l - ?a) (i + l - (off + len)) = off + len - ?a"
      using True ab(1) fin u64_sub_small [of "i + l - (off + len)" "i + l - ?a"] by auto
    moreover obtain w where "sm_split S 0 (off + len - ?a) v1 = Some w" "fine bytes good base (?a, off + len - ?a, w)"
        "part (?a, off + len - ?a, w) (?a, i + l - ?a, v1)"
      using split_part [OF v1(2), of ?a "off + len"] True ab(1) by auto
    ultimately show ?thesis using True ab part_trans [OF _ v1(3)] by (simp add: Let_def min_def)
  next
    case False
    then show ?thesis using v1(2,3) ab by (simp add: min_def)
  qed
  then show ?thesis using v1(1) unfolding ilv intersect_entry_def by auto
qed

lemma extent_at_snoc:
  assumes "apart (set (xs @ [e]))" "distinct (xs @ [e])"
  shows "extent_at bytes (xs @ [e]) x = (if fst e \<le> x \<and> x < iend e then Some (bytes (snd (snd e)) ! (x - fst e)) else extent_at bytes xs x)"
proof -
  have "\<not> (fst f \<le> x \<and> x < iend f)" if "f \<in> set xs" "fst e \<le> x" "x < iend e" for f
  proof -
    have "f \<noteq> e" using that(1) assms(2) by auto
    then have "iend f \<le> fst e \<or> iend e \<le> fst f" using assms(1) that(1) unfolding apart_def by auto
    then show ?thesis using that(2,3) by linarith
  qed
  then have "find (\<lambda>f. fst f \<le> x \<and> x < iend f) xs = None" if "fst e \<le> x \<and> x < iend e" using that unfolding find_None_iff by blast
  moreover have "find P (xs @ [e]) = (case find P xs of None \<Rightarrow> if P e then Some e else None | Some f \<Rightarrow> Some f)" for P
    by (induction xs) auto
  ultimately show ?thesis by (auto simp: extent_at_def split: option.splits)
qed

text \<open>The offsets of a range that \<open>xs\<close> covers.\<close>

definition within :: "nat \<Rightarrow> nat \<Rightarrow> 'v interval_map \<Rightarrow> nat \<Rightarrow> 'b option" where
  "within off len xs x = (if off \<le> x \<and> x < off + len then extent_at bytes xs x else None)"

lemma intersect_step:
  assumes e: "fine bytes good base e" "fst e < off + len" "off < iend e" and b: "base + 2 ^ 32 \<le> 2 ^ 64" "0 < len" "off + len < 2 ^ 64"
    and xs: "apart (set (xs @ [e]))" "distinct (xs @ [e])" and ret: "im_ok bytes good base ret" "extent_at bytes ret = within off len xs"
  shows "\<exists>m'. intersect_entry S off len e ret = Some m' \<and> im_ok bytes good base m' \<and> extent_at bytes m' = within off len (xs @ [e])"
proof -
  let ?a = "max (fst e) off" and ?b = "min (iend e) (off + len)"
  obtain w where w: "intersect_entry S off len e ret = im_insert S ?a (?b - ?a) w ret" "fine bytes good base (?a, ?b - ?a, w)"
      "part (?a, ?b - ?a, w) e"
    using intersect_entry_ok [OF e b] by blast
  have ab: "?a + (?b - ?a) = ?b" using e b(2) by (auto simp: fine_def)
  obtain m' where m': "im_insert S ?a (?b - ?a) w ret = Some m'" "im_ok bytes good base m'"
      "extent_at bytes m' = (\<lambda>x. if ?a \<le> x \<and> x < ?b then Some (bytes w ! (x - ?a)) else extent_at bytes ret x)"
    using im_insert_ok [OF ret(1) w(2)] unfolding ab by blast
  have "bytes w ! (x - ?a) = bytes (snd (snd e)) ! (x - fst e)" if "?a \<le> x" "x < ?b" for x
    using w(3) that ab unfolding part_def by auto
  then have "extent_at bytes m' x = within off len (xs @ [e]) x" for x
    unfolding m'(3) ret(2) within_def extent_at_snoc [OF xs] by auto
  with w(1) m'(1,2) show ?thesis by auto
qed

lemma im_intersect_ok:
  assumes ok: "im_ok bytes good base m" and len: "0 < len" "off + len < 2 ^ 64"
  shows "\<exists>m'. im_intersect S off len m = Some m' \<and> im_ok bytes good base m' \<and> extent_at bytes m' = within off len m"
proof -
  obtain A B C where m: "m = A @ B @ C" "get_range m off len = (length A, length A + length B)" and A: "\<forall>e\<in>set A. iend e \<le> off"
      and B: "\<forall>e\<in>set B. fst e < off + len \<and> off < iend e" and C: "\<forall>e\<in>set C. off + len \<le> fst e"
    using get_range_ok [OF ok len] by blast
  have fine: "\<forall>e\<in>set m. fine bytes good base e" and b: "base + 2 ^ 32 \<le> 2 ^ 64" and ap: "apart (set m)" and mok: "mok m"
    using ok by (auto simp: im_ok_def)
  have dist: "distinct B" using mok_distinct [OF mok] m(1) by (simp add: mkeys_def distinct_map)
  have apB: "apart E" if "E \<subseteq> set B" for E using apart_mono [OF ap] that m(1) by auto
  have "\<exists>m'. ofold (intersect_entry S off len) B [] = Some m' \<and> im_ok bytes good base m' \<and> extent_at bytes m' = within off len (take (length B) B)"
  proof (rule ofold_invariant [where P = "\<lambda>j m'. im_ok bytes good base m' \<and> extent_at bytes m' = within off len (take j B)"])
    show "im_ok bytes good base [] \<and> extent_at bytes [] = within off len (take 0 B)"
      using b by (auto simp: im_ok_def apart_def extent_at_def within_def)
    fix j ret assume j: "j < length B" and ret: "im_ok bytes good base ret \<and> extent_at bytes ret = within off len (take j B)"
    have e: "B ! j \<in> set B" "fine bytes good base (B ! j)" using j fine m(1) by auto
    have "take (Suc j) B = take j B @ [B ! j]" using j by (rule take_Suc_conv_app_nth)
    moreover have "apart (set (take (Suc j) B))" "distinct (take (Suc j) B)" by (rule apB [OF set_take_subset], rule distinct_take [OF dist])
    ultimately show "\<exists>m'. intersect_entry S off len (B ! j) ret = Some m' \<and> im_ok bytes good base m' \<and> extent_at bytes m' = within off len (take (Suc j) B)"
      using intersect_step [OF e(2) _ _ b len, of "take j B" ret] B e(1) ret by simp
  qed
  moreover have "extent_at bytes B x = extent_at bytes m x" if "off \<le> x" "x < off + len" for x
  proof -
    have "e \<in> set B" if "e \<in> set m" "fst e \<le> x" "x < iend e" for e
      using that \<open>off \<le> x\<close> \<open>x < off + len\<close> A C m(1) by fastforce
    then have "extent_at bytes B x = Some y \<longleftrightarrow> extent_at bytes m x = Some y" for y
      unfolding extent_at_iff [OF ap] extent_at_iff [OF apB [OF order_refl]] using m(1) by auto
    then show ?thesis by (metis option.exhaust)
  qed
  then have "within off len B = within off len m" by (auto simp: within_def)
  ultimately show ?thesis using m by (auto simp: im_intersect_def range_entries_def)
qed

end

text \<open>Buffer lists can be cut and joined.\<close>

interpretation bl_sm: split_merger bl_split_merge "bl_bytes h" "\<lambda>bl. bl_ok h bl \<and> bl_length bl < 2 ^ 32" for h
proof
  fix v off n assume v: "bl_ok h v \<and> bl_length v < 2 ^ 32" and le: "off + n \<le> length (bl_bytes h v)"
  then have "off + n \<le> bl_length v" by (simp add: buf_simps)
  moreover from this v have "u32 off = off" "u32 n = n" by (simp_all add: u32_def)
  ultimately show "\<exists>v'. sm_split bl_split_merge off n v = Some v' \<and> (bl_ok h v' \<and> bl_length v' < 2 ^ 32) \<and>
      bl_bytes h v' = take n (drop off (bl_bytes h v))"
    using substr_of_spec [of h v off n] v by (auto simp: bl_split_merge_def)
qed (auto simp: bl_split_merge_def claim_append_def buf_simps)

section \<open>Properties\<close>

definition extent_map_ok :: "heap \<Rightarrow> nat \<Rightarrow> bufferlist interval_map \<Rightarrow> bool" where
  "extent_map_ok h = im_ok (bl_bytes h) (\<lambda>bl. bl_ok h bl \<and> bl_length bl < 2 ^ 32)"

text \<open>C10: an extent map implements a partial function from offsets to bytes: \<open>insert\<close> overwrites it on a range,
  \<open>erase\<close> makes it undefined there and \<open>intersect\<close> restricts it to the range. None of them aborts, and
  the extents stay sorted, not empty, apart, and as long as their buffers.\<close>

theorem extent_map_refines:
  assumes "extent_map_ok h base m" "bl_ok h bl" "bl_length bl = len" "0 < len" "base \<le> off" "off + len < base + 2 ^ 32"
  shows "(\<exists>m'. im_insert bl_split_merge off len bl m = Some m' \<and> extent_map_ok h base m' \<and>
      extent_at (bl_bytes h) m' = (\<lambda>x. if off \<le> x \<and> x < off + len then Some (bl_bytes h bl ! (x - off)) else extent_at (bl_bytes h) m x)) \<and>
    (\<exists>m'. im_erase bl_split_merge off len m = Some m' \<and> extent_map_ok h base m' \<and>
      extent_at (bl_bytes h) m' = (\<lambda>x. if x < off \<or> off + len \<le> x then extent_at (bl_bytes h) m x else None)) \<and>
    (\<exists>m'. im_intersect bl_split_merge off len m = Some m' \<and> extent_map_ok h base m' \<and>
      extent_at (bl_bytes h) m' = (\<lambda>x. if off \<le> x \<and> x < off + len then extent_at (bl_bytes h) m x else None))"
proof -
  have m: "im_ok (bl_bytes h) (\<lambda>bl. bl_ok h bl \<and> bl_length bl < 2 ^ 32) base m" using assms(1) by (simp add: extent_map_ok_def)
  have "fine (bl_bytes h) (\<lambda>bl. bl_ok h bl \<and> bl_length bl < 2 ^ 32) base (off, len, bl)"
    using assms(2-) by (auto simp: fine_def buf_simps)
  moreover have "off + len < 2 ^ 64" using assms(6) m by (simp add: im_ok_def)
  ultimately show ?thesis
    using bl_sm.im_insert_ok [OF m] bl_sm.im_erase_ok [OF m assms(4)] bl_sm.im_intersect_ok [OF m assms(4)]
    unfolding extent_map_ok_def bl_sm.within_def [abs_def] by blast
qed

text \<open>Two bytes written over the middle of four.\<close>

theorem extent_map_refines_witness:
  "\<exists>m'. im_insert bl_split_merge 1 2 [\<lparr>p_raw = 1, p_off = 0, p_len = 2\<rparr>] [(0, 4, [\<lparr>p_raw = 0, p_off = 0, p_len = 4\<rparr>])] = Some m' \<and>
    extent_at (bl_bytes \<lparr>raws = [\<lparr>raw_addr = 0, raw_data = [1, 2, 3, 4]\<rparr>, \<lparr>raw_addr = 64, raw_data = [8, 9]\<rparr>], place = (\<lambda>_. 1), junk = (\<lambda>_ _. 1)\<rparr>) m' 2 = Some 9"
proof -
  let ?h = "\<lparr>raws = [\<lparr>raw_addr = 0, raw_data = [1, 2, 3, 4]\<rparr>, \<lparr>raw_addr = 64, raw_data = [8, 9]\<rparr>], place = (\<lambda>_. 1), junk = (\<lambda>_ _. 1)\<rparr>"
  let ?m = "[(0, 4, [\<lparr>p_raw = 0, p_off = 0, p_len = 4\<rparr>])]" and ?bl = "[\<lparr>p_raw = 1, p_off = 0, p_len = 2\<rparr>]"
  have m: "extent_map_ok ?h 0 ?m"
    by (simp add: extent_map_ok_def im_ok_def fine_def apart_def mok_def buf_simps ptr_ok_def ptr_bytes_def)
  have bl: "bl_ok ?h ?bl" "bl_length ?bl = 2" "bl_bytes ?h ?bl = [8, 9]" by (simp_all add: buf_simps ptr_ok_def ptr_bytes_def)
  have w: "0 < (2 :: nat)" "(0 :: nat) \<le> 1" "(1 :: nat) + 2 < 0 + 2 ^ 32" by simp_all
  from extent_map_refines [OF m bl(1,2) w] obtain m' where "im_insert bl_split_merge 1 2 ?bl ?m = Some m'"
      "extent_at (bl_bytes ?h) m' = (\<lambda>x. if 1 \<le> x \<and> x < 1 + 2 then Some (bl_bytes ?h ?bl ! (x - 1)) else extent_at (bl_bytes ?h) ?m x)"
    by blast
  then show ?thesis using bl(3) by (intro exI [of _ m']) simp
qed

end
