(* ===== verification/EC_Backend.thy ===== *)
theory EC_Backend
  imports EC_Pool Hash_Info Interval_Map
begin

text \<open>
  Objects of an erasure coded pool on the OSD: writing stripes with their checksums
  (\<open>encode_and_write\<close> of \<open>src/src/osd/ECTransaction.cc\<close>), the record of checksums kept as an attribute, deep scrub
  of a shard, and the answer to a client that reads a range (\<open>src/src/osd/ECBackend.cc\<close>). The store
  is a parameter: \<open>ObjectStore::read\<close>, \<open>stat\<close> and \<open>getattr\<close> give their results for the shard at hand.
\<close>

section \<open>The record of checksums of an object\<close>

text \<open>\<open>get_hash_info\<close>: \<open>cached\<close> is what the registry of live records finds, \<open>stat\<close> the result and the size the store
  gives, \<open>getattr\<close> the result and value of the attribute; \<open>attrs\<close>, if given, is looked at instead.
  The registry holds weak references, so an entry it creates lives as long as the result. An
  attribute that cannot be decoded throws.\<close>

definition get_hash_info ::
    "codec \<Rightarrow> hash_info option \<Rightarrow> int \<times> nat \<Rightarrow> int \<times> byte list \<Rightarrow> bool \<Rightarrow> (string, byte list) omap option \<Rightarrow> hash_info option option" where
  "get_hash_info C cached stat getattr checks attrs =
     (case cached of
        Some ref \<Rightarrow> Some (Some ref)
      | None \<Rightarrow>
          let hinfo = hash_info_new (get_chunk_count C) in
          if fst stat < 0 then Some (Some hinfo)
          else let bl = (case attrs of
                   Some as \<Rightarrow> mref [] as ''hinfo_key''
                 | None \<Rightarrow> if fst getattr < 0 then [] else snd getattr)
               in if bl \<noteq> [] then
                    (case hash_info_decode bl of
                      Inl e \<Rightarrow> None
                    | Inr (hinfo, rest) \<Rightarrow>
                        Some (if checks \<and> total_chunk_size hinfo \<noteq> snd stat then None else Some hinfo))
                  else Some (if 0 < snd stat then None else Some hinfo))"

section \<open>Deep scrub\<close>

text \<open>\<open>ObjectStore::read\<close> of the shard: offset and length, the result (a length or an error) and the bytes.\<close>

type_synonym store_read = "nat \<Rightarrow> nat \<Rightarrow> heap \<Rightarrow> heap \<times> int \<times> bufferlist"

record scrub_object =
  attrs :: "(string, byte list) omap"
  obj_size :: nat
  omap_digest :: crc
  digest :: crc
  negative :: bool
  digest_present :: bool
  omap_digest_present :: bool
  read_error :: bool
  stat_error :: bool
  ec_hash_mismatch :: bool
  ec_size_mismatch :: bool

definition scrub_object_new :: scrub_object where
  "scrub_object_new =
     \<lparr>attrs = [], obj_size = 2 ^ 64 - 1, omap_digest = 0, digest = 0, negative = False, digest_present = False,
      omap_digest_present = False, read_error = False, stat_error = False, ec_hash_mismatch = False, ec_size_mismatch = False\<rparr>"

text \<open>The loop reads \<open>stride\<close> bytes at a time; nothing but the store bounds it.\<close>

partial_function (option) scrub_loop ::
    "crc_func \<Rightarrow> store_read \<Rightarrow> nat \<Rightarrow> nat \<Rightarrow> heap \<Rightarrow> nat \<Rightarrow> crc \<Rightarrow> crc_maps \<Rightarrow> (int \<times> heap \<times> nat \<times> crc \<times> crc_maps) option" where
  "scrub_loop F rd cs stride h pos crc m =
     (case rd pos stride h of (h, r, bl) \<Rightarrow>
        if r < 0 then Some (r, h, pos, crc, m)
        else if bl_length bl mod cs \<noteq> 0 then Some (- EIO, h, pos, crc, m)
        else do {
          (crc, m) \<leftarrow> list_crc32c F h bl crc m;
          let pos = u64 (pos + nat r);
          if u32_of_int r < stride then Some (r, h, pos, crc, m)
          else scrub_loop F rd cs stride h pos crc m })"

definition scrub_stride :: "stripe_info \<Rightarrow> nat \<Rightarrow> nat" where
  "scrub_stride s stride =
     (if stride mod chunk_size s \<noteq> 0 then u64 (stride + (chunk_size s - stride mod chunk_size s)) else stride)"

definition be_deep_scrub ::
    "crc_func \<Rightarrow> store_read \<Rightarrow> codec \<Rightarrow> stripe_info \<Rightarrow> nat \<Rightarrow> bool \<Rightarrow> int \<Rightarrow> hash_info option \<Rightarrow> int \<times> nat \<Rightarrow> crc \<Rightarrow>
     scrub_object \<Rightarrow> heap \<Rightarrow> crc_maps \<Rightarrow> (scrub_object \<times> heap \<times> crc_maps) option" where
  "be_deep_scrub F rd C s osd_deep_scrub_stride allows_ecoverwrites shard cached stat seed ob h m = do {
     assert_that (chunk_size s \<noteq> 0);
     (r, h, pos, crc, m) \<leftarrow> scrub_loop F rd (chunk_size s) (scrub_stride s osd_deep_scrub_stride) h 0 (- 1) m;
     if r = - EIO then Some (ob\<lparr>read_error := True\<rparr>, h, m)
     else do {
       hinfo \<leftarrow> get_hash_info C cached stat (0, []) False (Some (attrs ob));
       (case hinfo of
         None \<Rightarrow> Some (ob\<lparr>read_error := True, digest_present := False\<rparr>, h, m)
       | Some hinfo \<Rightarrow>
           if \<not> allows_ecoverwrites then do {
             assert_that (has_chunk_hash hinfo);
             if total_chunk_size hinfo \<noteq> pos then Some (ob\<lparr>ec_size_mismatch := True\<rparr>, h, m)
             else do {
               own \<leftarrow> get_chunk_hash hinfo shard;
               if own \<noteq> crc then Some (ob\<lparr>ec_hash_mismatch := True\<rparr>, h, m)
               else do {
                 first \<leftarrow> get_chunk_hash hinfo 0;
                 Some (ob\<lparr>digest := first, digest_present := True, omap_digest := seed, omap_digest_present := True\<rparr>, h, m) } } }
           else Some (ob\<lparr>digest := 0, digest_present := True, omap_digest := seed, omap_digest_present := True\<rparr>, h, m)) } }"

section \<open>Writing stripes\<close>

text \<open>What a transaction of a shard is told to do: to which collection and object, and what.\<close>

datatype txn_op = Set_alloc_hint nat nat nat | Write nat nat bufferlist nat

type_synonym ('g, 'o) transactions = "(int, (('g \<times> 'o \<times> int) \<times> txn_op) list) omap"

definition append_hint_flags :: nat where
  "append_hint_flags = 1 + 16"

definition write_shard ::
    "'g \<Rightarrow> 'o \<Rightarrow> stripe_info \<Rightarrow> nat \<Rightarrow> nat \<Rightarrow> nat \<Rightarrow> chunks \<Rightarrow> int \<times> (('g \<times> 'o \<times> int) \<times> txn_op) list \<Rightarrow>
     (int \<times> (('g \<times> 'o \<times> int) \<times> txn_op) list) option" where
  "write_shard pgid oid s before_size offset flags buffers i = do {
     enc_bl \<leftarrow> mget buffers (fst i);
     off \<leftarrow> logical_to_prev_chunk_offset s offset;
     let target = (pgid, oid, fst i);
     Some (fst i, snd i @
       (if before_size \<le> offset then [(target, Set_alloc_hint 0 0 append_hint_flags)] else []) @
       [(target, Write off (bl_length enc_bl) enc_bl flags)]) }"

definition encode_and_write ::
    "crc_func \<Rightarrow> 'g \<Rightarrow> 'o \<Rightarrow> stripe_info \<Rightarrow> codec \<Rightarrow> int set \<Rightarrow> nat \<Rightarrow> bufferlist \<Rightarrow> nat \<Rightarrow>
     hash_info \<Rightarrow> bufferlist interval_map \<Rightarrow> ('g, 'o) transactions \<Rightarrow> heap \<Rightarrow> crc_maps \<Rightarrow>
     (hash_info \<times> bufferlist interval_map \<times> ('g, 'o) transactions \<times> heap \<times> crc_maps) option" where
  "encode_and_write F pgid oid s C want offset bl flags hinfo written transactions h m = do {
     before_size \<leftarrow> get_total_logical_size hinfo s;
     aligned \<leftarrow> logical_offset_is_stripe_aligned s offset;
     assert_that aligned;
     aligned \<leftarrow> logical_offset_is_stripe_aligned s (bl_length bl);
     assert_that aligned;
     assert_that (bl_length bl \<noteq> 0);
     (h, r, buffers) \<leftarrow> ecutil_encode s C bl want [] h;
     assert_that (r = 0);
     written \<leftarrow> im_insert bl_split_merge offset (bl_length bl) bl written;
     (hinfo, m) \<leftarrow>
       (if before_size \<le> offset then do {
          assert_that (offset = before_size);
          old_size \<leftarrow> aligned_logical_offset_to_chunk_offset s offset;
          hash_info_append F h old_size buffers (hinfo, m) }
        else Some (hinfo, m));
     transactions \<leftarrow> those (map (write_shard pgid oid s before_size offset flags buffers) transactions);
     Some (hinfo, written, transactions, h, m) }"

section \<open>Answering a client\<close>

text \<open>\<open>CallClientContexts::finish\<close>: for each range that was asked for, what the shards returned for the stripes
  around it.\<close>

type_synonym returned = "nat \<times> nat \<times> (int \<times> bufferlist) list"

definition finish_one ::
    "stripe_info \<Rightarrow> codec \<Rightarrow> nat \<times> nat \<Rightarrow> returned \<Rightarrow> bufferlist interval_map \<Rightarrow> heap \<Rightarrow> (int \<times> bufferlist interval_map \<times> heap) option" where
  "finish_one s C rd ret result h = do {
     adjusted \<leftarrow> offset_len_to_stripe_bounds s rd;
     assert_that (fst ret = fst adjusted \<and> fst (snd ret) = snd adjusted);
     let to_decode = fold (\<lambda>(shard, bl). mput shard bl) (snd (snd ret)) [];
     (h, r, bl) \<leftarrow> ecutil_decode_concat s C to_decode [] h;
     if r < 0 then Some (r, result, h)
     else do {
       let skip = u64_sub (fst rd) (fst adjusted);
       trimmed \<leftarrow> substr_of bl (u32 skip) (u32 (min (snd rd) (u64_sub (bl_length bl) skip)));
       result \<leftarrow> im_insert bl_split_merge (fst rd) (bl_length trimmed) trimmed result;
       Some (0, result, h) } }"

fun finish_reads ::
    "stripe_info \<Rightarrow> codec \<Rightarrow> (nat \<times> nat) list \<Rightarrow> returned list \<Rightarrow> bufferlist interval_map \<Rightarrow> heap \<Rightarrow> (int \<times> bufferlist interval_map \<times> heap) option" where
  "finish_reads s C [] returned result h = Some (0, result, h)"
| "finish_reads s C (rd # to_read) [] result h = None"
| "finish_reads s C (rd # to_read) (ret # returned) result h = do {
     (r, result, h) \<leftarrow> finish_one s C rd ret result h;
     if r < 0 then Some (r, result, h) else finish_reads s C to_read returned result h }"

definition client_read_finish ::
    "stripe_info \<Rightarrow> codec \<Rightarrow> int \<Rightarrow> (int \<times> int) list \<Rightarrow> (nat \<times> nat) list \<Rightarrow> returned list \<Rightarrow> heap \<Rightarrow>
     (int \<times> bufferlist interval_map \<times> heap) option" where
  "client_read_finish s C r errors to_read returned h =
     (if r \<noteq> 0 then Some (r, [], h)
      else do {
        assert_that (length returned = length to_read);
        assert_that (errors = []);
        finish_reads s C to_read returned [] h })"

section \<open>Scrubbing reads the whole shard\<close>

text \<open>What the interface of the store promises: the bytes there are, and how many.\<close>

definition reads_back :: "store_read \<Rightarrow> byte list \<Rightarrow> bool" where
  "reads_back rd D \<longleftrightarrow> (\<forall>off len h. 0 < len \<longrightarrow> len < 2 ^ 31 \<longrightarrow>
     (\<exists>h' bl. rd off len h = (h', int (length (take len (drop off D))), bl) \<and> frame {} h h' \<and> bl_ok h' bl \<and>
        bl_bytes h' bl = take len (drop off D)))"

text \<open>A store that keeps the shard in memory is one.\<close>

definition memory_store :: "byte list \<Rightarrow> store_read" where
  "memory_store D off len h =
     (let d = take len (drop off D) in
      if d = [] then (h, 0, [])
      else (h\<lparr>raws := raws h @ [\<lparr>raw_addr = 0, raw_data = d\<rparr>]\<rparr>, int (length d),
        [\<lparr>p_raw = length (raws h), p_off = 0, p_len = length d\<rparr>]))"

lemma memory_store_reads: "reads_back (memory_store D) D"
  unfolding reads_back_def
proof (intro allI impI)
  fix off len h
  show "\<exists>h' bl. memory_store D off len h = (h', int (length (take len (drop off D))), bl) \<and> frame {} h h' \<and> bl_ok h' bl \<and>
      bl_bytes h' bl = take len (drop off D)"
  proof (cases "take len (drop off D)")
    case Nil
    then show ?thesis by (auto simp: memory_store_def bl_ok_def bl_bytes_def)
  next
    case (Cons b bs)
    then show ?thesis by (auto simp: memory_store_def Let_def frame_def bl_ok_def bl_bytes_def ptr_ok_def ptr_bytes_def nth_append)
  qed
qed

lemma scrub_loop_reads:
  assumes F: "crc_func_ok F" and rd: "reads_back rd D" "length D < 2 ^ 64" and st: "0 < stride" "stride < 2 ^ 31" "cs dvd stride"
    and pos: "pos \<le> length D" "cs dvd pos" and m: "crc_cached h m"
  shows "\<exists>r h' m'. frame {} h h' \<and> crc_cached h' m' \<and>
    (if cs dvd length D then 0 \<le> r \<and> scrub_loop F rd cs stride h pos c m = Some (r, h', length D, crc32c c (drop pos D), m')
     else \<exists>pos' c'. scrub_loop F rd cs stride h pos c m = Some (- EIO, h', pos', c', m'))"
  using pos m
proof (induction "length D - pos" arbitrary: pos h c m rule: less_induct)
  case less
  obtain h1 bl where r: "rd pos stride h = (h1, int (length (take stride (drop pos D))), bl)" "frame {} h h1" "bl_ok h1 bl"
      "bl_bytes h1 bl = take stride (drop pos D)"
    using rd(1) st(1,2) unfolding reads_back_def by blast
  define t where "t = min (length D - pos) stride"
  have t: "bl_length bl = t" "length (take stride (drop pos D)) = t" using length_bl_bytes [OF r(3)] r(4) by (simp_all add: t_def)
  have r1: "rd pos stride h = (h1, int t, bl)" using r(1) unfolding t(2) .
  have m1: "crc_cached h1 m" using crc_cached_frame [OF r(2) less.prems(3)] .
  have small: "bl_length bl < 2 ^ 32" using t(1) st(2) by (simp add: t_def)
  obtain m2 where l: "list_crc32c F h1 bl c m = Some (crc32c c (take stride (drop pos D)), m2)" "crc_cached h1 m2"
    using list_crc32c_spec [OF F m1 r(3) small, of c] unfolding r(4) by blast
  have pt: "u64 (pos + t) = pos + t" "u32_of_int (int t) = t" using less.prems(1) rd(2) st(2) by (simp_all add: u64_def u32_of_int_def t_def)
  show ?case
  proof (cases "t < stride")
    case True
    then have fin: "pos + t = length D" "take stride (drop pos D) = drop pos D" using less.prems(1) by (auto simp: t_def)
    have d: "t mod cs = 0 \<longleftrightarrow> cs dvd length D" using fin(1) less.prems(2) by (metis dvd_add_right_iff dvd_eq_mod_eq_0)
    have "scrub_loop F rd cs stride h pos c m =
        (if cs dvd length D then Some (int t, h1, length D, crc32c c (drop pos D), m2) else Some (- EIO, h1, pos, c, m))"
      using t(1) l(1) True fin pt d by (cases "cs dvd length D"; subst scrub_loop.simps) (simp_all add: r1 Let_def)
    then show ?thesis using r(2) l(2) m1 by (cases "cs dvd length D") auto
  next
    case False
    then have go: "t = stride" "pos + stride \<le> length D" using st(1) less.prems(1) by (auto simp: t_def min_def split: if_splits)
    have "scrub_loop F rd cs stride h pos c m = scrub_loop F rd cs stride h1 (pos + stride) (crc32c c (take stride (drop pos D))) m2"
      using t(1) l(1) go(1) pt st(3) by (subst scrub_loop.simps) (simp add: r1 Let_def dvd_eq_mod_eq_0)
    moreover have "crc32c (crc32c c (take stride (drop pos D))) (drop (pos + stride) D) = crc32c c (drop pos D)"
      by (metis crc32c_append append_take_drop_id drop_drop add.commute)
    moreover have "length D - (pos + stride) < length D - pos" "cs dvd pos + stride" using go(2) st(1,3) less.prems(2) by simp_all
    note less.hyps [OF this(1) go(2) this(2) l(2), of "crc32c c (take stride (drop pos D))"]
    ultimately show ?thesis using frame_trans [OF r(2), of "{}"] by (metis sup.idem)
  qed
qed

lemma scrub_stride_ok:
  assumes "0 < chunk_size s" "0 < stride" "stride + chunk_size s < 2 ^ 31"
  shows "0 < scrub_stride s stride" "scrub_stride s stride < 2 ^ 31" "chunk_size s dvd scrub_stride s stride"
proof -
  have up: "stride + (chunk_size s - stride mod chunk_size s) < 2 ^ 31" using assms by simp
  have "stride + (chunk_size s - stride mod chunk_size s) = (stride div chunk_size s + 1) * chunk_size s"
    using mod_less_divisor [OF assms(1), of stride] minus_mod_eq_div_mult [of stride "chunk_size s"] mod_less_eq_dividend [of stride "chunk_size s"]
    unfolding add_mult_distrib mult_1 by linarith
  then show "0 < scrub_stride s stride" "scrub_stride s stride < 2 ^ 31" "chunk_size s dvd scrub_stride s stride"
    using assms up by (auto simp: scrub_stride_def u64_def)
qed

lemma get_hash_info_attr:
  assumes "total_chunk_size hi < 2 ^ 64" "12 + 4 * length (cumulative_shard_hashes hi) < 2 ^ 32"
    "mget as ''hinfo_key'' = Some (hash_info_encode hi)" "0 \<le> fst stat"
  shows "get_hash_info C None stat getattr False (Some as) = Some (Some (hi\<lparr>projected_total_chunk_size := total_chunk_size hi\<rparr>))"
proof -
  have "hash_info_encode hi \<noteq> []" by (simp add: hash_info_encode_def encode_struct_def encode_le_Suc)
  then show ?thesis using assms hash_info_decode_encoded [OF assms(1,2), of "[]"]
    by (simp add: get_hash_info_def Let_def mref_def)
qed

lemma be_deep_scrub_spec:
  assumes F: "crc_func_ok F" and rd: "reads_back rd D" "length D < 2 ^ 64" and s: "0 < chunk_size s" "0 < stride" "stride + chunk_size s < 2 ^ 31"
    and m: "crc_cached h m" and hi: "hash_tracks hi N T" "shard < N" "12 + 4 * N < 2 ^ 32" "total_chunk_size hi < 2 ^ 64"
    and ob: "mget (attrs ob) ''hinfo_key'' = Some (hash_info_encode hi)" "0 \<le> fst stat"
  shows "\<exists>h' m'. be_deep_scrub F rd C s stride False (int shard) None stat seed ob h m = Some (
    if \<not> chunk_size s dvd length D then ob\<lparr>read_error := True\<rparr>
    else if total_chunk_size hi \<noteq> length D then ob\<lparr>ec_size_mismatch := True\<rparr>
    else if crc32c (- 1) (T shard) \<noteq> crc32c (- 1) D then ob\<lparr>ec_hash_mismatch := True\<rparr>
    else ob\<lparr>digest := crc32c (- 1) (T 0), digest_present := True, omap_digest := seed, omap_digest_present := True\<rparr>, h', m') \<and>
    frame {} h h' \<and> crc_cached h' m'"
proof -
  let ?L = "scrub_loop F rd (chunk_size s) (scrub_stride s stride) h 0 (- 1) m"
  obtain r h' m' where l: "frame {} h h'" "crc_cached h' m'"
      "if chunk_size s dvd length D then 0 \<le> r \<and> ?L = Some (r, h', length D, crc32c (- 1) (drop 0 D), m')
       else \<exists>pos' c'. ?L = Some (- EIO, h', pos', c', m')"
    using scrub_loop_reads [OF F rd scrub_stride_ok [OF s] le0 dvd_0_right m] by meson
  have n: "length (cumulative_shard_hashes hi) = N" "N < 2 ^ 32" using hi(1,3) by (auto simp: hash_tracks_def)
  have info: "get_hash_info C None stat (0, []) False (Some (attrs ob)) = Some (Some (hi\<lparr>projected_total_chunk_size := total_chunk_size hi\<rparr>))"
    using get_hash_info_attr [OF hi(4) _ ob] n hi(3) by simp
  have hash: "get_chunk_hash (hi\<lparr>projected_total_chunk_size := x\<rparr>) (int c) = Some (crc32c (- 1) (T c))" if "c < N" for c x
    using hi(1) n that by (simp add: get_chunk_hash_def hash_tracks_def u32_of_int_def)
  note hashes = hash [OF hi(2)] hash [of 0, simplified]
  have "0 < N" "has_chunk_hash (hi\<lparr>projected_total_chunk_size := x\<rparr>)" for x using hi(2) n by (auto simp: has_chunk_hash_def)
  then show ?thesis using l s(1) hashes
    by (intro exI [of _ h'] exI [of _ m']) (auto simp: be_deep_scrub_def info split: if_splits)
qed

section \<open>What is written passes the scrub\<close>

lemma extent_map_frame:
  assumes "frame {} h h'" "extent_map_ok h base m"
  shows "extent_map_ok h' base m" "extent_at (bl_bytes h') m = extent_at (bl_bytes h) m"
proof -
  have e: "bl_ok h' (snd (snd e)) \<and> bl_bytes h' (snd (snd e)) = bl_bytes h (snd (snd e))" if "e \<in> set m" for e
    using frame_bl_ok [OF assms(1)] frame_bl_bytes [OF assms(1)] assms(2) that by (force simp: extent_map_ok_def im_ok_def fine_def)
  then show "extent_map_ok h' base m" using assms(2) by (auto simp: extent_map_ok_def im_ok_def fine_def)
  have "bl_bytes h' (snd (snd f)) = bl_bytes h (snd (snd f))" if "find P m = Some f" for f P
    using e [of f] that by (auto simp: find_Some_iff)
  then show "extent_at (bl_bytes h') m = extent_at (bl_bytes h) m" by (auto simp: extent_at_def fun_eq_iff split: option.split)
qed

text \<open>What the interface of the store says of the operations, for the bytes of one object.\<close>

fun apply_op :: "heap \<Rightarrow> txn_op \<Rightarrow> byte list \<Rightarrow> byte list" where
  "apply_op h (Set_alloc_hint _ _ _) D = D"
| "apply_op h (Write off len bl _) D = take off (D @ replicate (off - length D) 0) @ bl_bytes h bl @ drop (off + len) D"

lemma offset_of_shard:
  assumes "stripe_width s = k * chunk_size s" "0 < k" "0 < chunk_size s" "chunk_size s dvd t" "t * k < 2 ^ 64"
  shows "logical_offset_is_stripe_aligned s (t * k) = Some True" "aligned_logical_offset_to_chunk_offset s (t * k) = Some t"
    "logical_to_prev_chunk_offset s (t * k) = Some t"
proof -
  obtain q where q: "t = q * chunk_size s" using assms(4) by (metis dvdE mult.commute)
  have tk: "t * k = q * stripe_width s" using q assms(1) by simp
  have "t * k div stripe_width s = q" "t * k mod stripe_width s = 0" unfolding tk using assms(1-3) by simp_all
  moreover have "t < 2 ^ 64" using assms(2,5) by (metis le_less_trans mult_le_mono2 mult.right_neutral Suc_leI One_nat_def)
  ultimately show "logical_offset_is_stripe_aligned s (t * k) = Some True" "aligned_logical_offset_to_chunk_offset s (t * k) = Some t"
    "logical_to_prev_chunk_offset s (t * k) = Some t"
    using assms(1-3) q by (simp_all add: logical_offset_is_stripe_aligned_def aligned_logical_offset_to_chunk_offset_def logical_to_prev_chunk_offset_def u64_def)
qed

text \<open>What \<open>encode_and_write\<close> adds to a transaction when an object grows.\<close>

definition append_ops :: "'g \<Rightarrow> 'o \<Rightarrow> int \<Rightarrow> nat \<Rightarrow> chunks \<Rightarrow> nat \<Rightarrow> (('g \<times> 'o \<times> int) \<times> txn_op) list" where
  "append_ops pgid oid c off M flags =
     [((pgid, oid, c), Set_alloc_hint 0 0 append_hint_flags), ((pgid, oid, c), Write off (bl_length (mref [] M c)) (mref [] M c) flags)]"

context erasure_code
begin

lemma encode_and_write_append:
  assumes s: "stripe_width s = k * chunk_size s" "fits (k * chunk_size s) (chunk_size s)"
    and bl: "bl_ok h bl" "bl_length bl < 2 ^ 32" "bl_length bl = N * stripe_width s" "0 < N" "0 < k"
    and enc: "encodable (int ` {..<n})" "n < 2 ^ 31" and F: "crc_func_ok F" "crc_cached h m"
    and hi: "hash_tracks hi n T" "chunk_size s dvd total_chunk_size hi" "total_chunk_size hi * k + bl_length bl < 2 ^ 64"
    and w: "extent_map_ok h base written" "base \<le> total_chunk_size hi * k" "total_chunk_size hi * k + bl_length bl < base + 2 ^ 32"
    and tx: "fst ` set txns \<subseteq> int ` {..<n}"
  shows "\<exists>hi' written' h' m' M. encode_and_write F pgid oid s C (int ` {..<n}) (total_chunk_size hi * k) bl flags hi written txns h m =
      Some (hi', written', map (\<lambda>i. (fst i, snd i @ append_ops pgid oid (fst i) (total_chunk_size hi) M flags)) txns, h', m') \<and>
    frame {} h h' \<and> crc_cached h' m' \<and> shards h' M (int ` {..<n}) (chunk_size s) N (stripe_enc (chunk_size s) (bl_bytes h bl)) \<and>
    hash_tracks hi' n (\<lambda>c. T c @ content h' M (int c)) \<and> total_chunk_size hi' = total_chunk_size hi + N * chunk_size s \<and>
    extent_map_ok h' base written' \<and> extent_at (bl_bytes h') written' = (\<lambda>x.
      if total_chunk_size hi * k \<le> x \<and> x < total_chunk_size hi * k + bl_length bl
      then Some (bl_bytes h bl ! (x - total_chunk_size hi * k)) else extent_at (bl_bytes h) written x)"
proof -
  let ?t = "total_chunk_size hi" and ?v = "stripe_enc (chunk_size s) (bl_bytes h bl)"
  have c: "0 < chunk_size s" using fits_size [OF s(2)] by simp
  obtain h' M where e: "ecutil_encode s C bl (int ` {..<n}) [] h = Some (h', 0, M)" "frame {} h h'" "shards h' M (int ` {..<n}) (chunk_size s) N ?v"
    using ecutil_encode_spec [OF s bl enc(1) order_refl] by blast
  then have M: "holds h' M (int ` {..<n}) (N * chunk_size s) (content h' M)" by (simp add: shards_def holds_def)
  have bl': "bl_ok h' bl" "bl_bytes h' bl = bl_bytes h bl" using frame_bl_ok [OF e(2) bl(1)] frame_bl_bytes [OF e(2) bl(1)] by auto
  have len: "bl_length bl = N * chunk_size s * k" "0 < bl_length bl" using bl(3-5) s(1) c by simp_all
  have "N * chunk_size s \<le> bl_length bl" "?t + N * chunk_size s \<le> ?t * k + bl_length bl" using len(1) bl(5) by (simp_all add: add_le_mono)
  then have sz: "N * chunk_size s < 2 ^ 32" "?t + N * chunk_size s < 2 ^ 64" using bl(2) hi(3) by linarith+
  have np: "0 < n" using bl(5) data_le_count by simp
  obtain hi' m' where a: "hash_info_append F h' ?t M (hi, m) = Some (hi', m')" "crc_cached h' m'"
      "hash_tracks hi' n (\<lambda>c. T c @ content h' M (int c))" "total_chunk_size hi' = ?t + N * chunk_size s"
    using hash_info_append_spec [OF F(1) crc_cached_frame [OF e(2) F(2)] hi(1) np enc(2) M sz] by blast
  note w' = extent_map_frame [OF e(2) w(1)]
  have fi: "fine (bl_bytes h') (\<lambda>bl. bl_ok h' bl \<and> bl_length bl < 2 ^ 32) base (?t * k, bl_length bl, bl)"
    using bl(2) bl'(1) len(2) w(2,3) by (simp add: fine_def buf_simps)
  obtain written' where i: "im_insert bl_split_merge (?t * k) (bl_length bl) bl written = Some written'" "extent_map_ok h' base written'"
      "extent_at (bl_bytes h') written' = (\<lambda>x. if ?t * k \<le> x \<and> x < ?t * k + bl_length bl then Some (bl_bytes h bl ! (x - ?t * k)) else extent_at (bl_bytes h) written x)"
    using bl_sm.im_insert_ok [OF w'(1) [unfolded extent_map_ok_def] fi] unfolding w'(2) bl'(2) extent_map_ok_def by blast
  have tk: "?t * k < 2 ^ 64" "get_total_logical_size hi s = Some (?t * k)" using hi(3) s(1) c by (simp_all add: get_total_logical_size_def u64_def)
  note off = offset_of_shard [OF s(1) bl(5) c hi(2) tk(1)]
  have al: "logical_offset_is_stripe_aligned s (bl_length bl) = Some True"
    using s(1) bl(3,5) c by (simp add: logical_offset_is_stripe_aligned_def)
  have "those (map (write_shard pgid oid s (?t * k) (?t * k) flags M) txns) =
      Some (map (\<lambda>i. (fst i, snd i @ append_ops pgid oid (fst i) ?t M flags)) txns)"
  proof (rule those_Some)
    fix x assume "x \<in> set txns"
    then have "fst x \<in> set (mkeys M)" using tx M by (auto simp: holds_def)
    then obtain b where "mget M (fst x) = Some b" using mkeys_mget [of "fst x" M] by auto
    then show "write_shard pgid oid s (?t * k) (?t * k) flags M x = Some (fst x, snd x @ append_ops pgid oid (fst x) ?t M flags)"
      by (simp add: write_shard_def off append_ops_def mref_def Let_def)
  qed
  then have "encode_and_write F pgid oid s C (int ` {..<n}) (?t * k) bl flags hi written txns h m =
      Some (hi', written', map (\<lambda>i. (fst i, snd i @ append_ops pgid oid (fst i) ?t M flags)) txns, h', m')"
    using len(2) by (simp add: encode_and_write_def tk(2) off al e(1) i(1) a(1))
  with e a i show ?thesis by blast
qed

end

definition shard_after :: "heap \<Rightarrow> ('t \<times> txn_op) list \<Rightarrow> byte list \<Rightarrow> byte list" where
  "shard_after h ops D = fold (\<lambda>op. apply_op h (snd op)) ops D"

lemma shard_after_append: "length D = off \<Longrightarrow> shard_after h (append_ops pgid oid c off M flags) D = D @ content h M c"
  by (simp add: shard_after_def append_ops_def content_def)

text \<open>A deep scrub of shard \<open>c\<close> whose store holds \<open>D\<close> and whose attribute is the record \<open>hi\<close> ends, and
  its result is related to what it was given.\<close>

definition scrub_ends ::
    "crc_func \<Rightarrow> codec \<Rightarrow> stripe_info \<Rightarrow> nat \<Rightarrow> hash_info \<Rightarrow> nat \<Rightarrow> byte list \<Rightarrow> (crc \<Rightarrow> scrub_object \<Rightarrow> scrub_object \<Rightarrow> bool) \<Rightarrow> bool" where
  "scrub_ends F C s stride hi c D P \<longleftrightarrow>
     (\<forall>rd ob stat seed h m. reads_back rd D \<longrightarrow> mget (attrs ob) ''hinfo_key'' = Some (hash_info_encode hi) \<longrightarrow> 0 \<le> fst stat \<longrightarrow>
        crc_cached h m \<longrightarrow>
        (\<exists>ob' h' m'. be_deep_scrub F rd C s stride False (int c) None stat seed ob h m = Some (ob', h', m') \<and> P seed ob ob'))"

lemma scrub_verdict:
  assumes F: "crc_func_ok F" and s: "0 < chunk_size s" "0 < stride" "stride + chunk_size s < 2 ^ 31"
    and hi: "hash_tracks hi N T" "c < N" "12 + 4 * N < 2 ^ 32" "total_chunk_size hi < 2 ^ 64" "chunk_size s dvd total_chunk_size hi"
  shows "scrub_ends F C s stride hi c (T c)
      (\<lambda>seed ob ob'. ob' = ob\<lparr>digest := crc32c (- 1) (T 0), digest_present := True, omap_digest := seed, omap_digest_present := True\<rparr>)"
    "length D < 2 ^ 64 \<Longrightarrow> length D \<noteq> length (T c) \<Longrightarrow>
      scrub_ends F C s stride hi c D (\<lambda>_ ob ob'. ob' = ob\<lparr>read_error := True\<rparr> \<or> ob' = ob\<lparr>ec_size_mismatch := True\<rparr>)"
    "T c = pre @ xs @ post \<Longrightarrow> length xs = length ys \<Longrightarrow> length xs \<le> 4 \<Longrightarrow> xs \<noteq> ys \<Longrightarrow>
      scrub_ends F C s stride hi c (pre @ ys @ post) (\<lambda>_ ob ob'. ob' = ob\<lparr>ec_hash_mismatch := True\<rparr>)"
proof -
  have len: "length (T c) = total_chunk_size hi" using hi(1,2) by (simp add: hash_tracks_def)
  note spec = be_deep_scrub_spec [OF F _ _ s _ hi(1-4)]
  show "scrub_ends F C s stride hi c (T c)
      (\<lambda>seed ob ob'. ob' = ob\<lparr>digest := crc32c (- 1) (T 0), digest_present := True, omap_digest := seed, omap_digest_present := True\<rparr>)"
    unfolding scrub_ends_def using spec [of _ "T c"] len hi(4,5) by fastforce
  show "scrub_ends F C s stride hi c D (\<lambda>_ ob ob'. ob' = ob\<lparr>read_error := True\<rparr> \<or> ob' = ob\<lparr>ec_size_mismatch := True\<rparr>)"
    if "length D < 2 ^ 64" "length D \<noteq> length (T c)"
    unfolding scrub_ends_def using spec [of _ D] that len by fastforce
  show "scrub_ends F C s stride hi c (pre @ ys @ post) (\<lambda>_ ob ob'. ob' = ob\<lparr>ec_hash_mismatch := True\<rparr>)"
    if b: "T c = pre @ xs @ post" "length xs = length ys" "length xs \<le> 4" "xs \<noteq> ys"
  proof -
    have "crc32c (- 1) (T c) \<noteq> crc32c (- 1) (pre @ ys @ post)" unfolding b(1) by (rule crc32c_burst [OF b(2-4)])
    moreover have "length (pre @ ys @ post) = total_chunk_size hi" using len b by simp
    ultimately show ?thesis unfolding scrub_ends_def using spec [of _ "pre @ ys @ post"] hi(4,5) by fastforce
  qed
qed

context optlrc_code
begin

lemma append_scrub:
  assumes asm: "crc_func_ok F"
    and s: "stripe_width s = k * chunk_size s" "optlrc_fits o' (k * chunk_size s) (chunk_size s)" "0 < stride" "stride + chunk_size s < 2 ^ 31"
    and bl: "bl_ok h bl" "bl_length bl < 2 ^ 32" "bl_length bl = N * stripe_width s" "0 < N"
    and m: "crc_cached h m"
    and hi: "hash_tracks hi n T" "chunk_size s dvd total_chunk_size hi" "total_chunk_size hi * k + bl_length bl < 2 ^ 64"
    and w: "extent_map_ok h base written" "base \<le> total_chunk_size hi * k" "total_chunk_size hi * k + bl_length bl < base + 2 ^ 32"
    and tx: "fst ` set txns \<subseteq> {0..<opt_n o'}"
  shows "\<exists>hi' written' h' m' M new. encode_and_write F pgid oid s (optlrc_codec J o') {0..<opt_n o'} (total_chunk_size hi * k) bl flags
      hi written txns h m = Some (hi', written', map (\<lambda>i. (fst i, snd i @ new (fst i))) txns, h', m') \<and>
    (\<forall>A. A \<subseteq> {0..<opt_n o'} \<and> one_lost_per_group o' A \<longrightarrow>
      (\<exists>h2 out. ecutil_decode_concat s (optlrc_codec J o') (survivors A M) [] h' = Some (h2, 0, out) \<and> bl_bytes h2 out = bl_bytes h bl)) \<and>
    (\<forall>c<n. let D = (\<lambda>c. shard_after h' (new (int c)) (T c)) in D c = T c @ content h' M (int c) \<and>
      scrub_ends F (optlrc_codec J o') s stride hi' c (D c) (\<lambda>seed ob ob'.
        ob' = ob\<lparr>digest := crc32c (- 1) (D 0), digest_present := True, omap_digest := seed, omap_digest_present := True\<rparr>) \<and>
      (\<forall>D'. length D' < 2 ^ 64 \<and> length D' \<noteq> length (D c) \<longrightarrow> scrub_ends F (optlrc_codec J o') s stride hi' c D'
        (\<lambda>_ ob ob'. ob' = ob\<lparr>read_error := True\<rparr> \<or> ob' = ob\<lparr>ec_size_mismatch := True\<rparr>)) \<and>
      (\<forall>pre xs ys post. D c = pre @ xs @ post \<and> length xs = length ys \<and> length xs \<le> 4 \<and> xs \<noteq> ys \<longrightarrow>
        scrub_ends F (optlrc_codec J o') s stride hi' c (pre @ ys @ post) (\<lambda>_ ob ob'. ob' = ob\<lparr>ec_hash_mismatch := True\<rparr>)))"
proof -
  let ?t = "total_chunk_size hi" and ?C = "optlrc_codec J o'"
  note fs = fits_block [OF s(2)]
  have kn: "0 < k" "n < 2 ^ 31" using nums by simp_all
  obtain hi' written' h' m' M where e: "encode_and_write F pgid oid s ?C {0..<opt_n o'} (?t * k) bl flags hi written txns h m =
      Some (hi', written', map (\<lambda>i. (fst i, snd i @ append_ops pgid oid (fst i) ?t M flags)) txns, h', m')"
      "shards h' M {0..<opt_n o'} (chunk_size s) N (ec.stripe_enc (chunk_size s) (bl_bytes h bl))"
      "hash_tracks hi' n (\<lambda>c. T c @ content h' M (int c))" "total_chunk_size hi' = ?t + N * chunk_size s"
    using ec.encode_and_write_append [unfolded codec_fields all_chunks, OF s(1,2) bl kn(1) TrueI kn(2) asm m hi w tx, of pgid oid flags] by blast
  have D: "shard_after h' (append_ops pgid oid (int c) ?t M flags) (T c) = T c @ content h' M (int c)" if "c < n" for c
    using hi(1) that by (intro shard_after_append) (simp add: hash_tracks_def)
  have np: "0 < n" using nums by simp
  have "?t + N * chunk_size s \<le> ?t * k + bl_length bl" using nums bl(3) s(1) by (intro add_le_mono) simp_all
  then have "12 + 4 * n < 2 ^ 32" "total_chunk_size hi' < 2 ^ 64" "chunk_size s dvd total_chunk_size hi'"
    using nums hi(2,3) e(4) by simp_all
  note v = scrub_verdict [OF asm fs(1) s(3,4) e(3) _ this, where C = ?C]
  have rd: "\<exists>h2 out. ecutil_decode_concat s ?C (survivors A M) [] h' = Some (h2, 0, out) \<and> bl_bytes h2 out = bl_bytes h bl"
    if A: "A \<subseteq> {0..<opt_n o'}" "one_lost_per_group o' A" for A
  proof -
    have rec: "locally_recoverable o' (chunk_index (opt_mapping o') ` {..<k}) A"
      using one_lost_recoverable [OF A(2) idx_data_subset] unfolding codec_fields .
    have sh: "shards h' (survivors A M) A (chunk_size s) N (ec.stripe_enc (chunk_size s) (bl_bytes h bl))"
      using e(2) A(1) holds_survivors by (auto simp: shards_def)
    have "N * chunk_size s \<le> N * stripe_width s" using s(1) nums by simp
    then have N: "N * chunk_size s < 2 ^ 32" using bl(2,3) by linarith
    have "length (bl_bytes h bl) = N * (k * chunk_size s)" using bl(1,3) s(1) by (simp add: length_bl_bytes)
    from ec.ecutil_decode_concat_spec [unfolded codec_fields all_chunks, OF s(1,2) sh N bl(4) this A(1) one_lost_nonempty [OF A(2)] disjI2 [OF rec]]
    show ?thesis by blast
  qed
  show ?thesis
    using e(1) rd v D D [OF np, unfolded of_nat_0]
    by (intro exI [of _ hi'] exI [of _ written'] exI [of _ h'] exI [of _ m'] exI [of _ M] exI [of _ "\<lambda>c. append_ops pgid oid c ?t M flags"])
      (simp add: Let_def)
qed

end

section \<open>A client reads a range\<close>

lemma stripe_sub:
  assumes "w dvd a" "Suc j * w \<le> l"
  shows "stripe w (take l (drop a obj)) j = stripe w obj (a div w + j)"
proof -
  have "(a div w + j) * w = a + j * w" using assms(1) by (simp add: add_mult_distrib)
  moreover have "w \<le> l - j * w" using assms(2) by simp
  ultimately show ?thesis by (simp add: stripe_def drop_take min_absorb1 add.commute)
qed

lemma shards_same:
  assumes "\<And>j. j < S \<Longrightarrow> v j = v' j" "shards h M A cs S v"
  shows "shards h M A cs S v'"
proof -
  have "map (\<lambda>i. v i c) [0..<S] = map (\<lambda>i. v' i c) [0..<S]" for c using assms(1) by simp
  then show ?thesis using assms by (simp add: shards_def del: map_eq_conv)
qed

context erasure_code
begin

text \<open>The shards return the chunks of the stripes around the range; the client gets the range.\<close>

lemma finish_one_range:
  assumes s: "stripe_width s = k * chunk_size s" "fits (k * chunk_size s) (chunk_size s)"
    and obj: "length obj = S * stripe_width s" "length obj + stripe_width s + 2 ^ 32 \<le> 2 ^ 64"
    and rd: "0 < len" "off + len \<le> length obj" "len + 2 * stripe_width s < 2 ^ 32" "offset_len_to_stripe_bounds s (off, len) = Some (o0, l0)"
    and got: "fold (\<lambda>(shard, bl). mput shard bl) got [] = M"
      "shards h M A (chunk_size s) (l0 div stripe_width s) (\<lambda>j. stripe_enc (chunk_size s) obj (o0 div stripe_width s + j))"
    and A: "A \<subseteq> int ` {..<n}" "A \<noteq> {}" "idx ` {..<k} \<subseteq> A \<or> recoverable (idx ` {..<k}) A" "0 < k"
  shows "\<exists>res h'. client_read_finish s C 0 [] [(off, len)] [(o0, l0, got)] h = Some (0, res, h') \<and> frame {} h h' \<and>
    extent_at (bl_bytes h') res = (\<lambda>x. if off \<le> x \<and> x < off + len then Some (obj ! x) else None)"
proof -
  let ?w = "stripe_width s" and ?cs = "chunk_size s" and ?N = "l0 div stripe_width s" and ?sub = "take l0 (drop o0 obj)"
  have w: "0 < ?w" "0 < ?cs" using s(1) A(4) fits_size [OF s(2)] by simp_all
  have b: "?w dvd o0" "?w dvd l0" "o0 \<le> off" "off < o0 + ?w" "off + len \<le> o0 + l0" "o0 + l0 < off + len + ?w"
    using stripe_bounds [of s off len] rd obj(2) w(1) by auto
  have l0: "l0 = ?N * ?w" "0 < ?N" "l0 < 2 ^ 32"
    using b(2) w(1) rd(1,3) b(3-6) by (simp, cases "?N = 0", auto)
  have "o0 + l0 \<le> length obj"
  proof -
    obtain q where q: "o0 + l0 = q * ?w" using b(1,2) by (metis dvd_add dvdE mult.commute)
    then have "q * ?w < (S + 1) * ?w" using b(6) rd(2) obj(1) by simp
    then have "q * ?w \<le> S * ?w" by (intro mult_le_mono1) (metis mult_less_cancel2 Suc_eq_plus1 less_Suc_eq_le)
    then show ?thesis using q obj(1) by simp
  qed
  then have sub: "length ?sub = ?N * (k * ?cs)" using l0(1) s(1) by simp
  have "stripe_enc ?cs ?sub j = stripe_enc ?cs obj (o0 div ?w + j)" if "j < ?N" for j
  proof -
    have "Suc j * ?w \<le> ?N * ?w" using that by (intro mult_le_mono1) simp
    then show ?thesis using stripe_sub [OF b(1), of j l0 obj] l0(1) s(1) by (simp add: stripe_enc_def)
  qed
  then have "shards h M A ?cs ?N (stripe_enc ?cs ?sub)" using shards_same [OF _ got(2)] by metis
  moreover have "?N * ?cs \<le> ?N * ?w" using s(1) A(4) by simp
  then have "?N * ?cs < 2 ^ 32" using l0(1,3) by linarith
  ultimately obtain h' out where d: "ecutil_decode_concat s C M [] h = Some (h', 0, out)" "frame {} h h'" "bl_ok h' out" "bl_bytes h' out = ?sub"
    using ecutil_decode_concat_spec [OF s _ _ l0(2) sub A(1-3)] by blast
  have ol: "bl_length out = l0" using length_bl_bytes [OF d(3)] d(4) sub l0(1) s(1) by simp
  let ?skip = "off - o0"
  have sk: "u64_sub off o0 = ?skip" using b(3) rd(1,2) obj(2) by (intro u64_sub_small) linarith+
  have "u64_sub (bl_length out) ?skip = bl_length out - ?skip"
    using b(3,5) rd(1) ol l0(3) by (intro u64_sub_small) simp_all
  then have m: "min len (u64_sub (bl_length out) ?skip) = len" "?skip + len \<le> bl_length out" "u32 ?skip = ?skip" "u32 len = len"
    using b(3-5) ol l0(3) rd(3) by (auto simp: u32_def)
  obtain tr where t: "substr_of out ?skip len = Some tr" "bl_ok h' tr" "bl_length tr = len" "bl_bytes h' tr = take len (drop ?skip ?sub)"
    using substr_of_spec [OF d(3) m(2)] ol l0(3) d(4) by auto
  have "im_ok (bl_bytes h') (\<lambda>bl. bl_ok h' bl \<and> bl_length bl < 2 ^ 32) off []"
    using rd(2) obj(2) by (simp add: im_ok_def mok_def apart_def)
  moreover have "fine (bl_bytes h') (\<lambda>bl. bl_ok h' bl \<and> bl_length bl < 2 ^ 32) off (off, len, tr)"
    using t(2,3) rd(1,3) length_bl_bytes [OF t(2)] by (simp add: fine_def)
  ultimately obtain res where r: "im_insert bl_split_merge off len tr [] = Some res"
      "extent_at (bl_bytes h') res = (\<lambda>x. if off \<le> x \<and> x < off + len then Some (bl_bytes h' tr ! (x - off)) else extent_at (bl_bytes h') [] x)"
    using bl_sm.im_insert_ok by blast
  have "bl_bytes h' tr ! (x - off) = obj ! x" if "off \<le> x" "x < off + len" for x
    unfolding t(4) using that b(3,5) \<open>o0 + l0 \<le> length obj\<close> by (simp add: add.commute)
  with r(2) have "extent_at (bl_bytes h') res = (\<lambda>x. if off \<le> x \<and> x < off + len then Some (obj ! x) else None)"
    by (auto simp: extent_at_def)
  moreover have "client_read_finish s C 0 [] [(off, len)] [(o0, l0, got)] h = Some (0, res, h')"
    using rd(4) got(1) d(1) m t(1,3) r(1) sk by (simp add: client_read_finish_def finish_one_def Let_def)
  ultimately show ?thesis using d(2) by blast
qed

end

section \<open>Properties\<close>

text \<open>C9: an object of an Optimal-LRC pool grows by whole stripes. \<open>encode_and_write\<close> encodes them, adds their
  checksums to the record of the object and appends the writes to the transactions. After these writes
  every shard is what it was, followed by its new chunks, and the new stripes can be read from the
  shards that are left when at most one per local group is lost. With the new record as its
  attribute, deep scrub of a shard that holds what was written finds nothing and reports the
  checksum of shard 0; a shard of another size, and one in which up to four adjacent bytes
  changed, are reported.\<close>

theorem optlrc_append_scrub:
  assumes "jerasure_lib mul J" "optlrc_wf o'" and "\<forall>a. asm = Some a \<longrightarrow> iscsi_crc a" "crc_cached h m"
    and "stripe_width s = nat (opt_k o') * chunk_size s" "optlrc_fits o' (stripe_width s) (chunk_size s)"
    and "0 < stride" "stride + chunk_size s < 2 ^ 31"
    and "bl_ok h bl" "bl_length bl < 2 ^ 32" "bl_length bl = N * stripe_width s" "0 < N"
    and "hash_tracks hi (nat (opt_n o')) T" "chunk_size s dvd total_chunk_size hi" "off = total_chunk_size hi * nat (opt_k o')"
    and "off + bl_length bl < 2 ^ 64"
    and "extent_map_ok h base written" "base \<le> off" "off + bl_length bl < base + 2 ^ 32"
    and "fst ` set txns \<subseteq> {0..<opt_n o'}" and "F = ceph_choose_crc32 sse42 asm"
  shows "\<exists>hi' written' h' m' M new. encode_and_write F pgid oid s (optlrc_codec J o') {0..<opt_n o'} off bl flags
      hi written txns h m = Some (hi', written', map (\<lambda>i. (fst i, snd i @ new (fst i))) txns, h', m') \<and>
    (\<forall>A. A \<subseteq> {0..<opt_n o'} \<and> one_lost_per_group o' A \<longrightarrow>
      (\<exists>h2 out. ecutil_decode_concat s (optlrc_codec J o') (survivors A M) [] h' = Some (h2, 0, out) \<and> bl_bytes h2 out = bl_bytes h bl)) \<and>
    (\<forall>c<nat (opt_n o'). let D = (\<lambda>c. shard_after h' (new (int c)) (T c)) in D c = T c @ content h' M (int c) \<and>
      scrub_ends F (optlrc_codec J o') s stride hi' c (D c) (\<lambda>seed ob ob'.
        ob' = ob\<lparr>digest := crc32c (- 1) (D 0), digest_present := True, omap_digest := seed, omap_digest_present := True\<rparr>) \<and>
      (\<forall>D'. length D' < 2 ^ 64 \<and> length D' \<noteq> length (D c) \<longrightarrow> scrub_ends F (optlrc_codec J o') s stride hi' c D'
        (\<lambda>_ ob ob'. ob' = ob\<lparr>read_error := True\<rparr> \<or> ob' = ob\<lparr>ec_size_mismatch := True\<rparr>)) \<and>
      (\<forall>pre xs ys post. D c = pre @ xs @ post \<and> length xs = length ys \<and> length xs \<le> 4 \<and> xs \<noteq> ys \<longrightarrow>
        scrub_ends F (optlrc_codec J o') s stride hi' c (pre @ ys @ post) (\<lambda>_ ob ob'. ob' = ob\<lparr>ec_hash_mismatch := True\<rparr>)))"
proof -
  obtain n k r G where c: "optlrc_code mul J o' n k r G" and p: "opt_n o' = int n" "opt_k o' = int k" using optlrc_wf_code [OF assms(1,2)] .
  have F: "crc_func_ok F" unfolding assms(21) by (rule crc_func_ok_choose) (use assms(3) in blast)
  note q = assms(5-20)
  have k: "nat (opt_k o') = k" and n: "nat (opt_n o') = n" using p by simp_all
  have s: "stripe_width s = k * chunk_size s" "optlrc_fits o' (k * chunk_size s) (chunk_size s)" using assms(5,6) k by simp_all
  note hi = assms(13) [unfolded n] assms(14) assms(16) [unfolded assms(15) k]
  show ?thesis
    unfolding n assms(15) k
    by (rule optlrc_code.append_scrub [OF c F s assms(7-12,4) hi assms(17) assms(18,19) [unfolded assms(15) k] assms(20)])
qed

text \<open>An example: the first stripe of an object, 512 bytes in four data chunks.\<close>

definition stripe_heap :: heap where
  "stripe_heap = \<lparr>raws = [\<lparr>raw_addr = 64, raw_data = replicate 512 7\<rparr>], place = (\<lambda>_. 1), junk = (\<lambda>_ _. 1)\<rparr>"

definition stripe_object :: bufferlist where
  "stripe_object = [\<lparr>p_raw = 0, p_off = 0, p_len = 512\<rparr>]"

theorem optlrc_append_scrub_witness:
  "let s = \<lparr>stripe_width = 512, chunk_size = 128\<rparr>; F = ceph_choose_crc32 False None; C = optlrc_codec ref_jerasure example_code
   in \<exists>hi' written' h' m' new. encode_and_write F () () s C {0..<9} 0 stripe_object 0
      (hash_info_new 9) [] (map (\<lambda>c. (c, [])) [0, 1, 2, 3, 4, 5, 6, 7, 8]) stripe_heap (\<lambda>_ _. None) =
        Some (hi', written', map (\<lambda>c. (c, new c)) [0, 1, 2, 3, 4, 5, 6, 7, 8], h', m') \<and>
      (let ob = scrub_object_new\<lparr>attrs := [(''hinfo_key'', hash_info_encode hi')]\<rparr>
       in \<exists>h2 m2. be_deep_scrub F (memory_store (shard_after h' (new 3) [])) C s 524288 False 3 None (0, 128) 1 ob stripe_heap (\<lambda>_ _. None) =
         Some (ob\<lparr>digest := crc32c (- 1) (shard_after h' (new 0) []), digest_present := True, omap_digest := 1, omap_digest_present := True\<rparr>, h2, m2))"
proof -
  let ?s = "\<lparr>stripe_width = 512, chunk_size = 128\<rparr>" and ?F = "ceph_choose_crc32 False None" and ?tx = "map (\<lambda>c. (c, [])) [0, 1, 2, 3, 4, 5, 6, 7, 8 :: int]"
  have bl: "bl_ok stripe_heap stripe_object" "bl_length stripe_object = 512"
    by (simp_all add: stripe_heap_def stripe_object_def bl_ok_def ptr_ok_def bl_length_def)
  have fits: "optlrc_fits example_code 512 128" by (simp add: optlrc_fits_def) code_simp
  have p: "opt_n example_code = 9" "nat (opt_k example_code) = 4" by (simp_all add: example_code_def)
  have asm: "\<forall>a. (None :: _ option) = Some a \<longrightarrow> iscsi_crc a" by simp
  have s: "stripe_width ?s = nat (opt_k example_code) * chunk_size ?s" "optlrc_fits example_code (stripe_width ?s) (chunk_size ?s)"
      "(0 :: nat) < 524288" "524288 + chunk_size ?s < 2 ^ 31"
    using fits p(2) by simp_all
  have o: "bl_length stripe_object < 2 ^ 32" "bl_length stripe_object = 1 * stripe_width ?s" "(0 :: nat) < 1" using bl(2) by simp_all
  have hi: "hash_tracks (hash_info_new 9) (nat (opt_n example_code)) (\<lambda>_. [])" "chunk_size ?s dvd total_chunk_size (hash_info_new 9)"
      "0 = total_chunk_size (hash_info_new 9) * nat (opt_k example_code)" "0 + bl_length stripe_object < 2 ^ 64"
    using hash_tracks_new [of 9] p(1) bl(2) by (simp_all add: hash_info_new_def)
  have w: "extent_map_ok stripe_heap 0 []" "(0 :: nat) \<le> 0" "0 + bl_length stripe_object < 0 + 2 ^ 32" "fst ` set ?tx \<subseteq> {0..<opt_n example_code}"
    using bl(2) p(1) by (auto simp: extent_map_ok_def im_ok_def mok_def apart_def)
  from optlrc_append_scrub [OF ref_lib.jerasure_lib_axioms example_wf asm crc_cached_empty s bl(1) o hi w refl, of False "()" "()" 0]
  obtain hi' written' h' m' new where e: "encode_and_write ?F () () ?s (optlrc_codec ref_jerasure example_code) {0..<opt_n example_code} 0 stripe_object 0
      (hash_info_new 9) [] ?tx stripe_heap (\<lambda>_ _. None) = Some (hi', written', map (\<lambda>i. (fst i, snd i @ new (fst i))) ?tx, h', m')"
    "\<forall>c<nat (opt_n example_code). scrub_ends ?F (optlrc_codec ref_jerasure example_code) ?s 524288 hi' c (shard_after h' (new (int c)) []) (\<lambda>seed ob ob'.
        ob' = ob\<lparr>digest := crc32c (- 1) (shard_after h' (new (int 0)) []), digest_present := True, omap_digest := seed, omap_digest_present := True\<rparr>)"
    unfolding Let_def by meson
  let ?ob = "scrub_object_new\<lparr>attrs := [(''hinfo_key'', hash_info_encode hi')]\<rparr>"
  have "(3 :: nat) < nat (opt_n example_code)" "mget (attrs ?ob) ''hinfo_key'' = Some (hash_info_encode hi')" "(0 :: int) \<le> fst (0 :: int, 128 :: nat)"
    using p(1) by (simp_all add: mget_def)
  from e(2) [rule_format, OF this(1), unfolded scrub_ends_def, rule_format, OF memory_store_reads this(2,3) crc_cached_empty, of 1 stripe_heap]
  have "\<exists>h2 m2. be_deep_scrub ?F (memory_store (shard_after h' (new 3) [])) (optlrc_codec ref_jerasure example_code) ?s 524288 False 3 None (0, 128) 1 ?ob stripe_heap (\<lambda>_ _. None) =
      Some (?ob\<lparr>digest := crc32c (- 1) (shard_after h' (new 0) []), digest_present := True, omap_digest := 1, omap_digest_present := True\<rparr>, h2, m2)"
    by (simp only: of_nat_numeral int_ops(1)) (elim exE conjE; simp)
  with e(1) show ?thesis unfolding Let_def p(1) by (simp add: comp_def) blast
qed

end
