(* ===== verification/Spec2Isabelle.thy ===== *)
theory Spec2Isabelle
  imports OptLrc_Plugin Lrc_Theorems OptLrc_Loss EC_Backend
begin

text \<open>
  The erasure code of this Ceph tree, from the profile of a pool to the bytes of an object on its
  shards. The tree adds one plugin to Ceph, Optimal-LRC; this development covers that plugin, two
  of the others (the layered code LRC and jerasure), what the plugins are built on, and the code of
  the monitor and of the OSD that uses them. The plugins isa and shec are not modelled.

  \<^bold>\<open>The parts of the program and how they interact.\<close> A pool has a profile, a map of strings. The
  monitor (\<open>src/src/mon/OSDMonitor.cc\<close>) asks the plugin registry (\<open>src/src/erasure-code/ErasureCodePlugin.cc\<close>) for
  the plugin the profile names; the registry loads a library and calls its factory, which parses the
  profile and makes an \<open>ErasureCodeInterface\<close> object. From its numbers of chunks and its chunk size the
  monitor computes size and stripe width of the pool; the OSD makes the same object again and cuts
  objects into stripes with it (\<open>src/src/osd/ECUtil.cc\<close>). Per stripe, the base class
  (\<open>src/src/erasure-code/ErasureCode.cc\<close>) pads and splits the data into buffers (\<open>src/src/common/buffer.cc\<close>) and
  calls the virtual functions \<open>encode_chunks\<close>, \<open>decode_chunks\<close>, \<open>minimum_to_decode\<close> of the plugin. The OSD keeps a
  record of checksums per object and compares it with the shards when it scrubs them
  (\<open>src/src/osd/ECBackend.cc\<close>, \<open>src/src/osd/ECTransaction.cc\<close>).

  \<^bold>\<open>Conventions.\<close> A function that may abort (a failed assertion, an exception nobody catches, an access
  outside a buffer, a division by zero, undefined behaviour) returns an \<open>option\<close>, and \<open>None\<close> is that it
  aborts; error codes are the negative integers of the source. Memory is explicit: the record \<open>heap\<close> holds
  the raw buffers, their addresses and what a new buffer contains before it is written (\<open>junk\<close>, arbitrary);
  a \<open>bufferlist\<close> is a list of windows, and functions that allocate or write return the new heap. \<open>frame W h h'\<close>
  says that nothing that existed but the raw buffers in \<open>W\<close> has changed. \<open>std::map\<close> is an association list in
  the order of its keys. Unsigned numbers of 32 and 64 bits are natural numbers with the wrap-around
  written out (\<open>u32\<close>, \<open>u32_sub\<close>, \<open>u64\<close>, \<open>u64_sub\<close>), signed ones integers; checksums and field elements are words.

  \<^bold>\<open>The theories.\<close>

  \<^item> \<open>EC_Prelude\<close>: C integers, ordered maps (locale \<open>ordered_map\<close>), loops that may abort (\<open>ofold\<close> and its invariant
    rule), xor of byte vectors.

  \<^item> \<open>Buffer\<close> (\<open>buffer.cc\<close>, \<open>buffer.h\<close>): \<open>ptr\<close>, \<open>list\<close>, \<open>substr_of\<close>, \<open>rebuild_aligned_size_and_memory\<close> and the other
    operations the code calls; each has a lemma on the bytes it returns and the memory it leaves alone.

  \<^item> \<open>Strtol\<close>, \<open>Str_List\<close>, \<open>Str_Map\<close>, \<open>Utf8\<close>, \<open>Json\<close>, \<open>Ruleset\<close> (\<open>src/src/common/strtol.cc\<close>, \<open>str_list.cc\<close>, \<open>str_map.cc\<close>,
    \<open>utf8.c\<close>, \<open>src/src/json_spirit\<close>, the steps of a crush rule): how profiles are read. The reader of JSON
    returns on every text; what the writer makes of a value is read as that value. The primitive
    parsers of Boost.Spirit are a parameter (locale \<open>spirit_lib\<close>).

  \<^item> \<open>ErasureCode\<close> (\<open>ErasureCode.cc\<close>, \<open>ErasureCode.h\<close>): the base class over the record \<open>codec\<close> of virtual functions.
    \<open>Codec_Contract\<close>: the locale \<open>erasure_code\<close> states what a plugin promises (what chunk \<open>c\<close> holds, from which chunks
    which others come back, for which sizes); \<open>encode\<close>, \<open>decode\<close> and \<open>decode_concat\<close> are proved correct once, in it.
    \<open>Chunk_Access\<close>, \<open>Matrix_Coding\<close>: access to chunks through pointers and encoding with a matrix.

  \<^item> \<open>Jerasure_Lib\<close>: the functions of the jerasure library, a git submodule, as a parameter; the locales \<open>gf256\<close> and
    \<open>jerasure_lib\<close> state what its manual documents, \<open>ref_jerasure\<close> is an instance.

  \<^item> Optimal-LRC (\<open>src/src/erasure-code/optlrc\<close>): \<open>OptLrc_Configs\<close> has the generator matrices; \<open>OptLrc\<close> the object and
    its operations; \<open>OptLrc_Profile\<close> constructor, parsing and factory. \<open>OptLrc_Repair\<close> shows that \<open>decode_chunks\<close> xors
    the local group whatever the matrix is, \<open>OptLrc_Code\<close> that the plugin keeps the contract when the
    matrix is systematic (\<open>optlrc_encoder\<close>, for encoding) and cancels in every local group (\<open>optlrc_code\<close>).
    \<open>OptLrc_Theorems\<close> has round trip, repair, locality and chunk sizes, and which matrices are good;
    \<open>OptLrc_Loss\<close> what happens with the one that is not, and with two losses in a group.

  \<^item> \<open>Plugin_Registry\<close> (\<open>ErasureCodePlugin.cc\<close>): loading, adding, preloading and removing plugins, threads as a step
    relation with its invariant. The dynamic linker is a parameter (locale \<open>plugin_directory\<close>). \<open>OptLrc_Plugin\<close>: Optimal-LRC
    from the registry.

  \<^item> jerasure (\<open>src/src/erasure-code/jerasure\<close>): \<open>Jerasure\<close> has the seven techniques, \<open>Jerasure_Code\<close> proves the contract for
    reed_sol_van with words of 8 bits, \<open>Jerasure_Theorems\<close> the properties from a profile on.

  \<^item> LRC (\<open>src/src/erasure-code/lrc\<close>): \<open>Lrc\<close> and \<open>Lrc_Profile\<close> are the code, \<open>Layer_Contract\<close> what a code must keep to be a
    layer (jerasure does), \<open>Lrc_Code\<close> the refinement of the layered code to the equations of its layers,
    \<open>Lrc_Minimum\<close> the answers of \<open>minimum_to_decode\<close>, \<open>Lrc_Kml\<close> and \<open>Lrc_Jerasure\<close> the short form of a profile,
    \<open>Lrc_Theorems\<close> the properties.

  \<^item> The OSD and the monitor: \<open>EC_Util\<close> (\<open>ECUtil.cc\<close>, \<open>ECUtil.h\<close>) is striping, proved in the contract for every code;
    \<open>EC_Pool\<close> (\<open>OSDMonitor.cc\<close>, \<open>PGBackend.cc\<close>) the way from a profile to a pool and its objects;
    \<open>Crc_Tables\<close>, \<open>Crc32c\<close> (\<open>src/src/common/crc32c.cc\<close>, \<open>sctp_crc32.c\<close>, \<open>crc32c_intel_baseline.c\<close>, \<open>crc32c_intel_fast.c\<close>) the checksum,
    equal to its bit by bit definition; \<open>Hash_Info\<close> checksums of buffer lists with their caches, the record of
    shard checksums and its encoding; \<open>Interval_Map\<close> (\<open>src/src/common/interval_map.h\<close>) extent maps as partial functions;
    \<open>EC_Backend\<close> (\<open>ECBackend.cc\<close>, \<open>ECTransaction.cc\<close>) appending to an object, deep scrub and the answer to a client.

  \<^bold>\<open>Bounds and fuel.\<close> Objects and buffer lists are shorter than 2 or 4 GiB, as the 32-bit lengths of the
  source require; each theorem names its bound. The reader of JSON has as much fuel as the text is long
  plus one, and \<open>read_or_throw_returns\<close> shows that it never runs out. \<open>scrub_loop\<close> ends because the store
  returns less than it was asked for at the end of a shard; the theorems show that it does. The chunk
  counts of the Optimal-LRC codes are those of the table, below 20.

  \<^bold>\<open>What is assumed of code outside the tree.\<close> jerasure and gf-complete (\<open>gf256\<close>, \<open>jerasure_lib\<close>, \<open>reed_sol\<close>),
  the parsers of Boost.Spirit (\<open>spirit_lib\<close>), the dynamic linker and the entry points it finds (\<open>plugin_directory\<close>: they
  return, and register the plugin under its name or fail), the assembler routines of the checksum
  (\<open>iscsi_crc\<close>; they are part of the tree but not of the model), the object store (\<open>reads_back\<close>, of which \<open>memory_store\<close> is an instance). Each
  assumption has an instance in the development.

  \<^bold>\<open>What is not modelled.\<close> The plugins isa and shec; \<open>create_ruleset\<close> and CRUSH; messages to streams and logs;
  memory that runs out; reference counts; real numbers in JSON beyond their text; the pipelines of
  reads and writes, recovery, peering and everything else of the OSD and the monitor; the object
  stores, the network, the clients.
\<close>

end
